(* ===== verification/Prelude.thy ===== *)
theory Prelude
  imports Main "HOL-Library.Word" "HOL-Library.Multiset" "HOL-Library.AList"
    "HOL-Library.Char_ord" "HOL-Library.List_Lexorder"
begin

text \<open>
  The shared base of the development: the names of the machine types, the error values the Go
  code returns, the clock, the collections of rewrite rules, and the generic lemmas on lists,
  association lists and big-endian byte strings that the components use.
\<close>

section \<open>Rule collections\<close>

named_theorems codec_simps \<open>lengths and round trips of byte encodings\<close>
named_theorems id_simps \<open>facts about identifiers and printable strings\<close>
named_theorems counter_simps \<open>admission counters\<close>

section \<open>Machine types\<close>

type_synonym byte = "8 word"
type_synonym u16 = "16 word"
type_synonym u32 = "32 word"
type_synonym u64 = "64 word"
type_synonym bytes = "byte list"

text \<open>
  A Go \<^verbatim>\<open>map[string]string\<close> that is only read is kept as the list of its entries in the order
  in which \<^verbatim>\<open>range\<close> visits them; \<open>map_of\<close> is the index operation.
\<close>

type_synonym labels = "(string \<times> string) list"

definition label_get :: "labels \<Rightarrow> string \<Rightarrow> string" where
  "label_get m k = (case map_of m k of None \<Rightarrow> [] | Some v \<Rightarrow> v)"

section \<open>Errors\<close>

text \<open>
  The values of Go's \<^verbatim>\<open>error\<close> interface that the modelled code builds. \<open>ErrNew\<close> is
  \<^verbatim>\<open>errors.New\<close> or a \<^verbatim>\<open>fmt.Errorf\<close> without \<^verbatim>\<open>%w\<close>; \<open>Sentinel\<close> is a package-level error
  variable, compared by identity; \<open>ErrWrap\<close> is \<^verbatim>\<open>fmt.Errorf\<close> with one \<^verbatim>\<open>%w\<close>
  and \<open>ErrWrap2\<close> with two; \<open>ErrStd\<close> names the
  library call that failed; \<open>RevisionConflictError\<close> is the controller's error of an optimistic write. Where the code stores \<^verbatim>\<open>err.Error()\<close> in a message, the message
  keeps the error itself (\<open>TextOf\<close>).
\<close>

datatype go_error =
    ApplyError (err_code: string) (err_path: string) (err_message: err_text) (err_retryable: bool)
  | ErrNew string
  | Sentinel string
  | ErrWrap string go_error
  | ErrWrap2 go_error go_error
  | ErrStd string
  | RevisionConflictError string int int
and err_text = Text string | TextOf go_error

abbreviation apply_error :: "string \<Rightarrow> string \<Rightarrow> string \<Rightarrow> go_error" where
  "apply_error c p m \<equiv> ApplyError c p (Text m) False"

text \<open>\<^verbatim>\<open>errors.Is\<close> against a sentinel: follow the chain of wrapped causes.\<close>

fun errors_is :: "go_error \<Rightarrow> string \<Rightarrow> bool" where
  "errors_is (Sentinel s) t = (s = t)"
| "errors_is (ErrWrap m e) t = errors_is e t"
| "errors_is (ErrWrap2 d e) t = (errors_is d t \<or> errors_is e t)"
| "errors_is (ApplyError c p m r) t = False"
| "errors_is (ErrNew m) t = False"
| "errors_is (ErrStd m) t = False"
| "errors_is (RevisionConflictError r e a) t = False"

text \<open>A Go function that returns only an \<^verbatim>\<open>error\<close>: \<open>None\<close> is \<^verbatim>\<open>nil\<close>.\<close>

type_synonym check = "go_error option"

text \<open>
  The sequence \<^verbatim>\<open>if err := a; err != nil { return err }; b\<close>: the first error wins.
\<close>

fun and_then :: "check \<Rightarrow> check \<Rightarrow> check" where
  "and_then None b = b"
| "and_then (Some e) b = Some e"

definition fail_if :: "bool \<Rightarrow> go_error \<Rightarrow> check" where
  "fail_if c e = (if c then Some e else None)"

fun all_checks :: "check list \<Rightarrow> check" where
  "all_checks [] = None"
| "all_checks (c # cs) = and_then c (all_checks cs)"

lemma and_then_None [simp]: "and_then a b = None \<longleftrightarrow> a = None \<and> b = None"
  by (cases a) auto

lemma fail_if_None [simp]: "fail_if c e = None \<longleftrightarrow> \<not> c"
  by (simp add: fail_if_def)

lemma all_checks_None [simp]: "all_checks cs = None \<longleftrightarrow> (\<forall>c\<in>set cs. c = None)"
  by (induction cs) auto

lemma fail_if_cases [simp]: "fail_if True e = Some e" "fail_if False e = None"
  by (simp_all add: fail_if_def)

text \<open>A function that returns a value and an error, \<^verbatim>\<open>(T, error)\<close>, is a sum with the error left.\<close>

type_synonym 'a result = "go_error + 'a"

fun bind_result :: "'a result \<Rightarrow> ('a \<Rightarrow> 'b result) \<Rightarrow> 'b result" where
  "bind_result (Inl e) f = Inl e"
| "bind_result (Inr x) f = f x"

fun check_then :: "check \<Rightarrow> 'a result \<Rightarrow> 'a result" where
  "check_then None r = r"
| "check_then (Some e) r = Inl e"

lemma bind_result_Inr [simp]: "bind_result m f = Inr y \<longleftrightarrow> (\<exists>x. m = Inr x \<and> f x = Inr y)"
  by (cases m) auto

lemma check_then_Inr [simp]: "check_then c r = Inr y \<longleftrightarrow> c = None \<and> r = Inr y"
  by (cases c) auto

text \<open>A loop that appends the result for each element and returns at the first error.\<close>

fun map_result :: "('a \<Rightarrow> 'b result) \<Rightarrow> 'a list \<Rightarrow> 'b list result" where
  "map_result f [] = Inr []"
| "map_result f (x # xs) =
     bind_result (f x) (\<lambda>y. bind_result (map_result f xs) (\<lambda>ys. Inr (y # ys)))"

lemma map_result_Inr:
  "map_result f xs = Inr ys \<longleftrightarrow> length ys = length xs \<and> (\<forall>i < length xs. f (xs ! i) = Inr (ys ! i))"
proof (induction xs arbitrary: ys)
  case (Cons x xs)
  have "(\<forall>i < length (x # xs). P i) \<longleftrightarrow> P 0 \<and> (\<forall>i < length xs. P (Suc i))" for P
    by (auto simp: less_Suc_eq_0_disj)
  then show ?case by (cases ys) (auto simp: Cons.IH)
qed auto

text \<open>
  A loop over a slice that rejects an element whose key was seen before: \<open>pre\<close> are the checks
  before the look-up in the set of seen keys, \<open>post\<close> those after the key is recorded.
\<close>

fun each_unique ::
  "(nat \<Rightarrow> 'a \<Rightarrow> check) \<Rightarrow> ('a \<Rightarrow> 'k) \<Rightarrow> (nat \<Rightarrow> go_error) \<Rightarrow> (nat \<Rightarrow> 'a \<Rightarrow> check) \<Rightarrow>
   nat \<Rightarrow> 'k list \<Rightarrow> 'a list \<Rightarrow> check" where
  "each_unique pre key dup post i seen [] = None"
| "each_unique pre key dup post i seen (x # xs) =
     and_then (pre i x)
       (if key x \<in> set seen then Some (dup i)
        else and_then (post i x) (each_unique pre key dup post (Suc i) (key x # seen) xs))"

lemma each_unique_None:
  "each_unique pre key dup post i seen xs = None \<longleftrightarrow>
     distinct (map key xs) \<and> set seen \<inter> key ` set xs = {}
     \<and> (\<forall>j < length xs. pre (i + j) (xs ! j) = None \<and> post (i + j) (xs ! j) = None)"
proof (induction xs arbitrary: i seen)
  case (Cons x xs)
  have split: "(\<forall>j < length (x # xs). P j) \<longleftrightarrow> P 0 \<and> (\<forall>j < length xs. P (Suc j))" for P
    by (auto simp: less_Suc_eq_0_disj)
  show ?case
    unfolding split by (auto simp: Cons.IH)
qed simp

lemma each_unique_distinct:
  "each_unique pre key dup post i seen xs = None \<Longrightarrow> distinct (map key xs)"
  by (simp add: each_unique_None)

section \<open>Time\<close>

text \<open>
  \<^verbatim>\<open>time.Time\<close> is the number of nanoseconds since the zero instant of the Go library, so
  \<^verbatim>\<open>IsZero\<close> is equality with 0; \<^verbatim>\<open>Sub\<close> saturates at the limits of the 64-bit
  \<^verbatim>\<open>time.Duration\<close>.
\<close>

type_synonym time = int
type_synonym duration = int

definition max_duration :: duration where "max_duration = 2 ^ 63 - 1"
definition min_duration :: duration where "min_duration = - (2 ^ 63)"

definition time_sub :: "time \<Rightarrow> time \<Rightarrow> duration" where
  "time_sub t u = max min_duration (min max_duration (t - u))"

definition second :: duration where "second = 1000000000"
definition minute :: duration where "minute = 60 * second"
definition hour :: duration where "hour = 60 * minute"

lemma time_sub_self [simp]: "time_sub t t = 0"
  by (simp add: time_sub_def min_duration_def max_duration_def)

lemma time_sub_ge: "d \<le> max_duration \<Longrightarrow> min_duration < d \<Longrightarrow> d \<le> time_sub t u \<longleftrightarrow> d \<le> t - u"
  by (auto simp: time_sub_def)

lemma time_sub_mono: "t \<le> t' \<Longrightarrow> time_sub t u \<le> time_sub t' u"
  by (auto simp: time_sub_def)

lemma time_sub_antimono: "u \<le> u' \<Longrightarrow> time_sub t u' \<le> time_sub t u"
  by (auto simp: time_sub_def)

section \<open>Lists and association lists\<close>

lemma sum_list_map_le: "(\<And>x. x \<in> set xs \<Longrightarrow> f x \<le> (g x :: nat)) \<Longrightarrow> sum_list (map f xs) \<le> sum_list (map g xs)"
  by (induction xs) (auto intro: add_mono)

lemma sort_key_idem [simp]: "sort_key f (sort_key f xs) = sort_key f xs"
  by (rule sort_key_id_if_sorted) simp

lemma length_delete_le: "length (AList.delete k xs) \<le> length xs"
  by (simp add: AList.delete_eq)

lemma distinct_fst_filter: "distinct (map fst xs) \<Longrightarrow> distinct (map fst (filter P xs))"
  by (induction xs) auto

lemma map_of_notin: "k \<notin> fst ` set xs \<Longrightarrow> map_of xs k = None"
  by (simp add: map_of_eq_None_iff)

lemma map_of_filter_key:
  assumes "distinct (map fst xs)"
  shows "map_of (filter P xs) k = Option.bind (map_of xs k) (\<lambda>v. if P (k, v) then Some v else None)"
  using assms by (induction xs) (auto simp: map_of_notin)

text \<open>The weight of an association list: a sum over its values, as the byte accounts keep it.\<close>

definition weight :: "('v \<Rightarrow> int) \<Rightarrow> ('k \<times> 'v) list \<Rightarrow> int" where
  "weight f xs = sum_list (map (\<lambda>(k, v). f v) xs)"

lemma weight_Nil [simp]: "weight f [] = 0"
  by (simp add: weight_def)

lemma weight_Cons [simp]: "weight f ((k, v) # xs) = f v + weight f xs"
  by (simp add: weight_def)

lemma weight_nonneg: "(\<And>k v. (k, v) \<in> set xs \<Longrightarrow> 0 \<le> f v) \<Longrightarrow> 0 \<le> weight f xs"
  by (unfold weight_def, rule sum_list_nonneg) auto

lemma delete_absent: "k \<notin> fst ` set xs \<Longrightarrow> AList.delete k xs = xs"
  by (induction xs) auto

lemma weight_delete:
  "distinct (map fst xs) \<Longrightarrow>
   weight f (AList.delete k xs) = weight f xs - (case map_of xs k of None \<Rightarrow> 0 | Some v \<Rightarrow> f v)"
  by (induction xs) (auto simp: delete_absent map_of_notin)

lemma update_absent: "k \<notin> fst ` set xs \<Longrightarrow> AList.update k v xs = xs @ [(k, v)]"
  by (induction xs) auto

lemma weight_append [simp]: "weight f (xs @ ys) = weight f xs + weight f ys"
  by (simp add: weight_def)

lemma weight_update:
  "distinct (map fst xs) \<Longrightarrow>
   weight f (AList.update k v xs) =
     weight f xs - (case map_of xs k of None \<Rightarrow> 0 | Some u \<Rightarrow> f u) + f v"
  by (induction xs) (auto simp: map_of_notin)

lemma length_update:
  "length (AList.update k v xs) = (if k \<in> fst ` set xs then length xs else Suc (length xs))"
  by (induction xs) auto

lemma length_delete_present:
  "distinct (map fst xs) \<Longrightarrow> k \<in> fst ` set xs \<Longrightarrow> Suc (length (AList.delete k xs)) = length xs"
  by (induction xs) (auto simp: delete_absent)

lemma set_update_subset: "set (AList.update k v xs) \<subseteq> insert (k, v) (set xs)"
  by (induction xs) auto

lemma set_delete_subset: "set (AList.delete k xs) \<subseteq> set xs"
  by (auto simp: AList.delete_eq)

section \<open>Big-endian integers\<close>

text \<open>
  \<^verbatim>\<open>encoding/binary.BigEndian\<close>: \<open>be_put n w\<close> writes the low \<open>8 * n\<close> bits of \<open>w\<close>, most
  significant byte first; \<open>be_get\<close> reads a byte string of any length into a word.
\<close>

fun be_put :: "nat \<Rightarrow> 'a::len word \<Rightarrow> bytes" where
  "be_put 0 w = []"
| "be_put (Suc n) w = ucast (drop_bit (8 * n) w) # be_put n w"

definition be_nat :: "bytes \<Rightarrow> nat" where
  "be_nat bs = foldl (\<lambda>acc b. acc * 256 + unat b) 0 bs"

definition be_get :: "bytes \<Rightarrow> 'a::len word" where
  "be_get bs = of_nat (be_nat bs)"

lemma length_be_put [simp, codec_simps]: "length (be_put n w) = n"
  by (induction n) auto

lemma be_nat_Nil [simp]: "be_nat [] = 0"
  by (simp add: be_nat_def)

lemma be_nat_snoc: "be_nat (bs @ [b]) = be_nat bs * 256 + unat b"
  by (simp add: be_nat_def)

lemma be_nat_Cons: "be_nat (b # bs) = unat b * 256 ^ length bs + be_nat bs"
proof (induction bs rule: rev_induct)
  case Nil
  then show ?case by (simp add: be_nat_def)
next
  case (snoc c bs)
  have "be_nat (b # bs @ [c]) = be_nat (b # bs) * 256 + unat c"
    using be_nat_snoc [of "b # bs" c] by simp
  with snoc show ?case by (simp add: be_nat_snoc algebra_simps)
qed

lemma unat_byte_less: "unat (b :: byte) < 256"
  using unsigned_less [of b] by simp

lemma be_nat_less: "be_nat bs < 256 ^ length bs"
proof (induction bs)
  case Nil
  then show ?case by simp
next
  case (Cons b bs)
  have "unat b * 256 ^ length bs + be_nat bs < (unat b + 1) * 256 ^ length bs"
    using Cons by simp
  also have "\<dots> \<le> 256 * 256 ^ length bs"
    using unat_byte_less [of b] by (intro mult_right_mono) auto
  finally show ?case by (simp add: be_nat_Cons)
qed

lemma be_nat_put: "be_nat (be_put n w) = take_bit (8 * n) (unat w)"
proof (induction n)
  case 0
  then show ?case by simp
next
  case (Suc n)
  have "unat (ucast (drop_bit (8 * n) w) :: byte) = unat w div 256 ^ n mod 256"
    by (simp add: unsigned_ucast_eq take_bit_eq_mod unat_drop_bit_eq
        drop_bit_eq_div [where 'a = nat] power_mult)
  moreover have "take_bit (8 * Suc n) (unat w) = unat w mod (256 ^ n * 256)"
    using power_mult [of "2 :: nat" 8 n] by (simp add: take_bit_eq_mod power_add mult.commute)
  ultimately show ?case
    using Suc by (simp add: be_nat_Cons take_bit_eq_mod power_mult mod_mult2_eq)
qed

lemma be_get_put:
  assumes "LENGTH('a::len) = 8 * n"
  shows "be_get (be_put n w) = (w :: 'a word)"
proof -
  have "take_bit (8 * n) (unat w) = unat w"
    using unsigned_less [of w] assms by (simp add: take_bit_nat_eq_self_iff)
  then show ?thesis by (simp add: be_get_def be_nat_put)
qed

lemma unat_be_get:
  assumes "LENGTH('a::len) = 8 * length bs"
  shows "unat (be_get bs :: 'a word) = be_nat bs"
proof -
  have "be_nat bs < 2 ^ LENGTH('a)"
    using be_nat_less [of bs] assms by (simp add: power_mult)
  then show ?thesis by (simp add: be_get_def unsigned_of_nat take_bit_nat_eq_self_iff)
qed

lemma be_nat_inj: "length as = length bs \<Longrightarrow> be_nat as = be_nat bs \<Longrightarrow> as = bs"
proof (induction as bs rule: list_induct2)
  case Nil
  then show ?case by simp
next
  case (Cons a as b bs)
  let ?m = "256 ^ length bs :: nat"
  have div: "be_nat (c # cs) div 256 ^ length cs = unat c"
    "be_nat (c # cs) mod 256 ^ length cs = be_nat cs" for c cs
    using be_nat_less [of cs] by (simp_all add: be_nat_Cons)
  have "unat a = unat b" "be_nat as = be_nat bs"
    using div [of a as] div [of b bs] Cons by simp_all
  with Cons.IH show ?case by (simp add: word_unat_eq_iff)
qed

lemma be_put_get:
  assumes "LENGTH('a::len) = 8 * length bs"
  shows "be_put (length bs) (be_get bs :: 'a word) = bs"
proof (rule be_nat_inj)
  show "be_nat (be_put (length bs) (be_get bs :: 'a word)) = be_nat bs"
    using assms be_nat_less [of bs]
    by (simp add: be_nat_put unat_be_get take_bit_nat_eq_self_iff power_mult)
qed simp

text \<open>
  What a frame format relies on: a fixed-width field that reads back what was written, and that
  has one encoding only. A format with several fields is read by slicing, so the clients use
  the slice law proved here once.
\<close>

locale be_codec =
  fixes put :: "'a::len word \<Rightarrow> bytes" and get :: "bytes \<Rightarrow> 'a word" and width :: nat
  assumes length_put: "length (put w) = width"
    and get_put: "get (put w) = w"
    and put_get: "length bs = width \<Longrightarrow> put (get bs) = bs"
begin

lemma put_inj: "put v = put w \<longleftrightarrow> v = w"
  by (metis get_put)

lemma slice_get: "length pre = k \<Longrightarrow> get (take width (drop k (pre @ put w @ post))) = w"
  by (simp add: length_put get_put)

lemma put_slice: "k + width \<le> length bs \<Longrightarrow> put (get (take width (drop k bs))) = take width (drop k bs)"
  by (rule put_get) simp

end

interpretation u16be: be_codec "be_put 2 :: u16 \<Rightarrow> bytes" "be_get :: bytes \<Rightarrow> u16" 2
proof unfold_locales
  fix bs :: bytes
  assume "length bs = 2"
  with be_put_get [where 'a = 16, of bs] show "be_put 2 (be_get bs :: u16) = bs" by simp
qed (simp_all add: be_get_put del: be_put.simps)

interpretation u32be: be_codec "be_put 4 :: u32 \<Rightarrow> bytes" "be_get :: bytes \<Rightarrow> u32" 4
proof unfold_locales
  fix bs :: bytes
  assume "length bs = 4"
  with be_put_get [where 'a = 32, of bs] show "be_put 4 (be_get bs :: u32) = bs" by simp
qed (simp_all add: be_get_put del: be_put.simps)

interpretation u64be: be_codec "be_put 8 :: u64 \<Rightarrow> bytes" "be_get :: bytes \<Rightarrow> u64" 8
proof unfold_locales
  fix bs :: bytes
  assume "length bs = 8"
  with be_put_get [where 'a = 64, of bs] show "be_put 8 (be_get bs :: u64) = bs" by simp
qed (simp_all add: be_get_put del: be_put.simps)

lemmas be_codec_simps [codec_simps] =
  u16be.get_put u32be.get_put u64be.get_put u16be.put_inj u32be.put_inj u64be.put_inj

end
