(* ===== verification/Go_Strings.thy ===== *)
theory Go_Strings
  imports Prelude
begin

text \<open>
  The parts of Go's \<^verbatim>\<open>strings\<close>, \<^verbatim>\<open>strconv\<close> and \<^verbatim>\<open>fmt\<close> packages the program uses. A Go
  string is a byte sequence and so is a \<^typ>\<open>string\<close>: a \<^typ>\<open>char\<close> is one byte.
\<close>

section \<open>Characters\<close>

abbreviation byte_of :: "char \<Rightarrow> nat" where
  "byte_of c \<equiv> of_char c"

definition is_digit :: "char \<Rightarrow> bool" where
  "is_digit c \<longleftrightarrow> 48 \<le> byte_of c \<and> byte_of c \<le> 57"

definition is_lower :: "char \<Rightarrow> bool" where
  "is_lower c \<longleftrightarrow> 97 \<le> byte_of c \<and> byte_of c \<le> 122"

definition is_upper :: "char \<Rightarrow> bool" where
  "is_upper c \<longleftrightarrow> 65 \<le> byte_of c \<and> byte_of c \<le> 90"

text \<open>Visible ASCII: no space, no control character, no byte of a longer UTF-8 sequence.\<close>

definition is_graphic :: "char \<Rightarrow> bool" where
  "is_graphic c \<longleftrightarrow> 33 \<le> byte_of c \<and> byte_of c \<le> 126"

lemmas char_class_defs = is_digit_def is_lower_def is_upper_def is_graphic_def

lemma char_eq_byte: "c = d \<longleftrightarrow> byte_of c = (byte_of d :: nat)"
  by simp

section \<open>TrimSpace\<close>

text \<open>
  The UTF-8 encodings of the code points for which \<^verbatim>\<open>unicode.IsSpace\<close> holds. UTF-8 is
  self-synchronising, so decoding from either end finds one of them exactly when the string
  starts or ends with its bytes.
\<close>

definition space_encodings :: "string list" where
  "space_encodings = map (map char_of)
     ([[9], [10], [11], [12], [13], [32], [0xC2, 0x85], [0xC2, 0xA0], [0xE1, 0x9A, 0x80]] @
      map (\<lambda>i. [0xE2, 0x80, 0x80 + i]) [0, 1, 2, 3, 4, 5, 6, 7, 8, 9, 10] @
      [[0xE2, 0x80, 0xA8], [0xE2, 0x80, 0xA9], [0xE2, 0x80, 0xAF], [0xE2, 0x81, 0x9F],
       [0xE3, 0x80, 0x80 :: nat]])"

definition has_prefix :: "string \<Rightarrow> string \<Rightarrow> bool" where
  "has_prefix s p \<longleftrightarrow> take (length p) s = p"

definition has_suffix :: "string \<Rightarrow> string \<Rightarrow> bool" where
  "has_suffix s p \<longleftrightarrow> length p \<le> length s \<and> drop (length s - length p) s = p"

definition trim_prefix :: "string \<Rightarrow> string \<Rightarrow> string" where
  "trim_prefix s p = (if has_prefix s p then drop (length p) s else s)"

definition trim_suffix :: "string \<Rightarrow> string \<Rightarrow> string" where
  "trim_suffix s p = (if has_suffix s p then take (length s - length p) s else s)"

definition leading_space :: "string \<Rightarrow> string option" where
  "leading_space s = find (has_prefix s) space_encodings"

definition trailing_space :: "string \<Rightarrow> string option" where
  "trailing_space s = find (has_suffix s) space_encodings"

lemma space_encodings_nonempty: "e \<in> set space_encodings \<Longrightarrow> e \<noteq> []"
  by (auto simp: space_encodings_def)

lemma find_SomeD: "find P xs = Some x \<Longrightarrow> P x \<and> x \<in> set xs"
  by (induction xs) (auto split: if_splits)

lemma leading_spaceD: "leading_space s = Some e \<Longrightarrow> 0 < length e \<and> 0 < length s"
  using space_encodings_nonempty
  by (fastforce simp: leading_space_def has_prefix_def dest!: find_SomeD)

lemma trailing_spaceD: "trailing_space s = Some e \<Longrightarrow> 0 < length e \<and> 0 < length s"
  using space_encodings_nonempty
  by (fastforce simp: trailing_space_def has_suffix_def dest!: find_SomeD)

function trim_left_space :: "string \<Rightarrow> string" where
  "trim_left_space s =
     (case leading_space s of None \<Rightarrow> s | Some e \<Rightarrow> trim_left_space (drop (length e) s))"
  by pat_completeness auto
termination
  by (relation "measure length") (auto dest: leading_spaceD)

function trim_right_space :: "string \<Rightarrow> string" where
  "trim_right_space s =
     (case trailing_space s of None \<Rightarrow> s
      | Some e \<Rightarrow> trim_right_space (take (length s - length e) s))"
  by pat_completeness auto
termination
  by (relation "measure length") (auto dest: trailing_spaceD)

declare trim_left_space.simps [simp del] trim_right_space.simps [simp del]

definition trim_space :: "string \<Rightarrow> string" where
  "trim_space s = trim_right_space (trim_left_space s)"

text \<open>Every encoding starts and ends with a byte outside visible ASCII.\<close>

lemma space_encodings_ends:
  "list_all (\<lambda>e. \<not> is_graphic (hd e) \<and> \<not> is_graphic (last e)) space_encodings"
  by (simp add: space_encodings_def is_graphic_def)

lemma leading_space_graphic: "is_graphic c \<Longrightarrow> leading_space (c # s) = None"
proof -
  assume c: "is_graphic c"
  have "\<not> has_prefix (c # s) e" if e: "e \<in> set space_encodings" for e
  proof
    assume "has_prefix (c # s) e"
    then have "hd e = c"
      using space_encodings_nonempty [OF e] by (cases e) (auto simp: has_prefix_def)
    with e c space_encodings_ends show False by (auto simp: list_all_iff)
  qed
  then show ?thesis by (simp add: leading_space_def find_None_iff)
qed

lemma trailing_space_graphic: "is_graphic c \<Longrightarrow> trailing_space (s @ [c]) = None"
proof -
  assume c: "is_graphic c"
  have "\<not> has_suffix (s @ [c]) e" if "e \<in> set space_encodings" for e
  proof
    assume "has_suffix (s @ [c]) e"
    then have "last e = c"
      using space_encodings_nonempty [OF that]
      by (metis has_suffix_def append_take_drop_id last_append last_snoc)
    with that c space_encodings_ends show False by (auto simp: list_all_iff)
  qed
  then show ?thesis by (simp add: trailing_space_def find_None_iff)
qed

lemma trim_space_Nil [simp]: "trim_space [] = []"
proof -
  have "leading_space [] = None" "trailing_space [] = None"
    using leading_spaceD [of "[]"] trailing_spaceD [of "[]"] by fastforce+
  then show ?thesis
    by (simp add: trim_space_def trim_left_space.simps trim_right_space.simps)
qed

lemma trim_space_graphic [id_simps]:
  assumes "s \<noteq> []" "is_graphic (hd s)" "is_graphic (last s)"
  shows "trim_space s = s"
proof -
  have "leading_space s = None"
    using assms leading_space_graphic [of "hd s" "tl s"] by simp
  moreover have "trailing_space s = None"
    using assms trailing_space_graphic [of "last s" "butlast s"] by simp
  ultimately show ?thesis
    by (simp add: trim_space_def trim_left_space.simps trim_right_space.simps)
qed

section \<open>Searching, splitting, case\<close>

definition contains_any :: "string \<Rightarrow> string \<Rightarrow> bool" where
  "contains_any s cs \<longleftrightarrow> list_ex (\<lambda>c. c \<in> set cs) s"

definition index_byte :: "char \<Rightarrow> string \<Rightarrow> nat option" where
  "index_byte c s = (let k = length (takeWhile (\<lambda>d. d \<noteq> c) s) in if k < length s then Some k else None)"

definition last_index_byte :: "char \<Rightarrow> string \<Rightarrow> nat option" where
  "last_index_byte c s = map_option (\<lambda>k. length s - 1 - k) (index_byte c (rev s))"

lemma takeWhile_until: "c \<notin> set xs \<Longrightarrow> takeWhile (\<lambda>d. d \<noteq> c) (xs @ c # ys) = xs"
  by (induction xs) auto

lemma index_byte_append: "c \<notin> set xs \<Longrightarrow> index_byte c (xs @ c # ys) = Some (length xs)"
  by (simp add: index_byte_def takeWhile_until)

lemma last_index_byte_append: "c \<notin> set ys \<Longrightarrow> last_index_byte c (xs @ c # ys) = Some (length xs)"
  using index_byte_append [of c "rev ys" "rev xs"] by (simp add: last_index_byte_def)

lemma index_byteD:
  assumes "index_byte c s = Some k"
  obtains xs ys where "s = xs @ c # ys" "length xs = k" "c \<notin> set xs"
proof -
  let ?xs = "takeWhile (\<lambda>d. d \<noteq> c) s"
  have k: "k = length ?xs" "k < length s"
    using assms by (auto simp: index_byte_def Let_def split: if_splits)
  then have ne: "dropWhile (\<lambda>d. d \<noteq> c) s \<noteq> []"
    by (metis append_Nil2 less_irrefl_nat takeWhile_dropWhile_id)
  then obtain d ys where d: "dropWhile (\<lambda>d. d \<noteq> c) s = d # ys"
    by (cases "dropWhile (\<lambda>d. d \<noteq> c) s") auto
  with hd_dropWhile [OF ne] have "d = c" by simp
  with d have "s = ?xs @ c # ys"
    by (metis takeWhile_dropWhile_id)
  moreover have "c \<notin> set ?xs" by (auto dest: set_takeWhileD)
  ultimately show thesis using k that by blast
qed

lemma last_index_byteD:
  assumes "last_index_byte c s = Some k"
  obtains xs ys where "s = xs @ c # ys" "length xs = k" "c \<notin> set ys"
proof -
  obtain j where j: "index_byte c (rev s) = Some j" "k = length s - 1 - j"
    using assms by (auto simp: last_index_byte_def)
  then obtain xs ys where "rev s = xs @ c # ys" "length xs = j" "c \<notin> set xs"
    by (auto elim: index_byteD)
  moreover from this have "s = rev ys @ c # rev xs"
    by (metis append_Cons append_assoc rev.simps(2) rev_append rev_rev_ident self_append_conv2)
  ultimately show thesis using that [of "rev ys" "rev xs"] j by auto
qed

fun split_on :: "char \<Rightarrow> string \<Rightarrow> string list" where
  "split_on c [] = [[]]"
| "split_on c (x # xs) =
     (if x = c then [] # split_on c xs
      else case split_on c xs of [] \<Rightarrow> [[x]] | p # ps \<Rightarrow> (x # p) # ps)"

definition trim_chars :: "string \<Rightarrow> string \<Rightarrow> string" where
  "trim_chars s cs = rev (dropWhile (\<lambda>c. c \<in> set cs) (rev (dropWhile (\<lambda>c. c \<in> set cs) s)))"

text \<open>\<^verbatim>\<open>strings.ToLower\<close> and \<^verbatim>\<open>strings.EqualFold\<close> on ASCII.\<close>

definition lower_char :: "char \<Rightarrow> char" where
  "lower_char c = (if is_upper c then char_of (byte_of c + 32 :: nat) else c)"

definition to_lower :: "string \<Rightarrow> string" where
  "to_lower s = map lower_char s"

definition equal_fold :: "string \<Rightarrow> string \<Rightarrow> bool" where
  "equal_fold s t \<longleftrightarrow> to_lower s = to_lower t"

lemma equal_fold_refl [simp]: "equal_fold s s"
  by (simp add: equal_fold_def)

lemma equal_fold_sym: "equal_fold s t \<longleftrightarrow> equal_fold t s"
  by (auto simp: equal_fold_def)

lemma equal_fold_trans: "equal_fold s t \<Longrightarrow> equal_fold t u \<Longrightarrow> equal_fold s u"
  by (simp add: equal_fold_def)

lemma equal_fold_Nil [simp]: "equal_fold [] t \<longleftrightarrow> t = []" "equal_fold t [] \<longleftrightarrow> t = []"
  by (auto simp: equal_fold_def to_lower_def)

section \<open>Decimal numbers\<close>

definition digit_char :: "nat \<Rightarrow> char" where
  "digit_char d = char_of (48 + d)"

fun show_nat :: "nat \<Rightarrow> string" where
  "show_nat n = (if n < 10 then [digit_char n] else show_nat (n div 10) @ [digit_char (n mod 10)])"

declare show_nat.simps [simp del]

text \<open>
  \<^verbatim>\<open>strconv.Atoi\<close> on a 64-bit platform returns a value next to its error: 0 after a syntax
  error, the nearest representable integer after a range error. The scan stops at the first
  offending byte, so an overflow before a bad byte is a range error.
\<close>

datatype scan = ScanOk nat | ScanSyntax | ScanRange

fun scan_uint :: "nat \<Rightarrow> string \<Rightarrow> scan" where
  "scan_uint acc [] = ScanOk acc"
| "scan_uint acc (c # cs) =
     (if \<not> is_digit c then ScanSyntax
      else let n = acc * 10 + (byte_of c - 48)
           in if n \<ge> 2 ^ 64 then ScanRange else scan_uint n cs)"

definition int_limit :: int where "int_limit = 2 ^ 63"

definition atoi :: "string \<Rightarrow> int \<times> bool" where
  "atoi s =
     (let neg = (s \<noteq> [] \<and> hd s = CHR ''-'');
          ds = (if s \<noteq> [] \<and> (hd s = CHR ''-'' \<or> hd s = CHR ''+'') then tl s else s)
      in if ds = [] then (0, False)
         else case scan_uint 0 ds of
             ScanSyntax \<Rightarrow> (0, False)
           | ScanRange \<Rightarrow> (if neg then - int_limit else int_limit - 1, False)
           | ScanOk n \<Rightarrow>
               (if \<not> neg \<and> int n \<ge> int_limit then (int_limit - 1, False)
                else if neg \<and> int n > int_limit then (- int_limit, False)
                else (if neg then - int n else int n, True)))"

definition atoi_opt :: "string \<Rightarrow> int option" where
  "atoi_opt s = (case atoi s of (n, ok) \<Rightarrow> if ok then Some n else None)"

lemma byte_of_digit_char: "d < 10 \<Longrightarrow> byte_of (digit_char d) = 48 + d"
  by (simp add: digit_char_def)

lemma is_digit_digit_char [simp]: "d < 10 \<Longrightarrow> is_digit (digit_char d)"
  by (simp add: is_digit_def byte_of_digit_char)

lemma show_nat_digits: "list_all is_digit (show_nat n)"
proof (induction n rule: show_nat.induct)
  case (1 n)
  then show ?case by (subst show_nat.simps) (auto simp: list_all_iff)
qed

lemma show_nat_nonempty [simp]: "show_nat n \<noteq> []"
  by (subst show_nat.simps) simp

lemma scan_uint_append:
  "scan_uint a (xs @ ys) = (case scan_uint a xs of ScanOk n \<Rightarrow> scan_uint n ys | r \<Rightarrow> r)"
  by (induction xs arbitrary: a) (auto simp: Let_def)

lemma scan_uint_show_nat: "n < 2 ^ 64 \<Longrightarrow> scan_uint 0 (show_nat n) = ScanOk n"
proof (induction n rule: show_nat.induct)
  case (1 n)
  show ?case
  proof (cases "n < 10")
    case True
    then show ?thesis by (subst show_nat.simps) (simp add: byte_of_digit_char)
  next
    case False
    with 1 have "scan_uint 0 (show_nat (n div 10)) = ScanOk (n div 10)" by simp
    with False 1 show ?thesis
      by (subst show_nat.simps) (simp add: scan_uint_append byte_of_digit_char)
  qed
qed

lemma digit_not_sign: "is_digit c \<Longrightarrow> c \<noteq> CHR ''-'' \<and> c \<noteq> CHR ''+'' \<and> is_graphic c"
  by (auto simp: is_digit_def is_graphic_def)

text \<open>\<^verbatim>\<open>Atoi\<close> inverts \<^verbatim>\<open>Itoa\<close> on non-negative integers.\<close>

lemma atoi_show_nat: "int n < int_limit \<Longrightarrow> atoi (show_nat n) = (int n, True)"
proof -
  assume n: "int n < int_limit"
  then have "n < 2 ^ 64" by (simp add: int_limit_def)
  then have scan: "scan_uint 0 (show_nat n) = ScanOk n" by (rule scan_uint_show_nat)
  have "is_digit (hd (show_nat n))"
    using show_nat_digits [of n] by (cases "show_nat n") auto
  then have "hd (show_nat n) \<noteq> CHR ''-''" "hd (show_nat n) \<noteq> CHR ''+''"
    by (auto dest: digit_not_sign)
  with scan n show ?thesis by (simp add: atoi_def Let_def)
qed

lemma show_nat_inj: "show_nat m = show_nat n \<Longrightarrow> m < 2 ^ 64 \<Longrightarrow> n < 2 ^ 64 \<Longrightarrow> m = n"
  by (metis scan.inject scan_uint_show_nat)

section \<open>Lower case\<close>

lemma byte_of_lower: "byte_of (lower_char c) = (if is_upper c then byte_of c + 32 else (byte_of c :: nat))"
proof (cases "is_upper c")
  case True
  then have "byte_of c + 32 < (256 :: nat)" by (simp add: is_upper_def)
  with True show ?thesis by (simp add: lower_char_def)
qed (simp add: lower_char_def)

lemma lower_char_idem [simp]: "lower_char (lower_char c) = lower_char c"
  by (auto simp: char_eq_byte byte_of_lower is_upper_def)

lemma to_lower_idem [simp]: "to_lower (to_lower s) = to_lower s"
  by (simp add: to_lower_def)

lemma is_graphic_lower [simp]: "is_graphic (lower_char c) = is_graphic c"
  by (auto simp: byte_of_lower is_upper_def is_graphic_def)

lemma lower_char_keeps:
  "is_graphic c \<Longrightarrow> is_graphic (lower_char c)"
  "lower_char c = CHR ''['' \<longleftrightarrow> c = CHR ''[''" "lower_char c = CHR '']'' \<longleftrightarrow> c = CHR '']''"
  "lower_char c = CHR ''.'' \<longleftrightarrow> c = CHR ''.''"
  by (auto simp: char_eq_byte byte_of_lower is_upper_def is_graphic_def)

end
