(* ===== verification/Go_Net.thy ===== *)
theory Go_Net
  imports Go_Strings
begin

text \<open>
  The parts of \<^verbatim>\<open>net\<close> and \<^verbatim>\<open>net/netip\<close> the program uses: parsing and printing of
  addresses, CIDR prefixes, and splitting of \<^verbatim>\<open>host:port\<close>.
\<close>

section \<open>Addresses\<close>

datatype addr = Addr4 "32 word" | Addr6 "128 word" (zone6: string)

fun bit_len :: "addr \<Rightarrow> nat" where
  "bit_len (Addr4 a) = 32"
| "bit_len (Addr6 a z) = 128"

fun has_zone :: "addr \<Rightarrow> bool" where
  "has_zone (Addr4 a) = False"
| "has_zone (Addr6 a z) = (z \<noteq> [])"

fun is_4in6 :: "addr \<Rightarrow> bool" where
  "is_4in6 (Addr4 a) = False"
| "is_4in6 (Addr6 a z) = (drop_bit 32 a = 0xFFFF)"

text \<open>\<^verbatim>\<open>Addr.Unmap\<close> removes the prefix of an IPv4-mapped IPv6 address (and its zone).\<close>

fun unmap :: "addr \<Rightarrow> addr" where
  "unmap (Addr4 a) = Addr4 a"
| "unmap (Addr6 a z) = (if is_4in6 (Addr6 a z) then Addr4 (ucast a) else Addr6 a z)"

lemma unmap_idem [simp]: "unmap (unmap a) = unmap a"
  by (cases a) auto

subsection \<open>ParseAddr\<close>

text \<open>
  \<^verbatim>\<open>parseIPv4Fields\<close>: the fields read so far, the value and the number of digits of the
  current octet, and the rest of the input.
\<close>

fun parse4_fields :: "nat list \<Rightarrow> nat \<Rightarrow> nat \<Rightarrow> string \<Rightarrow> nat list option" where
  "parse4_fields fs val dig [] = (if length fs < 3 then None else Some (fs @ [val]))"
| "parse4_fields fs val dig (c # cs) =
     (if is_digit c then
        if dig = 1 \<and> val = 0 then None
        else let v = val * 10 + (byte_of c - 48)
             in if v > 255 then None else parse4_fields fs v (Suc dig) cs
      else if c = CHR ''.'' then
        if dig = 0 \<or> cs = [] then None
        else if length fs = 3 then None
        else parse4_fields (fs @ [val]) 0 0 cs
      else None)"

definition base_nat :: "nat \<Rightarrow> nat list \<Rightarrow> nat" where
  "base_nat b ds = foldl (\<lambda>acc d. acc * b + d) 0 ds"

definition base_word :: "nat \<Rightarrow> nat list \<Rightarrow> 'a::len word" where
  "base_word b ds = foldl (\<lambda>acc d. acc * of_nat b + of_nat d) 0 ds"

definition parse_addr4 :: "string \<Rightarrow> addr option" where
  "parse_addr4 s = map_option (\<lambda>fs. Addr4 (base_word 256 fs)) (parse4_fields [] 0 0 s)"

definition hex_value :: "char \<Rightarrow> nat option" where
  "hex_value c =
     (if is_digit c then Some (byte_of c - 48)
      else if 97 \<le> byte_of c \<and> byte_of c \<le> (102 :: nat) then Some (byte_of c - 87)
      else if 65 \<le> byte_of c \<and> byte_of c \<le> (70 :: nat) then Some (byte_of c - 55)
      else None)"

fun scan_hex :: "nat \<Rightarrow> nat \<Rightarrow> string \<Rightarrow> (nat \<times> nat \<times> string) option" where
  "scan_hex off acc [] = Some (off, acc, [])"
| "scan_hex off acc (c # cs) =
     (case hex_value c of
        None \<Rightarrow> Some (off, acc, c # cs)
      | Some d \<Rightarrow> if off > 3 then None else scan_hex (Suc off) (acc * 16 + d) cs)"

text \<open>
  The main loop of \<^verbatim>\<open>parseIPv6\<close>: the 16-bit groups read so far, the position of the
  ellipsis, and the rest of the input.
\<close>

function parse6_loop ::
  "nat list \<Rightarrow> nat option \<Rightarrow> string \<Rightarrow> (nat list \<times> nat option \<times> string) option" where
  "parse6_loop gs el s =
     (if length gs \<ge> 8 then Some (gs, el, s)
      else case scan_hex 0 0 s of
          None \<Rightarrow> None
        | Some (off, acc, rest) \<Rightarrow>
            if off = 0 then None
            else if rest \<noteq> [] \<and> hd rest = CHR ''.'' then
              if el = None \<and> length gs \<noteq> 6 then None
              else if length gs + 2 > 8 then None
              else (case parse4_fields [] 0 0 s of
                  None \<Rightarrow> None
                | Some fs \<Rightarrow>
                    Some (gs @ [base_nat 256 (take 2 fs), base_nat 256 (drop 2 fs)], el, []))
            else if rest = [] then Some (gs @ [acc], el, [])
            else if hd rest \<noteq> CHR '':'' then None
            else if tl rest = [] then None
            else if hd (tl rest) = CHR '':'' then
              if el \<noteq> None then None
              else if tl (tl rest) = [] then Some (gs @ [acc], Some (Suc (length gs)), [])
              else parse6_loop (gs @ [acc]) (Some (Suc (length gs))) (tl (tl rest))
            else parse6_loop (gs @ [acc]) el (tl rest))"
  by pat_completeness auto
termination
  by (relation "measure (\<lambda>(gs, el, s). 8 - length gs)") auto

declare parse6_loop.simps [simp del]

definition parse_addr6 :: "string \<Rightarrow> addr option" where
  "parse_addr6 s =
     (let zi = index_byte CHR ''%'' s;
          body = (case zi of None \<Rightarrow> s | Some k \<Rightarrow> take k s);
          zone = (case zi of None \<Rightarrow> [] | Some k \<Rightarrow> drop (Suc k) s)
      in if zi \<noteq> None \<and> zone = [] then None
         else let lead = has_prefix body ''::'';
                  start = (if lead then drop 2 body else body)
              in if lead \<and> start = [] then Some (Addr6 0 zone)
                 else case parse6_loop [] (if lead then Some 0 else None) start of
                     None \<Rightarrow> None
                   | Some (gs, el, rest) \<Rightarrow>
                       if rest \<noteq> [] then None
                       else if length gs < 8 then
                         (case el of None \<Rightarrow> None
                          | Some e \<Rightarrow>
                              Some (Addr6 (base_word 65536
                                (take e gs @ replicate (8 - length gs) 0 @ drop e gs)) zone))
                       else if el \<noteq> None then None
                       else Some (Addr6 (base_word 65536 gs) zone))"

text \<open>\<^verbatim>\<open>ParseAddr\<close> looks for the first of \<^verbatim>\<open>.\<close>, \<^verbatim>\<open>:\<close> and \<^verbatim>\<open>%\<close>.\<close>

definition parse_addr :: "string \<Rightarrow> addr option" where
  "parse_addr s =
     (case find (\<lambda>c. c = CHR ''.'' \<or> c = CHR '':'' \<or> c = CHR ''%'') s of
        None \<Rightarrow> None
      | Some c \<Rightarrow> if c = CHR ''.'' then parse_addr4 s
                  else if c = CHR '':'' then parse_addr6 s else None)"

subsection \<open>Addr.String\<close>

definition hex_char :: "nat \<Rightarrow> char" where
  "hex_char d = (if d < 10 then char_of (48 + d) else char_of (87 + d))"

fun show_hex :: "nat \<Rightarrow> string" where
  "show_hex n = (if n < 16 then [hex_char n] else show_hex (n div 16) @ [hex_char (n mod 16)])"

declare show_hex.simps [simp del]

fun join_str :: "string \<Rightarrow> string list \<Rightarrow> string" where
  "join_str sep [] = []"
| "join_str sep [x] = x"
| "join_str sep (x # y # xs) = x @ sep @ join_str sep (y # xs)"

definition show4 :: "32 word \<Rightarrow> string" where
  "show4 a = join_str ''.'' (map (\<lambda>i. show_nat (unat (drop_bit i a) mod 256)) [24, 16, 8, 0])"

definition groups6 :: "128 word \<Rightarrow> nat list" where
  "groups6 a = map (\<lambda>i. unat (drop_bit i a) mod 65536) [112, 96, 80, 64, 48, 32, 16, 0]"

text \<open>The first longest run of at least two zero groups is printed as \<^verbatim>\<open>::\<close>.\<close>

definition zero_run :: "nat list \<Rightarrow> nat \<times> nat" where
  "zero_run gs = foldl (\<lambda>(st, en) i.
       let l = length (takeWhile (\<lambda>g. g = 0) (drop i gs))
       in if l \<ge> 2 \<and> l > en - st then (i, i + l) else (st, en)) (255, 255) [0..<8]"

definition show6 :: "128 word \<Rightarrow> string" where
  "show6 a =
     (let gs = groups6 a; (st, en) = zero_run gs
      in if st \<ge> 8 then join_str '':'' (map show_hex gs)
         else join_str '':'' (map show_hex (take st gs)) @ ''::''
              @ join_str '':'' (map show_hex (drop en gs)))"

fun addr_string :: "addr \<Rightarrow> string" where
  "addr_string (Addr4 a) = show4 a"
| "addr_string (Addr6 a z) =
     (if is_4in6 (Addr6 a z) then ''::ffff:'' @ show4 (ucast a) else show6 a)
     @ (if z = [] then [] else ''%'' @ z)"

section \<open>Prefixes\<close>

datatype prefix = Prefix (prefix_addr: addr) (prefix_bits: nat)

text \<open>\<^verbatim>\<open>ParsePrefix\<close>; a leading sign or zero in the length is refused, and so is a zone.\<close>

definition parse_prefix :: "string \<Rightarrow> prefix option" where
  "parse_prefix s =
     (case last_index_byte CHR ''/'' s of
        None \<Rightarrow> None
      | Some i \<Rightarrow>
          (case parse_addr (take i s) of
             None \<Rightarrow> None
           | Some a \<Rightarrow>
               if has_zone a then None
               else let bits = drop (Suc i) s
                    in if length bits > 1 \<and> \<not> (49 \<le> byte_of (hd bits) \<and> byte_of (hd bits) \<le> (57 :: nat))
                       then None
                       else case atoi_opt bits of
                           None \<Rightarrow> None
                         | Some n \<Rightarrow>
                             if n < 0 \<or> n > int (bit_len a) then None
                             else Some (Prefix a (nat n))))"

fun masked :: "prefix \<Rightarrow> prefix" where
  "masked (Prefix (Addr4 a) n) = Prefix (Addr4 (push_bit (32 - n) (drop_bit (32 - n) a))) n"
| "masked (Prefix (Addr6 a z) n) = Prefix (Addr6 (push_bit (128 - n) (drop_bit (128 - n) a)) []) n"

fun prefix_contains :: "prefix \<Rightarrow> addr \<Rightarrow> bool" where
  "prefix_contains (Prefix (Addr4 p) n) (Addr4 a) = (n \<le> 32 \<and> drop_bit (32 - n) a = drop_bit (32 - n) p)"
| "prefix_contains (Prefix (Addr6 p _) n) (Addr6 a z) =
     (n \<le> 128 \<and> z = [] \<and> drop_bit (128 - n) a = drop_bit (128 - n) p)"
| "prefix_contains _ _ = False"

lemma drop_push_drop: "drop_bit n (push_bit n (drop_bit n w)) = drop_bit n (w :: 'a::len word)"
  by (rule bit_word_eqI) (auto simp: bit_simps dest: bit_imp_le_length)

lemma masked_contains [simp]: "prefix_contains (masked p) a = prefix_contains p a"
  by (cases "(p, a)" rule: prefix_contains.cases) (auto simp: drop_push_drop)

lemma drop_bit_coarser:
  "drop_bit m a = drop_bit m b \<Longrightarrow> m \<le> n \<Longrightarrow> drop_bit n a = drop_bit n (b :: 'a::len word)"
  by (metis drop_bit_drop_bit le_add_diff_inverse2)

text \<open>A prefix at least as long as \<open>q\<close> whose base lies in \<open>q\<close> lies in \<open>q\<close> as a whole.\<close>

lemma prefix_narrower:
  assumes "prefix_bits q \<le> prefix_bits p" "prefix_contains q (prefix_addr p)" "prefix_contains p a"
  shows "prefix_contains q a"
proof (cases "(p, a)" rule: prefix_contains.cases)
  case (1 b n c)
  with assms obtain d m where "q = Prefix (Addr4 d) m"
    by (cases q; cases "prefix_addr q") auto
  with 1 assms show ?thesis
    using drop_bit_coarser [of "32 - n" c b "32 - m"] by auto
next
  case (2 b z n c z')
  with assms obtain d y m where "q = Prefix (Addr6 d y) m"
    by (cases q; cases "prefix_addr q") auto
  with 2 assms show ?thesis
    using drop_bit_coarser [of "128 - n" c b "128 - m"] by auto
qed (use assms in auto)

section \<open>host:port\<close>

text \<open>\<^verbatim>\<open>net.SplitHostPort\<close>; \<open>None\<close> stands for its \<^verbatim>\<open>AddrError\<close>.\<close>

definition split_host_port :: "string \<Rightarrow> (string \<times> string) option" where
  "split_host_port s =
     (case last_index_byte CHR '':'' s of
        None \<Rightarrow> None
      | Some i \<Rightarrow>
          if hd s = CHR ''['' then
            (case index_byte CHR '']'' s of
               None \<Rightarrow> None
             | Some e \<Rightarrow>
                 if Suc e \<noteq> i then None
                 else if CHR ''['' \<in> set (drop 1 s) \<or> CHR '']'' \<in> set (drop (Suc e) s) then None
                 else Some (take (e - 1) (drop 1 s), drop (Suc i) s))
          else if CHR '':'' \<in> set (take i s) then None
          else if CHR ''['' \<in> set s \<or> CHR '']'' \<in> set s then None
          else Some (take i s, drop (Suc i) s))"

definition join_host_port :: "string \<Rightarrow> string \<Rightarrow> string" where
  "join_host_port h p =
     (if CHR '':'' \<in> set h then ''['' @ h @ '']:'' @ p else h @ '':'' @ p)"

text \<open>Splitting inverts joining where neither part could be misread.\<close>

definition plain_host :: "string \<Rightarrow> bool" where
  "plain_host h \<longleftrightarrow> CHR ''['' \<notin> set h \<and> CHR '']'' \<notin> set h"

definition plain_port :: "string \<Rightarrow> bool" where
  "plain_port p \<longleftrightarrow> CHR '':'' \<notin> set p \<and> CHR ''['' \<notin> set p \<and> CHR '']'' \<notin> set p"

lemma split_join_host_port:
  assumes h: "plain_host h" and p: "plain_port p"
  shows "split_host_port (join_host_port h p) = Some (h, p)"
proof (cases "CHR '':'' \<in> set h")
  case True
  let ?s = "''['' @ h @ '']:'' @ p"
  have "last_index_byte CHR '':'' ?s = Some (Suc (Suc (length h)))"
    using last_index_byte_append [of "CHR '':''" p "''['' @ h @ '']''"] p
    by (simp add: plain_port_def)
  moreover have "index_byte CHR '']'' ?s = Some (Suc (length h))"
    using index_byte_append [of "CHR '']''" "''['' @ h" "'':'' @ p"] h
    by (simp add: plain_host_def)
  ultimately show ?thesis
    using True h p by (simp add: split_host_port_def join_host_port_def plain_host_def plain_port_def)
next
  case False
  have "last_index_byte CHR '':'' (h @ '':'' @ p) = Some (length h)"
    using last_index_byte_append [of "CHR '':''" p h] p by (simp add: plain_port_def)
  moreover have "hd (h @ '':'' @ p) \<noteq> CHR ''[''"
    using h by (cases h) (auto simp: plain_host_def)
  ultimately show ?thesis
    using False h p by (simp add: split_host_port_def join_host_port_def plain_host_def plain_port_def)
qed

lemma split_host_port_plain:
  assumes "split_host_port s = Some (h, p)"
  shows "plain_host h \<and> plain_port p"
proof -
  obtain i where i: "last_index_byte CHR '':'' s = Some i"
    using assms by (auto simp: split_host_port_def split: option.splits)
  then obtain xs ys where s: "s = xs @ CHR '':'' # ys" "length xs = i" "CHR '':'' \<notin> set ys"
    by (rule last_index_byteD)
  show ?thesis
  proof (cases "hd s = CHR ''[''")
    case True
    then obtain e where e: "index_byte CHR '']'' s = Some e" "Suc e = i"
        "CHR ''['' \<notin> set (drop 1 s)" "CHR '']'' \<notin> set (drop (Suc e) s)"
        "h = take (e - 1) (drop 1 s)" "p = drop (Suc i) s"
      using assms i by (auto simp: split_host_port_def split: option.splits if_splits)
    from e(1) obtain us vs where u: "s = us @ CHR '']'' # vs" "length us = e" "CHR '']'' \<notin> set us"
      by (rule index_byteD)
    have "set h \<subseteq> set us"
      using e(5) u by (cases us) (auto dest: in_set_takeD)
    moreover have "set h \<subseteq> set (drop 1 s)"
      using e(5) by (auto dest: in_set_takeD)
    moreover have "p = ys" using e(6) s by simp
    moreover have "set ys \<subseteq> set (drop 1 s)" "set ys \<subseteq> set (drop (Suc e) s)"
      using s e(2) by (auto simp: drop_Cons')
    ultimately show ?thesis
      using e u s by (auto simp: plain_host_def plain_port_def)
  next
    case False
    then show ?thesis
      using assms i s
      by (auto simp: split_host_port_def plain_host_def plain_port_def split: if_splits)
  qed
qed

end
