(* ===== verification/AddressPolicy.thy ===== *)
theory AddressPolicy
  imports Go_Net
begin

text \<open>
  \<^verbatim>\<open>internal/addresspolicy/policy.go\<close>: the special-use address table shared by the
  validation of egress policies and by the egress decision at run time.
\<close>

section \<open>The table\<close>

definition specialUseStrings :: "string list" where
  "specialUseStrings =
     [''0.0.0.0/8'', ''10.0.0.0/8'', ''100.64.0.0/10'', ''127.0.0.0/8'',
      ''168.63.129.16/32'', ''169.254.0.0/16'', ''172.16.0.0/12'', ''192.0.0.0/24'',
      ''192.0.2.0/24'', ''192.88.99.0/24'', ''192.168.0.0/16'', ''198.18.0.0/15'',
      ''198.51.100.0/24'', ''203.0.113.0/24'', ''224.0.0.0/4'', ''240.0.0.0/4'',
      ''::/128'', ''::1/128'', ''100::/64'', ''2001:2::/48'', ''2001:10::/28'',
      ''2001:db8::/32'', ''fc00::/7'', ''fe80::/10'', ''ff00::/8'']"

text \<open>\<^verbatim>\<open>mustPrefixes\<close> panics on a malformed entry; \<open>None\<close> is the panic.\<close>

fun mustPrefixes :: "string list \<Rightarrow> prefix list option" where
  "mustPrefixes [] = Some []"
| "mustPrefixes (v # vs) =
     (case parse_prefix v of
        None \<Rightarrow> None
      | Some p \<Rightarrow> map_option (\<lambda>ps. masked p # ps) (mustPrefixes vs))"

definition specialUsePrefixes :: "prefix list" where
  "specialUsePrefixes = (case mustPrefixes specialUseStrings of None \<Rightarrow> [] | Some ps \<Rightarrow> ps)"

section \<open>Decisions\<close>

definition Contains :: "prefix list \<Rightarrow> addr \<Rightarrow> bool" where
  "Contains ps a = list_ex (\<lambda>p. prefix_contains p (unmap a)) ps"

definition IsSpecial :: "addr \<Rightarrow> bool" where
  "IsSpecial a = list_ex (\<lambda>p. prefix_contains p (unmap a)) specialUsePrefixes"

definition IsSpecialPrefix :: "prefix \<Rightarrow> bool" where
  "IsSpecialPrefix p =
     (let q = masked p
      in list_ex (\<lambda>s. bit_len (prefix_addr q) = bit_len (prefix_addr s)
            \<and> prefix_bits q \<ge> prefix_bits s \<and> prefix_contains s (prefix_addr q)) specialUsePrefixes)"

section \<open>The table, evaluated\<close>

lemma replicate_numeral: "replicate (numeral k) x = x # replicate (pred_numeral k) x"
  by (simp add: numeral_eq_Suc)

lemmas parse_eval =
  parse_prefix_def parse_addr_def parse_addr4_def parse_addr6_def parse6_loop.simps
  last_index_byte_def index_byte_def has_prefix_def is_digit_def hex_value_def base_word_def
  atoi_opt_def atoi_def int_limit_def replicate_numeral

lemma mustPrefixes_special:
  "mustPrefixes specialUseStrings = Some
     [Prefix (Addr4 0) 8, Prefix (Addr4 0xa000000) 8,
      Prefix (Addr4 0x64400000) 10, Prefix (Addr4 0x7f000000) 8,
      Prefix (Addr4 0xa83f8110) 32, Prefix (Addr4 0xa9fe0000) 16,
      Prefix (Addr4 0xac100000) 12, Prefix (Addr4 0xc0000000) 24,
      Prefix (Addr4 0xc0000200) 24, Prefix (Addr4 0xc0586300) 24,
      Prefix (Addr4 0xc0a80000) 16, Prefix (Addr4 0xc6120000) 15,
      Prefix (Addr4 0xc6336400) 24, Prefix (Addr4 0xcb007100) 24,
      Prefix (Addr4 0xe0000000) 4, Prefix (Addr4 0xf0000000) 4,
      Prefix (Addr6 0 []) 128, Prefix (Addr6 1 []) 128,
      Prefix (Addr6 0x1000000000000000000000000000000 []) 64, Prefix (Addr6 0x20010002000000000000000000000000 []) 48,
      Prefix (Addr6 0x20010010000000000000000000000000 []) 28, Prefix (Addr6 0x20010db8000000000000000000000000 []) 32,
      Prefix (Addr6 0xfc000000000000000000000000000000 []) 7, Prefix (Addr6 0xfe800000000000000000000000000000 []) 10,
      Prefix (Addr6 0xff000000000000000000000000000000 []) 8]"
  by (simp add: specialUseStrings_def parse_eval)

lemma specialUsePrefixes_eq:
  "specialUsePrefixes = the (mustPrefixes specialUseStrings)"
  by (simp add: specialUsePrefixes_def mustPrefixes_special)

lemmas special_table = specialUsePrefixes_eq mustPrefixes_special option.sel

text \<open>No special IPv6 range reaches into the IPv4-mapped block.\<close>

definition off_mapped_block :: "prefix \<Rightarrow> bool" where
  "off_mapped_block s = (case prefix_addr s of Addr4 b \<Rightarrow> True | Addr6 b z \<Rightarrow>
     let m = max 32 (128 - prefix_bits s) in drop_bit m b \<noteq> drop_bit (m - 32) 0xFFFF)"

lemma special_off_mapped_block: "list_all off_mapped_block specialUsePrefixes"
  by (simp add: special_table off_mapped_block_def)

lemma special_not_mapped:
  assumes "s \<in> set specialUsePrefixes" "prefix_contains s (Addr6 a z)"
  shows "drop_bit 32 a \<noteq> 0xFFFF"
proof
  assume mapped: "drop_bit 32 a = 0xFFFF"
  obtain b y n where s: "s = Prefix (Addr6 b y) n"
    using assms(2) by (cases "(s, Addr6 a z)" rule: prefix_contains.cases) auto
  define m where "m = max 32 (128 - n)"
  have "drop_bit m a = drop_bit m b"
    by (rule drop_bit_coarser [of "128 - n"]) (use assms(2) in \<open>simp_all add: s m_def\<close>)
  moreover have "m - 32 + 32 = m"
    by (simp add: m_def)
  then have "drop_bit m a = drop_bit (m - 32) (drop_bit 32 a)"
    by (simp only: drop_bit_drop_bit)
  ultimately show False
    using special_off_mapped_block assms(1) mapped
    by (auto simp: list_all_iff off_mapped_block_def s m_def Let_def)
qed

text \<open>
  A prefix accepted as a special-use exception lies inside one entry of the table, so every
  address it covers is special-use.
\<close>

lemma special_prefix_sound:
  assumes "IsSpecialPrefix p" and "prefix_contains p a"
  shows "IsSpecial a"
proof -
  obtain s where s: "s \<in> set specialUsePrefixes" "prefix_bits s \<le> prefix_bits (masked p)"
      "prefix_contains s (prefix_addr (masked p))"
    using assms(1) by (auto simp: IsSpecialPrefix_def list_ex_iff Let_def)
  from s(2,3) assms(2) have c: "prefix_contains s a"
    using prefix_narrower [of s "masked p" a] by simp
  have "unmap a = a"
    using special_not_mapped [OF s(1)] c by (cases a) auto
  with c s(1) show ?thesis by (auto simp: IsSpecial_def list_ex_iff)
qed

end
