(* ===== verification/Domain_Model.thy ===== *)
theory Domain_Model
  imports AddressPolicy
begin

text \<open>
  \<^verbatim>\<open>internal/domain/model_core.go\<close> and \<^verbatim>\<open>model_validation_network.go\<close>: the resource types of
  the control plane as records, and the validation of their leaves (identifiers, labels,
  selectors, \<^verbatim>\<open>host:port\<close>, port pools, egress and obfuscation policies).
\<close>

section \<open>Resources\<close>

abbreviation "DataALPN \<equiv> ''asterferry-data/1''"
abbreviation "CertificateActive \<equiv> ''active''"
abbreviation "CertificateRevoked \<equiv> ''revoked''"
abbreviation "CertificateExpired \<equiv> ''expired''"
abbreviation "CertificatePending \<equiv> ''pending''"
abbreviation "CertificateDecommissioned \<equiv> ''decommissioned''"
abbreviation "ProtocolTCP \<equiv> ''tcp''"
abbreviation "ProtocolUDP \<equiv> ''udp''"
abbreviation "NodeSpecGateway \<equiv> ''gateway''"
abbreviation "NodeSpecAgent \<equiv> ''agent''"
abbreviation "AssignmentPending \<equiv> ''pending''"
abbreviation "AssignmentApplied \<equiv> ''applied''"
abbreviation "AssignmentDegraded \<equiv> ''degraded''"
abbreviation "AssignmentDraining \<equiv> ''draining''"

definition maxSnapshotServices :: nat where "maxSnapshotServices = 32768"
definition maxSnapshotAssignments :: nat where "maxSnapshotAssignments = 32768"
definition maxAssignmentServices :: nat where "maxAssignmentServices = 4096"
definition maxAssignmentBindings :: nat where "maxAssignmentBindings = 4096"

record Node =
  node_ID :: string
  node_SpecKind :: string
  node_Name :: string
  node_Labels :: labels
  node_Enabled :: bool
  node_CertificateState :: string
  node_CertificateSerial :: string
  node_Revision :: int
  node_CreatedAt :: time
  node_UpdatedAt :: time

record Capacity =
  cap_MaxAgents :: int
  cap_MaxConnections :: int
  cap_MaxServices :: int

text \<open>
  A port range is ordered by its lower bound, then by its upper bound: the comparison that
  \<^verbatim>\<open>PortPool.Validate\<close> gives to \<^verbatim>\<open>sort.Slice\<close>.
\<close>

datatype PortRange = PortRange (pr_Min: u16) (pr_Max: u16)

instantiation PortRange :: linorder
begin

definition less_eq_PortRange :: "PortRange \<Rightarrow> PortRange \<Rightarrow> bool" where
  "less_eq_PortRange a b \<longleftrightarrow> pr_Min a < pr_Min b \<or> (pr_Min a = pr_Min b \<and> pr_Max a \<le> pr_Max b)"

definition less_PortRange :: "PortRange \<Rightarrow> PortRange \<Rightarrow> bool" where
  "less_PortRange a b \<longleftrightarrow> pr_Min a < pr_Min b \<or> (pr_Min a = pr_Min b \<and> pr_Max a < pr_Max b)"

instance
  by standard (auto simp: less_eq_PortRange_def less_PortRange_def PortRange.expand)

end

record PortPool =
  pool_TCP :: "PortRange list"
  pool_UDP :: "PortRange list"

record TransportPolicy =
  tp_ALPN :: string
  tp_MaxStreams :: int
  tp_MaxFrameBytes :: int
  tp_MaxDatagramBytes :: int
  tp_HandshakeTimeoutSeconds :: int
  tp_IdleTimeoutSeconds :: int

record ObfuscationPolicy =
  ob_Mode :: string
  ob_KeyCiphertext :: bytes
  ob_PreviousKeyCiphertext :: bytes
  ob_KeyID :: string
  ob_PreviousKeyID :: string
  ob_Key :: bytes
  ob_PreviousKey :: bytes
  ob_MaxPaddingBytes :: int
  ob_HandshakeShaping :: bool

record Listener =
  ls_Protocol :: string
  ls_Bind :: string
  ls_Port :: u16
  ls_Enabled :: bool

record EgressPolicy =
  eg_Enabled :: bool
  eg_TCPPorts :: "string list"
  eg_UDPPorts :: "string list"
  eg_AllowCIDRs :: "string list"
  eg_AllowSpecialCIDRs :: "string list"
  eg_MaxConnections :: int

record GatewaySpec =
  gw_NodeID :: string
  gw_PublicEndpoints :: "string list"
  gw_Listeners :: "Listener list"
  gw_Labels :: labels
  gw_Capacity :: Capacity
  gw_PortPool :: PortPool
  gw_Transport :: TransportPolicy
  gw_Obfuscation :: ObfuscationPolicy
  gw_Egress :: EgressPolicy
  gw_Revision :: int

text \<open>\<^verbatim>\<open>Selector\<close> has the single field \<^verbatim>\<open>MatchLabels\<close>.\<close>

type_synonym Selector = labels

record ProxySpec =
  px_ID :: string
  px_Protocol :: string
  px_Bind :: string
  px_Route :: string
  px_Enabled :: bool

record RouteRule =
  rt_Name :: string
  rt_CIDRs :: "string list"
  rt_Domains :: "string list"
  rt_GeoIP :: "string list"
  rt_Destination :: string
  rt_Enabled :: bool

record AgentLimits =
  al_MaxConnections :: int
  al_MaxStreams :: int
  al_MaxBufferBytes :: int

record LoggingPolicy =
  lg_Level :: string
  lg_Format :: string

record AgentSpec =
  ag_NodeID :: string
  ag_GatewayID :: string
  ag_GatewaySelector :: Selector
  ag_Proxies :: "ProxySpec list"
  ag_Routes :: "RouteRule list"
  ag_Limits :: AgentLimits
  ag_Egress :: EgressPolicy
  ag_Logging :: LoggingPolicy
  ag_Revision :: int

record NodeSpec =
  ns_NodeID :: string
  ns_Kind :: string
  ns_Gateway :: "GatewaySpec option"
  ns_Agent :: "AgentSpec option"
  ns_Revision :: int
  ns_UpdatedAt :: time

record Service =
  sv_ID :: string
  sv_AgentID :: string
  sv_Protocol :: string
  sv_LocalTarget :: string
  sv_PublicBind :: string
  sv_PublicPort :: u16
  sv_GatewaySelector :: Selector
  sv_Enabled :: bool
  sv_Revision :: int
  sv_UpdatedAt :: time

record Binding =
  bd_ServiceID :: string
  bd_Protocol :: string
  bd_Bind :: string
  bd_Port :: u16

record Assignment =
  as_ID :: string
  as_GatewayID :: string
  as_AgentID :: string
  as_ServiceIDs :: "string list"
  as_Bindings :: "Binding list"
  as_Generation :: u64
  as_State :: string
  as_PublicEndpoint :: string
  as_Obfuscation :: ObfuscationPolicy
  as_Revision :: int
  as_UpdatedAt :: time

record DesiredSnapshot =
  ds_SchemaVersion :: u32
  ds_NodeID :: string
  ds_Generation :: u64
  ds_Checksum :: string
  ds_Gateway :: "GatewaySpec option"
  ds_Agent :: "AgentSpec option"
  ds_Services :: "Service list"
  ds_Assignments :: "Assignment list"

section \<open>The checksum document\<close>

text \<open>
  \<^verbatim>\<open>internal/domain/checksum.go\<close>: the only document that is serialized for a checksum.
\<close>

record ChecksumObfuscation =
  co_Mode :: string
  co_KeyID :: string
  co_PreviousKeyID :: string
  co_MaxPaddingBytes :: int
  co_HandshakeShaping :: bool

record ChecksumGateway =
  cg_NodeID :: string
  cg_PublicEndpoints :: "string list"
  cg_Listeners :: "Listener list"
  cg_Labels :: labels
  cg_Capacity :: Capacity
  cg_PortPool :: PortPool
  cg_Transport :: TransportPolicy
  cg_Obfuscation :: ChecksumObfuscation
  cg_Egress :: EgressPolicy

record ChecksumAgent =
  ca_NodeID :: string
  ca_GatewayID :: string
  ca_GatewaySelector :: Selector
  ca_Proxies :: "ProxySpec list"
  ca_Routes :: "RouteRule list"
  ca_Limits :: AgentLimits
  ca_Egress :: EgressPolicy
  ca_Logging :: LoggingPolicy

record ChecksumService =
  cs_ID :: string
  cs_AgentID :: string
  cs_Protocol :: string
  cs_LocalTarget :: string
  cs_PublicBind :: string
  cs_PublicPort :: u16
  cs_GatewaySelector :: Selector
  cs_Enabled :: bool

record ChecksumAssignment =
  cas_ID :: string
  cas_GatewayID :: string
  cas_AgentID :: string
  cas_ServiceIDs :: "string list"
  cas_Bindings :: "Binding list"
  cas_Generation :: u64
  cas_State :: string
  cas_PublicEndpoint :: string
  cas_Obfuscation :: ChecksumObfuscation

record ChecksumDocument =
  cd_SchemaVersion :: u32
  cd_NodeID :: string
  cd_Generation :: u64
  cd_Gateway :: "ChecksumGateway option"
  cd_Agent :: "ChecksumAgent option"
  cd_Services :: "ChecksumService list"
  cd_Assignments :: "ChecksumAssignment list"

section \<open>What the code takes from its environment\<close>

text \<open>
  \<open>sha256\<close> is the digest function, \<open>json_Marshal\<close> the encoder of the checksum document and
  \<open>range_keys\<close> the order in which the runtime visits the entries of a map literal, which Go
  leaves open. They are arguments of the definitions that depend on them; the theorems hold
  for every digest and every encoder.
\<close>

record go_env =
  sha256 :: "bytes \<Rightarrow> bytes"
  json_Marshal :: "ChecksumDocument \<Rightarrow> go_error + bytes"
  range_keys :: "string list \<Rightarrow> string list"

definition range_visits_all :: "go_env \<Rightarrow> bool" where
  "range_visits_all env \<longleftrightarrow> (\<forall>ks. set (range_keys env ks) = set ks)"

definition hex_byte :: "byte \<Rightarrow> string" where
  "hex_byte b = [hex_char (unat b div 16), hex_char (unat b mod 16)]"

definition hex_encode :: "bytes \<Rightarrow> string" where
  "hex_encode bs = concat (map hex_byte bs)"

lemma hex_encode_chars: "list_all (\<lambda>c. is_digit c \<or> is_lower c) (hex_encode bs)"
proof -
  have "is_digit (hex_char n) \<or> is_lower (hex_char n)" if "n < 16" for n
    using that by (auto simp: hex_char_def char_class_defs digit_char_def)
  moreover have "unat (b :: byte) div 16 < 16" for b using unat_byte_less [of b] by (simp add: less_mult_imp_div_less)
  ultimately show ?thesis by (simp add: hex_encode_def hex_byte_def list_all_iff)
qed

lemma length_hex_encode: "length (hex_encode bs) = 2 * length bs"
  by (induction bs) (simp_all add: hex_encode_def hex_byte_def)

section \<open>Leaves\<close>

definition containsControl :: "string \<Rightarrow> bool" where
  "containsControl s = list_ex (\<lambda>c. byte_of c < (0x20 :: nat) \<or> byte_of c = (0x7F :: nat)) s"

definition id_punct :: "char \<Rightarrow> bool" where
  "id_punct c \<longleftrightarrow> c = CHR ''-'' \<or> c = CHR ''_'' \<or> c = CHR ''.''"

definition id_char :: "char \<Rightarrow> bool" where
  "id_char c \<longleftrightarrow> id_punct c \<or> is_lower c \<or> is_upper c \<or> is_digit c"

text \<open>
  The loop over runes rejects the first byte of any multi-byte rune, so it decides the same as
  a loop over bytes.
\<close>

definition ValidateID :: "string \<Rightarrow> string \<Rightarrow> check" where
  "ValidateID value path =
     (if trim_space value \<noteq> value then
        Some (apply_error ''invalid_id'' path ''id must not contain surrounding whitespace'')
      else if length value < 1 \<or> length value > 128 then
        Some (apply_error ''invalid_id'' path ''id must contain 1 to 128 characters'')
      else if list_ex (\<lambda>c. \<not> id_char c) value \<or> id_punct (hd value) then
        Some (apply_error ''invalid_id'' path ''id contains an invalid character'')
      else if id_punct (last value) then
        Some (apply_error ''invalid_id'' path ''id must not end with punctuation'')
      else None)"

definition valid_label :: "string \<times> string \<Rightarrow> bool" where
  "valid_label kv \<longleftrightarrow>
     \<not> (trim_space (fst kv) = [] \<or> trim_space (fst kv) \<noteq> fst kv \<or> length (fst kv) > 128
        \<or> containsControl (fst kv) \<or> length (snd kv) > 256 \<or> containsControl (snd kv))"

definition validateLabels :: "labels \<Rightarrow> string \<Rightarrow> check" where
  "validateLabels ls path =
     (if length ls > 128 then Some (apply_error ''invalid_labels'' path ''too many labels'')
      else if list_ex (\<lambda>kv. \<not> valid_label kv) ls then
        Some (apply_error ''invalid_labels'' path ''label is invalid'')
      else None)"

definition Selector_Matches :: "Selector \<Rightarrow> labels \<Rightarrow> bool" where
  "Selector_Matches sel ls = list_all (\<lambda>(k, v). label_get ls k = v) sel"

fun selector_label_check :: "string \<Rightarrow> Selector \<Rightarrow> check" where
  "selector_label_check path [] = None"
| "selector_label_check path ((k, v) # kvs) =
     (if trim_space k = [] \<or> trim_space k \<noteq> k \<or> length k > 128 \<or> containsControl k then
        Some (apply_error ''invalid_selector'' path ''selector label key is invalid'')
      else if length v > 256 \<or> containsControl v then
        Some (apply_error ''invalid_selector'' path ''selector label value is invalid'')
      else selector_label_check path kvs)"

definition Selector_Validate :: "Selector \<Rightarrow> string \<Rightarrow> check" where
  "Selector_Validate sel path =
     (if length sel > 128 then
        Some (apply_error ''invalid_selector'' path ''selector contains too many labels'')
      else selector_label_check path sel)"

definition validateHostPort :: "string \<Rightarrow> check" where
  "validateHostPort value =
     (if containsControl value \<or> length value > 2048 then
        Some (ErrNew ''host:port contains invalid characters'')
      else if value \<noteq> trim_space value then
        Some (ErrNew ''host:port must not contain surrounding whitespace'')
      else case split_host_port value of
          None \<Rightarrow> Some (ErrStd ''net.SplitHostPort'')
        | Some (host, portText) \<Rightarrow>
            if trim_space host = [] \<or> host \<noteq> trim_space host
               \<or> contains_any host [CHR 0x09, CHR '' ''] \<or> contains_any portText [CHR 0x09, CHR '' '']
            then Some (ErrNew ''host is required'')
            else case atoi portText of (port, ok) \<Rightarrow>
              if \<not> ok \<or> port < 1 \<or> port > 65535 then
                Some (ErrNew ''port must be between 1 and 65535'')
              else None)"

definition validateEndpoint :: "string \<Rightarrow> check" where
  "validateEndpoint value =
     (if value \<noteq> trim_space value then
        Some (ErrNew ''endpoint must not contain surrounding whitespace'')
      else if value = [] \<or> length value > 2048 then
        Some (ErrNew ''endpoint is empty or too long'')
      else validateHostPort value)"

definition validateListener :: "Listener \<Rightarrow> check" where
  "validateListener l =
     (if ls_Protocol l \<noteq> ProtocolTCP \<and> ls_Protocol l \<noteq> ProtocolUDP then
        Some (ErrNew ''listener protocol must be tcp or udp'')
      else if ls_Port l = 0 then Some (ErrNew ''listener port must be non-zero'')
      else if trim_space (ls_Bind l) = [] then Some (ErrNew ''listener bind is required'')
      else if ls_Bind l \<noteq> trim_space (ls_Bind l) then
        Some (ErrNew ''listener bind must not contain surrounding whitespace'')
      else if parse_addr (ls_Bind l) = None then
        Some (ErrWrap ''listener bind must be an IP address: '' (ErrStd ''netip.ParseAddr''))
      else None)"

definition normalizedIP :: "string \<Rightarrow> string" where
  "normalizedIP value =
     (let v = trim_space value
      in case parse_addr v of Some a \<Rightarrow> addr_string (unmap a) | None \<Rightarrow> v)"

text \<open>The key \<^verbatim>\<open>"%s|%s|%d"\<close> under which a public socket is reserved.\<close>

definition socketKey :: "string \<Rightarrow> string \<Rightarrow> u16 \<Rightarrow> string" where
  "socketKey protocol bind port = protocol @ ''|'' @ bind @ ''|'' @ show_nat (unat port)"

section \<open>Port pools\<close>

definition bad_range :: "PortRange \<Rightarrow> bool" where
  "bad_range r \<longleftrightarrow> pr_Min r = 0 \<or> pr_Max r < pr_Min r"

fun adjacent_overlap :: "PortRange list \<Rightarrow> bool" where
  "adjacent_overlap (a # b # rs) = (pr_Min b \<le> pr_Max a \<or> adjacent_overlap (b # rs))"
| "adjacent_overlap _ = False"

definition pool_ranges :: "PortPool \<Rightarrow> string \<Rightarrow> PortRange list" where
  "pool_ranges p name = (if name = ProtocolTCP then pool_TCP p else pool_UDP p)"

definition validate_ranges :: "string \<Rightarrow> PortRange list \<Rightarrow> check" where
  "validate_ranges name ranges =
     (if list_ex bad_range ranges then
        Some (apply_error ''invalid_port_pool'' (''gateway.port_pool.'' @ name) ''port range is invalid'')
      else if adjacent_overlap (sort ranges) then
        Some (apply_error ''invalid_port_pool'' (''gateway.port_pool.'' @ name) ''port ranges overlap'')
      else None)"

definition PortPool_Validate :: "go_env \<Rightarrow> PortPool \<Rightarrow> check" where
  "PortPool_Validate env p =
     all_checks (map (\<lambda>name. validate_ranges name (pool_ranges p name))
       (range_keys env [ProtocolTCP, ProtocolUDP]))"

section \<open>Egress policies\<close>

definition bad_port_range_text :: "string \<Rightarrow> bool" where
  "bad_port_range_text value =
     (let trimmed = trim_space value; parts = split_on CHR ''-'' trimmed
      in if value \<noteq> trimmed \<or> trimmed = [] \<or> length trimmed > 11 then True
         else if length parts > 2 \<or> parts ! 0 = [] then True
         else case atoi (parts ! 0) of (lo, ok) \<Rightarrow>
           if \<not> ok \<or> lo < 1 \<or> lo > 65535 then True
           else if length parts = 2 then
             (case atoi (parts ! 1) of (hi, ok') \<Rightarrow> \<not> ok' \<or> hi > 65535 \<or> hi < lo)
           else False)"

definition validateEgressPortRanges :: "string list \<Rightarrow> string \<Rightarrow> check" where
  "validateEgressPortRanges values path =
     fail_if (list_ex bad_port_range_text values)
       (apply_error ''invalid_egress'' path ''egress port range is invalid'')"

definition bad_allow_cidr :: "string \<Rightarrow> bool" where
  "bad_allow_cidr value \<longleftrightarrow>
     trim_space value \<noteq> value \<or> length value > 64 \<or> parse_prefix value = None"

definition special_cidr_check :: "string \<Rightarrow> string \<Rightarrow> check" where
  "special_cidr_check path value =
     (if trim_space value \<noteq> value \<or> length value > 64 then
        Some (apply_error ''invalid_egress'' (path @ ''.allow_special_cidrs'')
          ''special-use egress CIDR is invalid'')
      else case parse_prefix value of
          None \<Rightarrow> Some (apply_error ''invalid_egress'' (path @ ''.allow_special_cidrs'')
            ''special-use egress CIDR must be within a special-use range'')
        | Some p \<Rightarrow> fail_if (\<not> IsSpecialPrefix p)
            (apply_error ''invalid_egress'' (path @ ''.allow_special_cidrs'')
              ''special-use egress CIDR must be within a special-use range''))"

definition EgressPolicy_Validate :: "EgressPolicy \<Rightarrow> string \<Rightarrow> check" where
  "EgressPolicy_Validate p path0 =
     (let path = (if trim_space path0 = [] then ''agent.egress'' else path0)
      in if eg_MaxConnections p < 0 \<or> eg_MaxConnections p > 2 ^ 20 then
           Some (apply_error ''invalid_egress'' (path @ ''.max_connections'')
             ''egress connection limit is out of range'')
         else if length (eg_TCPPorts p) > 4096 \<or> length (eg_UDPPorts p) > 4096
              \<or> length (eg_AllowCIDRs p) > 4096 \<or> length (eg_AllowSpecialCIDRs p) > 4096 then
           Some (apply_error ''invalid_egress'' path ''egress policy contains too many entries'')
         else if eg_Enabled p \<and> eg_TCPPorts p = [] \<and> eg_UDPPorts p = [] then
           Some (apply_error ''invalid_egress'' path ''enabled egress requires TCP or UDP port ranges'')
         else all_checks (
           [validateEgressPortRanges (eg_TCPPorts p) (path @ ''.tcp_ports''),
            validateEgressPortRanges (eg_UDPPorts p) (path @ ''.udp_ports''),
            fail_if (list_ex bad_allow_cidr (eg_AllowCIDRs p))
              (apply_error ''invalid_egress'' (path @ ''.allow_cidrs'') ''egress CIDR is invalid'')]
           @ map (special_cidr_check path) (eg_AllowSpecialCIDRs p)))"

section \<open>Obfuscation policies\<close>

definition ObfuscationKeyID :: "go_env \<Rightarrow> bytes \<Rightarrow> string" where
  "ObfuscationKeyID env key = (if key = [] then [] else hex_encode (sha256 env key))"

definition obf_error :: "string \<Rightarrow> string \<Rightarrow> go_error" where
  "obf_error path msg = apply_error ''invalid_obfuscation'' path msg"

definition obf_key_check :: "ObfuscationPolicy \<Rightarrow> string \<Rightarrow> string \<Rightarrow> check" where
  "obf_key_check ob path name =
     (let key = (if name = ''key'' then ob_Key ob else ob_PreviousKey ob)
      in fail_if (key \<noteq> [] \<and> length key \<noteq> 32)
        (obf_error (path @ ''.'' @ name) ''data-plane obfuscation keys must contain exactly 32 bytes''))"

definition obf_id_check :: "ObfuscationPolicy \<Rightarrow> string \<Rightarrow> string \<Rightarrow> check" where
  "obf_id_check ob path name =
     (let i = (if name = ''key_id'' then ob_KeyID ob else ob_PreviousKeyID ob)
      in fail_if (length i > 128 \<or> contains_any i [CHR 0x00, CHR 0x0D, CHR 0x0A])
        (obf_error (path @ ''.'' @ name) ''obfuscation key id is invalid''))"

definition ObfuscationPolicy_Validate :: "go_env \<Rightarrow> ObfuscationPolicy \<Rightarrow> string \<Rightarrow> check" where
  "ObfuscationPolicy_Validate env ob path0 =
     (let path = (if path0 = [] then ''obfuscation'' else path0)
      in all_checks (
        [fail_if (ob_Mode ob \<noteq> [] \<and> ob_Mode ob \<noteq> ''standard'' \<and> ob_Mode ob \<noteq> ''camouflage'')
           (obf_error (path @ ''.mode'') ''obfuscation mode must be standard or camouflage''),
         fail_if (ob_Mode ob = ''camouflage'' \<and> ob_Key ob = [] \<and> ob_KeyCiphertext ob = [])
           (obf_error (path @ ''.key_ciphertext'') ''camouflage mode requires a protected key'')]
        @ map (obf_key_check ob path) (range_keys env [''key'', ''previous_key''])
        @ [fail_if (ob_Key ob \<noteq> [] \<and> ob_KeyID ob \<noteq> [] \<and> ob_KeyID ob \<noteq> ObfuscationKeyID env (ob_Key ob))
             (obf_error (path @ ''.key_id'') ''key_id does not identify key''),
           fail_if (ob_PreviousKey ob \<noteq> [] \<and> ob_PreviousKeyID ob \<noteq> []
               \<and> ob_PreviousKeyID ob \<noteq> ObfuscationKeyID env (ob_PreviousKey ob))
             (obf_error (path @ ''.previous_key_id'') ''previous_key_id does not identify previous_key'')]
        @ map (obf_id_check ob path) (range_keys env [''key_id'', ''previous_key_id''])
        @ [fail_if (ob_MaxPaddingBytes ob < 0 \<or> ob_MaxPaddingBytes ob > 65536)
             (obf_error (path @ ''.max_padding_bytes'') ''obfuscation padding limit is out of range''),
           fail_if (length (ob_KeyCiphertext ob) > 131072)
             (obf_error (path @ ''.key_ciphertext'') ''obfuscation key ciphertext is too large''),
           fail_if (length (ob_PreviousKeyCiphertext ob) > 131072)
             (obf_error (path @ ''.previous_key_ciphertext'')
               ''previous obfuscation key ciphertext is too large'')]))"

section \<open>Nodes\<close>

definition Node_ValidateMetadata :: "Node \<Rightarrow> check" where
  "Node_ValidateMetadata n =
     (if trim_space (node_Name n) = [] \<or> length (trim_space (node_Name n)) > 128
         \<or> containsControl (trim_space (node_Name n)) then
        Some (apply_error ''invalid_name'' ''node.name'' ''name must contain 1 to 128 printable characters'')
      else if node_CertificateState n \<notin> {[], CertificatePending, CertificateActive,
          CertificateRevoked, CertificateExpired, CertificateDecommissioned} then
        Some (apply_error ''invalid_certificate_state'' ''node.certificate_state''
          ''certificate state is invalid'')
      else if node_CertificateState n = CertificateActive \<and> trim_space (node_CertificateSerial n) = [] then
        Some (apply_error ''invalid_certificate_serial'' ''node.certificate_serial''
          ''an active node must have a certificate serial'')
      else if length (node_CertificateSerial n) > 256 \<or> containsControl (node_CertificateSerial n) then
        Some (apply_error ''invalid_certificate_serial'' ''node.certificate_serial''
          ''certificate serial is invalid'')
      else if node_Revision n < 0 then
        Some (apply_error ''invalid_revision'' ''node.revision'' ''revision cannot be negative'')
      else if length (node_Labels n) > 128 then
        Some (apply_error ''invalid_labels'' ''node.labels'' ''node has too many labels'')
      else if list_ex (\<lambda>kv. \<not> valid_label kv) (node_Labels n) then
        Some (apply_error ''invalid_labels'' ''node.labels'' ''node label is invalid'')
      else None)"

definition Node_Validate :: "Node \<Rightarrow> check" where
  "Node_Validate n = and_then (ValidateID (node_ID n) ''node.id'') (Node_ValidateMetadata n)"

section \<open>What the leaf validators accept\<close>

lemma id_char_graphic: "id_char c \<Longrightarrow> is_graphic c"
  by (auto simp: id_char_def id_punct_def char_class_defs)

text \<open>
  \<^verbatim>\<open>ValidateID\<close> accepts exactly the identifiers of 1 to 128 letters, digits, dashes,
  underscores and dots that begin and end with a letter or digit; the whitespace guard rejects
  nothing more.
\<close>

theorem ValidateID_accepts_iff:
  "ValidateID s path = None \<longleftrightarrow>
     length s \<in> {1..128} \<and> list_all id_char s
     \<and> \<not> id_punct (hd s) \<and> \<not> id_punct (last s)"
proof (cases "s = []")
  case False
  have "trim_space s = s" if "list_all id_char s"
    using that False by (intro trim_space_graphic) (auto simp: id_char_graphic list_all_iff)
  moreover have "1 \<le> length s" using False by (cases s) auto
  ultimately show ?thesis
    by (auto simp: ValidateID_def list_ex_iff list_all_iff not_less Suc_le_eq)
qed (simp add: ValidateID_def)

subsection \<open>Port pools\<close>

definition ports_of :: "PortRange \<Rightarrow> u16 set" where
  "ports_of r = {pr_Min r .. pr_Max r}"

definition apart :: "PortRange \<Rightarrow> PortRange \<Rightarrow> bool" where
  "apart a b \<longleftrightarrow> ports_of a \<inter> ports_of b = {}"

lemma apart_sym: "apart a b \<longleftrightarrow> apart b a"
  by (auto simp: apart_def)

lemma apart_iff:
  "\<not> bad_range a \<Longrightarrow> \<not> bad_range b \<Longrightarrow> a \<le> b \<Longrightarrow> apart a b \<longleftrightarrow> pr_Max a < pr_Min b"
  by (auto simp: apart_def ports_of_def bad_range_def less_eq_PortRange_def)

lemma sorted_wrt_insort:
  "(\<And>a b. R a b \<longleftrightarrow> R b a) \<Longrightarrow>
   sorted_wrt R (insort x xs) \<longleftrightarrow> (\<forall>y\<in>set xs. R x y) \<and> sorted_wrt R xs"
  by (induction xs) (auto simp: set_insort_key)

lemma sorted_wrt_sort:
  "(\<And>a b. R a b \<longleftrightarrow> R b a) \<Longrightarrow> sorted_wrt R (sort xs) \<longleftrightarrow> sorted_wrt R xs"
  by (induction xs) (simp_all add: sorted_wrt_insort)

lemma adjacent_overlap_sorted:
  assumes "sorted rs" "\<forall>r\<in>set rs. \<not> bad_range r"
  shows "\<not> adjacent_overlap rs \<longleftrightarrow> sorted_wrt apart rs"
  using assms
proof (induction rs rule: adjacent_overlap.induct)
  case (1 a b rs)
  have "apart a c" if "pr_Max a < pr_Min b" "c \<in> set (b # rs)" for c
  proof -
    have "a \<le> c" "b \<le> c" "\<not> bad_range a" "\<not> bad_range c" using 1 that by auto
    with that show ?thesis by (subst apart_iff) (auto simp: less_eq_PortRange_def)
  qed
  moreover have "apart a b \<longleftrightarrow> pr_Max a < pr_Min b" using 1 by (intro apart_iff) auto
  ultimately show ?case using 1 by (auto simp: not_le)
qed auto

lemma validate_ranges_None:
  "validate_ranges name rs = None \<longleftrightarrow> (\<forall>r\<in>set rs. \<not> bad_range r) \<and> sorted_wrt apart rs"
  using adjacent_overlap_sorted [of "sort rs"]
  by (auto simp: validate_ranges_def list_ex_iff sorted_wrt_sort [OF apart_sym])

text \<open>
  A port pool is accepted, whatever the order in which the two protocol lists are visited,
  exactly when every range is non-empty and avoids port 0 and no port belongs to two ranges of
  the same protocol, although the code only compares neighbours of the sorted list.
\<close>

theorem PortPool_Validate_accepts_iff:
  assumes "range_visits_all env"
  shows "PortPool_Validate env p = None \<longleftrightarrow>
    (\<forall>rs \<in> {pool_TCP p, pool_UDP p}.
       (\<forall>r\<in>set rs. 0 < pr_Min r \<and> pr_Min r \<le> pr_Max r)
       \<and> (\<forall>i j. i < j \<and> j < length rs \<longrightarrow> ports_of (rs ! i) \<inter> ports_of (rs ! j) = {}))"
proof -
  have "PortPool_Validate env p = None \<longleftrightarrow>
      validate_ranges ProtocolTCP (pool_TCP p) = None \<and> validate_ranges ProtocolUDP (pool_UDP p) = None"
    using assms by (auto simp: PortPool_Validate_def range_visits_all_def pool_ranges_def)
  then show ?thesis
    by (simp add: validate_ranges_None sorted_wrt_iff_nth_less apart_def bad_range_def not_less
        word_gt_0 imp_conjL)
qed

abbreviation plain_env :: go_env where
  "plain_env \<equiv> \<lparr>sha256 = (\<lambda>bs. replicate 32 (of_nat (length bs))), json_Marshal = (\<lambda>d. Inr []),
     range_keys = rev\<rparr>"

theorem PortPool_Validate_accepts_iff_witness:
  "PortPool_Validate plain_env
     \<lparr>pool_TCP = [PortRange 2000 2010, PortRange 1000 1999], pool_UDP = []\<rparr> = None \<and>
   ports_of (PortRange 2000 2010) \<inter> ports_of (PortRange 1000 1999) = {}"
proof -
  let ?p = "\<lparr>pool_TCP = [PortRange 2000 2010, PortRange 1000 1999], pool_UDP = []\<rparr>"
  have "range_visits_all plain_env" by (simp add: range_visits_all_def)
  moreover have ok: "PortPool_Validate plain_env ?p = None"
    by (simp add: PortPool_Validate_def validate_ranges_def pool_ranges_def bad_range_def
        less_eq_PortRange_def fail_if_def)
  ultimately show ?thesis
    using PortPool_Validate_accepts_iff [of plain_env ?p] by fastforce
qed

text \<open>
  Once an egress policy validates, each of its special-use exceptions parses to a prefix all
  of whose addresses are special-use: an exception never opens an ordinary destination.
\<close>

theorem egress_exceptions_only_special:
  assumes "EgressPolicy_Validate pol path = None" and "c \<in> set (eg_AllowSpecialCIDRs pol)"
  shows "\<exists>p. parse_prefix c = Some p \<and> (\<forall>a. prefix_contains p a \<longrightarrow> IsSpecial a)"
proof -
  have "special_cidr_check (if trim_space path = [] then ''agent.egress'' else path) c = None"
    using assms by (simp add: EgressPolicy_Validate_def Let_def split: if_splits)
  then show ?thesis
    by (auto simp: special_cidr_check_def dest: special_prefix_sound split: if_splits option.splits)
qed

theorem egress_exceptions_only_special_witness:
  "\<exists>p. parse_prefix ''10.1.0.0/16'' = Some p \<and> (\<forall>a. prefix_contains p a \<longrightarrow> IsSpecial a)"
proof -
  let ?pol = "\<lparr>eg_Enabled = True, eg_TCPPorts = [''443''], eg_UDPPorts = [], eg_AllowCIDRs = [],
    eg_AllowSpecialCIDRs = [''10.1.0.0/16''], eg_MaxConnections = 8\<rparr>"
  have t: "trim_space ''10.1.0.0/16'' = ''10.1.0.0/16''" "trim_space ''443'' = ''443''"
    "trim_space ''agent.egress'' = ''agent.egress''"
    by (simp_all add: trim_space_graphic char_class_defs)
  have "EgressPolicy_Validate ?pol ''agent.egress'' = None"
    by (simp add: EgressPolicy_Validate_def validateEgressPortRanges_def bad_port_range_text_def
        special_cidr_check_def t parse_eval atoi_def int_limit_def Let_def IsSpecialPrefix_def special_table)
  then show ?thesis
    using egress_exceptions_only_special [of ?pol "''agent.egress''" "''10.1.0.0/16''"] by simp
qed

end
