(* ===== verification/Go_Encoding.thy ===== *)
theory Go_Encoding
  imports Domain_Model
begin

text \<open>
  What the controller uses of \<^verbatim>\<open>encoding/base64\<close>, \<^verbatim>\<open>encoding/hex\<close> and \<^verbatim>\<open>strings\<close> for credentials: base64 without padding over
  an alphabet (decoding skips carriage returns and line feeds and does not look at unused trailing bits, as
  the library does outside its strict mode), decoding of hexadecimal text, and \<^verbatim>\<open>SplitN\<close> with two parts.
\<close>

section \<open>Base64\<close>

definition std_alphabet :: string where
  "std_alphabet = ''ABCDEFGHIJKLMNOPQRSTUVWXYZabcdefghijklmnopqrstuvwxyz0123456789+/''"

definition url_alphabet :: string where
  "url_alphabet = ''ABCDEFGHIJKLMNOPQRSTUVWXYZabcdefghijklmnopqrstuvwxyz0123456789-_''"

fun b64_sextets :: "nat list \<Rightarrow> nat list" where
  "b64_sextets [] = []"
| "b64_sextets [a] = [a div 4, a mod 4 * 16]"
| "b64_sextets [a, b] = [a div 4, a mod 4 * 16 + b div 16, b mod 16 * 4]"
| "b64_sextets (a # b # c # r) = [a div 4, a mod 4 * 16 + b div 16, b mod 16 * 4 + c div 64, c mod 64] @ b64_sextets r"

definition b64_encode :: "string \<Rightarrow> bytes \<Rightarrow> string" where
  "b64_encode alphabet bs = map (\<lambda>i. alphabet ! i) (b64_sextets (map unat bs))"

fun b64_octets :: "nat list \<Rightarrow> nat list option" where
  "b64_octets [] = Some []"
| "b64_octets [x] = None"
| "b64_octets [x, y] = Some [x * 4 + y div 16]"
| "b64_octets [x, y, z] = Some [x * 4 + y div 16, y mod 16 * 16 + z div 4]"
| "b64_octets (x # y # z # w # r) = map_option (\<lambda>bs. [x * 4 + y div 16, y mod 16 * 16 + z div 4, z mod 4 * 64 + w] @ bs) (b64_octets r)"

fun all_some :: "'a option list \<Rightarrow> 'a list option" where
  "all_some [] = Some []"
| "all_some (None # xs) = None"
| "all_some (Some x # xs) = map_option ((#) x) (all_some xs)"

definition b64_decode :: "string \<Rightarrow> string \<Rightarrow> bytes option" where
  "b64_decode alphabet s =
     map_option (map word_of_nat)
     (Option.bind (all_some (map (\<lambda>c. index_byte c alphabet) (filter (\<lambda>c. c \<noteq> CHR 0x0A \<and> c \<noteq> CHR 0x0D) s))) b64_octets)"

lemma all_some_map: "(\<And>x. x \<in> set xs \<Longrightarrow> f (g x) = Some x) \<Longrightarrow> all_some (map f (map g xs)) = Some xs"
  by (induction xs) auto

lemma byte_quotients: "a < (256 :: nat) \<Longrightarrow> a div 4 < 64" "a < (256 :: nat) \<Longrightarrow> a div 16 < 16" "a < (256 :: nat) \<Longrightarrow> a div 64 < 4"
  by (auto intro: less_mult_imp_div_less)

lemma two_digits: "y < (m :: nat) \<Longrightarrow> (x * m + y) div m = x" "y < m \<Longrightarrow> (x * m + y) mod m = y"
  by auto

lemma b64_sextets_small: "\<forall>a\<in>set xs. a < 256 \<Longrightarrow> i \<in> set (b64_sextets xs) \<Longrightarrow> i < 64"
proof (induction xs rule: b64_sextets.induct)
  case (4 a b c r)
  have "a mod 4 < 4" "b mod 16 < 16" "c mod 64 < 64" by simp_all
  moreover have "a div 4 < 64" "b div 16 < 16" "c div 64 < 4" using "4.prems"(1) byte_quotients by simp_all
  ultimately have "a mod 4 * 16 + b div 16 < 64" "b mod 16 * 4 + c div 64 < 64" by linarith+
  with 4 \<open>a div 4 < 64\<close> \<open>c mod 64 < 64\<close> show ?case by auto
next
  case (3 a b)
  have "a mod 4 < 4" "b mod 16 < 16" by simp_all
  moreover have "a div 4 < 64" "b div 16 < 16" using "3.prems"(1) byte_quotients by simp_all
  ultimately have "a mod 4 * 16 + b div 16 < 64" "b mod 16 * 4 < 64" by linarith+
  with 3 \<open>a div 4 < 64\<close> show ?case by auto
next
  case (2 a)
  have "a mod 4 * 16 < 64" by (simp add: mult.commute [of _ 16])
  with 2 byte_quotients show ?case by auto
qed simp

lemma unat_byte [simp]: "unat (b :: byte) < 256"
  using unsigned_less [of b] by simp

lemma b64_octets_sextets: "\<forall>a\<in>set xs. a < 256 \<Longrightarrow> b64_octets (b64_sextets xs) = Some xs"
proof (induction xs rule: b64_sextets.induct)
  case (4 a b c r)
  have "b div 16 < 16" "c div 64 < 4" using "4.prems" byte_quotients by simp_all
  with 4 show ?case by (simp add: two_digits)
next
  case (3 a b)
  have "b div 16 < 16" using "3.prems" byte_quotients by simp
  then show ?case by (simp add: two_digits)
qed simp_all

definition good_alphabet :: "string \<Rightarrow> bool" where
  "good_alphabet s \<longleftrightarrow> length s = 64 \<and> distinct s \<and> CHR 0x0A \<notin> set s \<and> CHR 0x0D \<notin> set s"

lemma good_alphabets: "good_alphabet std_alphabet" "good_alphabet url_alphabet"
  by (simp_all add: good_alphabet_def std_alphabet_def url_alphabet_def)

lemma index_byte_nth:
  assumes "distinct s" "i < length s"
  shows "index_byte (s ! i) s = Some i"
proof -
  have s: "s = take i s @ s ! i # drop (Suc i) s" using id_take_nth_drop [OF assms(2)] .
  have "s ! i \<notin> set (take i s)"
  proof
    assume "s ! i \<in> set (take i s)"
    then obtain j where "j < i" "s ! j = s ! i" by (auto simp: in_set_conv_nth)
    with assms show False by (simp add: nth_eq_iff_index_eq)
  qed
  then have "index_byte (s ! i) (take i s @ s ! i # drop (Suc i) s) = Some (length (take i s))" by (rule index_byte_append)
  with s assms(2) show ?thesis by simp
qed

lemma b64_encode_chars: "good_alphabet al \<Longrightarrow> c \<in> set (b64_encode al bs) \<Longrightarrow> c \<in> set al"
  using b64_sextets_small [of "map unat bs"] by (force simp: b64_encode_def good_alphabet_def)

lemma b64_decode_encode [codec_simps]:
  assumes "good_alphabet al"
  shows "b64_decode al (b64_encode al bs) = Some bs"
proof -
  let ?xs = "b64_sextets (map unat bs)"
  have sm: "\<forall>a\<in>set (map unat bs). a < 256" by simp
  have "filter (\<lambda>c. c \<noteq> CHR 0x0A \<and> c \<noteq> CHR 0x0D) (b64_encode al bs) = b64_encode al bs"
    using b64_encode_chars [OF assms] assms by (auto simp: filter_id_conv good_alphabet_def)
  moreover have "all_some (map (\<lambda>c. index_byte c al) (map (\<lambda>i. al ! i) ?xs)) = Some ?xs"
    using b64_sextets_small [OF sm] assms by (intro all_some_map index_byte_nth) (auto simp: good_alphabet_def)
  ultimately show ?thesis using b64_octets_sextets [OF sm] by (simp add: b64_decode_def b64_encode_def comp_def)
qed

lemma b64_octets_length: "b64_octets xs = Some ys \<Longrightarrow> length ys = length xs * 3 div 4"
  by (induction xs arbitrary: ys rule: b64_octets.induct) auto

section \<open>Hexadecimal text\<close>

fun hex_decode :: "string \<Rightarrow> bytes option" where
  "hex_decode [] = Some []"
| "hex_decode [c] = None"
| "hex_decode (c # d # r) =
     (case (hex_value c, hex_value d) of
        (Some x, Some y) \<Rightarrow> map_option ((#) (word_of_nat (x * 16 + y))) (hex_decode r)
      | _ \<Rightarrow> None)"

lemma hex_value_char: "n < 16 \<Longrightarrow> hex_value (hex_char n) = Some n"
  by (auto simp: hex_value_def hex_char_def digit_char_def char_class_defs)

lemma hex_decode_encode [codec_simps]: "hex_decode (hex_encode bs) = Some bs"
proof (induction bs)
  case (Cons b bs)
  have "unat b div 16 < 16" by (rule less_mult_imp_div_less) simp
  moreover have "word_of_nat (unat b div 16 * 16 + unat b mod 16) = b" by simp
  ultimately show ?case using Cons by (simp add: hex_encode_def hex_byte_def hex_value_char)
qed (simp add: hex_encode_def)

section \<open>Splitting in two\<close>

definition split_n2 :: "char \<Rightarrow> string \<Rightarrow> string list" where
  "split_n2 c s = (case index_byte c s of None \<Rightarrow> [s] | Some k \<Rightarrow> [take k s, drop (k + 1) s])"

lemma split_n2_append: "c \<notin> set xs \<Longrightarrow> split_n2 c (xs @ c # ys) = [xs, ys]"
  by (simp add: split_n2_def index_byte_append)

lemma split_on_append: "c \<notin> set xs \<Longrightarrow> split_on c (xs @ c # ys) = xs # split_on c ys"
  by (induction xs) auto

lemma split_on_none: "c \<notin> set xs \<Longrightarrow> split_on c xs = [xs]"
  by (induction xs) auto

end
