(* ===== verification/Domain_Checksum.thy ===== *)
theory Domain_Checksum
  imports Domain_Model
begin

text \<open>
  \<^verbatim>\<open>internal/domain/checksum.go\<close> and \<^verbatim>\<open>model_clone.go\<close>: the canonical order of a desired
  snapshot, the metadata-free document built from it, and its checksum. \<^verbatim>\<open>Clone\<close> copies every
  slice and map; the model has values and no references, so the copy is the value itself.
  \<^verbatim>\<open>sort.Slice\<close> is \<open>sort_key\<close>: the two agree whenever the keys are distinct, which is the only
  case the theorems below speak about.
\<close>

section \<open>Canonical order\<close>

definition listener_key :: "Listener \<Rightarrow> string" where
  "listener_key l = socketKey (ls_Protocol l) (ls_Bind l) (ls_Port l)"

definition binding_key :: "Binding \<Rightarrow> string" where
  "binding_key b = bd_ServiceID b @ ''|'' @ socketKey (bd_Protocol b) (bd_Bind b) (bd_Port b)"

definition sort_egress :: "EgressPolicy \<Rightarrow> EgressPolicy" where
  "sort_egress e = e\<lparr>eg_TCPPorts := sort (eg_TCPPorts e), eg_UDPPorts := sort (eg_UDPPorts e),
     eg_AllowCIDRs := sort (eg_AllowCIDRs e), eg_AllowSpecialCIDRs := sort (eg_AllowSpecialCIDRs e)\<rparr>"

definition normalize_gateway :: "GatewaySpec \<Rightarrow> GatewaySpec" where
  "normalize_gateway g = g\<lparr>gw_Listeners := sort_key listener_key (gw_Listeners g),
     gw_Egress := sort_egress (gw_Egress g)\<rparr>"

definition normalize_agent :: "AgentSpec \<Rightarrow> AgentSpec" where
  "normalize_agent a = a\<lparr>ag_Proxies := sort_key px_ID (ag_Proxies a),
     ag_Egress := sort_egress (ag_Egress a)\<rparr>"

definition normalize_assignment :: "Assignment \<Rightarrow> Assignment" where
  "normalize_assignment a = a\<lparr>as_ServiceIDs := sort (as_ServiceIDs a),
     as_Bindings := sort_key binding_key (as_Bindings a)\<rparr>"

definition Normalize :: "DesiredSnapshot \<Rightarrow> DesiredSnapshot" where
  "Normalize s = s\<lparr>
     ds_Gateway := map_option normalize_gateway (ds_Gateway s),
     ds_Services := sort_key sv_ID (ds_Services s),
     ds_Agent := map_option normalize_agent (ds_Agent s),
     ds_Assignments := sort_key as_ID (map normalize_assignment (ds_Assignments s))\<rparr>"

section \<open>The document and its checksum\<close>

definition ErrMissingObfuscationKeyID :: go_error where
  "ErrMissingObfuscationKeyID = Sentinel ''obfuscation key id is required''"

definition checksumObfuscation :: "ObfuscationPolicy \<Rightarrow> ChecksumObfuscation result" where
  "checksumObfuscation v =
     (let r = \<lparr>co_Mode = ob_Mode v, co_KeyID = ob_KeyID v, co_PreviousKeyID = ob_PreviousKeyID v,
        co_MaxPaddingBytes = ob_MaxPaddingBytes v, co_HandshakeShaping = ob_HandshakeShaping v\<rparr>
      in if ob_Mode v = [] \<or> ob_Mode v = ''standard'' then Inr r
         else if ob_Mode v = ''camouflage'' then
           if ob_KeyID v = [] then Inl ErrMissingObfuscationKeyID
           else if ob_PreviousKeyID v = [] \<and> (ob_PreviousKey v \<noteq> [] \<or> ob_PreviousKeyCiphertext v \<noteq> []) then
             Inl (ErrWrap '': previous key'' ErrMissingObfuscationKeyID)
           else Inr r
         else Inl (ErrNew ''unsupported obfuscation mode''))"

fun wrap_error :: "string \<Rightarrow> 'a result \<Rightarrow> 'a result" where
  "wrap_error m (Inl e) = Inl (ErrWrap m e)"
| "wrap_error m (Inr x) = Inr x"

definition checksum_gateway :: "GatewaySpec \<Rightarrow> ChecksumGateway result" where
  "checksum_gateway g =
     bind_result (wrap_error ''gateway obfuscation: '' (checksumObfuscation (gw_Obfuscation g)))
       (\<lambda>ob. Inr \<lparr>cg_NodeID = gw_NodeID g, cg_PublicEndpoints = gw_PublicEndpoints g,
          cg_Listeners = gw_Listeners g, cg_Labels = gw_Labels g, cg_Capacity = gw_Capacity g,
          cg_PortPool = gw_PortPool g, cg_Transport = gw_Transport g, cg_Obfuscation = ob,
          cg_Egress = gw_Egress g\<rparr>)"

definition checksum_agent :: "AgentSpec \<Rightarrow> ChecksumAgent" where
  "checksum_agent a = \<lparr>ca_NodeID = ag_NodeID a, ca_GatewayID = ag_GatewayID a,
     ca_GatewaySelector = ag_GatewaySelector a, ca_Proxies = ag_Proxies a, ca_Routes = ag_Routes a,
     ca_Limits = ag_Limits a, ca_Egress = ag_Egress a, ca_Logging = ag_Logging a\<rparr>"

definition checksum_service :: "Service \<Rightarrow> ChecksumService" where
  "checksum_service v = \<lparr>cs_ID = sv_ID v, cs_AgentID = sv_AgentID v, cs_Protocol = sv_Protocol v,
     cs_LocalTarget = sv_LocalTarget v, cs_PublicBind = sv_PublicBind v, cs_PublicPort = sv_PublicPort v,
     cs_GatewaySelector = sv_GatewaySelector v, cs_Enabled = sv_Enabled v\<rparr>"

definition checksum_assignment :: "Assignment \<Rightarrow> ChecksumAssignment result" where
  "checksum_assignment a =
     bind_result (wrap_error (''assignment '' @ as_ID a @ '' obfuscation: '')
         (checksumObfuscation (as_Obfuscation a)))
       (\<lambda>ob. Inr \<lparr>cas_ID = as_ID a, cas_GatewayID = as_GatewayID a, cas_AgentID = as_AgentID a,
          cas_ServiceIDs = as_ServiceIDs a, cas_Bindings = as_Bindings a,
          cas_Generation = as_Generation a, cas_State = as_State a,
          cas_PublicEndpoint = as_PublicEndpoint a, cas_Obfuscation = ob\<rparr>)"

definition checksum_gateway_opt :: "GatewaySpec option \<Rightarrow> ChecksumGateway option result" where
  "checksum_gateway_opt g = (case g of None \<Rightarrow> Inr None
     | Some v \<Rightarrow> bind_result (checksum_gateway v) (\<lambda>c. Inr (Some c)))"

definition ChecksumDocument_of :: "DesiredSnapshot \<Rightarrow> ChecksumDocument result" where
  "ChecksumDocument_of s =
     (let c = Normalize s
      in bind_result (checksum_gateway_opt (ds_Gateway c)) (\<lambda>g.
         bind_result (map_result checksum_assignment (ds_Assignments c)) (\<lambda>as.
         Inr \<lparr>cd_SchemaVersion = ds_SchemaVersion c, cd_NodeID = ds_NodeID c,
           cd_Generation = ds_Generation c, cd_Gateway = g,
           cd_Agent = map_option checksum_agent (ds_Agent c),
           cd_Services = map checksum_service (ds_Services c), cd_Assignments = as\<rparr>)))"

definition ComputeChecksum :: "go_env \<Rightarrow> DesiredSnapshot \<Rightarrow> string result" where
  "ComputeChecksum env s =
     bind_result (ChecksumDocument_of s) (\<lambda>d.
     bind_result (json_Marshal env d) (\<lambda>b. Inr (hex_encode (sha256 env b))))"

section \<open>Normalization\<close>

lemma map_sort_key_commute: "(\<And>x. f (g x) = f x) \<Longrightarrow> map g (sort_key f xs) = sort_key f (map g xs)"
proof (induction xs)
  case (Cons x xs)
  have "map g (insort_key f x ys) = insort_key f (g x) (map g ys)" for ys
    using Cons.prems by (induction ys) auto
  with Cons show ?case by simp
qed simp

lemma normalize_gateway_idem [simp]: "normalize_gateway (normalize_gateway g) = normalize_gateway g"
  by (simp add: normalize_gateway_def sort_egress_def)

lemma normalize_agent_idem [simp]: "normalize_agent (normalize_agent a) = normalize_agent a"
  by (simp add: normalize_agent_def sort_egress_def)

lemma normalize_assignment_idem [simp]:
  "normalize_assignment (normalize_assignment a) = normalize_assignment a"
  by (simp add: normalize_assignment_def)

lemma as_ID_normalize_assignment [simp]: "as_ID (normalize_assignment a) = as_ID a"
  by (simp add: normalize_assignment_def)

lemma Normalize_idem [simp]: "Normalize (Normalize s) = Normalize s"
proof -
  have "sort_key as_ID (map normalize_assignment (sort_key as_ID (map normalize_assignment xs))) =
      sort_key as_ID (map normalize_assignment xs)" for xs
    by (simp add: map_sort_key_commute o_def)
  then show ?thesis by (simp add: Normalize_def option.map_comp o_def)
qed

lemma Normalize_Checksum [simp]:
  "Normalize (s\<lparr>ds_Checksum := c\<rparr>) = (Normalize s)\<lparr>ds_Checksum := c\<rparr>"
  by (simp add: Normalize_def)

lemma ComputeChecksum_Checksum [simp]:
  "ComputeChecksum env (s\<lparr>ds_Checksum := c\<rparr>) = ComputeChecksum env s"
  by (simp add: ComputeChecksum_def ChecksumDocument_of_def Let_def)

lemma ComputeChecksum_Normalize [simp]: "ComputeChecksum env (Normalize s) = ComputeChecksum env s"
  by (simp add: ComputeChecksum_def ChecksumDocument_of_def)

lemma sort_key_perm:
  assumes "mset xs = mset ys" "distinct (map f xs)"
  shows "sort_key f xs = sort_key f ys"
proof (rule properties_for_sort_key)
  show "mset (sort_key f ys) = mset xs" using assms by simp
  fix k
  assume "k \<in> set (sort_key f ys)"
  have "length (filter (\<lambda>y. f k = f y) zs) \<le> 1" if "distinct (map f zs)" for zs
    using that by (induction zs) (auto simp: filter_empty_conv image_iff)
  then have len: "length (filter (\<lambda>y. f k = f y) xs) \<le> 1" using assms by simp
  have "mset (filter (\<lambda>y. f k = f y) (sort_key f ys)) = mset (filter (\<lambda>y. f k = f y) xs)"
    using assms by simp
  with len show "filter (\<lambda>y. f k = f y) (sort_key f ys) = filter (\<lambda>y. f k = f y) xs"
    by (cases "filter (\<lambda>y. f k = f y) xs") (auto simp del: mset_filter)
qed simp

section \<open>A sample snapshot\<close>

text \<open>A gateway with one listener that publishes one service of an agent: the concrete input of
  the examples.\<close>

definition no_egress :: EgressPolicy where
  "no_egress = \<lparr>eg_Enabled = False, eg_TCPPorts = [], eg_UDPPorts = [], eg_AllowCIDRs = [],
     eg_AllowSpecialCIDRs = [], eg_MaxConnections = 0\<rparr>"

definition sample_obfuscation :: ObfuscationPolicy where
  "sample_obfuscation = \<lparr>ob_Mode = ''camouflage'', ob_KeyCiphertext = [1, 2, 3],
     ob_PreviousKeyCiphertext = [], ob_KeyID = ''k1'', ob_PreviousKeyID = [], ob_Key = [],
     ob_PreviousKey = [], ob_MaxPaddingBytes = 64, ob_HandshakeShaping = True\<rparr>"

definition sample_gateway :: GatewaySpec where
  "sample_gateway = \<lparr>gw_NodeID = ''gw'', gw_PublicEndpoints = [''10.0.0.1:443''],
     gw_Listeners = [\<lparr>ls_Protocol = ''tcp'', ls_Bind = ''10.0.0.1'', ls_Port = 443, ls_Enabled = True\<rparr>],
     gw_Labels = [], gw_Capacity = \<lparr>cap_MaxAgents = 8, cap_MaxConnections = 8, cap_MaxServices = 8\<rparr>,
     gw_PortPool = \<lparr>pool_TCP = [PortRange 8000 8010], pool_UDP = []\<rparr>,
     gw_Transport = \<lparr>tp_ALPN = [], tp_MaxStreams = 16, tp_MaxFrameBytes = 4096,
       tp_MaxDatagramBytes = 1200, tp_HandshakeTimeoutSeconds = 5, tp_IdleTimeoutSeconds = 60\<rparr>,
     gw_Obfuscation = sample_obfuscation, gw_Egress = no_egress, gw_Revision = 3\<rparr>"

definition sample_service :: Service where
  "sample_service = \<lparr>sv_ID = ''web'', sv_AgentID = ''ag'', sv_Protocol = ''tcp'',
     sv_LocalTarget = ''127.0.0.1:80'', sv_PublicBind = ''10.0.0.1'', sv_PublicPort = 0,
     sv_GatewaySelector = [], sv_Enabled = True, sv_Revision = 2, sv_UpdatedAt = 5\<rparr>"

definition sample_assignment :: "string \<Rightarrow> u16 \<Rightarrow> Assignment" where
  "sample_assignment i port = \<lparr>as_ID = i, as_GatewayID = ''gw'', as_AgentID = ''ag'',
     as_ServiceIDs = [''web''],
     as_Bindings = [\<lparr>bd_ServiceID = ''web'', bd_Protocol = ''tcp'', bd_Bind = ''10.0.0.1'', bd_Port = port\<rparr>],
     as_Generation = 4, as_State = ''pending'', as_PublicEndpoint = [],
     as_Obfuscation = sample_obfuscation, as_Revision = 1, as_UpdatedAt = 6\<rparr>"

definition sample_snapshot :: "string \<Rightarrow> u16 \<Rightarrow> DesiredSnapshot" where
  "sample_snapshot i port = \<lparr>ds_SchemaVersion = 1, ds_NodeID = ''gw'', ds_Generation = 5,
     ds_Checksum = [], ds_Gateway = Some sample_gateway, ds_Agent = None,
     ds_Services = [sample_service\<lparr>sv_ID := ''api''\<rparr>, sample_service],
     ds_Assignments = [sample_assignment i port]\<rparr>"

lemmas sample_defs = no_egress_def sample_obfuscation_def sample_gateway_def sample_service_def
  sample_assignment_def sample_snapshot_def

lemma sample_checksum: "\<exists>c. ComputeChecksum plain_env (sample_snapshot i port) = Inr c"
  by (simp add: ComputeChecksum_def ChecksumDocument_of_def Normalize_def normalize_gateway_def
      normalize_assignment_def checksum_gateway_opt_def checksum_gateway_def checksumObfuscation_def
      checksum_assignment_def sample_defs)

text \<open>
  C24. Delivery order does not change a checksum: two snapshots with the same services and the
  same assignments, listed in any order, have the same checksum (or fail with the same error),
  for every digest function and every encoder.
\<close>

theorem ComputeChecksum_order_independent:
  assumes "mset ss' = mset (ds_Services s)" and "distinct (map sv_ID ss')"
    and "mset as' = mset (ds_Assignments s)" and "distinct (map as_ID as')"
  shows "ComputeChecksum env (s\<lparr>ds_Services := ss', ds_Assignments := as'\<rparr>) = ComputeChecksum env s"
proof -
  have "mset (map normalize_assignment as') = mset (map normalize_assignment (ds_Assignments s))"
    using assms(3) by simp
  moreover have "distinct (map as_ID (map normalize_assignment as'))"
    using assms(4) by (simp add: o_def)
  ultimately have "sort_key as_ID (map normalize_assignment as') =
      sort_key as_ID (map normalize_assignment (ds_Assignments s))"
    by (rule sort_key_perm)
  moreover have "sort_key sv_ID ss' = sort_key sv_ID (ds_Services s)"
    using assms by (intro sort_key_perm)
  ultimately have "Normalize (s\<lparr>ds_Services := ss', ds_Assignments := as'\<rparr>) = Normalize s"
    by (simp add: Normalize_def)
  then show ?thesis by (simp add: ComputeChecksum_def ChecksumDocument_of_def)
qed

theorem ComputeChecksum_order_independent_witness:
  "ComputeChecksum plain_env ((sample_snapshot ''a1'' 8000)\<lparr>
     ds_Services := rev (ds_Services (sample_snapshot ''a1'' 8000)),
     ds_Assignments := [sample_assignment ''a1'' 8000]\<rparr>)
   = ComputeChecksum plain_env (sample_snapshot ''a1'' 8000)"
  by (rule ComputeChecksum_order_independent) (simp_all add: sample_defs)

section \<open>What a checksum does not depend on\<close>

text \<open>
  A snapshot whose secrets and repository metadata are replaced: keys and ciphertexts by
  nothing, revisions by \<open>r\<close> and time stamps by \<open>t\<close>.
\<close>

definition redact_obfuscation :: "ObfuscationPolicy \<Rightarrow> ObfuscationPolicy" where
  "redact_obfuscation v = v\<lparr>ob_Key := [], ob_PreviousKey := [], ob_KeyCiphertext := [],
     ob_PreviousKeyCiphertext := []\<rparr>"

definition redact_gateway :: "int \<Rightarrow> GatewaySpec \<Rightarrow> GatewaySpec" where
  "redact_gateway r g = g\<lparr>gw_Revision := r, gw_Obfuscation := redact_obfuscation (gw_Obfuscation g)\<rparr>"

definition redact_agent :: "int \<Rightarrow> AgentSpec \<Rightarrow> AgentSpec" where
  "redact_agent r a = a\<lparr>ag_Revision := r\<rparr>"

definition redact_service :: "int \<Rightarrow> time \<Rightarrow> Service \<Rightarrow> Service" where
  "redact_service r t v = v\<lparr>sv_Revision := r, sv_UpdatedAt := t\<rparr>"

definition redact_assignment :: "int \<Rightarrow> time \<Rightarrow> Assignment \<Rightarrow> Assignment" where
  "redact_assignment r t a = a\<lparr>as_Revision := r, as_UpdatedAt := t,
     as_Obfuscation := redact_obfuscation (as_Obfuscation a)\<rparr>"

definition redact :: "int \<Rightarrow> time \<Rightarrow> DesiredSnapshot \<Rightarrow> DesiredSnapshot" where
  "redact r t s = s\<lparr>
     ds_Gateway := map_option (redact_gateway r) (ds_Gateway s),
     ds_Services := map (redact_service r t) (ds_Services s),
     ds_Agent := map_option (redact_agent r) (ds_Agent s),
     ds_Assignments := map (redact_assignment r t) (ds_Assignments s)\<rparr>"

lemma checksumObfuscation_redact:
  "checksumObfuscation v = Inr c \<Longrightarrow> checksumObfuscation (redact_obfuscation v) = Inr c"
  by (auto simp: checksumObfuscation_def redact_obfuscation_def Let_def split: if_splits)

lemma wrap_error_Inr [simp]: "wrap_error m r = Inr x \<longleftrightarrow> r = Inr x"
  by (cases r) auto

lemma map_result_mono:
  "map_result f xs = Inr ys \<Longrightarrow> (\<And>x y. f x = Inr y \<Longrightarrow> f (g x) = Inr y) \<Longrightarrow>
   map_result f (map g xs) = Inr ys"
  by (induction xs arbitrary: ys) fastforce+

lemma normalize_redact_parts:
  "normalize_gateway (redact_gateway r g) = redact_gateway r (normalize_gateway g)"
  "normalize_agent (redact_agent r a) = redact_agent r (normalize_agent a)"
  "normalize_assignment (redact_assignment r t b) = redact_assignment r t (normalize_assignment b)"
  by (cases g, simp add: normalize_gateway_def redact_gateway_def)
    (cases a, simp add: normalize_agent_def redact_agent_def,
     cases b, simp add: normalize_assignment_def redact_assignment_def)

lemma Normalize_redact: "Normalize (redact r t s) = redact r t (Normalize s)"
proof -
  have "map (redact_service r t) (sort_key sv_ID xs) = sort_key sv_ID (map (redact_service r t) xs)" for xs
    by (rule map_sort_key_commute) (simp add: redact_service_def)
  moreover have "map (redact_assignment r t) (sort_key as_ID xs) =
      sort_key as_ID (map (redact_assignment r t) xs)" for xs
    by (rule map_sort_key_commute) (simp add: redact_assignment_def)
  ultimately show ?thesis
    by (cases s) (simp add: Normalize_def redact_def normalize_redact_parts option.map_comp o_def)
qed

text \<open>
  Key material and repository metadata never reach the checksum: a snapshot that has a
  checksum keeps it when every key, ciphertext, revision and time stamp is replaced.
\<close>

theorem ComputeChecksum_redact:
  assumes "ComputeChecksum env s = Inr c"
  shows "ComputeChecksum env (redact r t s) = Inr c"
proof -
  obtain d where d: "ChecksumDocument_of s = Inr d"
    using assms by (auto simp: ComputeChecksum_def)
  have as: "map_result checksum_assignment (map (redact_assignment r t) xs) = Inr ys"
    if "map_result checksum_assignment xs = Inr ys" for xs ys
    using that by (rule map_result_mono)
      (auto simp: checksum_assignment_def redact_assignment_def dest: checksumObfuscation_redact)
  have parts: "checksum_agent (redact_agent r a) = checksum_agent a"
    "checksum_service (redact_service r t v) = checksum_service v" for a v
    by (simp_all add: checksum_agent_def redact_agent_def checksum_service_def redact_service_def)
  have "ChecksumDocument_of (redact r t s) = Inr d"
    unfolding ChecksumDocument_of_def Normalize_redact
    using d
    by (cases "ds_Gateway (Normalize s)")
      (auto simp: ChecksumDocument_of_def Let_def checksum_gateway_opt_def checksum_gateway_def as
        parts redact_def redact_gateway_def option.map_comp o_def dest: checksumObfuscation_redact)
  with d assms show ?thesis by (simp add: ComputeChecksum_def)
qed

theorem ComputeChecksum_redact_witness:
  "\<exists>c. ComputeChecksum plain_env (sample_snapshot ''a1'' 8000) = Inr c
     \<and> ComputeChecksum plain_env (redact 9 0 (sample_snapshot ''a1'' 8000)) = Inr c"
  using sample_checksum [of "''a1''" 8000] ComputeChecksum_redact by blast

end
