(* ===== verification/Domain_Validate.thy ===== *)
theory Domain_Validate
  imports Domain_Checksum
begin

text \<open>
  \<^verbatim>\<open>internal/domain/model_validation.go\<close>: the structural validation of gateway and agent
  specs, services, assignments, node specs and whole desired snapshots, with the error of every
  rejection, and \<^verbatim>\<open>WithChecksum\<close>. A Go map used as a set of seen keys is the list of the keys.
  \<^verbatim>\<open>%q\<close> only prints identifiers that were validated before, so quoting adds the quotes.
\<close>

section \<open>Gateway specs\<close>

definition at_index :: "string \<Rightarrow> nat \<Rightarrow> string \<Rightarrow> string" where
  "at_index name i suffix = name @ ''['' @ show_nat i @ '']'' @ suffix"

definition CurrentControlProtocolVersion :: u32 where
  "CurrentControlProtocolVersion = 1"

definition endpoint_check :: "nat \<Rightarrow> string \<Rightarrow> check" where
  "endpoint_check i e =
     map_option (\<lambda>err. ApplyError ''invalid_endpoint'' (at_index ''gateway.public_endpoints'' i []) (TextOf err) False)
       (validateEndpoint e)"

fun each_check :: "(nat \<Rightarrow> 'a \<Rightarrow> check) \<Rightarrow> nat \<Rightarrow> 'a list \<Rightarrow> check" where
  "each_check f i [] = None"
| "each_check f i (x # xs) = and_then (f i x) (each_check f (Suc i) xs)"

definition listener_check :: "nat \<Rightarrow> Listener \<Rightarrow> check" where
  "listener_check i l =
     map_option (\<lambda>err. ApplyError ''invalid_listener'' (at_index ''gateway.listeners'' i []) (TextOf err) False)
       (validateListener l)"

text \<open>
  The socket a listener or a binding occupies: protocol, address in canonical form, port. The
  code repeats the normalization of \<^verbatim>\<open>normalizedIP\<close> inline.
\<close>

definition listener_socket :: "Listener \<Rightarrow> string" where
  "listener_socket l = socketKey (ls_Protocol l) (normalizedIP (ls_Bind l)) (ls_Port l)"

definition binding_socket :: "Binding \<Rightarrow> string" where
  "binding_socket b = socketKey (bd_Protocol b) (normalizedIP (bd_Bind b)) (bd_Port b)"

definition ok_check :: "nat \<Rightarrow> 'a \<Rightarrow> check" where
  "ok_check i x = None"

definition transport_checks :: "TransportPolicy \<Rightarrow> check list" where
  "transport_checks t =
     [fail_if (tp_MaxStreams t < 0 \<or> tp_MaxFrameBytes t < 0 \<or> tp_MaxDatagramBytes t < 0
          \<or> tp_HandshakeTimeoutSeconds t < 0 \<or> tp_IdleTimeoutSeconds t < 0)
        (apply_error ''invalid_transport'' ''gateway.transport'' ''transport limits cannot be negative''),
      fail_if (tp_MaxStreams t > 2 ^ 20 \<or> tp_MaxFrameBytes t > 2 ^ 20 \<or> tp_MaxDatagramBytes t > 65536
          \<or> tp_HandshakeTimeoutSeconds t > 24 * 60 * 60 \<or> tp_IdleTimeoutSeconds t > 7 * 24 * 60 * 60)
        (apply_error ''invalid_transport'' ''gateway.transport'' ''transport limits exceed the supported maximum''),
      fail_if (tp_ALPN t \<noteq> [] \<and> tp_ALPN t \<noteq> DataALPN \<or> length (tp_ALPN t) > 255 \<or> containsControl (tp_ALPN t))
        (apply_error ''invalid_transport'' ''gateway.transport.alpn'' ''transport ALPN is invalid'')]"

definition GatewaySpec_Validate :: "go_env \<Rightarrow> GatewaySpec \<Rightarrow> check" where
  "GatewaySpec_Validate env g =
     all_checks (
       [ValidateID (gw_NodeID g) ''gateway.node_id'',
        fail_if (gw_PublicEndpoints g = [])
          (apply_error ''missing_endpoint'' ''gateway.public_endpoints'' ''at least one public endpoint is required''),
        each_check endpoint_check 0 (gw_PublicEndpoints g),
        fail_if (length (gw_PublicEndpoints g) > 64)
          (apply_error ''too_many_endpoints'' ''gateway.public_endpoints'' ''gateway has too many public endpoints''),
        each_unique ok_check trim_space
          (\<lambda>i. apply_error ''duplicate_endpoint'' ''gateway.public_endpoints'' ''gateway public endpoint is duplicated'')
          ok_check 0 [] (gw_PublicEndpoints g),
        validateLabels (gw_Labels g) ''gateway.labels'',
        fail_if (gw_Revision g < 0)
          (apply_error ''invalid_revision'' ''gateway.revision'' ''revision cannot be negative''),
        fail_if (length (pool_TCP (gw_PortPool g)) > 1024 \<or> length (pool_UDP (gw_PortPool g)) > 1024)
          (apply_error ''invalid_port_pool'' ''gateway.port_pool'' ''gateway has too many port ranges''),
        fail_if (length (gw_Listeners g) > 4096)
          (apply_error ''too_many_listeners'' ''gateway.listeners'' ''gateway has too many listeners''),
        each_unique listener_check listener_socket
          (\<lambda>i. apply_error ''duplicate_listener'' (at_index ''gateway.listeners'' i []) ''listener binding is duplicated'')
          ok_check 0 [] (gw_Listeners g),
        fail_if (cap_MaxAgents (gw_Capacity g) < 0 \<or> cap_MaxServices (gw_Capacity g) < 0
            \<or> cap_MaxConnections (gw_Capacity g) < 0)
          (apply_error ''invalid_capacity'' ''gateway.capacity'' ''capacity values cannot be negative''),
        fail_if (cap_MaxAgents (gw_Capacity g) > 2 ^ 20 \<or> cap_MaxServices (gw_Capacity g) > 2 ^ 20
            \<or> cap_MaxConnections (gw_Capacity g) > 2 ^ 20)
          (apply_error ''invalid_capacity'' ''gateway.capacity'' ''capacity values exceed the supported maximum''),
        PortPool_Validate env (gw_PortPool g)]
       @ transport_checks (gw_Transport g)
       @ [ObfuscationPolicy_Validate env (gw_Obfuscation g) ''gateway.obfuscation'',
          EgressPolicy_Validate (gw_Egress g) ''gateway.egress''])"

section \<open>Agent specs\<close>

definition invalid_proxy :: "nat \<Rightarrow> string \<Rightarrow> string \<Rightarrow> go_error" where
  "invalid_proxy i field msg = apply_error ''invalid_proxy'' (at_index ''agent.proxies'' i field) msg"

fun check_proxies :: "nat \<Rightarrow> string list \<Rightarrow> string list \<Rightarrow> ProxySpec list \<Rightarrow> check" where
  "check_proxies i seenProxies seenProxyBinds [] = None"
| "check_proxies i seenProxies seenProxyBinds (p # ps) =
     (if ValidateID (px_ID p) (at_index ''agent.proxies'' i ''.id'') \<noteq> None
         \<or> (px_Protocol p \<noteq> ''http'' \<and> px_Protocol p \<noteq> ''socks5'') then
        Some (invalid_proxy i [] ''proxy id and protocol are invalid'')
      else if px_ID p \<in> set seenProxies then
        Some (apply_error ''duplicate_proxy'' (at_index ''agent.proxies'' i ''.id'') ''proxy id is duplicated'')
      else if px_Bind p = [] then Some (invalid_proxy i ''.bind'' ''proxy bind is required'')
      else if validateHostPort (px_Bind p) \<noteq> None then
        Some (invalid_proxy i ''.bind'' ''proxy bind must be host:port'')
      else if px_Bind p \<in> set seenProxyBinds then
        Some (apply_error ''duplicate_proxy_bind'' (at_index ''agent.proxies'' i ''.bind'') ''proxy bind is duplicated'')
      else if px_Route p \<noteq> [] \<and> px_Route p \<noteq> ''direct'' \<and> px_Route p \<noteq> ''gateway'' then
        Some (invalid_proxy i ''.route'' ''proxy route must be direct or gateway'')
      else check_proxies (Suc i) (px_ID p # seenProxies) (px_Bind p # seenProxyBinds) ps)"

definition invalid_route :: "nat \<Rightarrow> string \<Rightarrow> string \<Rightarrow> go_error" where
  "invalid_route i field msg = apply_error ''invalid_route'' (at_index ''agent.routes'' i field) msg"

definition route_name_check :: "nat \<Rightarrow> RouteRule \<Rightarrow> check" where
  "route_name_check i r =
     map_option (\<lambda>err. ApplyError ''invalid_route'' (at_index ''agent.routes'' i ''.name'') (TextOf err) False)
       (ValidateID (rt_Name r) (at_index ''agent.routes'' i ''.name''))"

definition bad_domain :: "string \<Rightarrow> bool" where
  "bad_domain d \<longleftrightarrow> trim_space d = [] \<or> trim_space d \<noteq> d \<or> length d > 253 \<or> containsControl d
     \<or> contains_any d [CHR '' '', CHR 0x09]"

definition country_check :: "nat \<Rightarrow> string \<Rightarrow> check" where
  "country_check i raw =
     (let c = trim_space raw
      in if c \<noteq> to_lower c \<or> c = [] \<or> length c > 16 \<or> c \<noteq> trim_space c \<or> containsControl c then
           Some (invalid_route i ''.geoip'' ''route GeoIP code is invalid'')
         else if c \<noteq> ''private'' \<and> (length c \<noteq> 2 \<or> \<not> is_lower (c ! 0) \<or> \<not> is_lower (c ! 1)) then
           Some (invalid_route i ''.geoip'' ''route GeoIP code must be private or a two-letter ISO code'')
         else None)"

definition route_body_check :: "nat \<Rightarrow> RouteRule \<Rightarrow> check" where
  "route_body_check i r =
     all_checks (
       [fail_if (trim_space (rt_Destination r) = [] \<or> length (rt_Destination r) > 2048
            \<or> containsControl (rt_Destination r))
          (invalid_route i ''.destination'' ''route destination is invalid''),
        fail_if (rt_Destination r \<noteq> ''direct'' \<and> rt_Destination r \<noteq> ''gateway'')
          (invalid_route i ''.destination'' ''route destination must be direct or gateway''),
        fail_if (length (rt_CIDRs r) > 1024 \<or> length (rt_Domains r) > 1024 \<or> length (rt_GeoIP r) > 256)
          (invalid_route i [] ''route contains too many match entries''),
        fail_if (list_ex (\<lambda>c. parse_prefix (trim_space c) = None) (rt_CIDRs r))
          (invalid_route i ''.cidrs'' ''route CIDR is invalid''),
        fail_if (list_ex bad_domain (rt_Domains r))
          (invalid_route i ''.domains'' ''route domain is invalid'')]
       @ map (country_check i) (rt_GeoIP r))"

definition AgentSpec_Validate :: "AgentSpec \<Rightarrow> check" where
  "AgentSpec_Validate a =
     all_checks
       [ValidateID (ag_NodeID a) ''agent.node_id'',
        (if ag_GatewayID a = [] then None
         else and_then (ValidateID (ag_GatewayID a) ''agent.gateway_id'')
           (fail_if (ag_GatewayID a = ag_NodeID a)
             (apply_error ''invalid_gateway_binding'' ''agent.gateway_id'' ''agent cannot bind to itself''))),
        fail_if (al_MaxConnections (ag_Limits a) < 0 \<or> al_MaxStreams (ag_Limits a) < 0
            \<or> al_MaxBufferBytes (ag_Limits a) < 0)
          (apply_error ''invalid_limits'' ''agent.limits'' ''limit values cannot be negative''),
        fail_if (al_MaxConnections (ag_Limits a) > 2 ^ 20 \<or> al_MaxStreams (ag_Limits a) > 2 ^ 20
            \<or> al_MaxBufferBytes (ag_Limits a) > 2 ^ 26)
          (apply_error ''invalid_limits'' ''agent.limits'' ''agent limits exceed the supported maximum''),
        EgressPolicy_Validate (ag_Egress a) ''agent.egress'',
        fail_if (ag_Revision a < 0)
          (apply_error ''invalid_revision'' ''agent.revision'' ''revision cannot be negative''),
        Selector_Validate (ag_GatewaySelector a) ''agent.gateway_selector'',
        fail_if (length (ag_Proxies a) > 1024 \<or> length (ag_Routes a) > 4096)
          (apply_error ''agent_spec_too_large'' ''agent'' ''agent spec contains too many entries''),
        check_proxies 0 [] [] (ag_Proxies a),
        each_unique route_name_check rt_Name
          (\<lambda>i. apply_error ''duplicate_route'' (at_index ''agent.routes'' i ''.name'') ''route name is duplicated'')
          route_body_check 0 [] (ag_Routes a)]"

section \<open>Services and assignments\<close>

text \<open>
  \<^verbatim>\<open>net.ResolveTCPAddr\<close> on the joined literal address: no name is looked up, and the only
  failure is an address whose zone cannot be split off again.
\<close>

definition resolve_literal_fails :: "string \<Rightarrow> u16 \<Rightarrow> bool" where
  "resolve_literal_fails bind port \<longleftrightarrow>
     split_host_port (join_host_port bind (show_nat (unat port))) = None"

definition Service_Validate :: "Service \<Rightarrow> check" where
  "Service_Validate s =
     all_checks
       [ValidateID (sv_ID s) ''service.id'',
        ValidateID (sv_AgentID s) ''service.agent_id'',
        fail_if (sv_Revision s < 0)
          (apply_error ''invalid_revision'' ''service.revision'' ''revision cannot be negative''),
        fail_if (sv_Protocol s \<noteq> ProtocolTCP \<and> sv_Protocol s \<noteq> ProtocolUDP)
          (ErrNew ''service protocol must be tcp or udp''),
        Selector_Validate (sv_GatewaySelector s) ''service.gateway_selector'',
        fail_if (trim_space (sv_LocalTarget s) = []) (ErrNew ''service local_target is required''),
        fail_if (length (sv_LocalTarget s) > 2048 \<or> containsControl (sv_LocalTarget s))
          (ErrNew ''service local_target is invalid''),
        fail_if (trim_space (sv_PublicBind s) = []) (ErrNew ''service public_bind is required''),
        fail_if (sv_PublicBind s \<noteq> trim_space (sv_PublicBind s))
          (ErrNew ''service public_bind must not contain surrounding whitespace''),
        fail_if (parse_addr (sv_PublicBind s) = None) (ErrNew ''service public_bind must be an IP address''),
        fail_if (sv_PublicPort s \<noteq> 0 \<and> resolve_literal_fails (sv_PublicBind s) (sv_PublicPort s)
            \<and> sv_Protocol s = ProtocolTCP)
          (ErrWrap ''service public bind: '' (ErrStd ''net.ResolveTCPAddr'')),
        map_option (ErrWrap ''service local_target must be host:port: '') (validateHostPort (sv_LocalTarget s))]"

fun check_assignment_services :: "string list \<Rightarrow> string list \<Rightarrow> check" where
  "check_assignment_services seen [] = None"
| "check_assignment_services seen (i # is) =
     and_then (ValidateID i ''assignment.service_ids'')
       (if i \<in> set seen then Some (ErrNew ''assignment contains duplicate service ids'')
        else check_assignment_services (i # seen) is)"

definition binding_fields_check :: "Binding \<Rightarrow> check" where
  "binding_fields_check b =
     all_checks
       [ValidateID (bd_ServiceID b) ''assignment.binding.service_id'',
        fail_if (bd_Protocol b \<noteq> ProtocolTCP \<and> bd_Protocol b \<noteq> ProtocolUDP)
          (ErrNew ''assignment binding protocol must be tcp or udp''),
        fail_if (bd_Port b = 0) (ErrNew ''assignment binding port must be non-zero''),
        fail_if (bd_Bind b \<noteq> trim_space (bd_Bind b))
          (ErrNew ''assignment binding bind must not contain surrounding whitespace''),
        fail_if (parse_addr (bd_Bind b) = None) (ErrNew ''assignment binding bind must be an IP address'')]"

fun check_assignment_bindings :: "string list \<Rightarrow> string list \<Rightarrow> Binding list \<Rightarrow> check" where
  "check_assignment_bindings seenServices seen [] = None"
| "check_assignment_bindings seenServices seen (b # bs) =
     and_then (binding_fields_check b)
       (if bd_ServiceID b \<in> set seenServices then
          Some (ErrNew ''assignment contains multiple bindings for one service'')
        else if binding_socket b \<in> set seen then
          Some (ErrNew ''assignment contains duplicate public bindings'')
        else check_assignment_bindings (bd_ServiceID b # seenServices) (binding_socket b # seen) bs)"

definition Assignment_Validate :: "go_env \<Rightarrow> Assignment \<Rightarrow> check" where
  "Assignment_Validate env a =
     all_checks
       [ValidateID (as_ID a) ''assignment.id'',
        ValidateID (as_GatewayID a) ''assignment.gateway_id'',
        ValidateID (as_AgentID a) ''assignment.agent_id'',
        fail_if (as_Generation a = 0) (ErrNew ''assignment generation must be positive''),
        fail_if (as_State a \<noteq> [] \<and> as_State a \<noteq> AssignmentPending \<and> as_State a \<noteq> AssignmentApplied
            \<and> as_State a \<noteq> AssignmentDegraded \<and> as_State a \<noteq> AssignmentDraining)
          (apply_error ''invalid_assignment_state'' ''assignment.state'' ''assignment state is invalid''),
        (if as_PublicEndpoint a = [] then None
         else map_option (\<lambda>err. ApplyError ''invalid_endpoint'' ''assignment.public_endpoint'' (TextOf err) False)
           (validateEndpoint (as_PublicEndpoint a))),
        ObfuscationPolicy_Validate env (as_Obfuscation a) ''assignment.obfuscation'',
        fail_if (length (as_ServiceIDs a) > maxAssignmentServices \<or> length (as_Bindings a) > maxAssignmentBindings)
          (apply_error ''assignment_too_large'' [] ''assignment contains too many services or bindings''),
        check_assignment_services [] (as_ServiceIDs a),
        check_assignment_bindings [] [] (as_Bindings a)]"

section \<open>Node specs\<close>

definition NodeSpec_Validate :: "go_env \<Rightarrow> NodeSpec \<Rightarrow> check" where
  "NodeSpec_Validate env s =
     and_then (ValidateID (ns_NodeID s) ''node_spec.node_id'')
     (if ns_Kind s \<noteq> NodeSpecGateway \<and> ns_Kind s \<noteq> NodeSpecAgent then
        Some (apply_error ''invalid_spec_kind'' ''node_spec.kind'' ''node spec kind must be gateway or agent'')
      else if (ns_Gateway s = None) = (ns_Agent s = None) then
        Some (apply_error ''invalid_node_spec'' ''node_spec'' ''node spec must contain exactly one typed configuration'')
      else and_then
        (if ns_Kind s = NodeSpecGateway then
           (case ns_Gateway s of
              None \<Rightarrow> Some (apply_error ''invalid_node_spec'' ''node_spec.gateway'' ''gateway configuration is required'')
            | Some g \<Rightarrow> if gw_NodeID g \<noteq> ns_NodeID s then
                  Some (apply_error ''node_mismatch'' ''node_spec.gateway.node_id'' ''gateway spec node id does not match node spec'')
                else GatewaySpec_Validate env g)
         else
           (case ns_Agent s of
              None \<Rightarrow> Some (apply_error ''invalid_node_spec'' ''node_spec.agent'' ''agent configuration is required'')
            | Some a \<Rightarrow> if ag_NodeID a \<noteq> ns_NodeID s then
                  Some (apply_error ''node_mismatch'' ''node_spec.agent.node_id'' ''agent spec node id does not match node spec'')
                else AgentSpec_Validate a))
        (fail_if (ns_Revision s < 0)
          (apply_error ''invalid_revision'' ''node_spec.revision'' ''node spec revision cannot be negative'')))"

definition NewGatewayNodeSpec :: "GatewaySpec \<Rightarrow> NodeSpec" where
  "NewGatewayNodeSpec g = \<lparr>ns_NodeID = gw_NodeID g, ns_Kind = NodeSpecGateway, ns_Gateway = Some g,
     ns_Agent = None, ns_Revision = gw_Revision g, ns_UpdatedAt = 0\<rparr>"

definition NewAgentNodeSpec :: "AgentSpec \<Rightarrow> NodeSpec" where
  "NewAgentNodeSpec a = \<lparr>ns_NodeID = ag_NodeID a, ns_Kind = NodeSpecAgent, ns_Gateway = None,
     ns_Agent = Some a, ns_Revision = ag_Revision a, ns_UpdatedAt = 0\<rparr>"

section \<open>Desired snapshots\<close>

text \<open>The header of a snapshot: version, identity, size and the node spec it carries.\<close>

definition snapshot_header_checks :: "go_env \<Rightarrow> DesiredSnapshot \<Rightarrow> check list" where
  "snapshot_header_checks env s =
     [fail_if (ds_SchemaVersion s \<noteq> CurrentControlProtocolVersion)
        (apply_error ''unknown_schema'' ''schema_version''
          (''schema version '' @ show_nat (unat (ds_SchemaVersion s)) @ '' is unsupported'')),
      ValidateID (ds_NodeID s) ''node_id'',
      fail_if (ds_Generation s = 0)
        (apply_error ''invalid_generation'' ''generation'' ''generation must be positive''),
      fail_if (length (ds_Services s) > maxSnapshotServices \<or> length (ds_Assignments s) > maxSnapshotAssignments)
        (apply_error ''snapshot_too_large'' [] ''snapshot contains too many resources''),
      fail_if (ds_Gateway s \<noteq> None \<and> ds_Agent s \<noteq> None)
        (apply_error ''invalid_node_spec'' [] ''snapshot must contain at most one gateway or agent spec''),
      fail_if (ds_Gateway s = None \<and> ds_Agent s = None \<and> (ds_Services s \<noteq> [] \<or> ds_Assignments s \<noteq> []))
        (apply_error ''invalid_node_spec'' [] ''an unconfigured snapshot cannot contain services or assignments''),
      (case ds_Gateway s of None \<Rightarrow> None | Some g \<Rightarrow>
         if gw_NodeID g \<noteq> ds_NodeID s then
           Some (apply_error ''node_mismatch'' ''gateway.node_id'' ''gateway node id does not match snapshot'')
         else GatewaySpec_Validate env g),
      (case ds_Agent s of None \<Rightarrow> None | Some a \<Rightarrow>
         if ag_NodeID a \<noteq> ds_NodeID s then
           Some (apply_error ''node_mismatch'' ''agent.node_id'' ''agent node id does not match snapshot'')
         else AgentSpec_Validate a)]"

definition snapshot_service_check :: "nat \<Rightarrow> Service \<Rightarrow> check" where
  "snapshot_service_check i v =
     map_option (\<lambda>err. ApplyError ''invalid_service'' (at_index ''services'' i []) (TextOf err) False)
       (Service_Validate v)"

definition service_owner_check :: "DesiredSnapshot \<Rightarrow> nat \<Rightarrow> Service \<Rightarrow> check" where
  "service_owner_check s i v =
     fail_if (ds_Agent s \<noteq> None \<and> sv_AgentID v \<noteq> ds_NodeID s)
       (apply_error ''node_mismatch'' (at_index ''services'' i ''.agent_id'')
         ''agent snapshot may only contain services owned by its node'')"

definition snapshot_services_check :: "DesiredSnapshot \<Rightarrow> check" where
  "snapshot_services_check s =
     each_unique snapshot_service_check sv_ID
       (\<lambda>i. apply_error ''duplicate_service'' (at_index ''services'' i ''.id'') ''service id is duplicated'')
       (service_owner_check s) 0 [] (ds_Services s)"

text \<open>
  The maps \<^verbatim>\<open>serviceAgents\<close>, \<^verbatim>\<open>serviceProtocols\<close>, \<^verbatim>\<open>serviceBinds\<close> and \<^verbatim>\<open>servicePorts\<close> hold the
  fields of the service with that identifier.
\<close>

definition service_by_id :: "Service list \<Rightarrow> string \<Rightarrow> Service option" where
  "service_by_id ss i = map_of (map (\<lambda>v. (sv_ID v, v)) ss) i"

definition quoted :: "string \<Rightarrow> string" where
  "quoted s = [CHR 0x22] @ s @ [CHR 0x22]"

type_synonym owners = "string \<rightharpoonup> string"

fun check_service_refs :: "nat \<Rightarrow> Service list \<Rightarrow> Assignment \<Rightarrow> owners \<Rightarrow> string list \<Rightarrow> owners result" where
  "check_service_refs i ss a assignedServices [] = Inr assignedServices"
| "check_service_refs i ss a assignedServices (v # vs) =
     (case service_by_id ss v of
        None \<Rightarrow> Inl (apply_error ''unknown_service'' (at_index ''assignments'' i ''.service_ids'')
          (''service '' @ quoted v @ '' is not present in snapshot''))
      | Some svc \<Rightarrow>
          if sv_AgentID svc \<noteq> as_AgentID a then
            Inl (apply_error ''service_agent_mismatch'' (at_index ''assignments'' i ''.service_ids'')
              (''service '' @ quoted v @ '' belongs to another agent''))
          else if assignedServices v \<noteq> None \<and> assignedServices v \<noteq> Some (as_ID a) then
            Inl (apply_error ''resource_conflict'' (at_index ''assignments'' i ''.service_ids'')
              (''service '' @ quoted v @ '' is assigned more than once''))
          else check_service_refs i ss a (assignedServices(v \<mapsto> as_ID a)) vs)"

text \<open>The fields of the service a binding names; an absent service has the zero values.\<close>

definition binding_matches_check :: "nat \<Rightarrow> Service list \<Rightarrow> Binding \<Rightarrow> check" where
  "binding_matches_check i ss b =
     (let path = at_index ''assignments'' i ''.bindings'';
          svc = service_by_id ss (bd_ServiceID b);
          protocol = (case svc of None \<Rightarrow> [] | Some v \<Rightarrow> sv_Protocol v);
          bind = (case svc of None \<Rightarrow> [] | Some v \<Rightarrow> normalizedIP (sv_PublicBind v));
          port = (case svc of None \<Rightarrow> 0 | Some v \<Rightarrow> sv_PublicPort v)
      in all_checks
        [fail_if (protocol \<noteq> bd_Protocol b)
           (apply_error ''protocol_mismatch'' path
             (''binding protocol for service '' @ quoted (bd_ServiceID b) @ '' does not match the service'')),
         fail_if (bind \<noteq> normalizedIP (bd_Bind b))
           (apply_error ''bind_mismatch'' path
             (''binding address for service '' @ quoted (bd_ServiceID b) @ '' does not match the service public bind'')),
         fail_if (port \<noteq> 0 \<and> port \<noteq> bd_Port b)
           (apply_error ''port_mismatch'' path
             (''binding port for service '' @ quoted (bd_ServiceID b) @ '' does not match the service public port''))])"

fun check_binding_refs :: "nat \<Rightarrow> Service list \<Rightarrow> Assignment \<Rightarrow> owners \<Rightarrow> Binding list \<Rightarrow> owners result" where
  "check_binding_refs i ss a assignedBindings [] = Inr assignedBindings"
| "check_binding_refs i ss a assignedBindings (b # bs) =
     (if bd_ServiceID b \<notin> set (as_ServiceIDs a) then
        Inl (apply_error ''unknown_service'' (at_index ''assignments'' i ''.bindings'')
          (''binding references service '' @ quoted (bd_ServiceID b) @ '' outside service_ids''))
      else check_then (binding_matches_check i ss b)
        (if assignedBindings (binding_socket b) \<noteq> None
            \<and> assignedBindings (binding_socket b) \<noteq> Some (as_ID a) then
           Inl (apply_error ''resource_conflict'' (at_index ''assignments'' i ''.bindings'')
             ''public binding is duplicated across assignments'')
         else check_binding_refs i ss a (assignedBindings(binding_socket b \<mapsto> as_ID a)) bs))"

definition assignment_header_check :: "go_env \<Rightarrow> DesiredSnapshot \<Rightarrow> nat \<Rightarrow> string list \<Rightarrow> Assignment \<Rightarrow> check" where
  "assignment_header_check env s i seen a =
     all_checks
       [map_option (\<lambda>err. ApplyError ''invalid_assignment'' (at_index ''assignments'' i []) (TextOf err) False)
          (Assignment_Validate env a),
        fail_if (as_ID a \<in> set seen)
          (apply_error ''duplicate_assignment'' (at_index ''assignments'' i ''.id'') ''assignment id is duplicated''),
        fail_if (as_Generation a > ds_Generation s)
          (apply_error ''generation_mismatch'' (at_index ''assignments'' i ''.generation'')
            ''assignment generation cannot be newer than snapshot generation''),
        fail_if (ds_Gateway s \<noteq> None \<and> as_GatewayID a \<noteq> ds_NodeID s)
          (apply_error ''node_mismatch'' (at_index ''assignments'' i ''.gateway_id'')
            ''gateway snapshot contains an assignment for another gateway''),
        fail_if (ds_Agent s \<noteq> None \<and> as_AgentID a \<noteq> ds_NodeID s)
          (apply_error ''node_mismatch'' (at_index ''assignments'' i ''.agent_id'')
            ''agent snapshot contains an assignment for another agent'')]"

fun check_assignments ::
  "go_env \<Rightarrow> DesiredSnapshot \<Rightarrow> nat \<Rightarrow> string list \<Rightarrow> owners \<Rightarrow> owners \<Rightarrow> Assignment list \<Rightarrow> check" where
  "check_assignments env s i seen assignedServices assignedBindings [] = None"
| "check_assignments env s i seen assignedServices assignedBindings (a # as) =
     and_then (assignment_header_check env s i seen a)
       (case check_service_refs i (ds_Services s) a assignedServices (as_ServiceIDs a) of
          Inl e \<Rightarrow> Some e
        | Inr assignedServices' \<Rightarrow>
            (case check_binding_refs i (ds_Services s) a assignedBindings (as_Bindings a) of
               Inl e \<Rightarrow> Some e
             | Inr assignedBindings' \<Rightarrow>
                 check_assignments env s (Suc i) (as_ID a # seen) assignedServices' assignedBindings' as))"

text \<open>Listener sockets are reserved first, under the owner name \<^verbatim>\<open>"listener"\<close>.\<close>

definition listener_owners :: "DesiredSnapshot \<Rightarrow> owners" where
  "listener_owners s = (case ds_Gateway s of None \<Rightarrow> Map.empty
     | Some g \<Rightarrow> (\<lambda>k. if k \<in> listener_socket ` set (gw_Listeners g) then Some ''listener'' else None))"

definition checksum_check :: "go_env \<Rightarrow> DesiredSnapshot \<Rightarrow> check" where
  "checksum_check env s =
     (if ds_Checksum s = [] then None
      else case ComputeChecksum env s of
          Inl e \<Rightarrow> Some (ApplyError ''checksum_error'' [] (TextOf e) False)
        | Inr c \<Rightarrow> fail_if (\<not> equal_fold c (ds_Checksum s))
            (apply_error ''checksum_mismatch'' ''checksum'' ''snapshot checksum does not match its content''))"

definition DesiredSnapshot_Validate :: "go_env \<Rightarrow> DesiredSnapshot \<Rightarrow> check" where
  "DesiredSnapshot_Validate env s =
     all_checks (snapshot_header_checks env s
       @ [snapshot_services_check s,
          check_assignments env s 0 [] Map.empty (listener_owners s) (ds_Assignments s),
          checksum_check env s])"

definition WithChecksum :: "go_env \<Rightarrow> DesiredSnapshot \<Rightarrow> DesiredSnapshot result" where
  "WithChecksum env s0 =
     (let s = (Normalize s0)\<lparr>ds_Checksum := []\<rparr>
      in check_then (DesiredSnapshot_Validate env s)
        (bind_result (ComputeChecksum env s) (\<lambda>c. Inr (s\<lparr>ds_Checksum := c\<rparr>))))"

section \<open>Sockets\<close>

lemma split_at_first:
  assumes "xs @ c # ys = xs' @ c # ys'" "c \<notin> set xs" "c \<notin> set xs'"
  shows "xs = xs' \<and> ys = ys'"
proof -
  have "xs = xs'" using assms takeWhile_until by metis
  with assms show ?thesis by simp
qed

lemma show_nat_no_bar: "CHR ''|'' \<notin> set (show_nat n)"
  using show_nat_digits [of n] by (auto simp: list_all_iff char_class_defs)

text \<open>
  The string key of a socket identifies protocol, address and port although addresses are not
  escaped: the protocol is one of two words and the port has only digits.
\<close>

lemma socketKey_inj:
  assumes "socketKey p b n = socketKey p' b' n'" and "p \<in> {ProtocolTCP, ProtocolUDP}"
    and "p' \<in> {ProtocolTCP, ProtocolUDP}"
  shows "p = p' \<and> b = b' \<and> n = n'"
proof -
  have p: "p = p'" using assms by (auto simp: socketKey_def)
  with assms(1) have "b @ CHR ''|'' # show_nat (unat n) = b' @ CHR ''|'' # show_nat (unat n')"
    by (simp add: socketKey_def)
  then have "rev (show_nat (unat n)) @ CHR ''|'' # rev b = rev (show_nat (unat n')) @ CHR ''|'' # rev b'"
    by (metis rev_append rev.simps(2) append_assoc append_Cons append_Nil)
  then have "rev (show_nat (unat n)) = rev (show_nat (unat n'))" "rev b = rev b'"
    using show_nat_no_bar [of "unat n"] show_nat_no_bar [of "unat n'"]
      split_at_first by (metis set_rev)+
  moreover have "unat w < 2 ^ 64" for w :: u16
    by (rule order_less_trans [OF unsigned_less]) simp
  ultimately show ?thesis using p show_nat_inj by (auto simp: word_unat_eq_iff)
qed

type_synonym socket = "string \<times> string \<times> u16"

definition socket_of :: "Binding \<Rightarrow> socket" where
  "socket_of b = (bd_Protocol b, normalizedIP (bd_Bind b), bd_Port b)"

definition listener_socket_of :: "Listener \<Rightarrow> socket" where
  "listener_socket_of l = (ls_Protocol l, normalizedIP (ls_Bind l), ls_Port l)"

section \<open>What assignment validation establishes\<close>

lemma check_assignment_services_None:
  "check_assignment_services seen is = None \<Longrightarrow> distinct is \<and> set seen \<inter> set is = {}"
  by (induction seen "is" rule: check_assignment_services.induct) (auto split: if_splits)

lemma binding_fields_checkD:
  "binding_fields_check b = None \<Longrightarrow> bd_Protocol b \<in> {ProtocolTCP, ProtocolUDP} \<and> bd_Port b \<noteq> 0"
  by (auto simp: binding_fields_check_def)

lemma check_assignment_bindings_None:
  "check_assignment_bindings svs seen bs = None \<Longrightarrow>
     distinct (map bd_ServiceID bs) \<and> distinct (map binding_socket bs)
     \<and> set svs \<inter> bd_ServiceID ` set bs = {} \<and> set seen \<inter> binding_socket ` set bs = {}
     \<and> (\<forall>b\<in>set bs. bd_Protocol b \<in> {ProtocolTCP, ProtocolUDP} \<and> bd_Port b \<noteq> 0)"
  by (induction svs seen bs rule: check_assignment_bindings.induct)
    (auto split: if_splits dest: binding_fields_checkD)

lemma Assignment_ValidateD:
  assumes "Assignment_Validate env a = None"
  shows "distinct (as_ServiceIDs a)" "distinct (map binding_socket (as_Bindings a))"
    "\<forall>b\<in>set (as_Bindings a). bd_Protocol b \<in> {ProtocolTCP, ProtocolUDP} \<and> bd_Port b \<noteq> 0"
    "as_Generation a \<noteq> 0"
  using assms
  by (auto simp: Assignment_Validate_def dest!: check_assignment_services_None check_assignment_bindings_None)

section \<open>What snapshot validation establishes\<close>

lemma check_service_refs_Inr:
  "check_service_refs i ss a os vs = Inr os' \<Longrightarrow>
     os' = (\<lambda>k. if k \<in> set vs then Some (as_ID a) else os k)
     \<and> (\<forall>v\<in>set vs. (os v = None \<or> os v = Some (as_ID a))
          \<and> (\<exists>svc. service_by_id ss v = Some svc \<and> sv_AgentID svc = as_AgentID a))"
  by (induction i ss a os vs rule: check_service_refs.induct)
    (auto simp: fun_eq_iff split: option.splits if_splits)

lemma check_binding_refs_Inr:
  "check_binding_refs i ss a ob bs = Inr ob' \<Longrightarrow>
     ob' = (\<lambda>k. if k \<in> binding_socket ` set bs then Some (as_ID a) else ob k)
     \<and> (\<forall>b\<in>set bs. (ob (binding_socket b) = None \<or> ob (binding_socket b) = Some (as_ID a))
          \<and> bd_ServiceID b \<in> set (as_ServiceIDs a) \<and> binding_matches_check i ss b = None)"
  by (induction i ss a ob bs rule: check_binding_refs.induct)
    (auto simp: fun_eq_iff split: if_splits)

definition assignment_ok :: "go_env \<Rightarrow> DesiredSnapshot \<Rightarrow> Assignment \<Rightarrow> bool" where
  "assignment_ok env s a \<longleftrightarrow> Assignment_Validate env a = None \<and> as_Generation a \<le> ds_Generation s
     \<and> (ds_Gateway s \<noteq> None \<longrightarrow> as_GatewayID a = ds_NodeID s)
     \<and> (ds_Agent s \<noteq> None \<longrightarrow> as_AgentID a = ds_NodeID s)
     \<and> (\<forall>v\<in>set (as_ServiceIDs a). \<exists>svc. service_by_id (ds_Services s) v = Some svc \<and> sv_AgentID svc = as_AgentID a)
     \<and> (\<forall>b\<in>set (as_Bindings a). bd_ServiceID b \<in> set (as_ServiceIDs a)
          \<and> (\<exists>i. binding_matches_check i (ds_Services s) b = None))"

lemma assignment_header_checkD:
  assumes "assignment_header_check env s i seen a = None"
  shows "Assignment_Validate env a = None" "as_ID a \<notin> set seen" "as_Generation a \<le> ds_Generation s"
    "ds_Gateway s \<noteq> None \<Longrightarrow> as_GatewayID a = ds_NodeID s"
    "ds_Agent s \<noteq> None \<Longrightarrow> as_AgentID a = ds_NodeID s"
  using assms by (auto simp: assignment_header_check_def)

text \<open>
  A key is free for an assignment when nobody or the assignment itself owns it; a loop that
  succeeds claims pairwise distinct keys.
\<close>

definition claims_free :: "owners \<Rightarrow> (Assignment \<Rightarrow> string list) \<Rightarrow> Assignment list \<Rightarrow> bool" where
  "claims_free own keys as \<longleftrightarrow>
     (\<forall>a\<in>set as. \<forall>k\<in>set (keys a). own k = None \<or> own k = Some (as_ID a))"

lemma claims_free_Cons:
  assumes tail: "claims_free (\<lambda>k. if k \<in> set (keys a) then Some (as_ID a) else own k) keys as"
    and ids: "as_ID a \<notin> as_ID ` set as"
    and head: "\<forall>k\<in>set (keys a). own k = None \<or> own k = Some (as_ID a)" "distinct (keys a)"
    and dist: "distinct (concat (map keys as))"
  shows "claims_free own keys (a # as)" "distinct (concat (map keys (a # as)))"
proof -
  have apart: "k \<notin> set (keys a)" if "b \<in> set as" "k \<in> set (keys b)" for b k
    using tail ids that by (force simp: claims_free_def split: if_splits)
  show "claims_free own keys (a # as)"
    using tail head apart by (fastforce simp: claims_free_def)
  show "distinct (concat (map keys (a # as)))"
    using head(2) dist apart by auto
qed

lemma check_assignments_None:
  "check_assignments env s i seen os ob as = None \<Longrightarrow>
     distinct (map as_ID as) \<and> set seen \<inter> as_ID ` set as = {} \<and> (\<forall>a\<in>set as. assignment_ok env s a)
     \<and> claims_free os as_ServiceIDs as \<and> distinct (concat (map as_ServiceIDs as))
     \<and> claims_free ob (\<lambda>a. map binding_socket (as_Bindings a)) as
     \<and> distinct (concat (map (\<lambda>a. map binding_socket (as_Bindings a)) as))"
proof (induction as arbitrary: i seen os ob)
  case Nil
  then show ?case by (simp add: claims_free_def)
next
  case (Cons a as)
  let ?socks = "\<lambda>a. map binding_socket (as_Bindings a)"
  obtain os' ob' where hd: "assignment_header_check env s i seen a = None"
    and so: "check_service_refs i (ds_Services s) a os (as_ServiceIDs a) = Inr os'"
    and bo: "check_binding_refs i (ds_Services s) a ob (as_Bindings a) = Inr ob'"
    and tl: "check_assignments env s (Suc i) (as_ID a # seen) os' ob' as = None"
    using Cons.prems by (auto split: sum.splits)
  note h = assignment_header_checkD [OF hd] and v = Assignment_ValidateD [OF assignment_header_checkD(1) [OF hd]]
  note s = check_service_refs_Inr [OF so] and b = check_binding_refs_Inr [OF bo]
  note IH = Cons.IH [OF tl]
  have ob': "ob' = (\<lambda>k. if k \<in> set (?socks a) then Some (as_ID a) else ob k)"
    using b by simp
  have os': "os' = (\<lambda>k. if k \<in> set (as_ServiceIDs a) then Some (as_ID a) else os k)"
    using s by simp
  have "claims_free os as_ServiceIDs (a # as) \<and> distinct (concat (map as_ServiceIDs (a # as)))"
    using claims_free_Cons [of as_ServiceIDs a os as] IH s v unfolding os' by simp
  moreover have "claims_free ob ?socks (a # as) \<and> distinct (concat (map ?socks (a # as)))"
    using claims_free_Cons [of ?socks a ob as] IH b v unfolding ob' by simp
  moreover have "assignment_ok env s a"
    using h s b by (auto simp: assignment_ok_def)
  ultimately show ?case using IH h by auto
qed


lemma DesiredSnapshot_ValidateD:
  assumes "DesiredSnapshot_Validate env s = None"
  shows "distinct (map sv_ID (ds_Services s))"
    and "check_assignments env s 0 [] Map.empty (listener_owners s) (ds_Assignments s) = None"
proof -
  have v: "snapshot_services_check s = None"
    and c: "check_assignments env s 0 [] Map.empty (listener_owners s) (ds_Assignments s) = None"
    using assms by (simp_all add: DesiredSnapshot_Validate_def)
  from v show "distinct (map sv_ID (ds_Services s))"
    unfolding snapshot_services_check_def by (rule each_unique_distinct)
  show "check_assignments env s 0 [] Map.empty (listener_owners s) (ds_Assignments s) = None"
    by (rule c)
qed

lemma service_by_idD: "service_by_id ss i = Some v \<Longrightarrow> v \<in> set ss \<and> sv_ID v = i"
  by (auto simp: service_by_id_def dest!: map_of_SomeD)

lemma distinct_map_factor:
  "distinct (map f xs) \<Longrightarrow> (\<And>x y. x \<in> set xs \<Longrightarrow> y \<in> set xs \<Longrightarrow> g x = g y \<Longrightarrow> f x = f y) \<Longrightarrow>
   distinct (map g xs)"
  unfolding distinct_map inj_on_def by blast

definition snapshot_bindings :: "DesiredSnapshot \<Rightarrow> Binding list" where
  "snapshot_bindings s = concat (map as_Bindings (ds_Assignments s))"

text \<open>
  C2. In a snapshot that validates, every public socket (protocol, canonical address, port) is
  claimed by at most one binding over all assignments, and none of them is the socket of a
  gateway listener, unless the assignment itself is named \<^verbatim>\<open>listener\<close>.
\<close>

theorem snapshot_sockets_exclusive:
  assumes "DesiredSnapshot_Validate env s = None"
  shows "distinct (map socket_of (snapshot_bindings s))
    \<and> (\<forall>g a b l. ds_Gateway s = Some g \<and> l \<in> set (gw_Listeners g) \<and> a \<in> set (ds_Assignments s)
         \<and> b \<in> set (as_Bindings a) \<and> as_ID a \<noteq> ''listener'' \<longrightarrow> socket_of b \<noteq> listener_socket_of l)"
proof (intro conjI allI impI)
  note d = check_assignments_None [OF DesiredSnapshot_ValidateD(2) [OF assms]]
  have "map binding_socket (snapshot_bindings s) =
      concat (map (\<lambda>a. map binding_socket (as_Bindings a)) (ds_Assignments s))"
    by (simp add: snapshot_bindings_def map_concat o_def)
  with d have "distinct (map binding_socket (snapshot_bindings s))" by simp
  then show "distinct (map socket_of (snapshot_bindings s))"
    by (rule distinct_map_factor) (simp add: socket_of_def binding_socket_def)
next
  fix g a b l
  assume a: "ds_Gateway s = Some g \<and> l \<in> set (gw_Listeners g) \<and> a \<in> set (ds_Assignments s)
    \<and> b \<in> set (as_Bindings a) \<and> as_ID a \<noteq> ''listener''"
  then have "listener_owners s (binding_socket b) \<noteq> Some ''listener''"
    using check_assignments_None [OF DesiredSnapshot_ValidateD(2) [OF assms]]
    by (fastforce simp: claims_free_def)
  then have "binding_socket b \<noteq> listener_socket l"
    using a by (auto simp: listener_owners_def)
  then show "socket_of b \<noteq> listener_socket_of l"
    by (auto simp: socket_of_def listener_socket_of_def binding_socket_def listener_socket_def)
qed

text \<open>
  C23. In a snapshot that validates, every service identifier is assigned at most once, names a
  service of the snapshot that belongs to the assignment's agent, and each binding carries the
  protocol, the address and any fixed port of the service it publishes; no assignment is newer
  than the snapshot.
\<close>

theorem snapshot_assignments_consistent:
  assumes "DesiredSnapshot_Validate env s = None"
  shows "distinct (concat (map as_ServiceIDs (ds_Assignments s)))
    \<and> (\<forall>a\<in>set (ds_Assignments s). as_Generation a \<le> ds_Generation s
         \<and> (\<forall>i\<in>set (as_ServiceIDs a). \<exists>v\<in>set (ds_Services s). sv_ID v = i \<and> sv_AgentID v = as_AgentID a)
         \<and> (\<forall>b\<in>set (as_Bindings a). \<exists>v\<in>set (ds_Services s). sv_ID v = bd_ServiceID b
              \<and> sv_AgentID v = as_AgentID a \<and> sv_Protocol v = bd_Protocol b
              \<and> normalizedIP (sv_PublicBind v) = normalizedIP (bd_Bind b)
              \<and> (sv_PublicPort v = 0 \<or> sv_PublicPort v = bd_Port b)))"
proof (intro conjI ballI)
  note d = check_assignments_None [OF DesiredSnapshot_ValidateD(2) [OF assms]]
  show "distinct (concat (map as_ServiceIDs (ds_Assignments s)))" using d by simp
  fix a assume a: "a \<in> set (ds_Assignments s)"
  with d have ok: "assignment_ok env s a" by simp
  then show "as_Generation a \<le> ds_Generation s" by (simp add: assignment_ok_def)
  fix i assume "i \<in> set (as_ServiceIDs a)"
  with ok show "\<exists>v\<in>set (ds_Services s). sv_ID v = i \<and> sv_AgentID v = as_AgentID a"
    by (fastforce simp: assignment_ok_def dest: service_by_idD)
next
  fix a b
  assume "a \<in> set (ds_Assignments s)" and b: "b \<in> set (as_Bindings a)"
  then have ok: "assignment_ok env s a"
    using check_assignments_None [OF DesiredSnapshot_ValidateD(2) [OF assms]] by simp
  then obtain i v where "binding_matches_check i (ds_Services s) b = None"
    "service_by_id (ds_Services s) (bd_ServiceID b) = Some v" "sv_AgentID v = as_AgentID a"
    using b by (fastforce simp: assignment_ok_def)
  then show "\<exists>v\<in>set (ds_Services s). sv_ID v = bd_ServiceID b
      \<and> sv_AgentID v = as_AgentID a \<and> sv_Protocol v = bd_Protocol b
      \<and> normalizedIP (sv_PublicBind v) = normalizedIP (bd_Bind b)
      \<and> (sv_PublicPort v = 0 \<or> sv_PublicPort v = bd_Port b)"
    by (intro bexI [of _ v]) (auto simp: binding_matches_check_def Let_def dest: service_by_idD)
qed

lemma Validate_Checksum:
  assumes "DesiredSnapshot_Validate env (s\<lparr>ds_Checksum := []\<rparr>) = None"
    and "ComputeChecksum env s = Inr c"
  shows "DesiredSnapshot_Validate env (s\<lparr>ds_Checksum := c\<rparr>) = None"
proof -
  have "check_assignments env (s\<lparr>ds_Checksum := c\<rparr>) i seen os ob as =
      check_assignments env (s\<lparr>ds_Checksum := []\<rparr>) i seen os ob as" for i seen os ob as
    by (induction as arbitrary: i seen os ob)
      (simp_all add: assignment_header_check_def split: sum.split)
  then show ?thesis
    using assms
    by (simp add: DesiredSnapshot_Validate_def snapshot_header_checks_def snapshot_services_check_def
        service_owner_check_def [abs_def] listener_owners_def checksum_check_def
        cong: option.case_cong)
qed

lemma WithChecksum_facts:
  assumes "WithChecksum env s = Inr t"
  shows "DesiredSnapshot_Validate env t = None \<and> ComputeChecksum env t = Inr (ds_Checksum t)
    \<and> Normalize t = t \<and> ComputeChecksum env t = ComputeChecksum env s"
proof -
  let ?n = "(Normalize s)\<lparr>ds_Checksum := []\<rparr>"
  obtain c where v: "DesiredSnapshot_Validate env ?n = None" and c: "ComputeChecksum env (Normalize s) = Inr c"
    and t: "t = (Normalize s)\<lparr>ds_Checksum := c\<rparr>"
    using assms by (auto simp: WithChecksum_def Let_def simp del: ComputeChecksum_Normalize)
  from Validate_Checksum [OF v c] c t show ?thesis by simp
qed

text \<open>
  C22. \<^verbatim>\<open>WithChecksum\<close> repairs: what it returns is in canonical order, carries the checksum of
  its own content, and validates.
\<close>

theorem WithChecksum_validates:
  assumes "WithChecksum env s = Inr t"
  shows "DesiredSnapshot_Validate env t = None \<and> ComputeChecksum env t = Inr (ds_Checksum t)
    \<and> Normalize t = t \<and> ComputeChecksum env t = ComputeChecksum env s"
  using assms by (rule WithChecksum_facts)

section \<open>The sample snapshot validates\<close>

lemma sample_trims:
  "trim_space ''10.0.0.1'' = ''10.0.0.1''" "trim_space ''10.0.0.1:443'' = ''10.0.0.1:443''"
  "trim_space ''127.0.0.1:80'' = ''127.0.0.1:80''" "trim_space ''127.0.0.1'' = ''127.0.0.1''"
  "trim_space ''gateway.egress'' = ''gateway.egress''" "trim_space ''gw'' = ''gw''"
  "trim_space ''ag'' = ''ag''" "trim_space ''web'' = ''web''" "trim_space ''api'' = ''api''"
  by (simp_all add: trim_space_graphic char_class_defs)

lemma sample_hosts:
  "split_host_port ''10.0.0.1:443'' = Some (''10.0.0.1'', ''443'')"
  "split_host_port ''127.0.0.1:80'' = Some (''127.0.0.1'', ''80'')"
  "atoi ''443'' = (443, True)" "atoi ''80'' = (80, True)"
  "parse_addr ''10.0.0.1'' = Some (Addr4 0x0A000001)"
  by (simp_all add: split_host_port_def last_index_byte_def index_byte_def atoi_def int_limit_def parse_eval)

lemma sample_hostports:
  "validateHostPort ''10.0.0.1:443'' = None" "validateHostPort ''127.0.0.1:80'' = None"
  "normalizedIP ''10.0.0.1'' = ''10.0.0.1''"
  by (simp_all add: validateHostPort_def normalizedIP_def sample_hosts sample_trims containsControl_def
      contains_any_def parse_eval show4_def show_nat.simps digit_char_def char_of_def bit_0)

lemma sample_ids: "ValidateID ''gw'' p = None" "ValidateID ''ag'' p = None" "ValidateID ''web'' p = None"
   "ValidateID ''api'' p = None"
  by (simp_all add: ValidateID_def sample_trims id_char_def id_punct_def char_class_defs)


lemma plain_env_sel: "sha256 plain_env bs = replicate 32 (of_nat (length bs))" "range_keys plain_env = rev"
  by simp_all

lemma sample_parts:
  "Service_Validate sample_service = None" "Service_Validate (sample_service\<lparr>sv_ID := ''api''\<rparr>) = None"
  "ObfuscationPolicy_Validate plain_env sample_obfuscation p = None"
  "EgressPolicy_Validate no_egress ''gateway.egress'' = None"
  by (simp_all add: Service_Validate_def sample_defs sample_ids sample_trims sample_hosts
      sample_hostports Selector_Validate_def containsControl_def ObfuscationPolicy_Validate_def
      obf_key_check_def obf_id_check_def contains_any_def Let_def EgressPolicy_Validate_def
      validateEgressPortRanges_def)

lemma sample_gateway_valid: "GatewaySpec_Validate plain_env sample_gateway = None"
proof -
  have "validateEndpoint ''10.0.0.1:443'' = None"
    by (simp add: validateEndpoint_def sample_trims sample_hostports)
  moreover have "PortPool_Validate plain_env \<lparr>pool_TCP = [PortRange 8000 8010], pool_UDP = []\<rparr> = None"
    by (simp add: PortPool_Validate_def validate_ranges_def pool_ranges_def bad_range_def)
  ultimately show ?thesis
    by (simp add: GatewaySpec_Validate_def sample_gateway_def sample_ids endpoint_check_def ok_check_def
        validateLabels_def listener_check_def validateListener_def sample_trims sample_hosts
        transport_checks_def containsControl_def sample_parts)
qed

lemma sample_assignment_valid:
  "ValidateID i ''assignment.id'' = None \<Longrightarrow> port \<noteq> 0 \<Longrightarrow>
   Assignment_Validate plain_env (sample_assignment i port) = None"
  by (simp add: Assignment_Validate_def sample_assignment_def sample_ids sample_parts
      maxAssignmentServices_def maxAssignmentBindings_def binding_fields_check_def sample_trims sample_hosts)

lemma sample_snapshot_valid:
  assumes "ValidateID i ''assignment.id'' = None" "port \<noteq> 0" "port \<noteq> 443 \<or> i = ''listener''"
  shows "DesiredSnapshot_Validate plain_env (sample_snapshot i port) = None"
proof -
  let ?s = "sample_snapshot i port"
  have sock: "socketKey ''tcp'' ''10.0.0.1'' port = socketKey ''tcp'' ''10.0.0.1'' 443 \<longleftrightarrow> port = 443"
    using socketKey_inj [of "''tcp''" "''10.0.0.1''" port "''tcp''" "''10.0.0.1''" 443] by auto
  have "assignment_header_check plain_env ?s 0 [] (sample_assignment i port) = None"
    using sample_assignment_valid [OF assms(1,2)]
    by (simp add: assignment_header_check_def) (simp add: sample_snapshot_def sample_assignment_def)
  moreover have "check_service_refs 0 (ds_Services ?s) (sample_assignment i port) Map.empty [''web''] =
      Inr [''web'' \<mapsto> i]"
    by (simp add: sample_defs service_by_id_def)
  moreover have "\<exists>ob. check_binding_refs 0 (ds_Services ?s) (sample_assignment i port) (listener_owners ?s)
      (as_Bindings (sample_assignment i port)) = Inr ob"
    using assms(3)
    by (auto simp: sample_defs service_by_id_def binding_matches_check_def binding_socket_def
        listener_owners_def listener_socket_def sample_hostports sock)
  moreover have "ds_Assignments ?s = [sample_assignment i port]" "as_ServiceIDs (sample_assignment i port) = [''web'']"
    by (simp_all add: sample_snapshot_def sample_assignment_def)
  ultimately have "check_assignments plain_env ?s 0 [] Map.empty (listener_owners ?s) (ds_Assignments ?s) = None"
    by (auto simp del: check_service_refs.simps)
  moreover have "list_all (\<lambda>c. c = None) (snapshot_header_checks plain_env ?s)"
    by (simp add: snapshot_header_checks_def sample_snapshot_def sample_ids sample_gateway_valid
        CurrentControlProtocolVersion_def maxSnapshotServices_def maxSnapshotAssignments_def)
      (simp add: sample_gateway_def)
  moreover have "snapshot_services_check ?s = None" "checksum_check plain_env ?s = None"
    by (simp_all add: snapshot_services_check_def snapshot_service_check_def service_owner_check_def
        sample_snapshot_def sample_parts checksum_check_def) (simp add: sample_service_def)
  ultimately show ?thesis by (simp add: DesiredSnapshot_Validate_def list_all_iff)
qed


lemma sample_assignment_ids:
  "ValidateID ''a1'' p = None" "ValidateID ''listener'' p = None"
  by (simp_all add: ValidateID_def trim_space_graphic id_char_def id_punct_def char_class_defs)

lemma sample_valid: "DesiredSnapshot_Validate plain_env (sample_snapshot ''a1'' 8000) = None"
  by (rule sample_snapshot_valid) (simp_all add: sample_assignment_ids)

theorem snapshot_sockets_exclusive_witness:
  "DesiredSnapshot_Validate plain_env (sample_snapshot ''a1'' 8000) = None
   \<and> distinct (map socket_of (snapshot_bindings (sample_snapshot ''a1'' 8000)))"
  using snapshot_sockets_exclusive [OF sample_valid] sample_valid by blast

theorem snapshot_assignments_consistent_witness:
  "distinct (concat (map as_ServiceIDs (ds_Assignments (sample_snapshot ''a1'' 8000))))
   \<and> as_Generation (sample_assignment ''a1'' 8000) \<le> 5"
  using snapshot_assignments_consistent [OF sample_valid] by (simp add: sample_snapshot_def)

theorem WithChecksum_validates_witness:
  "\<exists>t. WithChecksum plain_env (sample_snapshot ''a1'' 8000) = Inr t
     \<and> DesiredSnapshot_Validate plain_env t = None"
proof -
  let ?s = "sample_snapshot ''a1'' 8000"
  have "Normalize ?s = ?s"
    by (simp add: Normalize_def normalize_gateway_def normalize_assignment_def sample_defs sort_egress_def)
  moreover have "?s\<lparr>ds_Checksum := []\<rparr> = ?s" by (simp add: sample_snapshot_def)
  ultimately obtain t where "WithChecksum plain_env ?s = Inr t"
    using sample_checksum [of "''a1''" 8000] sample_valid by (auto simp: WithChecksum_def)
  with WithChecksum_validates show ?thesis by blast
qed

text \<open>
  The reservation of listener sockets has a hole: an assignment whose identifier is the word
  \<^verbatim>\<open>listener\<close>, a legal identifier, passes validation with a binding on the very socket of a
  gateway listener, because the owner name of listeners is compared with assignment identifiers.
\<close>

theorem listener_named_assignment_conflict:
  "\<exists>s g l a b. DesiredSnapshot_Validate plain_env s = None \<and> ds_Gateway s = Some g
     \<and> l \<in> set (gw_Listeners g) \<and> a \<in> set (ds_Assignments s) \<and> b \<in> set (as_Bindings a)
     \<and> as_ID a = ''listener'' \<and> socket_of b = listener_socket_of l"
proof -
  let ?s = "sample_snapshot ''listener'' 443"
  let ?a = "sample_assignment ''listener'' 443"
  have "DesiredSnapshot_Validate plain_env ?s = None"
    by (rule sample_snapshot_valid) (simp_all add: sample_assignment_ids)
  moreover have "socket_of (hd (as_Bindings ?a)) = listener_socket_of (hd (gw_Listeners sample_gateway))"
    by (simp add: sample_assignment_def sample_gateway_def socket_of_def listener_socket_of_def)
  moreover have "ds_Gateway ?s = Some sample_gateway" "?a \<in> set (ds_Assignments ?s)"
    "hd (gw_Listeners sample_gateway) \<in> set (gw_Listeners sample_gateway)"
    "hd (as_Bindings ?a) \<in> set (as_Bindings ?a)" "as_ID ?a = ''listener''"
    by (simp_all add: sample_snapshot_def sample_gateway_def sample_assignment_def)
  ultimately show ?thesis by blast
qed

end
