(* ===== verification/Controller_Schedule.thy ===== *)
theory Controller_Schedule
  imports Domain_Validate "HOL-Library.Product_Lexorder"
begin

text \<open>
  \<^verbatim>\<open>internal/controller/scheduler_placement.go\<close> and \<^verbatim>\<open>scheduler_ports.go\<close>: the pure placement
  decision of the controller. \<open>Schedule\<close> orders the gateways, skips those that may not serve
  the agent, and allocates a public socket for every service on the first that can take them
  all. Sets of socket keys (\<^verbatim>\<open>map[string]struct{}\<close>) are sets; the clock is an argument.
\<close>

section \<open>Ports\<close>

record PortConflictError =
  pc_GatewayID :: string
  pc_Protocol :: string
  pc_Bind :: string
  pc_Port :: u16

text \<open>
  The errors of the scheduler and of the repository behind it: the two struct types the code
  asks for with \<^verbatim>\<open>errors.As\<close>, \<^verbatim>\<open>sql.ErrNoRows\<close>, and everything else.
\<close>

datatype sched_error =
    PortConflict PortConflictError
  | RevisionConflict string int int
  | ErrNoRows
  | Other go_error

abbreviation ErrNoHealthyGateway :: sched_error where
  "ErrNoHealthyGateway \<equiv> Other (Sentinel ''no healthy gateway satisfies the fixed binding, selector, and capacity constraints'')"

definition bindingKey :: "string \<Rightarrow> string \<Rightarrow> u16 \<Rightarrow> string" where
  "bindingKey protocol bind0 port =
     (let bind = trim_space bind0;
          bind = (case parse_addr bind of Some address \<Rightarrow> addr_string (unmap address) | None \<Rightarrow> bind)
      in protocol @ ''|'' @ bind @ ''|'' @ show_nat (unat port))"

definition normalizeBind :: "string \<Rightarrow> string" where
  "normalizeBind value0 =
     (let v = trim_space value0
      in case parse_addr v of Some address \<Rightarrow> addr_string (unmap address) | None \<Rightarrow> v)"

abbreviation key_of_binding :: "Binding \<Rightarrow> string" where
  "key_of_binding b \<equiv> bindingKey (bd_Protocol b) (bd_Bind b) (bd_Port b)"

definition portInPool :: "PortPool \<Rightarrow> string \<Rightarrow> u16 \<Rightarrow> bool" where
  "portInPool pool protocol port =
     (let ranges = (if protocol = ProtocolTCP then pool_TCP pool else pool_UDP pool)
      in if length ranges = 0 then True else list_ex (\<lambda>r. port \<ge> pr_Min r \<and> port \<le> pr_Max r) ranges)"

text \<open>The inner loop; its counter is 32 bits wide and the limit below \<^verbatim>\<open>1 << 16\<close>, so it does not wrap.\<close>

function scan_range :: "(u16 \<Rightarrow> bool) \<Rightarrow> nat \<Rightarrow> nat \<Rightarrow> u16 option" where
  "scan_range occupied port hi =
     (if port \<le> hi then
        if occupied (of_nat port) then scan_range occupied (Suc port) hi else Some (of_nat port)
      else None)"
  by auto

termination by (relation "measure (\<lambda>(_, port, hi). Suc hi - port)") auto

declare scan_range.simps [simp del]

fun scan_pool :: "(u16 \<Rightarrow> bool) \<Rightarrow> PortRange list \<Rightarrow> u16 option" where
  "scan_pool occupied [] = None"
| "scan_pool occupied (r # rs) =
     (case scan_range occupied (unat (pr_Min r)) (unat (pr_Max r)) of
        Some candidate \<Rightarrow> Some candidate
      | None \<Rightarrow> scan_pool occupied rs)"

definition allocatePort :: "PortPool \<Rightarrow> string \<Rightarrow> string \<Rightarrow> u16 \<Rightarrow> string set \<Rightarrow> sched_error + u16" where
  "allocatePort pool protocol bind requested used =
     (if requested \<noteq> 0 then
        if bindingKey protocol bind requested \<in> used then
          Inl (PortConflict \<lparr>pc_GatewayID = [], pc_Protocol = protocol, pc_Bind = bind, pc_Port = requested\<rparr>)
        else if \<not> portInPool pool protocol requested then
          Inl (Other (ErrNew (''requested port '' @ show_nat (unat requested) @ '' is not in gateway '' @ protocol @ '' port pool'')))
        else Inr requested
      else
        let ranges = (if protocol = ProtocolTCP then pool_TCP pool else pool_UDP pool)
        in case scan_pool (\<lambda>candidate. bindingKey protocol bind candidate \<in> used) ranges of
             Some candidate \<Rightarrow> Inr candidate
           | None \<Rightarrow> Inl (Other (ErrNew ''gateway port pool is exhausted'')))"

section \<open>Candidates\<close>

record GatewayCandidate =
  gc_Node :: Node
  gc_Spec :: GatewaySpec
  gc_Healthy :: bool
  gc_Assignments :: "Assignment list"
  gc_UsedBindings :: "string set"

record ScheduleRequest =
  rq_Agent :: Node
  rq_AgentSpec :: AgentSpec
  rq_Services :: "Service list"
  rq_Existing :: "Assignment option"
  rq_Generation :: u64

definition filterEnabledServices :: "Service list \<Rightarrow> Service list" where
  "filterEnabledServices vs = filter sv_Enabled vs"

definition relinquished :: "Assignment \<Rightarrow> bool" where
  "relinquished a \<longleftrightarrow> as_State a = AssignmentDegraded \<or> as_State a = AssignmentDraining"

definition activeAssignmentAgents :: "Assignment list \<Rightarrow> string set" where
  "activeAssignmentAgents vs = set (map as_AgentID (filter (\<lambda>a. \<not> relinquished a) vs))"

definition activeAssignmentServiceCount :: "Assignment list \<Rightarrow> nat" where
  "activeAssignmentServiceCount vs = sum_list (map (\<lambda>a. length (as_ServiceIDs a)) (filter (\<lambda>a. \<not> relinquished a) vs))"

text \<open>
  The comparison of \<^verbatim>\<open>sort.SliceStable\<close>: the gateway of the existing assignment first, then by
  load, then by identifier.
\<close>

definition candidate_load :: "GatewayCandidate \<Rightarrow> nat" where
  "candidate_load c = card (activeAssignmentAgents (gc_Assignments c)) * 1000 + activeAssignmentServiceCount (gc_Assignments c)"

definition candidate_rank :: "Assignment option \<Rightarrow> GatewayCandidate \<Rightarrow> bool \<times> nat \<times> string" where
  "candidate_rank existing c =
     (case existing of None \<Rightarrow> True | Some a \<Rightarrow> node_ID (gc_Node c) \<noteq> as_GatewayID a,
      candidate_load c, node_ID (gc_Node c))"

definition unusable_certificate :: "Node \<Rightarrow> bool" where
  "unusable_certificate n \<longleftrightarrow> node_CertificateState n = CertificateRevoked
     \<or> node_CertificateState n = CertificateExpired \<or> node_CertificateState n = CertificateDecommissioned"

definition candidate_skipped :: "ScheduleRequest \<Rightarrow> GatewayCandidate \<Rightarrow> bool" where
  "candidate_skipped req c \<longleftrightarrow>
     \<not> node_Enabled (gc_Node c) \<or> unusable_certificate (gc_Node c)
     \<or> node_SpecKind (gc_Node c) \<noteq> NodeSpecGateway \<or> \<not> gc_Healthy c
     \<or> (ag_GatewayID (rq_AgentSpec req) \<noteq> [] \<and> node_ID (gc_Node c) \<noteq> ag_GatewayID (rq_AgentSpec req))
     \<or> (ag_GatewayID (rq_AgentSpec req) = []
        \<and> \<not> Selector_Matches (ag_GatewaySelector (rq_AgentSpec req)) (node_Labels (gc_Node c)))"

text \<open>Does the existing assignment already live on this gateway?\<close>

definition own_assignment :: "ScheduleRequest \<Rightarrow> GatewayCandidate \<Rightarrow> Assignment option" where
  "own_assignment req c =
     (case rq_Existing req of
        Some a \<Rightarrow> if as_GatewayID a = node_ID (gc_Node c) \<and> as_AgentID a = node_ID (rq_Agent req) then Some a else None
      | None \<Rightarrow> None)"

text \<open>Occupancy as the request sees it: its own placement on the gateway does not count.\<close>

definition used_agents :: "ScheduleRequest \<Rightarrow> GatewayCandidate \<Rightarrow> nat" where
  "used_agents req c =
     (let n = card (activeAssignmentAgents (gc_Assignments c))
      in if own_assignment req c \<noteq> None \<and> n > 0 then n - 1 else n)"

definition used_services :: "ScheduleRequest \<Rightarrow> GatewayCandidate \<Rightarrow> nat" where
  "used_services req c =
     (let n = activeAssignmentServiceCount (gc_Assignments c)
      in case own_assignment req c of
           None \<Rightarrow> n
         | Some a \<Rightarrow> if n \<ge> length (as_ServiceIDs a) then n - length (as_ServiceIDs a) else 0)"

definition existing_bindings :: "ScheduleRequest \<Rightarrow> GatewayCandidate \<Rightarrow> string \<rightharpoonup> Binding" where
  "existing_bindings req c =
     (case own_assignment req c of
        None \<Rightarrow> Map.empty
      | Some a \<Rightarrow> fold (\<lambda>b m. m(bd_ServiceID b \<mapsto> b)) (as_Bindings a) Map.empty)"

definition over_capacity :: "ScheduleRequest \<Rightarrow> GatewayCandidate \<Rightarrow> bool" where
  "over_capacity req c \<longleftrightarrow>
     (cap_MaxAgents (gw_Capacity (gc_Spec c)) > 0 \<and> int (used_agents req c) \<ge> cap_MaxAgents (gw_Capacity (gc_Spec c)))
     \<or> (cap_MaxServices (gw_Capacity (gc_Spec c)) > 0
        \<and> int (used_services req c + length (rq_Services req)) > cap_MaxServices (gw_Capacity (gc_Spec c)))"

definition occupied_keys :: "ScheduleRequest \<Rightarrow> GatewayCandidate \<Rightarrow> string set" where
  "occupied_keys req c =
     (let used = (case own_assignment req c of
                    None \<Rightarrow> gc_UsedBindings c
                  | Some a \<Rightarrow> gc_UsedBindings c - set (map key_of_binding (as_Bindings a)))
      in used \<union> set (map key_of_binding (concat (map as_Bindings
           (filter (\<lambda>a. \<not> relinquished a \<and> \<not> (case rq_Existing req of None \<Rightarrow> False | Some x \<Rightarrow> as_ID a = as_ID x))
              (gc_Assignments c))))))"

section \<open>Placing the services on one gateway\<close>

text \<open>
  The loop over the services of one candidate: all placed, skip this candidate with what it
  contributes to \<^verbatim>\<open>explicitConflict\<close> and \<^verbatim>\<open>placementErr\<close>, or return at once.
\<close>

datatype placement =
    Placed "string list" "Binding list" string
  | Skipped "sched_error option" "sched_error option"
  | Aborted sched_error

text \<open>The port of the existing binding, when it still fits the service and is free; 0 otherwise.\<close>

definition sticky_port :: "(string \<rightharpoonup> Binding) \<Rightarrow> Service \<Rightarrow> string set \<Rightarrow> u16" where
  "sticky_port existing s used =
     (case existing (sv_ID s) of
        None \<Rightarrow> 0
      | Some b \<Rightarrow>
          if bd_Protocol b = sv_Protocol s \<and> normalizeBind (bd_Bind b) = normalizeBind (sv_PublicBind s)
             \<and> (sv_PublicPort s = 0 \<or> sv_PublicPort s = bd_Port b)
          then if key_of_binding b \<in> used then 0 else bd_Port b
          else 0)"

definition service_port :: "GatewayCandidate \<Rightarrow> (string \<rightharpoonup> Binding) \<Rightarrow> Service \<Rightarrow> string set \<Rightarrow> sched_error + u16" where
  "service_port c existing s used =
     (let port = sticky_port existing s used
      in if port = 0 then allocatePort (gw_PortPool (gc_Spec c)) (sv_Protocol s) (sv_PublicBind s) (sv_PublicPort s) used
         else Inr port)"

definition service_binding :: "Service \<Rightarrow> u16 \<Rightarrow> Binding" where
  "service_binding s port = \<lparr>bd_ServiceID = sv_ID s, bd_Protocol = sv_Protocol s, bd_Bind = sv_PublicBind s, bd_Port = port\<rparr>"

fun place_services ::
  "GatewayCandidate \<Rightarrow> (string \<rightharpoonup> Binding) \<Rightarrow> Service list \<Rightarrow> string set \<Rightarrow> string list \<Rightarrow> Binding list \<Rightarrow> string \<Rightarrow> placement" where
  "place_services c existing [] used ids bs endpoint = Placed ids bs endpoint"
| "place_services c existing (s # ss) used ids bs endpoint =
     (case Service_Validate s of
        Some e \<Rightarrow> Aborted (Other (ErrWrap (''service '' @ sv_ID s @ '': '') e))
      | None \<Rightarrow>
          if \<not> Selector_Matches (sv_GatewaySelector s) (node_Labels (gc_Node c)) then
            Skipped None (Some (Other (ErrNew (''gateway '' @ node_ID (gc_Node c) @ '' does not match service '' @ sv_ID s @ '' selector''))))
          else case service_port c existing s used of
              Inl (PortConflict x) \<Rightarrow>
                Skipped (if sv_PublicPort s \<noteq> 0
                         then Some (PortConflict (x\<lparr>pc_GatewayID := node_ID (gc_Node c), pc_Bind := sv_PublicBind s\<rparr>)) else None) None
            | Inl e \<Rightarrow> Skipped None (Some e)
            | Inr port \<Rightarrow>
                place_services c existing ss (insert (bindingKey (sv_Protocol s) (sv_PublicBind s) port) used)
                  (ids @ [sv_ID s]) (bs @ [service_binding s port])
                  (if endpoint = [] \<and> length (gw_PublicEndpoints (gc_Spec c)) > 0 then hd (gw_PublicEndpoints (gc_Spec c)) else endpoint))"

definition placed_assignment ::
  "time \<Rightarrow> ScheduleRequest \<Rightarrow> GatewayCandidate \<Rightarrow> string list \<Rightarrow> Binding list \<Rightarrow> string \<Rightarrow> Assignment" where
  "placed_assignment now req c ids bs endpoint =
     \<lparr>as_ID = (case own_assignment req c of Some a \<Rightarrow> as_ID a | None \<Rightarrow> node_ID (rq_Agent req) @ ''-'' @ node_ID (gc_Node c)),
      as_GatewayID = node_ID (gc_Node c), as_AgentID = node_ID (rq_Agent req), as_ServiceIDs = ids, as_Bindings = bs,
      as_Generation = rq_Generation req, as_State = AssignmentPending, as_PublicEndpoint = endpoint,
      as_Obfuscation = gw_Obfuscation (gc_Spec c), as_Revision = 0, as_UpdatedAt = now\<rparr>"

section \<open>Schedule\<close>

fun try_candidates ::
  "time \<Rightarrow> ScheduleRequest \<Rightarrow> GatewayCandidate list \<Rightarrow> sched_error option \<Rightarrow> sched_error option \<Rightarrow> sched_error + Assignment" where
  "try_candidates now req [] explicitConflict placementErr =
     (case explicitConflict of
        Some e \<Rightarrow> Inl e
      | None \<Rightarrow> (case placementErr of Some e \<Rightarrow> Inl e | None \<Rightarrow> Inl ErrNoHealthyGateway))"
| "try_candidates now req (c # cs) explicitConflict placementErr =
     (if candidate_skipped req c \<or> over_capacity req c then try_candidates now req cs explicitConflict placementErr
      else case place_services c (existing_bindings req c) (rq_Services req) (occupied_keys req c) [] [] [] of
          Placed ids bs endpoint \<Rightarrow> Inr (placed_assignment now req c ids bs endpoint)
        | Aborted e \<Rightarrow> Inl e
        | Skipped conflict e \<Rightarrow>
            try_candidates now req cs
              (case conflict of Some x \<Rightarrow> Some x | None \<Rightarrow> explicitConflict)
              (case placementErr of Some x \<Rightarrow> Some x | None \<Rightarrow> e))"

fun check_request_services :: "string \<Rightarrow> string list \<Rightarrow> Service list \<Rightarrow> check" where
  "check_request_services agent seen [] = None"
| "check_request_services agent seen (s # ss) =
     (if sv_ID s \<in> set seen then Some (ErrNew (''service '' @ sv_ID s @ '' is duplicated''))
      else if sv_AgentID s \<noteq> agent then Some (ErrNew (''service '' @ sv_ID s @ '' belongs to another agent''))
      else check_request_services agent (sv_ID s # seen) ss)"

definition forget_relinquished :: "ScheduleRequest \<Rightarrow> ScheduleRequest" where
  "forget_relinquished req =
     (case rq_Existing req of
        Some a \<Rightarrow> if relinquished a then req\<lparr>rq_Existing := None\<rparr> else req
      | None \<Rightarrow> req)"

definition request_spec :: "ScheduleRequest \<Rightarrow> AgentSpec" where
  "request_spec req =
     (if ag_NodeID (rq_AgentSpec req) = [] then (rq_AgentSpec req)\<lparr>ag_NodeID := node_ID (rq_Agent req)\<rparr> else rq_AgentSpec req)"

definition Schedule :: "time \<Rightarrow> ScheduleRequest \<Rightarrow> GatewayCandidate list \<Rightarrow> sched_error + Assignment" where
  "Schedule now req0 candidates =
     (case ValidateID (node_ID (rq_Agent req0)) ''agent.id'' of
        Some e \<Rightarrow> Inl (Other e)
      | None \<Rightarrow>
        if rq_Generation req0 = 0 then Inl (Other (ErrNew ''agent and positive generation are required''))
        else
          let spec = request_spec req0; req1 = req0\<lparr>rq_AgentSpec := spec\<rparr>
          in case AgentSpec_Validate spec of
               Some e \<Rightarrow> Inl (Other e)
             | None \<Rightarrow>
               if ag_NodeID spec \<noteq> node_ID (rq_Agent req1) then Inl (Other (ErrNew ''agent spec does not belong to agent''))
               else if length (rq_Services req1) = 0 then Inl (Other (ErrNew ''at least one service is required''))
               else
                 let req = forget_relinquished req1
                 in case check_request_services (node_ID (rq_Agent req)) [] (rq_Services req) of
                      Some e \<Rightarrow> Inl (Other e)
                    | None \<Rightarrow> try_candidates now req (sort_key (candidate_rank (rq_Existing req)) candidates) None None)"

section \<open>Comparing placements\<close>

definition sameObfuscationPolicy :: "ObfuscationPolicy \<Rightarrow> ObfuscationPolicy \<Rightarrow> bool" where
  "sameObfuscationPolicy left right =
     (let leftMode = (if ob_Mode left = [] then ''standard'' else ob_Mode left);
          rightMode = (if ob_Mode right = [] then ''standard'' else ob_Mode right)
      in leftMode = rightMode \<and> ob_KeyID left = ob_KeyID right \<and> ob_PreviousKeyID left = ob_PreviousKeyID right
         \<and> ob_MaxPaddingBytes left = ob_MaxPaddingBytes right \<and> ob_HandshakeShaping left = ob_HandshakeShaping right)"

definition same_binding :: "Binding \<Rightarrow> Binding \<Rightarrow> bool" where
  "same_binding l r \<longleftrightarrow> bd_ServiceID l = bd_ServiceID r \<and> bd_Protocol l = bd_Protocol r
     \<and> normalizeBind (bd_Bind l) = normalizeBind (bd_Bind r) \<and> bd_Port l = bd_Port r"

definition sameAssignmentPlacement :: "Assignment \<Rightarrow> Assignment \<Rightarrow> bool" where
  "sameAssignmentPlacement left right \<longleftrightarrow>
     as_ID left = as_ID right \<and> as_GatewayID left = as_GatewayID right \<and> as_AgentID left = as_AgentID right
     \<and> as_PublicEndpoint left = as_PublicEndpoint right
     \<and> sameObfuscationPolicy (as_Obfuscation left) (as_Obfuscation right)
     \<and> length (as_ServiceIDs left) = length (as_ServiceIDs right)
     \<and> length (as_Bindings left) = length (as_Bindings right)
     \<and> sort (as_ServiceIDs left) = sort (as_ServiceIDs right)
     \<and> list_all2 same_binding (sort_key key_of_binding (as_Bindings left)) (sort_key key_of_binding (as_Bindings right))"

section \<open>Ports are allocated from the pool\<close>

lemma bindingKey_alt: "bindingKey p b n = p @ ''|'' @ normalizeBind b @ ''|'' @ show_nat (unat n)"
  by (simp add: bindingKey_def normalizeBind_def Let_def)

lemma bindingKey_socketKey: "bindingKey p b n = socketKey p (normalizedIP b) n"
  by (simp add: bindingKey_def socketKey_def normalizedIP_def Let_def)

lemma scan_range_Some:
  "scan_range occ lo hi = Some p \<Longrightarrow> \<exists>k. p = of_nat k \<and> lo \<le> k \<and> k \<le> hi \<and> \<not> occ p \<and> (\<forall>j. lo \<le> j \<longrightarrow> j < k \<longrightarrow> occ (of_nat j))"
proof (induction occ lo hi rule: scan_range.induct)
  case (1 occ port hi)
  show ?case
  proof (cases "port \<le> hi \<and> occ (of_nat port)")
    case True
    with 1 obtain k where k: "p = of_nat k" "Suc port \<le> k" "k \<le> hi" "\<not> occ p" "\<forall>j. Suc port \<le> j \<longrightarrow> j < k \<longrightarrow> occ (of_nat j)"
      by (subst (asm) (2) scan_range.simps) auto
    with True show ?thesis by (intro exI [of _ k]) (auto simp: Suc_le_eq dest: le_neq_implies_less)
  next
    case False
    with 1(2) have "p = of_nat port" "port \<le> hi" "\<not> occ (of_nat port)"
      by (subst (asm) scan_range.simps; auto split: if_splits)+
    then show ?thesis by (intro exI [of _ port]) auto
  qed
qed

lemma scan_range_None: "scan_range occ lo hi = None \<longleftrightarrow> (\<forall>k. lo \<le> k \<longrightarrow> k \<le> hi \<longrightarrow> occ (of_nat k))"
proof (induction occ lo hi rule: scan_range.induct)
  case (1 occ port hi)
  have "(\<forall>k. port \<le> k \<longrightarrow> k \<le> hi \<longrightarrow> occ (of_nat k)) \<longleftrightarrow>
      (port \<le> hi \<longrightarrow> occ (of_nat port) \<and> (\<forall>k. Suc port \<le> k \<longrightarrow> k \<le> hi \<longrightarrow> occ (of_nat k)))"
    by (auto simp: Suc_le_eq dest: le_neq_implies_less)
  with 1 show ?case by (subst scan_range.simps) auto
qed

text \<open>A port of a range, by its 16-bit comparison.\<close>

lemma range_port:
  assumes "unat (pr_Min r) \<le> k" "k \<le> unat (pr_Max r)"
  shows "(pr_Min r :: u16) \<le> of_nat k" "of_nat k \<le> pr_Max r"
proof -
  have "k < 65536" using assms(2) unsigned_less [of "pr_Max r", where ?'a = nat] by simp
  then have "unat (of_nat k :: u16) = k" by (simp add: unat_of_nat)
  with assms show "(pr_Min r :: u16) \<le> of_nat k" "of_nat k \<le> pr_Max r" by (simp_all add: word_le_nat_alt)
qed

lemma scan_pool_Some:
  "scan_pool occ rs = Some p \<Longrightarrow> \<not> occ p \<and> (\<exists>r\<in>set rs. pr_Min r \<le> p \<and> p \<le> pr_Max r)"
  by (induction rs) (auto split: option.splits dest!: scan_range_Some intro: range_port)

lemma scan_pool_None:
  "scan_pool occ rs = None \<longleftrightarrow> (\<forall>r\<in>set rs. \<forall>p. pr_Min r \<le> p \<longrightarrow> p \<le> pr_Max r \<longrightarrow> occ p)"
proof -
  have "scan_range occ (unat (pr_Min r)) (unat (pr_Max r)) = None \<longleftrightarrow> (\<forall>p. pr_Min r \<le> p \<longrightarrow> p \<le> pr_Max r \<longrightarrow> occ p)" for r
    unfolding scan_range_None
  proof (intro iffI allI impI)
    fix p assume "\<forall>k. unat (pr_Min r) \<le> k \<longrightarrow> k \<le> unat (pr_Max r) \<longrightarrow> occ (of_nat k)" "pr_Min r \<le> p" "p \<le> pr_Max r"
    then show "occ p" by (metis word_le_nat_alt of_nat_unat ucast_id)
  qed (use range_port in blast)
  then show ?thesis by (induction rs) (auto split: option.splits simp: not_None_eq [symmetric] simp del: not_None_eq)
qed

lemma allocatePort_Inr:
  assumes "allocatePort pool protocol bind requested used = Inr p"
  shows "bindingKey protocol bind p \<notin> used" "portInPool pool protocol p" "requested \<noteq> 0 \<longrightarrow> p = requested"
proof -
  have scan: "requested = 0 \<Longrightarrow> scan_pool (\<lambda>c. bindingKey protocol bind c \<in> used) (if protocol = ProtocolTCP then pool_TCP pool else pool_UDP pool) = Some p"
    using assms by (auto simp: allocatePort_def Let_def split: option.splits if_splits)
  show "bindingKey protocol bind p \<notin> used" "requested \<noteq> 0 \<longrightarrow> p = requested"
    using assms scan_pool_Some [OF scan] by (auto simp: allocatePort_def split: if_splits)
  show "portInPool pool protocol p"
  proof (cases "requested = 0")
    case True
    from scan_pool_Some [OF scan [OF this]] show ?thesis by (auto simp: portInPool_def list_ex_iff Let_def)
  qed (use assms in \<open>auto simp: allocatePort_def split: if_splits\<close>)
qed

text \<open>
  Automatic allocation is complete: it fails only when every port of the pool's ranges for
  the protocol is taken on that bind address; otherwise it returns a free port of the pool. A
  requested port is honoured exactly when it is free and in the pool.
\<close>

theorem allocatePort_complete:
  "(allocatePort pool protocol bind 0 used = Inl (Other (ErrNew ''gateway port pool is exhausted'')) \<longleftrightarrow>
      (\<forall>r \<in> set (pool_ranges pool protocol). \<forall>p. pr_Min r \<le> p \<longrightarrow> p \<le> pr_Max r \<longrightarrow> bindingKey protocol bind p \<in> used))
   \<and> (requested \<noteq> 0 \<longrightarrow> (allocatePort pool protocol bind requested used = Inr requested \<longleftrightarrow>
      bindingKey protocol bind requested \<notin> used \<and> portInPool pool protocol requested))"
proof
  show "allocatePort pool protocol bind 0 used = Inl (Other (ErrNew ''gateway port pool is exhausted'')) \<longleftrightarrow>
      (\<forall>r \<in> set (pool_ranges pool protocol). \<forall>p. pr_Min r \<le> p \<longrightarrow> p \<le> pr_Max r \<longrightarrow> bindingKey protocol bind p \<in> used)"
    unfolding scan_pool_None [symmetric] pool_ranges_def by (simp add: allocatePort_def Let_def split: option.split)
  show "requested \<noteq> 0 \<longrightarrow> (allocatePort pool protocol bind requested used = Inr requested \<longleftrightarrow>
      bindingKey protocol bind requested \<notin> used \<and> portInPool pool protocol requested)"
    by (simp add: allocatePort_def)
qed

section \<open>One gateway\<close>

lemma service_port_Inr:
  assumes "service_port c m s used = Inr p"
  shows "bindingKey (sv_Protocol s) (sv_PublicBind s) p \<notin> used" "sv_PublicPort s \<noteq> 0 \<longrightarrow> p = sv_PublicPort s"
    "portInPool (gw_PortPool (gc_Spec c)) (sv_Protocol s) p \<or> (p \<noteq> 0 \<and> (\<exists>b. m (sv_ID s) = Some b \<and> bd_Port b = p))"
proof -
  consider (pool) "allocatePort (gw_PortPool (gc_Spec c)) (sv_Protocol s) (sv_PublicBind s) (sv_PublicPort s) used = Inr p"
    | (sticky) b where "m (sv_ID s) = Some b" "p = bd_Port b" "p \<noteq> 0" "bd_Protocol b = sv_Protocol s"
      "normalizeBind (bd_Bind b) = normalizeBind (sv_PublicBind s)" "sv_PublicPort s = 0 \<or> sv_PublicPort s = bd_Port b"
      "key_of_binding b \<notin> used"
    using assms by (fastforce simp: service_port_def sticky_port_def Let_def split: if_splits option.splits)
  then have "bindingKey (sv_Protocol s) (sv_PublicBind s) p \<notin> used \<and> (sv_PublicPort s \<noteq> 0 \<longrightarrow> p = sv_PublicPort s)
    \<and> (portInPool (gw_PortPool (gc_Spec c)) (sv_Protocol s) p \<or> (p \<noteq> 0 \<and> (\<exists>b. m (sv_ID s) = Some b \<and> bd_Port b = p)))"
    by cases (auto simp: bindingKey_alt dest: allocatePort_Inr)
  then show "bindingKey (sv_Protocol s) (sv_PublicBind s) p \<notin> used" "sv_PublicPort s \<noteq> 0 \<longrightarrow> p = sv_PublicPort s"
    "portInPool (gw_PortPool (gc_Spec c)) (sv_Protocol s) p \<or> (p \<noteq> 0 \<and> (\<exists>b. m (sv_ID s) = Some b \<and> bd_Port b = p))" by auto
qed

lemma place_services_Cons:
  "place_services c m (s # ss) used ids bs ep = Placed ids' bs' ep' \<longleftrightarrow>
     Service_Validate s = None \<and> Selector_Matches (sv_GatewaySelector s) (node_Labels (gc_Node c))
     \<and> (\<exists>port. service_port c m s used = Inr port
         \<and> place_services c m ss (insert (bindingKey (sv_Protocol s) (sv_PublicBind s) port) used)
             (ids @ [sv_ID s]) (bs @ [service_binding s port])
             (if ep = [] \<and> length (gw_PublicEndpoints (gc_Spec c)) > 0 then hd (gw_PublicEndpoints (gc_Spec c)) else ep)
           = Placed ids' bs' ep')"
  by (simp split: option.split sum.split sched_error.split)

definition serves :: "GatewayCandidate \<Rightarrow> (string \<rightharpoonup> Binding) \<Rightarrow> Service \<Rightarrow> Binding \<Rightarrow> bool" where
  "serves c m s b \<longleftrightarrow> b = service_binding s (bd_Port b) \<and> Service_Validate s = None
     \<and> Selector_Matches (sv_GatewaySelector s) (node_Labels (gc_Node c))
     \<and> (sv_PublicPort s \<noteq> 0 \<longrightarrow> bd_Port b = sv_PublicPort s)
     \<and> (portInPool (gw_PortPool (gc_Spec c)) (sv_Protocol s) (bd_Port b)
        \<or> (bd_Port b \<noteq> 0 \<and> (\<exists>x. m (sv_ID s) = Some x \<and> bd_Port x = bd_Port b)))"

lemma service_binding_fields [simp]:
  "bd_ServiceID (service_binding s p) = sv_ID s" "bd_Protocol (service_binding s p) = sv_Protocol s"
  "bd_Bind (service_binding s p) = sv_PublicBind s" "bd_Port (service_binding s p) = p"
  by (simp_all add: service_binding_def)

lemma serves_id: "serves c m s b \<Longrightarrow> bd_ServiceID b = sv_ID s"
  unfolding serves_def by (metis service_binding_fields(1))

lemma place_services_Placed:
  "place_services c m ss used ids bs ep = Placed ids' bs' ep' \<Longrightarrow>
    \<exists>new. bs' = bs @ new \<and> ids' = ids @ map sv_ID ss \<and> list_all2 (serves c m) ss new
      \<and> distinct (map key_of_binding new) \<and> key_of_binding ` set new \<inter> used = {}"
proof (induction ss arbitrary: used ids bs ep)
  case (Cons s ss)
  let ?k = "bindingKey (sv_Protocol s) (sv_PublicBind s)"
  from Cons.prems obtain port where v: "Service_Validate s = None" "Selector_Matches (sv_GatewaySelector s) (node_Labels (gc_Node c))"
    and port: "service_port c m s used = Inr port"
    and rest: "place_services c m ss (insert (?k port) used) (ids @ [sv_ID s]) (bs @ [service_binding s port])
             (if ep = [] \<and> length (gw_PublicEndpoints (gc_Spec c)) > 0 then hd (gw_PublicEndpoints (gc_Spec c)) else ep)
           = Placed ids' bs' ep'"
    unfolding place_services_Cons by blast
  from Cons.IH [OF rest] obtain new where new: "bs' = (bs @ [service_binding s port]) @ new" "ids' = (ids @ [sv_ID s]) @ map sv_ID ss"
    "list_all2 (serves c m) ss new" "distinct (map key_of_binding new)" "key_of_binding ` set new \<inter> insert (?k port) used = {}" by blast
  have "serves c m s (service_binding s port)"
    using v service_port_Inr(2,3) [OF port] by (auto simp: serves_def)
  with new service_port_Inr(1) [OF port] show ?case
    by (intro exI [of _ "service_binding s port # new"]) auto
qed simp

section \<open>The decision\<close>

lemma try_candidates_Inr:
  "try_candidates now req cs x e = Inr a \<Longrightarrow>
    \<exists>c ids bs ep. c \<in> set cs \<and> \<not> candidate_skipped req c \<and> \<not> over_capacity req c
      \<and> place_services c (existing_bindings req c) (rq_Services req) (occupied_keys req c) [] [] [] = Placed ids bs ep
      \<and> a = placed_assignment now req c ids bs ep"
proof (induction cs arbitrary: x e)
  case (Cons c cs)
  show ?case
  proof (cases "candidate_skipped req c \<or> over_capacity req c")
    case True
    with Cons.prems have "try_candidates now req cs x e = Inr a" by simp
    from Cons.IH [OF this] show ?thesis by auto
  next
    case False
    show ?thesis
    proof (cases "place_services c (existing_bindings req c) (rq_Services req) (occupied_keys req c) [] [] []")
      case (Placed ids bs ep)
      with Cons.prems False show ?thesis by auto
    next
      case (Skipped y z)
      with Cons.prems False have "\<exists>x e. try_candidates now req cs x e = Inr a" by auto
      then show ?thesis using Cons.IH by fastforce
    next
      case (Aborted z)
      with Cons.prems False show ?thesis by simp
    qed
  qed
qed (auto split: option.splits)

text \<open>The request as the loop sees it: the agent's own specification and no relinquished placement.\<close>

definition effective :: "ScheduleRequest \<Rightarrow> ScheduleRequest" where
  "effective req = forget_relinquished (req\<lparr>rq_AgentSpec := request_spec req\<rparr>)"

definition request_ok :: "ScheduleRequest \<Rightarrow> bool" where
  "request_ok req \<longleftrightarrow> ValidateID (node_ID (rq_Agent req)) ''agent.id'' = None \<and> rq_Generation req \<noteq> 0
     \<and> AgentSpec_Validate (request_spec req) = None
     \<and> ag_NodeID (request_spec req) = node_ID (rq_Agent req) \<and> rq_Services req \<noteq> []
     \<and> check_request_services (node_ID (rq_Agent req)) [] (rq_Services req) = None"

lemma effective_fields [simp]:
  "rq_Agent (effective req) = rq_Agent req" "rq_Services (effective req) = rq_Services req"
  "rq_Generation (effective req) = rq_Generation req"
  "rq_Existing (effective req) = (case rq_Existing req of Some a \<Rightarrow> if relinquished a then None else Some a | None \<Rightarrow> None)"
  "ag_GatewayID (rq_AgentSpec (effective req)) = ag_GatewayID (rq_AgentSpec req)"
  "ag_GatewaySelector (rq_AgentSpec (effective req)) = ag_GatewaySelector (rq_AgentSpec req)"
  by (auto simp: effective_def forget_relinquished_def request_spec_def split: option.splits)

lemma forget_relinquished_fields:
  "rq_AgentSpec (forget_relinquished r) = rq_AgentSpec r" "rq_Agent (forget_relinquished r) = rq_Agent r"
  "rq_Services (forget_relinquished r) = rq_Services r"
  by (simp_all add: forget_relinquished_def split: option.split)

lemma Schedule_ok:
  "request_ok req \<Longrightarrow> Schedule now req cs =
    try_candidates now (effective req) (sort_key (candidate_rank (rq_Existing (effective req))) cs) None None"
  unfolding request_ok_def Schedule_def Let_def effective_def by (simp add: forget_relinquished_fields)

lemma Schedule_Inr:
  assumes "Schedule now req cs = Inr a"
  shows "request_ok req" "try_candidates now (effective req) (sort_key (candidate_rank (rq_Existing (effective req))) cs) None None = Inr a"
proof -
  show ok: "request_ok req"
    using assms unfolding request_ok_def Schedule_def Let_def
    by (simp add: forget_relinquished_fields split: option.splits if_splits)
  from assms show "try_candidates now (effective req) (sort_key (candidate_rank (rq_Existing (effective req))) cs) None None = Inr a"
    by (simp only: Schedule_ok [OF ok])
qed

lemma candidate_skipped_effective: "candidate_skipped (effective req) c = candidate_skipped req c"
  by (simp add: candidate_skipped_def)

lemma existing_bindings_mem:
  assumes "existing_bindings req c i = Some b"
  shows "\<exists>a. own_assignment req c = Some a \<and> b \<in> set (as_Bindings a) \<and> bd_ServiceID b = i"
proof -
  have "fold (\<lambda>b m. m(bd_ServiceID b \<mapsto> b)) bs m i = Some b \<Longrightarrow> (b \<in> set bs \<and> bd_ServiceID b = i) \<or> m i = Some b" for bs m
  proof (induction bs arbitrary: m)
    case (Cons x bs)
    from Cons.IH [of "m(bd_ServiceID x \<mapsto> x)"] Cons.prems show ?case by (auto split: if_splits)
  qed simp
  from this [of _ Map.empty] show ?thesis using assms by (auto simp: existing_bindings_def split: option.splits)
qed

lemma own_assignment_existing: "own_assignment req c = Some a \<Longrightarrow> rq_Existing req = Some a"
  by (auto simp: own_assignment_def split: option.splits if_splits)

lemma own_effective: "own_assignment (effective req) c = Some e \<Longrightarrow> rq_Existing req = Some e"
  by (drule own_assignment_existing) (auto split: option.splits if_splits)

text \<open>What a binding must be to serve a service on a gateway.\<close>

definition well_bound :: "ScheduleRequest \<Rightarrow> GatewayCandidate \<Rightarrow> Service \<Rightarrow> Binding \<Rightarrow> bool" where
  "well_bound req c s b \<longleftrightarrow>
     bd_ServiceID b = sv_ID s \<and> bd_Protocol b = sv_Protocol s \<and> bd_Bind b = sv_PublicBind s
     \<and> (sv_PublicPort s \<noteq> 0 \<longrightarrow> bd_Port b = sv_PublicPort s)
     \<and> (portInPool (gw_PortPool (gc_Spec c)) (sv_Protocol s) (bd_Port b)
        \<or> (\<exists>e x. rq_Existing req = Some e \<and> x \<in> set (as_Bindings e) \<and> bd_ServiceID x = sv_ID s \<and> bd_Port x = bd_Port b))"

lemma serves_well_bound:
  assumes "serves c (existing_bindings (effective req) c) s b"
  shows "well_bound req c s b"
proof -
  obtain p where b: "b = service_binding s p" using assms unfolding serves_def by blast
  have "\<exists>e. rq_Existing req = Some e \<and> x \<in> set (as_Bindings e) \<and> bd_ServiceID x = sv_ID s"
    if "existing_bindings (effective req) c (sv_ID s) = Some x" for x
    using existing_bindings_mem [OF that] own_effective by blast
  then show ?thesis using assms by (auto simp: well_bound_def serves_def b)
qed

text \<open>What every successful decision comes down to.\<close>

lemma Schedule_chosen:
  assumes "Schedule now req cs = Inr a"
  obtains c ids bs ep where "c \<in> set cs" "\<not> candidate_skipped (effective req) c" "\<not> over_capacity (effective req) c"
    "place_services c (existing_bindings (effective req) c) (rq_Services req) (occupied_keys (effective req) c) [] [] [] = Placed ids bs ep"
    "a = placed_assignment now (effective req) c ids bs ep" "ids = map sv_ID (rq_Services req)"
    "list_all2 (serves c (existing_bindings (effective req) c)) (rq_Services req) bs"
    "distinct (map key_of_binding bs)" "key_of_binding ` set bs \<inter> occupied_keys (effective req) c = {}"
proof -
  from try_candidates_Inr [OF Schedule_Inr(2) [OF assms]] obtain c ids bs ep where c: "c \<in> set cs"
    "\<not> candidate_skipped (effective req) c" "\<not> over_capacity (effective req) c"
    and p: "place_services c (existing_bindings (effective req) c) (rq_Services req) (occupied_keys (effective req) c) [] [] [] = Placed ids bs ep"
    and a: "a = placed_assignment now (effective req) c ids bs ep" by auto
  from place_services_Placed [OF p] that [OF c p a] show ?thesis by auto
qed

text \<open>
  C33. A scheduled assignment lives on one of the offered gateways that is enabled, healthy,
  certified and selected for the agent and has the capacity; it lists the requested services in
  order, one binding per service with the service's protocol, address and fixed port; its
  sockets are pairwise distinct, are free of every other live assignment of that gateway and of
  every occupied socket that is not the existing placement's own; and every port is in the
  gateway's pool or the one the service already had.
\<close>

theorem Schedule_sound:
  assumes "Schedule now req cs = Inr a"
  shows "\<exists>c \<in> set cs. as_GatewayID a = node_ID (gc_Node c) \<and> as_AgentID a = node_ID (rq_Agent req)
    \<and> \<not> candidate_skipped req c \<and> \<not> over_capacity (effective req) c
    \<and> as_ServiceIDs a = map sv_ID (rq_Services req)
    \<and> list_all2 (well_bound req c) (rq_Services req) (as_Bindings a)
    \<and> distinct (map key_of_binding (as_Bindings a))
    \<and> (\<forall>x \<in> set (gc_Assignments c). \<not> relinquished x \<longrightarrow> (\<forall>e. rq_Existing req = Some e \<longrightarrow> as_ID x \<noteq> as_ID e)
         \<longrightarrow> key_of_binding ` set (as_Bindings x) \<inter> key_of_binding ` set (as_Bindings a) = {})
    \<and> gc_UsedBindings c \<inter> key_of_binding ` set (as_Bindings a)
        \<subseteq> (case rq_Existing req of None \<Rightarrow> {} | Some e \<Rightarrow> key_of_binding ` set (as_Bindings e))"
proof -
  let ?r = "effective req"
  obtain c ids bs ep where c: "c \<in> set cs" "\<not> candidate_skipped ?r c" "\<not> over_capacity ?r c"
    and a: "a = placed_assignment now ?r c ids bs ep" and ids: "ids = map sv_ID (rq_Services req)"
    and sv: "list_all2 (serves c (existing_bindings ?r c)) (rq_Services req) bs"
    and d: "distinct (map key_of_binding bs)" and free: "key_of_binding ` set bs \<inter> occupied_keys ?r c = {}"
    using assms by (rule Schedule_chosen)
  note own = own_effective [of req c]
  have fields: "as_Bindings a = bs" "as_ServiceIDs a = ids" "as_GatewayID a = node_ID (gc_Node c)" "as_AgentID a = node_ID (rq_Agent req)"
    by (simp_all add: a placed_assignment_def)
  have pairs: "list_all2 (well_bound req c) (rq_Services req) bs"
    using sv serves_well_bound by (blast intro: list_all2_mono)
  have others: "key_of_binding ` set (as_Bindings x) \<inter> key_of_binding ` set bs = {}"
    if "x \<in> set (gc_Assignments c)" "\<not> relinquished x" "\<forall>e. rq_Existing req = Some e \<longrightarrow> as_ID x \<noteq> as_ID e" for x
  proof -
    have "key_of_binding ` set (as_Bindings x) \<subseteq> occupied_keys ?r c"
      using that by (auto simp: occupied_keys_def Let_def split: option.splits)
    with free show ?thesis by blast
  qed
  have used: "gc_UsedBindings c \<inter> key_of_binding ` set bs
        \<subseteq> (case rq_Existing req of None \<Rightarrow> {} | Some e \<Rightarrow> key_of_binding ` set (as_Bindings e))"
  proof -
    have "gc_UsedBindings c - (case own_assignment ?r c of None \<Rightarrow> {} | Some e \<Rightarrow> key_of_binding ` set (as_Bindings e)) \<subseteq> occupied_keys ?r c"
      by (auto simp: occupied_keys_def Let_def split: option.splits)
    with free have "gc_UsedBindings c \<inter> key_of_binding ` set bs
        \<subseteq> (case own_assignment ?r c of None \<Rightarrow> {} | Some e \<Rightarrow> key_of_binding ` set (as_Bindings e))" by blast
    with own show ?thesis by (cases "own_assignment ?r c") auto
  qed
  show ?thesis
    using c d ids pairs others used unfolding fields candidate_skipped_effective by blast
qed

section \<open>Scheduling again changes nothing\<close>

lemma service_port_nonzero:
  assumes "service_port c m s used = Inr p" "\<forall>r \<in> set (pool_ranges (gw_PortPool (gc_Spec c)) (sv_Protocol s)). pr_Min r \<noteq> 0"
  shows "p \<noteq> 0"
proof (cases "sticky_port m s used = 0 \<and> sv_PublicPort s = 0")
  case True
  then have "scan_pool (\<lambda>q. bindingKey (sv_Protocol s) (sv_PublicBind s) q \<in> used)
      (pool_ranges (gw_PortPool (gc_Spec c)) (sv_Protocol s)) = Some p"
    using assms(1) by (auto simp: service_port_def allocatePort_def pool_ranges_def Let_def split: option.splits)
  from scan_pool_Some [OF this] assms(2) show ?thesis by (auto simp: word_le_0_iff)
next
  case False
  then show ?thesis using assms(1) allocatePort_Inr(3) [of _ _ _ "sv_PublicPort s" used p]
    by (auto simp: service_port_def Let_def split: if_splits)
qed

lemma place_services_nonzero:
  "place_services c m ss used ids bs ep = Placed ids' bs' ep' \<Longrightarrow>
   \<forall>protocol. \<forall>r \<in> set (pool_ranges (gw_PortPool (gc_Spec c)) protocol). pr_Min r \<noteq> 0 \<Longrightarrow>
   \<forall>b \<in> set bs. bd_Port b \<noteq> 0 \<Longrightarrow> \<forall>b \<in> set bs'. bd_Port b \<noteq> 0"
proof (induction ss arbitrary: used ids bs ep)
  case (Cons s ss)
  from Cons.prems(1) obtain port where port: "service_port c m s used = Inr port" and rest:
    "place_services c m ss (insert (bindingKey (sv_Protocol s) (sv_PublicBind s) port) used) (ids @ [sv_ID s]) (bs @ [service_binding s port])
       (if ep = [] \<and> length (gw_PublicEndpoints (gc_Spec c)) > 0 then hd (gw_PublicEndpoints (gc_Spec c)) else ep) = Placed ids' bs' ep'"
    unfolding place_services_Cons by blast
  have "port \<noteq> 0" using port by (rule service_port_nonzero) (use Cons.prems(2) in blast)
  then show ?case by (intro Cons.IH [OF rest Cons.prems(2)]) (use Cons.prems(3) in auto)
qed simp

text \<open>A second run that finds the first one's bindings reproduces it.\<close>

lemma place_services_again:
  assumes "place_services c m ss used ids bs ep = Placed ids' (bs @ new) ep'"
    and "gc_Node c' = gc_Node c" "gc_Spec c' = gc_Spec c"
    and "\<forall>b \<in> set new. m' (bd_ServiceID b) = Some b \<and> bd_Port b \<noteq> 0"
    and "key_of_binding ` set new \<inter> used' = {}"
  shows "place_services c' m' ss used' ids bs ep = Placed ids' (bs @ new) ep'"
  using assms
proof (induction ss arbitrary: used used' ids bs ep new)
  case (Cons s ss)
  let ?k = "bindingKey (sv_Protocol s) (sv_PublicBind s)"
  let ?ep = "if ep = [] \<and> length (gw_PublicEndpoints (gc_Spec c)) > 0 then hd (gw_PublicEndpoints (gc_Spec c)) else ep"
  from Cons.prems(1) obtain port where v: "Service_Validate s = None" "Selector_Matches (sv_GatewaySelector s) (node_Labels (gc_Node c))"
    and port: "service_port c m s used = Inr port"
    and rest: "place_services c m ss (insert (?k port) used) (ids @ [sv_ID s]) (bs @ [service_binding s port]) ?ep = Placed ids' (bs @ new) ep'"
    unfolding place_services_Cons by blast
  from place_services_Placed [OF rest] obtain new' where new: "new = service_binding s port # new'"
    and keys: "key_of_binding ` set new' \<inter> insert (?k port) used = {}" by auto
  have "m' (sv_ID s) = Some (service_binding s port)" "port \<noteq> 0" "?k port \<notin> used'"
    using Cons.prems(4,5) by (auto simp: new)
  then have port': "service_port c' m' s used' = Inr port"
    using service_port_Inr(2) [OF port] by (auto simp: service_port_def sticky_port_def Let_def)
  have "place_services c' m' ss (insert (?k port) used') (ids @ [sv_ID s]) (bs @ [service_binding s port]) ?ep
      = Placed ids' ((bs @ [service_binding s port]) @ new') ep'"
  proof (rule Cons.IH)
    show "place_services c m ss (insert (?k port) used) (ids @ [sv_ID s]) (bs @ [service_binding s port]) ?ep
        = Placed ids' ((bs @ [service_binding s port]) @ new') ep'" using rest by (simp add: new)
    show "\<forall>b \<in> set new'. m' (bd_ServiceID b) = Some b \<and> bd_Port b \<noteq> 0" using Cons.prems(4) by (simp add: new)
    show "key_of_binding ` set new' \<inter> insert (?k port) used' = {}" using keys Cons.prems(5) by (auto simp: new)
  qed (use Cons.prems(2,3) in auto)
  with v port' Cons.prems(2,3) show ?case unfolding place_services_Cons by (auto simp: new)
qed simp

lemma fold_bindings:
  assumes "distinct (map bd_ServiceID bs)" "b \<in> set bs"
  shows "fold (\<lambda>b m. m(bd_ServiceID b \<mapsto> b)) bs m (bd_ServiceID b) = Some b"
proof -
  have keep: "i \<notin> bd_ServiceID ` set bs \<Longrightarrow> fold (\<lambda>b m. m(bd_ServiceID b \<mapsto> b)) bs m i = m i" for i bs m
    by (induction bs arbitrary: m) auto
  show ?thesis using assms
  proof (induction bs arbitrary: m)
    case (Cons x xs)
    show ?case
    proof (cases "b = x")
      case True
      have "fold (\<lambda>b m. m(bd_ServiceID b \<mapsto> b)) xs (m(bd_ServiceID x \<mapsto> x)) (bd_ServiceID x) = Some x"
        by (subst keep) (use Cons.prems(1) in auto)
      then show ?thesis by (simp only: fold_simps True)
    next
      case False
      with Cons show ?thesis by simp
    qed
  qed simp
qed

lemma check_request_services_distinct:
  "check_request_services agent seen ss = None \<Longrightarrow> distinct (map sv_ID ss) \<and> sv_ID ` set ss \<inter> set seen = {}"
proof (induction ss arbitrary: seen)
  case (Cons s ss)
  then have "sv_ID s \<notin> set seen" "check_request_services agent (sv_ID s # seen) ss = None" by (auto split: if_splits)
  with Cons.IH [of "sv_ID s # seen"] show ?case by auto
qed simp

lemma sort_key_least:
  fixes k :: "'a \<Rightarrow> 'b :: linorder"
  assumes "x \<in> set xs" "\<And>y. y \<in> set xs \<Longrightarrow> y \<noteq> x \<Longrightarrow> k x < k y"
  obtains ys where "sort_key k xs = x # ys"
proof (cases "sort_key k xs")
  case Nil
  with assms(1) have False by (metis empty_iff empty_set set_sort)
  then show ?thesis ..
next
  case (Cons z zs)
  have s: "set (sort_key k xs) = set xs" by simp
  have "sorted (map k (sort_key k xs))" by simp
  then have le: "\<forall>y \<in> set zs. k z \<le> k y" by (simp add: Cons)
  have "z = x"
  proof (rule ccontr)
    assume "z \<noteq> x"
    moreover have "z \<in> set xs" "x \<in> set (z # zs)" using s assms(1) by (auto simp: Cons)
    ultimately have "k x < k z" "k z \<le> k x" using assms(2) le by auto
    then show False by simp
  qed
  with Cons that show ?thesis by blast
qed

text \<open>The candidate view after the assignment was stored.\<close>

definition account :: "Assignment \<Rightarrow> GatewayCandidate \<Rightarrow> GatewayCandidate" where
  "account a c = (if node_ID (gc_Node c) = as_GatewayID a
     then c\<lparr>gc_Assignments := a # gc_Assignments c, gc_UsedBindings := gc_UsedBindings c \<union> key_of_binding ` set (as_Bindings a)\<rparr>
     else c)"

lemma account_fields [simp]:
  "gc_Node (account a c) = gc_Node c" "gc_Spec (account a c) = gc_Spec c" "gc_Healthy (account a c) = gc_Healthy c"
  by (simp_all add: account_def)

lemma accounted_capacity:
  assumes "own_assignment r c = None" "own_assignment r' (account a c) = Some a" "\<not> relinquished a"
    "as_GatewayID a = node_ID (gc_Node c)" "rq_Services r' = rq_Services r" "\<not> over_capacity r c"
  shows "\<not> over_capacity r' (account a c)"
proof -
  let ?A = "activeAssignmentAgents (gc_Assignments c)"
  have fin: "finite ?A" by (simp add: activeAssignmentAgents_def)
  have "activeAssignmentAgents (gc_Assignments (account a c)) = insert (as_AgentID a) ?A"
    using assms(3,4) by (simp add: account_def activeAssignmentAgents_def)
  then have "used_agents r' (account a c) \<le> used_agents r c"
    using assms(1,2) fin by (auto simp: used_agents_def Let_def card_insert_if)
  moreover have "used_services r' (account a c) = used_services r c"
    using assms(1-4) by (simp add: used_services_def account_def activeAssignmentServiceCount_def Let_def)
  ultimately show ?thesis using assms(5,6) by (auto simp: over_capacity_def)
qed

lemma accounted_keys:
  assumes "own_assignment r c = None" "own_assignment r' (account a c) = Some a" "rq_Existing r' = Some a"
    "as_GatewayID a = node_ID (gc_Node c)" "rq_Existing r = None"
  shows "occupied_keys r' (account a c) \<subseteq> occupied_keys r c"
  using assms by (auto simp: occupied_keys_def account_def Let_def)

lemma same_binding_refl: "list_all2 same_binding xs xs"
  by (rule list.rel_refl) (simp add: same_binding_def)

lemma accounted_least:
  assumes "c \<in> set cs" "distinct (map (\<lambda>c. node_ID (gc_Node c)) cs)" "as_GatewayID a = node_ID (gc_Node c)"
  obtains ys where "sort_key (candidate_rank (Some a)) (map (account a) cs) = account a c # ys"
proof (rule sort_key_least [of "account a c" "map (account a) cs" "candidate_rank (Some a)"])
  show "account a c \<in> set (map (account a) cs)" using assms(1) by simp
  fix y assume y: "y \<in> set (map (account a) cs)" "y \<noteq> account a c"
  then obtain d where d: "d \<in> set cs" "y = account a d" "d \<noteq> c" by auto
  then have "node_ID (gc_Node d) \<noteq> node_ID (gc_Node c)" using assms(1,2) by (metis distinct_map inj_on_def)
  then show "candidate_rank (Some a) (account a c) < candidate_rank (Some a) y"
    using assms(3) by (simp add: candidate_rank_def d(2))
qed (use that in blast)

text \<open>
  C34. Scheduling is stable: after a first placement was stored, scheduling the same services
  again, at any later time and with the stored assignment counted in the gateway's occupancy,
  keeps gateway, assignment identity, endpoint and every port, so the pass writes nothing.
\<close>

theorem Schedule_stable:
  assumes "Schedule now req cs = Inr a" "rq_Existing req = None"
    and "distinct (map (\<lambda>c. node_ID (gc_Node c)) cs)"
    and "\<forall>c \<in> set cs. \<forall>r \<in> set (pool_TCP (gw_PortPool (gc_Spec c))) \<union> set (pool_UDP (gw_PortPool (gc_Spec c))). pr_Min r \<noteq> 0"
  shows "\<exists>a'. Schedule now' (req\<lparr>rq_Existing := Some a\<rparr>) (map (account a) cs) = Inr a' \<and> sameAssignmentPlacement a a'"
proof -
  let ?r = "effective req" and ?q = "req\<lparr>rq_Existing := Some a\<rparr>"
  let ?r' = "effective ?q"
  obtain c ids bs ep where c: "c \<in> set cs" "\<not> candidate_skipped ?r c" "\<not> over_capacity ?r c"
    and p: "place_services c (existing_bindings ?r c) (rq_Services req) (occupied_keys ?r c) [] [] [] = Placed ids bs ep"
    and a: "a = placed_assignment now ?r c ids bs ep" and ids: "ids = map sv_ID (rq_Services req)"
    and sv: "list_all2 (serves c (existing_bindings ?r c)) (rq_Services req) bs"
    and free: "key_of_binding ` set bs \<inter> occupied_keys ?r c = {}"
    using assms(1) by (rule Schedule_chosen)
  have live: "\<not> relinquished a" and gw: "as_GatewayID a = node_ID (gc_Node c)" "as_AgentID a = node_ID (rq_Agent req)"
    and as: "as_Bindings a = bs" "as_ServiceIDs a = ids"
    by (simp_all add: a placed_assignment_def relinquished_def)
  have own: "own_assignment ?r c = None" "own_assignment ?r' (account a c) = Some a" "rq_Existing ?r' = Some a" "rq_Existing ?r = None"
    using assms(2) live gw by (simp_all add: own_assignment_def)
  have "request_spec ?q = request_spec req" by (simp add: request_spec_def)
  then have ok: "request_ok ?q" using Schedule_Inr(1) [OF assms(1)] by (simp add: request_ok_def)
  have names: "map bd_ServiceID bs = map sv_ID (rq_Services req)"
    using sv by (induction rule: list_all2_induct) (simp_all add: serves_id)
  have "check_request_services (node_ID (rq_Agent req)) [] (rq_Services req) = None"
    using Schedule_Inr(1) [OF assms(1)] unfolding request_ok_def by blast
  then have distinct: "distinct (map bd_ServiceID bs)" unfolding names by (blast dest: check_request_services_distinct)
  have found: "\<forall>b \<in> set bs. existing_bindings ?r' (account a c) (bd_ServiceID b) = Some b"
    using fold_bindings [OF distinct] unfolding existing_bindings_def own option.case as by blast
  have "\<forall>protocol. \<forall>r \<in> set (pool_ranges (gw_PortPool (gc_Spec c)) protocol). pr_Min r \<noteq> 0"
    using assms(4) c(1) by (simp add: pool_ranges_def)
  then have nz: "\<forall>b \<in> set bs. bd_Port b \<noteq> 0" by (rule place_services_nonzero [OF p]) simp
  have again: "place_services (account a c) (existing_bindings ?r' (account a c)) (rq_Services ?r') (occupied_keys ?r' (account a c)) [] [] []
      = Placed ids ([] @ bs) ep"
    by (rule place_services_again [where c = c and m = "existing_bindings ?r c" and used = "occupied_keys ?r c"])
      (use p found nz accounted_keys [OF own(1-3) gw(1) own(4)] free as in auto)
  have skip: "\<not> candidate_skipped ?r' (account a c)" using c(2) by (simp add: candidate_skipped_def)
  have cap: "\<not> over_capacity ?r' (account a c)"
    using accounted_capacity [OF own(1,2) live gw(1) _ c(3)] by simp
  obtain ys where "sort_key (candidate_rank (Some a)) (map (account a) cs) = account a c # ys"
    using accounted_least [OF c(1) assms(3) gw(1)] by blast
  then have "Schedule now' ?q (map (account a) cs) = Inr (placed_assignment now' ?r' (account a c) ids bs ep)"
    using skip cap again unfolding Schedule_ok [OF ok] own(3) by simp
  moreover have "sameAssignmentPlacement a (placed_assignment now' ?r' (account a c) ids bs ep)"
    using own(2) same_binding_refl
    by (simp add: sameAssignmentPlacement_def sameObfuscationPolicy_def placed_assignment_def gw as)
      (simp add: a placed_assignment_def)
  ultimately show ?thesis by blast
qed

section \<open>A sample placement\<close>

definition sample_node :: "string \<Rightarrow> string \<Rightarrow> Node" where
  "sample_node i kind = \<lparr>node_ID = i, node_SpecKind = kind, node_Name = i, node_Labels = [], node_Enabled = True,
     node_CertificateState = ''active'', node_CertificateSerial = [], node_Revision = 1, node_CreatedAt = 1, node_UpdatedAt = 1\<rparr>"

definition sample_agent :: AgentSpec where
  "sample_agent = \<lparr>ag_NodeID = ''ag'', ag_GatewayID = [], ag_GatewaySelector = [], ag_Proxies = [], ag_Routes = [],
     ag_Limits = \<lparr>al_MaxConnections = 0, al_MaxStreams = 0, al_MaxBufferBytes = 0\<rparr>, ag_Egress = no_egress,
     ag_Logging = \<lparr>lg_Level = [], lg_Format = []\<rparr>, ag_Revision = 1\<rparr>"

definition sample_request :: ScheduleRequest where
  "sample_request = \<lparr>rq_Agent = sample_node ''ag'' ''agent'', rq_AgentSpec = sample_agent, rq_Services = [sample_service],
     rq_Existing = None, rq_Generation = 1\<rparr>"

definition sample_candidate :: "string set \<Rightarrow> GatewayCandidate" where
  "sample_candidate used = \<lparr>gc_Node = sample_node ''gw'' ''gateway'', gc_Spec = sample_gateway, gc_Healthy = True,
     gc_Assignments = [], gc_UsedBindings = used\<rparr>"

lemma sample_agent_valid: "AgentSpec_Validate sample_agent = None"
proof -
  have "trim_space ''agent.egress'' = ''agent.egress''" by (simp add: trim_space_graphic char_class_defs)
  then show ?thesis
    by (simp add: AgentSpec_Validate_def sample_agent_def sample_ids EgressPolicy_Validate_def no_egress_def
        Selector_Validate_def validateEgressPortRanges_def Let_def)
qed

lemma sample_key: "bindingKey ''tcp'' ''10.0.0.1'' p = bindingKey ''tcp'' ''10.0.0.1'' q \<longleftrightarrow> p = q"
  unfolding bindingKey_socketKey using socketKey_inj [of "''tcp''" _ p "''tcp''" _ q] by auto

lemma sample_request_ok: "request_ok sample_request"
  by (simp add: request_ok_def request_spec_def sample_request_def sample_node_def sample_ids sample_agent_valid
      sample_service_def) (simp add: sample_agent_def)

lemma sample_placed:
  assumes "scan_pool (\<lambda>p. bindingKey ''tcp'' ''10.0.0.1'' p \<in> used) [PortRange 8000 8010] = Some port"
  shows "Schedule 7 sample_request [sample_candidate used] = Inr (placed_assignment 7 sample_request (sample_candidate used) [''web'']
     [service_binding sample_service port] ''10.0.0.1:443'')"
proof -
  let ?c = "sample_candidate used"
  have e: "effective sample_request = sample_request"
    by (simp add: effective_def request_spec_def forget_relinquished_def sample_request_def sample_agent_def)
  have keys: "occupied_keys sample_request ?c = used"
    by (simp add: occupied_keys_def own_assignment_def sample_request_def sample_candidate_def)
  have "existing_bindings sample_request ?c = Map.empty"
    by (simp add: existing_bindings_def own_assignment_def sample_request_def)
  moreover have "service_port ?c Map.empty sample_service used = Inr port"
    using assms by (simp add: service_port_def sticky_port_def allocatePort_def sample_service_def sample_candidate_def sample_gateway_def)
  ultimately have "place_services ?c (existing_bindings sample_request ?c) [sample_service]
      (occupied_keys sample_request ?c) [] [] [] = Placed [''web''] [service_binding sample_service port] ''10.0.0.1:443''"
    using sample_parts(1)
    by (simp add: keys Selector_Matches_def) (simp add: sample_service_def sample_candidate_def sample_gateway_def)
  moreover have "rq_Services sample_request = [sample_service]" by (simp add: sample_request_def)
  moreover have "\<not> candidate_skipped sample_request ?c" "\<not> over_capacity sample_request ?c"
    by (simp_all add: candidate_skipped_def over_capacity_def used_agents_def used_services_def own_assignment_def
        unusable_certificate_def activeAssignmentAgents_def activeAssignmentServiceCount_def Selector_Matches_def
        sample_request_def sample_candidate_def sample_node_def sample_agent_def sample_gateway_def)
  ultimately show ?thesis by (simp add: Schedule_ok [OF sample_request_ok] e)
qed

lemma sample_scan:
  "scan_pool (\<lambda>p. bindingKey ''tcp'' ''10.0.0.1'' p \<in> {bindingKey ''tcp'' ''10.0.0.1'' 8000}) [PortRange 8000 8010] = Some 8001"
  "scan_pool (\<lambda>p. bindingKey ''tcp'' ''10.0.0.1'' p \<in> {bindingKey ''tcp'' ''10.0.0.1'' 443}) [PortRange 8000 8010] = Some 8000"
  unfolding singleton_iff sample_key by (simp_all add: scan_range.simps)

theorem Schedule_sound_witness:
  "\<exists>a. Schedule 7 sample_request [sample_candidate {bindingKey ''tcp'' ''10.0.0.1'' 8000}] = Inr a \<and> as_GatewayID a = ''gw''
     \<and> list_all2 (well_bound sample_request (sample_candidate {bindingKey ''tcp'' ''10.0.0.1'' 8000})) [sample_service] (as_Bindings a)"
  using sample_placed [OF sample_scan(1)] Schedule_sound [OF sample_placed [OF sample_scan(1)]]
  by (auto simp: sample_candidate_def sample_node_def sample_request_def)

theorem Schedule_stable_witness:
  "\<exists>a a'. Schedule 7 sample_request [sample_candidate {bindingKey ''tcp'' ''10.0.0.1'' 8000}] = Inr a
     \<and> Schedule 9 (sample_request\<lparr>rq_Existing := Some a\<rparr>) [account a (sample_candidate {bindingKey ''tcp'' ''10.0.0.1'' 8000})] = Inr a'
     \<and> sameAssignmentPlacement a a'"
proof -
  have "rq_Existing sample_request = None" "gc_Spec (sample_candidate u) = sample_gateway"
    "gw_PortPool sample_gateway = \<lparr>pool_TCP = [PortRange 8000 8010], pool_UDP = []\<rparr>" for u
    by (simp_all add: sample_request_def sample_candidate_def sample_gateway_def)
  with Schedule_stable [OF sample_placed [OF sample_scan(1)], of 9] show ?thesis using sample_placed [OF sample_scan(1)] by auto
qed

theorem allocatePort_complete_witness:
  "allocatePort \<lparr>pool_TCP = [PortRange 8000 8000], pool_UDP = []\<rparr> ''tcp'' ''10.0.0.1'' 0 {bindingKey ''tcp'' ''10.0.0.1'' 8000}
     = Inl (Other (ErrNew ''gateway port pool is exhausted''))
   \<and> allocatePort \<lparr>pool_TCP = [PortRange 8000 8000], pool_UDP = []\<rparr> ''tcp'' ''10.0.0.1'' 8000 {} = Inr 8000"
proof -
  have "p = (8000 :: u16)" if "8000 \<le> p" "p \<le> 8000" for p using that by simp
  then have "\<forall>r \<in> set (pool_ranges \<lparr>pool_TCP = [PortRange 8000 8000], pool_UDP = []\<rparr> ''tcp''). \<forall>p. pr_Min r \<le> p \<longrightarrow> p \<le> pr_Max r
      \<longrightarrow> bindingKey ''tcp'' ''10.0.0.1'' p \<in> {bindingKey ''tcp'' ''10.0.0.1'' 8000}" by (auto simp: pool_ranges_def)
  with allocatePort_complete [of "\<lparr>pool_TCP = [PortRange 8000 8000], pool_UDP = []\<rparr>" "''tcp''" "''10.0.0.1''" "{bindingKey ''tcp'' ''10.0.0.1'' 8000}"]
    allocatePort_complete [of "\<lparr>pool_TCP = [PortRange 8000 8000], pool_UDP = []\<rparr>" "''tcp''" "''10.0.0.1''" "{}" 8000]
  show ?thesis by (simp add: portInPool_def)
qed

end
