(* ===== verification/Domain_Observed.thy ===== *)
theory Domain_Observed
  imports Complex_Main Domain_Validate
begin

text \<open>
  \<^verbatim>\<open>internal/domain/system_info.go\<close>, \<^verbatim>\<open>runtime.go\<close> and the observed half of
  \<^verbatim>\<open>model_validation.go\<close>: the reports a node sends to the controller and their validation.
  A \<^verbatim>\<open>float64\<close> is NaN, an infinity or a rational; the clock \<^verbatim>\<open>time.Now()\<close> is an argument.
\<close>

datatype float64 = NaN | PosInf | NegInf | Finite rat

fun float_outside :: "float64 \<Rightarrow> rat \<Rightarrow> rat \<Rightarrow> bool" where
  "float_outside (Finite x) lo hi = (x < lo \<or> x > hi)"
| "float_outside NaN lo hi = True"
| "float_outside PosInf lo hi = True"
| "float_outside NegInf lo hi = True"

record SystemInfo =
  si_Hostname :: string
  si_OS :: string
  si_Distribution :: string
  si_DistributionVersion :: string
  si_Kernel :: string
  si_Architecture :: string
  si_CPUModel :: string
  si_LogicalCPUs :: int
  si_NodeVersion :: string
  si_GoVersion :: string
  si_ServiceMode :: string
  si_IPAddresses :: "string list"
  si_UptimeSeconds :: u64
  si_CPUUsagePercent :: "float64 option"
  si_LoadAverage1m :: "float64 option"
  si_MemoryTotalBytes :: u64
  si_MemoryAvailableBytes :: u64
  si_DiskTotalBytes :: u64
  si_DiskFreeBytes :: u64
  si_CollectedAt :: time

record SessionSummary =
  ss_ID :: string
  ss_PeerID :: string
  ss_StartedAt :: time
  ss_Streams :: int

record ListenerState =
  lst_Protocol :: string
  lst_Bind :: string
  lst_Port :: u16
  lst_Ready :: bool

record RuntimeMetrics =
  rm_ActiveStreams :: u64
  rm_ActiveSessions :: u64
  rm_ActiveEgress :: u64
  rm_UDPOversizeDrops :: u64
  rm_GeoIPUp :: bool
  rm_ActiveConnections :: u64
  rm_ActiveFlows :: u64
  rm_RuntimeBytesInTotal :: u64
  rm_RuntimeBytesOutTotal :: u64
  rm_RuntimeOpenedTotal :: u64
  rm_RuntimeClosedTotal :: u64
  rm_RuntimeRejectedTotal :: u64
  rm_RuntimeRateLimitedTotal :: u64
  rm_RuntimeTelemetryDroppedTotal :: u64

text \<open>The error a node reports last has a code, a path, a message and the retry flag.\<close>

record LastError =
  le_Code :: string
  le_Path :: string
  le_Message :: string
  le_Retryable :: bool

record ObservedState =
  os_SchemaVersion :: u32
  os_NodeID :: string
  os_AppliedGeneration :: u64
  os_Healthy :: bool
  os_Degraded :: bool
  os_LastError :: "LastError option"
  os_Sessions :: "SessionSummary list"
  os_Listeners :: "ListenerState list"
  os_Metrics :: RuntimeMetrics
  os_SystemInfo :: "SystemInfo option"
  os_ObservedAt :: time

section \<open>Host information\<close>

definition info_error :: "string \<Rightarrow> string \<Rightarrow> go_error" where
  "info_error path msg = apply_error ''invalid_system_info'' path msg"

definition info_field_check :: "string \<times> string \<times> nat \<Rightarrow> check" where
  "info_field_check f = (case f of (name, v, limit) \<Rightarrow>
     if length v > limit then
       Some (info_error name (''system info field exceeds '' @ show_nat limit @ '' bytes''))
     else if contains_any v [CHR 0x00, CHR 0x0D, CHR 0x0A] then
       Some (info_error name ''system info field contains a control character'')
     else None)"

definition info_fields :: "SystemInfo \<Rightarrow> (string \<times> string \<times> nat) list" where
  "info_fields s =
     [(''hostname'', si_Hostname s, 512), (''os'', si_OS s, 512), (''distribution'', si_Distribution s, 512),
      (''distribution_version'', si_DistributionVersion s, 512), (''kernel'', si_Kernel s, 512),
      (''architecture'', si_Architecture s, 512), (''cpu_model'', si_CPUModel s, 512),
      (''node_version'', si_NodeVersion s, 512), (''go_version'', si_GoVersion s, 512),
      (''service_mode'', si_ServiceMode s, 64)]"

definition info_ip_check :: "nat \<Rightarrow> string \<Rightarrow> check" where
  "info_ip_check i v =
     (if length v > 128 then Some (info_error (at_index ''ip_addresses'' i []) ''IP address is too long'')
      else if parse_addr v = None then Some (info_error (at_index ''ip_addresses'' i []) ''IP address is invalid'')
      else None)"

text \<open>The key under which an address is remembered; it is only used for addresses that parse.\<close>

definition info_ip_key :: "string \<Rightarrow> string" where
  "info_ip_key v = (case parse_addr v of None \<Rightarrow> [] | Some a \<Rightarrow> addr_string (unmap a))"

definition SystemInfo_Validate :: "time \<Rightarrow> SystemInfo option \<Rightarrow> check" where
  "SystemInfo_Validate now info = (case info of None \<Rightarrow> None | Some s \<Rightarrow>
     all_checks (map info_field_check (info_fields s) @
       [fail_if (si_LogicalCPUs s < 0 \<or> si_LogicalCPUs s > 4096)
          (info_error ''logical_cpus'' ''logical CPU count is out of range''),
        fail_if (length (si_IPAddresses s) > 64) (info_error ''ip_addresses'' ''too many IP addresses''),
        each_unique info_ip_check info_ip_key
          (\<lambda>i. info_error (at_index ''ip_addresses'' i []) ''IP address is duplicated'')
          ok_check 0 [] (si_IPAddresses s),
        (case si_CPUUsagePercent s of None \<Rightarrow> None | Some f \<Rightarrow> fail_if (float_outside f 0 100)
          (info_error ''cpu_usage_percent'' ''CPU usage must be between 0 and 100'')),
        (case si_LoadAverage1m s of None \<Rightarrow> None | Some f \<Rightarrow> fail_if (float_outside f 0 1000000000)
          (info_error ''load_average_1m'' ''load average is out of range'')),
        fail_if (si_MemoryAvailableBytes s > si_MemoryTotalBytes s \<and> si_MemoryTotalBytes s \<noteq> 0)
          (info_error ''memory_available_bytes'' ''available memory exceeds total memory''),
        fail_if (si_DiskFreeBytes s > si_DiskTotalBytes s \<and> si_DiskTotalBytes s \<noteq> 0)
          (info_error ''disk_free_bytes'' ''free disk space exceeds total disk space''),
        fail_if (si_CollectedAt s = 0) (info_error ''collected_at'' ''system info collection time is required''),
        fail_if (si_CollectedAt s > now + 5 * minute)
          (info_error ''collected_at'' ''system info collection time is too far in the future'')]))"

section \<open>Observed state\<close>

definition validateListenerState :: "ListenerState \<Rightarrow> check" where
  "validateListenerState l =
     (if lst_Protocol l \<noteq> ProtocolTCP \<and> lst_Protocol l \<noteq> ProtocolUDP then
        Some (ErrNew ''listener protocol must be tcp or udp'')
      else if lst_Port l = 0 then Some (ErrNew ''listener port must be non-zero'')
      else if lst_Bind l \<noteq> trim_space (lst_Bind l) then
        Some (ErrNew ''listener bind must not contain surrounding whitespace'')
      else if parse_addr (lst_Bind l) = None then Some (ErrNew ''listener bind must be an IP address'')
      else None)"

definition session_id_check :: "nat \<Rightarrow> SessionSummary \<Rightarrow> check" where
  "session_id_check i s = ValidateID (ss_ID s) (at_index ''sessions'' i ''.id'')"

definition session_body_check :: "nat \<Rightarrow> SessionSummary \<Rightarrow> check" where
  "session_body_check i s =
     and_then (if ss_PeerID s = [] then None else ValidateID (ss_PeerID s) (at_index ''sessions'' i ''.peer_id''))
       (fail_if (ss_Streams s < 0 \<or> ss_Streams s > 2 ^ 20)
         (apply_error ''invalid_session'' (at_index ''sessions'' i ''.streams'') ''session stream count is invalid''))"

definition listener_state_check :: "nat \<Rightarrow> ListenerState \<Rightarrow> check" where
  "listener_state_check i l =
     map_option (\<lambda>err. ApplyError ''invalid_listener_state'' (at_index ''listeners'' i []) (TextOf err) False)
       (validateListenerState l)"

definition listener_state_socket :: "ListenerState \<Rightarrow> string" where
  "listener_state_socket l = socketKey (lst_Protocol l) (normalizedIP (lst_Bind l)) (lst_Port l)"

definition ObservedState_Validate :: "time \<Rightarrow> ObservedState \<Rightarrow> check" where
  "ObservedState_Validate now ob =
     all_checks
       [fail_if (os_SchemaVersion ob \<noteq> CurrentControlProtocolVersion)
          (apply_error ''unknown_schema'' ''schema_version'' ''observed schema version is unsupported''),
        ValidateID (os_NodeID ob) ''node_id'',
        fail_if (os_Healthy ob \<and> os_Degraded ob)
          (apply_error ''invalid_observed_state'' ''healthy''
            ''observed state cannot be healthy and degraded at the same time''),
        (case os_LastError ob of None \<Rightarrow> None | Some e \<Rightarrow>
           fail_if (trim_space (le_Code e) = [] \<or> length (le_Code e) > 128 \<or> length (le_Message e) > 2048)
             (apply_error ''invalid_observed_error'' ''last_error'' ''observed error fields are invalid'')),
        fail_if (length (os_Sessions ob) > 4096 \<or> length (os_Listeners ob) > 4096)
          (apply_error ''observed_state_too_large'' [] ''observed state contains too many entries''),
        SystemInfo_Validate now (os_SystemInfo ob),
        each_unique session_id_check ss_ID
          (\<lambda>i. apply_error ''duplicate_session'' (at_index ''sessions'' i ''.id'') ''session id is duplicated'')
          session_body_check 0 [] (os_Sessions ob),
        each_unique listener_state_check listener_state_socket
          (\<lambda>i. apply_error ''duplicate_listener_state'' (at_index ''listeners'' i []) ''listener state is duplicated'')
          ok_check 0 [] (os_Listeners ob)]"

section \<open>Runtime connections, events and snapshots\<close>

record RuntimeRateLimit =
  rl_Direction :: string
  rl_BytesPerSecond :: u64
  rl_BurstBytes :: u64
  rl_ExpiresAt :: time

record RuntimeConnection =
  rc_ID :: string
  rc_Type :: string
  rc_NodeID :: string
  rc_PeerNodeID :: string
  rc_GatewayID :: string
  rc_AgentID :: string
  rc_AssignmentID :: string
  rc_ServiceID :: string
  rc_Protocol :: string
  rc_SourceIP :: string
  rc_SourcePort :: u16
  rc_Target :: string
  rc_ParentSessionID :: string
  rc_StartedAt :: time
  rc_LastActivityAt :: time
  rc_EndedAt :: "time option"
  rc_State :: string
  rc_CloseReason :: string
  rc_BytesIn :: u64
  rc_BytesOut :: u64
  rc_RateIn :: float64
  rc_RateOut :: float64
  rc_Limit :: "RuntimeRateLimit option"

record RuntimeEvent =
  re_ID :: string
  re_Type :: string
  re_NodeID :: string
  re_ConnectionID :: string
  re_Connection :: "RuntimeConnection option"
  re_Message :: string
  re_CreatedAt :: time

record RuntimeSnapshot =
  rs_NodeID :: string
  rs_ObservedAt :: time
  rs_Connections :: "RuntimeConnection list"
  rs_Metrics :: RuntimeMetrics

definition RuntimeRateLimit_Validate :: "RuntimeRateLimit \<Rightarrow> check" where
  "RuntimeRateLimit_Validate l =
     (if rl_Direction l \<notin> {''in'', ''out'', ''both''} then
        Some (ErrNew ''runtime rate limit direction must be in, out or both'')
      else if rl_BytesPerSecond l = 0 \<or> rl_BytesPerSecond l > 2 ^ 40 then
        Some (ErrNew ''runtime rate limit bytes_per_second is out of range'')
      else if rl_BurstBytes l = 0 \<or> rl_BurstBytes l > 2 ^ 40 then
        Some (ErrNew ''runtime rate limit burst_bytes is out of range'')
      else if rl_ExpiresAt l = 0 then Some (ErrNew ''runtime rate limit expiration is required'')
      else None)"

definition reference_value :: "RuntimeConnection \<Rightarrow> string \<Rightarrow> string" where
  "reference_value c name =
     (if name = ''peer_node_id'' then rc_PeerNodeID c else if name = ''gateway_id'' then rc_GatewayID c
      else if name = ''agent_id'' then rc_AgentID c else if name = ''assignment_id'' then rc_AssignmentID c
      else if name = ''service_id'' then rc_ServiceID c else rc_ParentSessionID c)"

definition reference_check :: "RuntimeConnection \<Rightarrow> string \<Rightarrow> check" where
  "reference_check c name =
     (if reference_value c name = [] then None
      else ValidateID (reference_value c name) (''runtime_connection.'' @ name))"

definition RuntimeConnection_Validate :: "go_env \<Rightarrow> RuntimeConnection \<Rightarrow> check" where
  "RuntimeConnection_Validate env c =
     all_checks (
       [ValidateID (rc_ID c) ''runtime_connection.id'',
        ValidateID (rc_NodeID c) ''runtime_connection.node_id'',
        fail_if (rc_Type c \<notin> {''session'', ''tcp'', ''udp_flow'', ''egress''})
          (ErrNew ''runtime connection type is invalid''),
        fail_if (rc_State c \<notin> {''active'', ''closed'', ''unknown''})
          (ErrNew ''runtime connection state is invalid''),
        fail_if (rc_Protocol c \<notin> {[], ProtocolTCP, ProtocolUDP, ''quic''})
          (ErrNew ''runtime connection protocol is invalid'')]
       @ map (reference_check c) (range_keys env
           [''peer_node_id'', ''gateway_id'', ''agent_id'', ''assignment_id'', ''service_id'', ''parent_session_id''])
       @ [fail_if (rc_SourceIP c \<noteq> [] \<and> parse_addr (rc_SourceIP c) = None)
            (ErrWrap ''runtime connection source_ip is invalid: '' (ErrStd ''netip.ParseAddr'')),
          fail_if (length (rc_Target c) > 2048 \<or> contains_any (rc_Target c) [CHR 0x00, CHR 0x0D, CHR 0x0A])
            (ErrNew ''runtime connection target is invalid''),
          fail_if (rc_StartedAt c = 0 \<or> rc_LastActivityAt c = 0)
            (ErrNew ''runtime connection timestamps are required''),
          (case rc_EndedAt c of None \<Rightarrow> None | Some t \<Rightarrow> fail_if (t < rc_StartedAt c)
            (ErrNew ''runtime connection ended_at precedes started_at'')),
          (case rc_Limit c of None \<Rightarrow> None | Some l \<Rightarrow> RuntimeRateLimit_Validate l)])"

definition RuntimeEvent_Validate :: "go_env \<Rightarrow> RuntimeEvent \<Rightarrow> check" where
  "RuntimeEvent_Validate env e =
     all_checks
       [ValidateID (re_ID e) ''runtime_event.id'',
        ValidateID (re_NodeID e) ''runtime_event.node_id'',
        fail_if (re_Type e \<notin> {''opened'', ''updated'', ''closed'', ''rejected'', ''rate_limited''})
          (ErrNew ''runtime event type is invalid''),
        fail_if (re_ConnectionID e = [] \<and> re_Connection e = None \<and> re_Type e \<noteq> ''rejected'')
          (ErrNew ''runtime event connection is required''),
        (if re_ConnectionID e = [] then None
         else ValidateID (re_ConnectionID e) ''runtime_event.connection_id''),
        (case re_Connection e of None \<Rightarrow> None | Some c \<Rightarrow>
           all_checks
             [RuntimeConnection_Validate env c,
              fail_if (rc_NodeID c \<noteq> re_NodeID e)
                (ErrNew ''runtime event connection node does not match event node''),
              fail_if (re_ConnectionID e \<noteq> [] \<and> rc_ID c \<noteq> re_ConnectionID e)
                (ErrNew ''runtime event connection id does not match event'')]),
        fail_if (length (re_Message e) > 1024 \<or> contains_any (re_Message e) [CHR 0x00, CHR 0x0D, CHR 0x0A])
          (ErrNew ''runtime event message is invalid''),
        fail_if (re_CreatedAt e = 0) (ErrNew ''runtime event timestamp is required'')]"

definition RuntimeSnapshot_Validate :: "go_env \<Rightarrow> RuntimeSnapshot \<Rightarrow> check" where
  "RuntimeSnapshot_Validate env s =
     and_then (ValidateID (rs_NodeID s) ''runtime_snapshot.node_id'')
     (if rs_ObservedAt s = 0 then Some (ErrNew ''runtime snapshot timestamp is required'')
      else if length (rs_Connections s) > 4096 then Some (ErrNew ''runtime snapshot is too large'')
      else all_checks (map (\<lambda>c. and_then (RuntimeConnection_Validate env c)
        (fail_if (rc_NodeID c \<noteq> rs_NodeID s)
          (ErrNew ''runtime snapshot connection node does not match snapshot node''))) (rs_Connections s)))"

section \<open>What a valid report guarantees\<close>

text \<open>
  A report that validates names every session and every listening socket (protocol,
  canonical address, port) at most once, within the size limits, and never claims to be healthy
  and degraded at once.
\<close>

theorem ObservedState_Validate_unique:
  assumes "ObservedState_Validate now ob = None"
  shows "distinct (map ss_ID (os_Sessions ob))
    \<and> distinct (map (\<lambda>l. (lst_Protocol l, normalizedIP (lst_Bind l), lst_Port l)) (os_Listeners ob))
    \<and> length (os_Sessions ob) \<le> 4096 \<and> length (os_Listeners ob) \<le> 4096
    \<and> \<not> (os_Healthy ob \<and> os_Degraded ob)"
proof -
  have "distinct (map listener_state_socket (os_Listeners ob))"
    using assms by (simp add: ObservedState_Validate_def each_unique_None)
  then have "distinct (map (\<lambda>l. (lst_Protocol l, normalizedIP (lst_Bind l), lst_Port l)) (os_Listeners ob))"
    by (rule distinct_map_factor) (simp add: listener_state_socket_def)
  then show ?thesis
    using assms by (simp add: ObservedState_Validate_def each_unique_None not_less)
qed

definition zero_metrics :: RuntimeMetrics where
  "zero_metrics = \<lparr>rm_ActiveStreams = 0, rm_ActiveSessions = 0, rm_ActiveEgress = 0,
     rm_UDPOversizeDrops = 0, rm_GeoIPUp = False, rm_ActiveConnections = 0, rm_ActiveFlows = 0,
     rm_RuntimeBytesInTotal = 0, rm_RuntimeBytesOutTotal = 0, rm_RuntimeOpenedTotal = 0,
     rm_RuntimeClosedTotal = 0, rm_RuntimeRejectedTotal = 0, rm_RuntimeRateLimitedTotal = 0,
     rm_RuntimeTelemetryDroppedTotal = 0\<rparr>"

theorem ObservedState_Validate_unique_witness:
  "distinct (map (\<lambda>l. (lst_Protocol l, normalizedIP (lst_Bind l), lst_Port l))
     [\<lparr>lst_Protocol = ''tcp'', lst_Bind = ''10.0.0.1'', lst_Port = 443, lst_Ready = True\<rparr>,
      \<lparr>lst_Protocol = ''udp'', lst_Bind = ''10.0.0.1'', lst_Port = 443, lst_Ready = True\<rparr>])"
proof -
  let ?ob = "\<lparr>os_SchemaVersion = 1, os_NodeID = ''gw'', os_AppliedGeneration = 3, os_Healthy = True,
    os_Degraded = False, os_LastError = None,
    os_Sessions = [\<lparr>ss_ID = ''ag'', ss_PeerID = [], ss_StartedAt = 1, ss_Streams = 2\<rparr>],
    os_Listeners = [\<lparr>lst_Protocol = ''tcp'', lst_Bind = ''10.0.0.1'', lst_Port = 443, lst_Ready = True\<rparr>,
      \<lparr>lst_Protocol = ''udp'', lst_Bind = ''10.0.0.1'', lst_Port = 443, lst_Ready = True\<rparr>],
    os_Metrics = zero_metrics, os_SystemInfo = None, os_ObservedAt = 9\<rparr>"
  have "ObservedState_Validate 9 ?ob = None"
    by (simp add: ObservedState_Validate_def CurrentControlProtocolVersion_def sample_ids
        SystemInfo_Validate_def session_id_check_def session_body_check_def listener_state_check_def
        validateListenerState_def sample_trims sample_hosts sample_hostports listener_state_socket_def
        socketKey_def ok_check_def)
  from ObservedState_Validate_unique [OF this] show ?thesis by simp
qed

end
