(* ===== verification/Controller_Reconcile.thy ===== *)
theory Controller_Reconcile
  imports Controller_Schedule Domain_Observed
begin

text \<open>
  \<^verbatim>\<open>internal/controller/scheduler.go\<close>, \<^verbatim>\<open>scheduler_reconcile.go\<close> and the repository side of
  \<^verbatim>\<open>scheduler_placement.go\<close>: how the controller drives the pure placement of
  \<^verbatim>\<open>Controller_Schedule\<close> against its store. The store is the Go interface
  \<^verbatim>\<open>SchedulingRepository\<close>: a record of operations on a state \<open>'s\<close>, each of which may change the
  state (also through other writers) and may fail. Metrics are not modelled, and one call sees
  one clock value.
\<close>

section \<open>Operations on the store\<close>

type_synonym ('s, 'a) op = "'s \<Rightarrow> 's \<times> (sched_error + 'a)"

definition ret :: "'a \<Rightarrow> ('s, 'a) op" where
  "ret x s = (s, Inr x)"

definition fail :: "sched_error \<Rightarrow> ('s, 'a) op" where
  "fail e s = (s, Inl e)"

definition bind_op :: "('s, 'a) op \<Rightarrow> ('a \<Rightarrow> ('s, 'b) op) \<Rightarrow> ('s, 'b) op" where
  "bind_op m f s = (case m s of (s', Inl e) \<Rightarrow> (s', Inl e) | (s', Inr x) \<Rightarrow> f x s')"

text \<open>The caller looks at the error itself.\<close>

definition catch_op :: "('s, 'a) op \<Rightarrow> (sched_error + 'a \<Rightarrow> ('s, 'b) op) \<Rightarrow> ('s, 'b) op" where
  "catch_op m f s = (case m s of (s', r) \<Rightarrow> f r s')"

definition lift_result :: "sched_error + 'a \<Rightarrow> ('s, 'a) op" where
  "lift_result r s = (s, r)"

record WriteOptions =
  wo_IfMatch :: int
  wo_IdempotencyKey :: string
  wo_Actor :: string

record SnapshotRecord =
  sr_NodeID :: string
  sr_Generation :: u64
  sr_Checksum :: string
  sr_Document :: bytes
  sr_CreatedAt :: time

record 's SchedulingRepository =
  GetNode :: "string \<Rightarrow> ('s, Node) op"
  GetNodeSpec :: "string \<Rightarrow> ('s, NodeSpec) op"
  ListNodes :: "string \<Rightarrow> ('s, Node list) op"
  ListServices :: "string \<Rightarrow> ('s, Service list) op"
  ListAssignments :: "string \<Rightarrow> string \<Rightarrow> ('s, Assignment list) op"
  GetAssignment :: "string \<Rightarrow> ('s, Assignment) op"
  GetObserved :: "string \<Rightarrow> ('s, ObservedState) op"
  LoadSnapshot :: "string \<Rightarrow> ('s, SnapshotRecord) op"
  EnsureDesiredSnapshot :: "string \<Rightarrow> ('s, SnapshotRecord) op"
  UpdateAssignmentState :: "string \<Rightarrow> string \<Rightarrow> WriteOptions \<Rightarrow> ('s, Assignment) op"
  PutAssignment :: "Assignment \<Rightarrow> WriteOptions \<Rightarrow> ('s, unit) op"
  LoadGatewayCandidates :: "('s, GatewayCandidate list) op"
  AllocateAssignmentID :: "Assignment \<Rightarrow> ('s, string) op"

text \<open>\<^verbatim>\<open>ctx.Err()\<close>, which may turn non-nil between two steps, is read from the state.\<close>

type_synonym 's go_context = "'s \<Rightarrow> sched_error option"

section \<open>The repository's own part\<close>

abbreviation DefaultGatewayOfflineAfter :: duration where "DefaultGatewayOfflineAfter \<equiv> 30000000000"

definition candidate_eligible :: "Node \<Rightarrow> bool" where
  "candidate_eligible g \<longleftrightarrow> node_Enabled g \<and> \<not> unusable_certificate g"

definition listeners_and_bindings :: "GatewaySpec \<Rightarrow> Assignment list \<Rightarrow> string set" where
  "listeners_and_bindings spec as =
     set (map (\<lambda>l. bindingKey (ls_Protocol l) (ls_Bind l) (ls_Port l)) (gw_Listeners spec))
     \<union> set (map key_of_binding (concat (map as_Bindings (filter (\<lambda>a. \<not> relinquished a) as))))"

definition observed_healthy :: "time \<Rightarrow> ObservedState option \<Rightarrow> bool" where
  "observed_healthy now st =
     (case st of
        None \<Rightarrow> True
      | Some o' \<Rightarrow> os_Healthy o' \<and> \<not> os_Degraded o'
          \<and> (os_ObservedAt o' = 0 \<or> time_sub now (os_ObservedAt o') < DefaultGatewayOfflineAfter))"

text \<open>
  \<open>nodes\<close>, \<open>specs\<close>, \<open>assignments\<close> and \<open>observed\<close> are the answers of \<^verbatim>\<open>ListNodes\<close> and of the three batch
  queries.
\<close>

definition load_gateway_candidates ::
  "time \<Rightarrow> Node list \<Rightarrow> (string \<rightharpoonup> NodeSpec) \<Rightarrow> (string \<Rightarrow> Assignment list) \<Rightarrow> (string \<rightharpoonup> ObservedState) \<Rightarrow> GatewayCandidate list" where
  "load_gateway_candidates now nodes specs assignments observed =
     List.map_filter (\<lambda>g.
       case specs (node_ID g) of
         None \<Rightarrow> None
       | Some ns \<Rightarrow>
           (case ns_Gateway ns of
              None \<Rightarrow> None
            | Some spec0 \<Rightarrow>
                if ns_Kind ns \<noteq> NodeSpecGateway then None
                else let spec = spec0\<lparr>gw_Revision := ns_Revision ns\<rparr>; as = assignments (node_ID g)
                     in Some \<lparr>gc_Node = g, gc_Spec = spec, gc_Healthy = observed_healthy now (observed (node_ID g)),
                          gc_Assignments = as, gc_UsedBindings = listeners_and_bindings spec as\<rparr>))
       (filter candidate_eligible nodes)"

text \<open>\<open>exists\<close> is the \<^verbatim>\<open>SELECT 1\<close>; \<open>True\<close> when a row with that identifier is stored.\<close>

definition suffix_candidate :: "string \<Rightarrow> bytes \<Rightarrow> nat \<Rightarrow> string" where
  "suffix_candidate base digest suffix =
     (let hexSuffix = hex_encode (take suffix digest)
      in take (128 - 1 - length hexSuffix) base @ ''-'' @ hexSuffix)"

fun try_suffixes :: "(string \<Rightarrow> bool result) \<Rightarrow> string \<Rightarrow> bytes \<Rightarrow> nat list \<Rightarrow> string result" where
  "try_suffixes exists base digest [] = Inl (ErrNew ''could not allocate a unique assignment id'')"
| "try_suffixes exists base digest (n # ns) =
     (let candidate = suffix_candidate base digest n
      in check_then (ValidateID candidate ''assignment.id'')
        (bind_result (exists candidate) (\<lambda>found. if found then try_suffixes exists base digest ns else Inr candidate)))"

definition text_of :: "string \<Rightarrow> bytes" where
  "text_of s = map (\<lambda>c. of_nat (byte_of c)) s"

fun join_nul :: "string list \<Rightarrow> string" where
  "join_nul [] = []"
| "join_nul [x] = x"
| "join_nul (x # xs) = x @ [CHR 0x00] @ join_nul xs"

definition allocate_assignment_id :: "go_env \<Rightarrow> (string \<Rightarrow> bool result) \<Rightarrow> Assignment \<Rightarrow> string result" where
  "allocate_assignment_id env exists a =
     (let base = as_ID a
      in check_then (ValidateID base ''assignment.id'')
        (bind_result (exists base) (\<lambda>found.
           if \<not> found then Inr base
           else let digest = sha256 env (text_of (join_nul (sort (as_ServiceIDs a))))
                in try_suffixes exists base digest (filter even [6..<Suc (length digest)]))))"

definition scopedScheduleWriteOptions :: "go_env \<Rightarrow> WriteOptions \<Rightarrow> string \<Rightarrow> WriteOptions" where
  "scopedScheduleWriteOptions env opts assignmentID =
     (let key = trim_space (wo_IdempotencyKey opts)
      in if key = [] then opts
         else opts\<lparr>wo_IdempotencyKey := ''schedule-'' @ hex_encode (sha256 env (text_of (key @ [CHR 0x00] @ assignmentID)))\<rparr>)"

definition validateIdempotencyKey :: "string \<Rightarrow> check" where
  "validateIdempotencyKey key =
     fail_if (length key > 128 \<or> contains_any key [CHR 0x00, CHR 0x0D, CHR 0x0A]) (ErrNew ''idempotency key is invalid'')"

section \<open>One placement\<close>

text \<open>The generation of the new assignment, which must not wrap around.\<close>

definition snapshot_generation :: "sched_error + SnapshotRecord \<Rightarrow> sched_error + u64" where
  "snapshot_generation previous =
     (case previous of
        Inr r \<Rightarrow> if sr_Generation r = - 1 then Inl (Other (ErrNew ''desired snapshot generation is exhausted''))
                 else Inr (sr_Generation r + 1)
      | Inl ErrNoRows \<Rightarrow> Inr 1
      | Inl e \<Rightarrow> Inl e)"

definition next_generation :: "sched_error + SnapshotRecord \<Rightarrow> Assignment option \<Rightarrow> sched_error + u64" where
  "next_generation previous existing =
     (case snapshot_generation previous of
        Inl e \<Rightarrow> Inl e
      | Inr generation \<Rightarrow>
          (case existing of
             None \<Rightarrow> Inr generation
           | Some a \<Rightarrow>
               if as_Generation a \<ge> generation then
                 if as_Generation a = - 1 then Inl (Other (ErrNew ''assignment generation is exhausted''))
                 else Inr (as_Generation a + 1)
               else Inr generation))"

definition ensure_snapshot :: "'s SchedulingRepository \<Rightarrow> string \<Rightarrow> ('s, unit) op" where
  "ensure_snapshot repo i =
     catch_op (EnsureDesiredSnapshot repo i) (\<lambda>r. case r of
       Inr _ \<Rightarrow> ret () | Inl ErrNoRows \<Rightarrow> ret () | Inl e \<Rightarrow> fail e)"

text \<open>The write of a changed placement: the row first, then the snapshots of all nodes concerned.\<close>

definition commit_assignment ::
  "'s SchedulingRepository \<Rightarrow> Assignment option \<Rightarrow> WriteOptions \<Rightarrow> Assignment \<Rightarrow> ('s, Assignment) op" where
  "commit_assignment repo existing opts a =
     bind_op (PutAssignment repo a opts) (\<lambda>_.
     bind_op (case existing of
         Some e \<Rightarrow> if as_GatewayID e \<noteq> as_GatewayID a then ensure_snapshot repo (as_GatewayID e) else ret ()
       | None \<Rightarrow> ret ()) (\<lambda>_.
     bind_op (ensure_snapshot repo (as_GatewayID a)) (\<lambda>_.
     bind_op (ensure_snapshot repo (as_AgentID a)) (\<lambda>_.
     GetAssignment repo (as_ID a)))))"

definition unchanged_placement :: "Assignment option \<Rightarrow> Assignment \<Rightarrow> bool" where
  "unchanged_placement existing a =
     (case existing of
        Some e \<Rightarrow> as_State e \<noteq> AssignmentDegraded \<and> as_State e \<noteq> AssignmentDraining \<and> sameAssignmentPlacement e a
      | None \<Rightarrow> False)"

definition scheduleAgentAssignmentAttempt ::
  "go_env \<Rightarrow> time \<Rightarrow> 's SchedulingRepository \<Rightarrow> Node \<Rightarrow> AgentSpec \<Rightarrow> Service list \<Rightarrow> Assignment option \<Rightarrow> WriteOptions \<Rightarrow>
   ('s, Assignment) op" where
  "scheduleAgentAssignmentAttempt env now repo agent spec services existing opts =
     bind_op (LoadGatewayCandidates repo) (\<lambda>candidates.
     catch_op (LoadSnapshot repo (node_ID agent)) (\<lambda>previous.
     bind_op (lift_result (next_generation previous existing)) (\<lambda>generation.
     bind_op (lift_result (Schedule now \<lparr>rq_Agent = agent, rq_AgentSpec = spec, rq_Services = services,
        rq_Existing = existing, rq_Generation = generation\<rparr> candidates)) (\<lambda>a.
     if unchanged_placement existing a then
       bind_op (ensure_snapshot repo (as_GatewayID (the existing))) (\<lambda>_.
       bind_op (ensure_snapshot repo (as_AgentID (the existing))) (\<lambda>_.
       ret (the existing)))
     else
       (case existing of
          Some e \<Rightarrow>
            commit_assignment repo existing (scopedScheduleWriteOptions env (opts\<lparr>wo_IfMatch := as_Revision e\<rparr>) (as_ID e))
              (a\<lparr>as_ID := as_ID e\<rparr>)
        | None \<Rightarrow>
            bind_op (AllocateAssignmentID repo a) (\<lambda>i.
            commit_assignment repo existing (scopedScheduleWriteOptions env (opts\<lparr>wo_IfMatch := 0\<rparr>) i) (a\<lparr>as_ID := i\<rparr>)))))))"

abbreviation maxScheduleAttempts :: nat where "maxScheduleAttempts \<equiv> 2"

text \<open>The loop, by the number of attempts left.\<close>

definition refresh_existing :: "'s SchedulingRepository \<Rightarrow> Assignment option \<Rightarrow> ('s, Assignment option) op" where
  "refresh_existing repo existing =
     (case existing of
        None \<Rightarrow> ret None
      | Some e \<Rightarrow> catch_op (GetAssignment repo (as_ID e)) (\<lambda>r. case r of
          Inr refreshed \<Rightarrow> ret (Some refreshed) | Inl ErrNoRows \<Rightarrow> ret None | Inl err \<Rightarrow> fail err))"

fun schedule_attempts ::
  "go_env \<Rightarrow> time \<Rightarrow> 's go_context \<Rightarrow> 's SchedulingRepository \<Rightarrow> Node \<Rightarrow> AgentSpec \<Rightarrow> Service list \<Rightarrow> Assignment option \<Rightarrow>
   WriteOptions \<Rightarrow> nat \<Rightarrow> ('s, Assignment) op" where
  "schedule_attempts env now ctx repo agent spec services existing opts 0 =
     fail (Other (ErrNew ''scheduling attempts exhausted''))"
| "schedule_attempts env now ctx repo agent spec services existing opts (Suc n) =
     bind_op (if Suc n < maxScheduleAttempts then refresh_existing repo existing else ret existing) (\<lambda>attemptExisting.
     catch_op (scheduleAgentAssignmentAttempt env now repo agent spec services attemptExisting opts) (\<lambda>r.
       case r of
         Inr a \<Rightarrow> ret a
       | Inl (PortConflict x) \<Rightarrow>
           if n = 0 then fail (PortConflict x)
           else (\<lambda>s. case ctx s of
                  Some e \<Rightarrow> fail e s
                | None \<Rightarrow> schedule_attempts env now ctx repo agent spec services existing opts n s)
       | Inl e \<Rightarrow> fail e))"

definition scheduleAgentAssignment ::
  "go_env \<Rightarrow> time \<Rightarrow> 's go_context \<Rightarrow> 's SchedulingRepository \<Rightarrow> Node \<Rightarrow> AgentSpec \<Rightarrow> Service list \<Rightarrow> Assignment option \<Rightarrow>
   WriteOptions \<Rightarrow> ('s, Assignment) op" where
  "scheduleAgentAssignment env now ctx repo agent spec services existing opts =
     schedule_attempts env now ctx repo agent spec services existing opts maxScheduleAttempts"

section \<open>All services of an agent\<close>

definition service_index :: "Service list \<Rightarrow> string \<rightharpoonup> Service" where
  "service_index ss = fold (\<lambda>s m. m(sv_ID s \<mapsto> s)) ss Map.empty"

definition servicesForAssignment :: "Assignment \<Rightarrow> (string \<rightharpoonup> Service) \<Rightarrow> Service list" where
  "servicesForAssignment a byID = sort_key sv_ID (List.map_filter byID (as_ServiceIDs a))"

text \<open>The current assignments that still have enabled services, then the services that have none.\<close>

definition schedule_targets :: "Service list \<Rightarrow> Assignment list \<Rightarrow> (Assignment option \<times> Service list) list" where
  "schedule_targets services current =
     (let byID = service_index services;
          kept = filter (\<lambda>(a, ss). ss \<noteq> []) (map (\<lambda>a. (Some a, servicesForAssignment a byID)) current);
          assigned = set (map sv_ID (concat (map snd kept)));
          unassigned = filter (\<lambda>s. sv_ID s \<notin> assigned) services
      in kept @ (if length unassigned > 0 then [(None, unassigned)] else []))"

fun each_op :: "('a \<Rightarrow> ('s, 'b) op) \<Rightarrow> 'a list \<Rightarrow> ('s, unit) op" where
  "each_op f [] = ret ()"
| "each_op f (x # xs) = bind_op (f x) (\<lambda>_. each_op f xs)"

definition agent_spec_of :: "NodeSpec \<Rightarrow> sched_error + AgentSpec" where
  "agent_spec_of ns =
     (if ns_Kind ns \<noteq> NodeSpecAgent then Inl (Other (ErrNew ''node is not configured as an agent''))
      else case ns_Agent ns of
          None \<Rightarrow> Inl (Other (ErrNew ''node is not configured as an agent''))
        | Some a \<Rightarrow> Inr (a\<lparr>ag_Revision := ns_Revision ns\<rparr>))"

definition ScheduleAgent ::
  "go_env \<Rightarrow> time \<Rightarrow> 's go_context \<Rightarrow> 's SchedulingRepository \<Rightarrow> string \<Rightarrow> WriteOptions \<Rightarrow> ('s, Assignment list) op" where
  "ScheduleAgent env now ctx repo agentID opts =
     (case validateIdempotencyKey (trim_space (wo_IdempotencyKey opts)) of
        Some e \<Rightarrow> fail (Other e)
      | None \<Rightarrow>
        bind_op (GetNode repo agentID) (\<lambda>agent.
        if \<not> node_Enabled agent then fail (Other (ErrNew ''agent is disabled''))
        else
        bind_op (GetNodeSpec repo agentID) (\<lambda>ns.
        bind_op (lift_result (agent_spec_of ns)) (\<lambda>spec.
        bind_op (ListServices repo agentID) (\<lambda>all.
        let services = filterEnabledServices all in
        if length services = 0 then fail (Other (ErrNew ''agent has no services to schedule''))
        else
        bind_op (ListAssignments repo [] agentID) (\<lambda>current.
        bind_op (each_op (\<lambda>(existing, ss). scheduleAgentAssignment env now ctx repo agent spec ss existing opts)
                   (schedule_targets services current)) (\<lambda>_.
        ListAssignments repo [] agentID)))))))"

section \<open>Reconciliation\<close>

abbreviation system_write :: WriteOptions where
  "system_write \<equiv> \<lparr>wo_IfMatch = 0, wo_IdempotencyKey = [], wo_Actor = ''system''\<rparr>"

fun reconcile_agents ::
  "go_env \<Rightarrow> time \<Rightarrow> 's go_context \<Rightarrow> 's SchedulingRepository \<Rightarrow> string list \<Rightarrow> string list \<Rightarrow> Assignment list \<Rightarrow> ('s, Assignment list) op" where
  "reconcile_agents env now ctx repo seen [] result = ret result"
| "reconcile_agents env now ctx repo seen (i # is) result =
     (let agentID = trim_space i in
      if agentID = [] \<or> agentID \<in> set seen then reconcile_agents env now ctx repo seen is result
      else let skip = reconcile_agents env now ctx repo (agentID # seen) is result in
        catch_op (GetNode repo agentID) (\<lambda>r. case r of
          Inl ErrNoRows \<Rightarrow> skip
        | Inl e \<Rightarrow> fail e
        | Inr node \<Rightarrow>
            catch_op (GetNodeSpec repo agentID) (\<lambda>r'. case r' of
              Inl ErrNoRows \<Rightarrow> skip
            | Inl e \<Rightarrow> fail e
            | Inr ns \<Rightarrow>
                if ns_Kind ns \<noteq> NodeSpecAgent \<or> \<not> node_Enabled node then skip
                else bind_op (ListServices repo agentID) (\<lambda>services.
                  if length (filterEnabledServices services) = 0 then skip
                  else catch_op (ScheduleAgent env now ctx repo agentID system_write) (\<lambda>r''.
                    case r'' of
                      Inl e \<Rightarrow> if e = ErrNoHealthyGateway then skip else fail e
                    | Inr as \<Rightarrow> reconcile_agents env now ctx repo (agentID # seen) is (result @ as))))))"

definition ReconcileAssignmentsForAgents ::
  "go_env \<Rightarrow> time \<Rightarrow> 's go_context \<Rightarrow> 's SchedulingRepository \<Rightarrow> string list \<Rightarrow> ('s, Assignment list) op" where
  "ReconcileAssignmentsForAgents env now ctx repo agentIDs = reconcile_agents env now ctx repo [] agentIDs []"

fun reconcile_pending ::
  "go_env \<Rightarrow> time \<Rightarrow> 's go_context \<Rightarrow> 's SchedulingRepository \<Rightarrow> Node list \<Rightarrow> Assignment list \<Rightarrow> ('s, Assignment list) op" where
  "reconcile_pending env now ctx repo [] result = ret result"
| "reconcile_pending env now ctx repo (n # ns) result =
     (if \<not> node_Enabled n then reconcile_pending env now ctx repo ns result
      else bind_op (ReconcileAssignmentsForAgents env now ctx repo [node_ID n]) (\<lambda>as.
        reconcile_pending env now ctx repo ns (result @ as)))"

definition ReconcilePendingServices ::
  "go_env \<Rightarrow> time \<Rightarrow> 's go_context \<Rightarrow> 's SchedulingRepository \<Rightarrow> ('s, Assignment list) op" where
  "ReconcilePendingServices env now ctx repo =
     bind_op (ListNodes repo NodeSpecAgent) (\<lambda>nodes. reconcile_pending env now ctx repo nodes [])"

definition scheduleExistingAssignment ::
  "go_env \<Rightarrow> time \<Rightarrow> 's go_context \<Rightarrow> 's SchedulingRepository \<Rightarrow> Assignment \<Rightarrow> WriteOptions \<Rightarrow> ('s, Assignment) op" where
  "scheduleExistingAssignment env now ctx repo existing opts =
     bind_op (GetNode repo (as_AgentID existing)) (\<lambda>agent.
     bind_op (GetNodeSpec repo (as_AgentID existing)) (\<lambda>ns.
     bind_op (lift_result (agent_spec_of ns)) (\<lambda>spec.
     bind_op (ListServices repo (as_AgentID existing)) (\<lambda>services.
     let selected = servicesForAssignment existing (service_index (filterEnabledServices services)) in
     if length selected = 0 then fail (Other (ErrNew ''assignment has no enabled services to schedule''))
     else scheduleAgentAssignment env now ctx repo agent spec selected (Some existing) opts))))"

text \<open>
  Is the gateway unavailable? \<open>None\<close> is a missing observed row, which counts only against a gateway
  that was disabled or whose certificate is not usable.
\<close>

definition gateway_stale :: "time \<Rightarrow> duration \<Rightarrow> Node \<Rightarrow> ObservedState option \<Rightarrow> bool" where
  "gateway_stale now offlineAfter g observed =
     (let nodeUnavailable = (\<not> node_Enabled g \<or> unusable_certificate g)
      in case observed of
           None \<Rightarrow> nodeUnavailable
         | Some o' \<Rightarrow> nodeUnavailable \<or> os_Degraded o' \<or> \<not> os_Healthy o' \<or> os_ObservedAt o' = 0
             \<or> time_sub now (os_ObservedAt o') \<ge> offlineAfter)"

text \<open>Mark a stale assignment and publish the mark; \<open>None\<close> when another writer was faster.\<close>

definition degrade :: "'s SchedulingRepository \<Rightarrow> Assignment \<Rightarrow> ('s, Assignment option) op" where
  "degrade repo a =
     (if as_State a = AssignmentDegraded then ret (Some a)
      else catch_op (UpdateAssignmentState repo (as_ID a) AssignmentDegraded
             \<lparr>wo_IfMatch = as_Revision a, wo_IdempotencyKey = [], wo_Actor = ''system''\<rparr>) (\<lambda>r. case r of
        Inl (RevisionConflict k x y) \<Rightarrow> ret None
      | Inl e \<Rightarrow> fail e
      | Inr updated \<Rightarrow>
          bind_op (ensure_snapshot repo (as_GatewayID updated)) (\<lambda>_.
          bind_op (ensure_snapshot repo (as_AgentID updated)) (\<lambda>_.
          ret (Some updated)))))"

text \<open>One iteration: \<open>None\<close> is \<^verbatim>\<open>continue\<close>, \<open>Some\<close> an appended result.\<close>

definition reconcile_one ::
  "go_env \<Rightarrow> time \<Rightarrow> 's go_context \<Rightarrow> 's SchedulingRepository \<Rightarrow> duration \<Rightarrow> Assignment \<Rightarrow> ('s, Assignment option) op" where
  "reconcile_one env now ctx repo offlineAfter a =
     (if as_State a = AssignmentDraining then ret None
      else catch_op (GetNode repo (as_GatewayID a)) (\<lambda>r. case r of
        Inl ErrNoRows \<Rightarrow> ret None
      | Inl e \<Rightarrow> fail e
      | Inr gateway \<Rightarrow>
          catch_op (GetObserved repo (as_GatewayID a)) (\<lambda>r'.
          let go = (\<lambda>observed.
                if \<not> gateway_stale now offlineAfter gateway observed then ret None
                else bind_op (degrade repo a) (\<lambda>d. case d of
                    None \<Rightarrow> ret None
                  | Some a' \<Rightarrow> catch_op (scheduleExistingAssignment env now ctx repo a' system_write) (\<lambda>r''.
                      case r'' of Inl _ \<Rightarrow> ret None | Inr failedOver \<Rightarrow> ret (Some failedOver))))
          in case r' of
               Inl ErrNoRows \<Rightarrow> go None
             | Inl e \<Rightarrow> fail e
             | Inr observed \<Rightarrow> go (Some observed))))"

fun reconcileAssignmentSet ::
  "go_env \<Rightarrow> time \<Rightarrow> 's go_context \<Rightarrow> 's SchedulingRepository \<Rightarrow> duration \<Rightarrow> Assignment list \<Rightarrow> ('s, Assignment list) op" where
  "reconcileAssignmentSet env now ctx repo offlineAfter [] = ret []"
| "reconcileAssignmentSet env now ctx repo offlineAfter (a # as) =
     bind_op (reconcile_one env now ctx repo offlineAfter a) (\<lambda>x.
     bind_op (reconcileAssignmentSet env now ctx repo offlineAfter as) (\<lambda>xs.
     ret (case x of None \<Rightarrow> xs | Some y \<Rightarrow> y # xs)))"

definition offline_default :: "duration \<Rightarrow> duration" where
  "offline_default d = (if d \<le> 0 then DefaultGatewayOfflineAfter else d)"

definition ReconcileAssignments ::
  "go_env \<Rightarrow> time \<Rightarrow> 's go_context \<Rightarrow> 's SchedulingRepository \<Rightarrow> duration \<Rightarrow> ('s, Assignment list) op" where
  "ReconcileAssignments env now ctx repo offlineAfter =
     bind_op (ListAssignments repo [] []) (\<lambda>as. reconcileAssignmentSet env now ctx repo (offline_default offlineAfter) as)"

fun gather_assignments :: "'s SchedulingRepository \<Rightarrow> string list \<Rightarrow> string list \<Rightarrow> ('s, Assignment list) op" where
  "gather_assignments repo seen [] = ret []"
| "gather_assignments repo seen (i # is) =
     (let g = trim_space i in
      if g = [] \<or> g \<in> set seen then gather_assignments repo seen is
      else bind_op (ListAssignments repo g []) (\<lambda>items.
        bind_op (gather_assignments repo (g # seen) is) (\<lambda>rest. ret (items @ rest))))"

definition ReconcileAssignmentsForGateways ::
  "go_env \<Rightarrow> time \<Rightarrow> 's go_context \<Rightarrow> 's SchedulingRepository \<Rightarrow> duration \<Rightarrow> string list \<Rightarrow> ('s, Assignment list) op" where
  "ReconcileAssignmentsForGateways env now ctx repo offlineAfter gatewayIDs =
     bind_op (gather_assignments repo [] gatewayIDs) (\<lambda>as.
       reconcileAssignmentSet env now ctx repo (offline_default offlineAfter) as)"

section \<open>Generations\<close>

lemma word_less_succ:
  assumes "(x :: u64) \<noteq> - 1"
  shows "x < x + 1"
proof -
  have "unat x < 2 ^ 64" using unsigned_less [of x, where ?'a = nat] by simp
  moreover have "unat x \<noteq> 2 ^ 64 - 1"
  proof
    assume "unat x = 2 ^ 64 - 1"
    then have "x = of_nat (2 ^ 64 - 1)" by (metis of_nat_unat ucast_id)
    then show False using assms by simp
  qed
  ultimately have "unat (x + 1) = unat x + 1" by (simp add: unat_word_ariths)
  then show ?thesis by (simp add: word_less_nat_alt)
qed

text \<open>
  The generation a new placement gets is above the agent's last desired snapshot and above the
  assignment it replaces: the 64-bit counter is never allowed to wrap, exhaustion is an error.
\<close>

theorem next_generation_increases:
  assumes "next_generation previous existing = Inr g"
  shows "0 < g \<and> (\<forall>r. previous = Inr r \<longrightarrow> sr_Generation r < g) \<and> (\<forall>a. existing = Some a \<longrightarrow> as_Generation a < g)"
proof -
  obtain n where n: "snapshot_generation previous = Inr n" using assms by (auto simp: next_generation_def split: sum.splits)
  have pos: "(x :: u64) < y \<Longrightarrow> 0 < y" for x y by (metis word_gt_0 word_less_nat_alt not_less0 unat_0)
  have prev: "0 < n \<and> (\<forall>r. previous = Inr r \<longrightarrow> sr_Generation r < n)"
  proof (cases previous)
    case (Inl e)
    with n show ?thesis by (cases e) (auto simp: snapshot_generation_def)
  next
    case (Inr r)
    with n have "sr_Generation r \<noteq> - 1" "n = sr_Generation r + 1" by (auto simp: snapshot_generation_def split: if_splits)
    with Inr word_less_succ show ?thesis by (auto intro: pos)
  qed
  have "n \<le> g \<and> (\<forall>a. existing = Some a \<longrightarrow> as_Generation a < g)"
  proof (cases existing)
    case None
    with assms n show ?thesis by (simp add: next_generation_def)
  next
    case (Some a)
    show ?thesis
    proof (cases "as_Generation a \<ge> n")
      case True
      with Some assms n have "as_Generation a \<noteq> - 1" "g = as_Generation a + 1" by (auto simp: next_generation_def split: if_splits)
      with True Some word_less_succ [of "as_Generation a"] show ?thesis by auto
    next
      case False
      with Some assms n show ?thesis by (simp add: next_generation_def)
    qed
  qed
  with prev show ?thesis by (auto intro: less_le_trans)
qed

theorem next_generation_increases_witness:
  "\<exists>g. next_generation (Inr \<lparr>sr_NodeID = ''ag'', sr_Generation = 7, sr_Checksum = [], sr_Document = [], sr_CreatedAt = 1\<rparr>)
      (Some (sample_assignment ''a1'' 8000)) = Inr g \<and> 7 < g \<and> as_Generation (sample_assignment ''a1'' 8000) < g"
proof -
  let ?r = "\<lparr>sr_NodeID = ''ag'', sr_Generation = 7, sr_Checksum = [], sr_Document = [], sr_CreatedAt = 1\<rparr>"
  have g: "next_generation (Inr ?r) (Some (sample_assignment ''a1'' 8000)) = Inr 8"
    by (simp add: next_generation_def snapshot_generation_def sample_assignment_def)
  from next_generation_increases [OF g] g show ?thesis by auto
qed

section \<open>Fresh identifiers\<close>

lemma ValidateID_ok:
  assumes "s \<noteq> []" "length s \<le> 128" "list_all id_char s" "\<not> id_punct (hd s)" "\<not> id_punct (last s)"
  shows "ValidateID s path = None"
proof -
  have "trim_space s = s"
    using assms(1,3) by (intro trim_space_graphic) (auto simp: id_char_graphic list_all_iff)
  moreover have "1 \<le> length s" using assms(1) by (cases s) auto
  ultimately show ?thesis using assms by (auto simp: ValidateID_def list_ex_iff list_all_iff)
qed

text \<open>Shortening a valid identifier and adding a hexadecimal suffix never gives an invalid one.\<close>

lemma suffix_candidate_valid:
  assumes "ValidateID base ''assignment.id'' = None" "length digest = 32" "0 < n" "n \<le> 32"
  shows "ValidateID (suffix_candidate base digest n) path = None"
proof (rule ValidateID_ok)
  let ?h = "hex_encode (take n digest)" and ?s = "suffix_candidate base digest n"
  have b: "base \<noteq> []" "list_all id_char base" "\<not> id_punct (hd base)"
    using assms(1) by (auto simp: ValidateID_def list_ex_iff list_all_iff split: if_splits)
  have h: "length ?h = 2 * n" using assms(2,4) by (simp add: length_hex_encode)
  then have ne: "?h \<noteq> []" "take (127 - length ?h) base \<noteq> []" using assms(3,4) b(1) by auto
  have s: "?s = take (127 - length ?h) base @ ''-'' @ ?h" by (simp add: suffix_candidate_def Let_def)
  show "?s \<noteq> []" "length ?s \<le> 128" using h assms(4) by (auto simp: s)
  have hex: "list_all id_char ?h"
    using hex_encode_chars [of "take n digest"] by (auto simp: list_all_iff id_char_def)
  moreover have "list_all id_char (take (127 - length ?h) base)" using b(2) by (auto simp: list_all_iff dest: in_set_takeD)
  moreover have "id_char CHR ''-''" by (simp add: id_char_def id_punct_def)
  ultimately show "list_all id_char ?s" by (simp add: s)
  show "\<not> id_punct (hd ?s)" using ne(2) b(3) by (simp add: s hd_append)
  have "last ?s = last ?h" using ne(1) by (simp add: s)
  moreover have "is_digit (last ?h) \<or> is_lower (last ?h)" using hex_encode_chars [of "take n digest"] ne(1) by (simp add: list_all_iff)
  ultimately show "\<not> id_punct (last ?s)" by (auto simp: id_punct_def char_class_defs)
qed

lemma try_suffixes_total:
  assumes "\<forall>i. \<exists>b. exists i = Inr b" "ValidateID base ''assignment.id'' = None" "length digest = 32" "\<forall>n \<in> set ns. 0 < n \<and> n \<le> 32"
  shows "(\<exists>i. try_suffixes exists base digest ns = Inr i \<and> exists i = Inr False \<and> ValidateID i ''assignment.id'' = None)
    \<or> (try_suffixes exists base digest ns = Inl (ErrNew ''could not allocate a unique assignment id'')
       \<and> (\<forall>n \<in> set ns. exists (suffix_candidate base digest n) = Inr True))"
  using assms(4)
proof (induction ns)
  case (Cons n ns)
  have v: "ValidateID (suffix_candidate base digest n) ''assignment.id'' = None"
    using Cons.prems by (intro suffix_candidate_valid [OF assms(2,3)]) auto
  obtain b where "exists (suffix_candidate base digest n) = Inr b" using assms(1) by blast
  with v Cons show ?case by (cases b) (auto simp: Let_def)
qed simp

text \<open>
  \<^verbatim>\<open>AllocateAssignmentID\<close> on a readable table and a valid base either returns a valid identifier that
  is not stored, or fails because the base and all fourteen suffixed candidates are stored; it
  never fails for a malformed candidate.
\<close>

theorem allocate_assignment_id_fresh:
  assumes "\<forall>i. \<exists>b. exists i = Inr b" "ValidateID (as_ID a) ''assignment.id'' = None" "\<forall>bs. length (sha256 env bs) = 32"
  shows "(\<exists>i. allocate_assignment_id env exists a = Inr i \<and> exists i = Inr False \<and> ValidateID i ''assignment.id'' = None)
    \<or> (allocate_assignment_id env exists a = Inl (ErrNew ''could not allocate a unique assignment id'') \<and> exists (as_ID a) = Inr True
       \<and> (\<forall>n \<in> {6, 8, 10, 12, 14, 16, 18, 20, 22, 24, 26, 28, 30, 32}.
            exists (suffix_candidate (as_ID a) (sha256 env (text_of (join_nul (sort (as_ServiceIDs a))))) n) = Inr True))"
proof -
  let ?d = "sha256 env (text_of (join_nul (sort (as_ServiceIDs a))))"
  have d: "length ?d = 32" using assms(3) by blast
  have ns: "filter even [6..<Suc (length ?d)] = [6, 8, 10, 12, 14, 16, 18, 20, 22, 24, 26, 28, 30, 32]"
    unfolding d by (simp add: upt_rec)
  obtain b where b: "exists (as_ID a) = Inr b" using assms(1) by blast
  show ?thesis
  proof (cases b)
    case True
    then have "allocate_assignment_id env exists a = try_suffixes exists (as_ID a) ?d [6, 8, 10, 12, 14, 16, 18, 20, 22, 24, 26, 28, 30, 32]"
      using assms(2) b unfolding allocate_assignment_id_def Let_def ns by (simp del: try_suffixes.simps)
    with try_suffixes_total [OF assms(1,2) d, of "[6, 8, 10, 12, 14, 16, 18, 20, 22, 24, 26, 28, 30, 32]"] b True
    show ?thesis by simp
  next
    case False
    with b assms(2) show ?thesis by (simp add: allocate_assignment_id_def Let_def)
  qed
qed

theorem allocate_assignment_id_fresh_witness:
  "\<exists>i. allocate_assignment_id plain_env (\<lambda>i. Inr (i = ''web'')) (sample_assignment ''web'' 8000) = Inr i \<and> i \<noteq> ''web''"
proof -
  have "ValidateID (as_ID (sample_assignment ''web'' 8000)) ''assignment.id'' = None" by (simp add: sample_assignment_def sample_ids)
  moreover have "suffix_candidate b d n \<noteq> ''web''" for b d n
  proof -
    have "CHR ''-'' \<in> set (suffix_candidate b d n)" by (simp add: suffix_candidate_def Let_def)
    then show ?thesis by auto
  qed
  ultimately show ?thesis
    using allocate_assignment_id_fresh [of "\<lambda>i. Inr (i = ''web'')" "sample_assignment ''web'' 8000" plain_env]
    by (fastforce simp: plain_env_sel)
qed

section \<open>Placements on the loaded candidates\<close>

lemma keys_are_sockets:
  "key_of_binding b = binding_socket b" "bindingKey (ls_Protocol l) (ls_Bind l) (ls_Port l) = listener_socket l"
  by (simp_all add: bindingKey_socketKey binding_socket_def listener_socket_def)

lemma load_gateway_candidates_mem:
  assumes "c \<in> set (load_gateway_candidates now nodes specs assignments observed)"
  obtains ns spec where "gc_Node c \<in> set nodes" "candidate_eligible (gc_Node c)" "specs (node_ID (gc_Node c)) = Some ns"
    "ns_Gateway ns = Some spec" "gc_Healthy c = observed_healthy now (observed (node_ID (gc_Node c)))"
    "gc_Assignments c = assignments (node_ID (gc_Node c))"
    "gc_UsedBindings c = listeners_and_bindings spec (assignments (node_ID (gc_Node c)))"
  using assms that
  by (fastforce simp: load_gateway_candidates_def List.map_filter_def listeners_and_bindings_def Let_def split: option.splits if_splits)

text \<open>
  A first placement computed from what the repository loads lands on a stored gateway that is
  enabled, certified and not observed unhealthy, and its sockets are pairwise distinct, none of
  them a listener of that gateway or held by a live assignment there: the very conditions the
  snapshot validation asks for.
\<close>

theorem first_placement_sockets_free:
  assumes "Schedule now req (load_gateway_candidates now nodes specs assignments observed) = Inr a" "rq_Existing req = None"
  shows "\<exists>g \<in> set nodes. \<exists>ns spec. node_ID g = as_GatewayID a \<and> candidate_eligible g \<and> observed_healthy now (observed (node_ID g))
    \<and> specs (node_ID g) = Some ns \<and> ns_Gateway ns = Some spec \<and> distinct (map binding_socket (as_Bindings a))
    \<and> (\<forall>b \<in> set (as_Bindings a). (\<forall>l \<in> set (gw_Listeners spec). binding_socket b \<noteq> listener_socket l)
        \<and> (\<forall>x \<in> set (assignments (node_ID g)). \<not> relinquished x \<longrightarrow> (\<forall>y \<in> set (as_Bindings x). binding_socket b \<noteq> binding_socket y)))"
proof -
  obtain c ids bs ep where c: "c \<in> set (load_gateway_candidates now nodes specs assignments observed)"
    "\<not> candidate_skipped (effective req) c" and a: "a = placed_assignment now (effective req) c ids bs ep"
    and d: "distinct (map key_of_binding bs)" and free: "key_of_binding ` set bs \<inter> occupied_keys (effective req) c = {}"
    using assms(1) by (rule Schedule_chosen)
  from c(1) obtain ns spec where n: "gc_Node c \<in> set nodes" "candidate_eligible (gc_Node c)" "specs (node_ID (gc_Node c)) = Some ns"
    "ns_Gateway ns = Some spec" and h: "gc_Healthy c = observed_healthy now (observed (node_ID (gc_Node c)))"
    and u: "gc_UsedBindings c = listeners_and_bindings spec (assignments (node_ID (gc_Node c)))"
    by (rule load_gateway_candidates_mem)
  have "observed_healthy now (observed (node_ID (gc_Node c)))" using c(2) h by (simp add: candidate_skipped_def)
  moreover have "gc_UsedBindings c \<subseteq> occupied_keys (effective req) c"
    using assms(2) by (simp add: occupied_keys_def own_assignment_def)
  then have "key_of_binding ` set bs \<inter> listeners_and_bindings spec (assignments (node_ID (gc_Node c))) = {}" using free u by blast
  then have "\<forall>b \<in> set bs. (\<forall>l \<in> set (gw_Listeners spec). binding_socket b \<noteq> listener_socket l)
      \<and> (\<forall>x \<in> set (assignments (node_ID (gc_Node c))). \<not> relinquished x \<longrightarrow> (\<forall>y \<in> set (as_Bindings x). binding_socket b \<noteq> binding_socket y))"
    unfolding listeners_and_bindings_def keys_are_sockets by (simp add: disjoint_iff) blast
  moreover have "distinct (map binding_socket bs)" using d by (simp add: keys_are_sockets)
  moreover have "as_Bindings a = bs" "as_GatewayID a = node_ID (gc_Node c)" by (simp_all add: a placed_assignment_def)
  ultimately show ?thesis using n by (intro bexI [of _ "gc_Node c"] exI [of _ ns] exI [of _ spec]) simp_all
qed

definition sample_spec :: NodeSpec where
  "sample_spec = \<lparr>ns_NodeID = ''gw'', ns_Kind = ''gateway'', ns_Gateway = Some sample_gateway, ns_Agent = None, ns_Revision = 3, ns_UpdatedAt = 1\<rparr>"

theorem first_placement_sockets_free_witness:
  "\<exists>a. Schedule 7 sample_request (load_gateway_candidates 7 [sample_node ''gw'' ''gateway''] [''gw'' \<mapsto> sample_spec] (\<lambda>_. []) Map.empty) = Inr a
     \<and> (\<forall>b \<in> set (as_Bindings a). \<forall>l \<in> set (gw_Listeners sample_gateway). binding_socket b \<noteq> listener_socket l)"
proof -
  have used: "listeners_and_bindings sample_gateway [] = {bindingKey ''tcp'' ''10.0.0.1'' 443}"
    by (simp add: listeners_and_bindings_def sample_gateway_def)
  have rev: "sample_gateway\<lparr>gw_Revision := 3\<rparr> = sample_gateway" by (simp add: sample_gateway_def)
  have "load_gateway_candidates 7 [sample_node ''gw'' ''gateway''] [''gw'' \<mapsto> sample_spec] (\<lambda>_. []) Map.empty
      = [sample_candidate {bindingKey ''tcp'' ''10.0.0.1'' 443}]"
    by (simp add: load_gateway_candidates_def List.map_filter_def candidate_eligible_def unusable_certificate_def
        observed_healthy_def sample_spec_def sample_candidate_def sample_node_def rev used)
  then obtain a where a: "Schedule 7 sample_request (load_gateway_candidates 7 [sample_node ''gw'' ''gateway''] [''gw'' \<mapsto> sample_spec] (\<lambda>_. []) Map.empty) = Inr a"
    using sample_placed [OF sample_scan(2)] by simp
  have "rq_Existing sample_request = None" by (simp add: sample_request_def)
  from first_placement_sockets_free [OF a this] a show ?thesis by (auto simp: sample_spec_def split: if_splits)
qed

section \<open>No churn\<close>

lemma op_simps [simp]:
  "ret x s = (s, Inr x)" "fail e s = (s, Inl e)" "lift_result r s = (s, r)"
  "m s = (s', Inr x) \<Longrightarrow> bind_op m f s = f x s'" "m s = (s', Inl e) \<Longrightarrow> bind_op m f s = (s', Inl e)"
  "m s = (s', r) \<Longrightarrow> catch_op m g s = g r s'"
  by (simp_all add: ret_def fail_def lift_result_def bind_op_def catch_op_def)

text \<open>
  A reconciliation pass over assignments that are draining or whose gateway is available,
  recently observed healthy or not yet observed leaves the store as it is and reschedules
  nothing.
\<close>

theorem reconcile_leaves_healthy:
  assumes "\<And>a. a \<in> set as \<Longrightarrow> as_State a \<noteq> AssignmentDraining \<Longrightarrow>
      \<exists>g o'. GetNode repo (as_GatewayID a) s = (s, Inr g) \<and> \<not> gateway_stale now offlineAfter g o'
        \<and> GetObserved repo (as_GatewayID a) s = (s, case o' of None \<Rightarrow> Inl ErrNoRows | Some x \<Rightarrow> Inr x)"
  shows "reconcileAssignmentSet env now ctx repo offlineAfter as s = (s, Inr [])"
  using assms
proof (induction as)
  case (Cons a as)
  have "reconcile_one env now ctx repo offlineAfter a s = (s, Inr None)"
  proof (cases "as_State a = AssignmentDraining")
    case False
    then obtain g o' where "GetNode repo (as_GatewayID a) s = (s, Inr g)" "\<not> gateway_stale now offlineAfter g o'"
      "GetObserved repo (as_GatewayID a) s = (s, case o' of None \<Rightarrow> Inl ErrNoRows | Some x \<Rightarrow> Inr x)"
      using Cons.prems [of a] by auto
    with False show ?thesis by (cases o') (simp_all add: reconcile_one_def)
  qed (simp add: reconcile_one_def)
  with Cons show ?case by simp
qed simp

definition quiet_repo :: "nat SchedulingRepository" where
  "quiet_repo = \<lparr>GetNode = \<lambda>i. ret (sample_node i ''gateway''), GetNodeSpec = \<lambda>i. ret sample_spec, ListNodes = \<lambda>k. ret [],
     ListServices = \<lambda>i. ret [], ListAssignments = \<lambda>g a. ret [], GetAssignment = \<lambda>i. fail ErrNoRows,
     GetObserved = \<lambda>i. fail ErrNoRows, LoadSnapshot = \<lambda>i. fail ErrNoRows, EnsureDesiredSnapshot = \<lambda>i. fail ErrNoRows,
     UpdateAssignmentState = \<lambda>i st opts n. (Suc n, Inl ErrNoRows), PutAssignment = \<lambda>a opts n. (Suc n, Inr ()),
     LoadGatewayCandidates = ret [], AllocateAssignmentID = \<lambda>a. ret (as_ID a)\<rparr>"

theorem reconcile_leaves_healthy_witness:
  "reconcileAssignmentSet plain_env 7 (\<lambda>_. None) quiet_repo 30 [sample_assignment ''a1'' 8000] 5 = (5, Inr [])"
  by (rule reconcile_leaves_healthy)
    (auto simp: quiet_repo_def gateway_stale_def sample_node_def unusable_certificate_def intro!: exI [of _ "None :: ObservedState option"])

end
