(* ===== verification/Controller_Store.thy ===== *)
theory Controller_Store
  imports Controller_Reconcile
begin

text \<open>
  What the write operations of the controller's repository share: the write transaction, the
  idempotency keys of \<^verbatim>\<open>internal/controller/store_security.go\<close>, the audit trail and the revision check of
  \<^verbatim>\<open>store_helpers.go\<close>, and the errors of \<^verbatim>\<open>errors.go\<close>. A transaction works on a copy of the tables that replaces them
  at the commit and is dropped at every early return (the deferred \<^verbatim>\<open>Rollback\<close>). Transactions are serial: SQLite
  is opened with one connection. Every statement may fail; its error is looked up under a name of the
  statement. What a commit reports and whether it happened are separate.
\<close>

section \<open>Errors\<close>

abbreviation sql_ErrNoRows :: go_error where "sql_ErrNoRows \<equiv> Sentinel ''sql: no rows in result set''"
abbreviation ErrInvalidCredentials :: go_error where "ErrInvalidCredentials \<equiv> Sentinel ''invalid credentials''"
abbreviation ErrUserDisabled :: go_error where "ErrUserDisabled \<equiv> Sentinel ''user is disabled''"
abbreviation ErrInvalidAPIToken :: go_error where "ErrInvalidAPIToken \<equiv> Sentinel ''invalid API token''"
abbreviation ErrAPITokenExpired :: go_error where "ErrAPITokenExpired \<equiv> Sentinel ''API token has expired''"
abbreviation ErrInvalidEnrollmentToken :: go_error where "ErrInvalidEnrollmentToken \<equiv> Sentinel ''invalid enrollment token''"
abbreviation ErrEnrollmentTokenUsed :: go_error where "ErrEnrollmentTokenUsed \<equiv> Sentinel ''enrollment token has already been used or revoked''"
abbreviation ErrEnrollmentTokenExpired :: go_error where "ErrEnrollmentTokenExpired \<equiv> Sentinel ''enrollment token has expired''"
abbreviation ErrEnrollmentNodeMismatch :: go_error where "ErrEnrollmentNodeMismatch \<equiv> Sentinel ''enrollment token is bound to a different node''"
abbreviation ErrNodeNotEnrolled :: go_error where "ErrNodeNotEnrolled \<equiv> Sentinel ''node is not enrolled''"
abbreviation ErrInvalidEnrollmentRequest :: go_error where "ErrInvalidEnrollmentRequest \<equiv> Sentinel ''invalid enrollment request''"
abbreviation ErrNodeEnrollmentNotAllowed :: go_error where "ErrNodeEnrollmentNotAllowed \<equiv> Sentinel ''node enrollment is not allowed''"
abbreviation ErrStorageFailure :: go_error where "ErrStorageFailure \<equiv> Sentinel ''controller storage failure''"

definition isCredentialError :: "go_error \<Rightarrow> bool" where
  "isCredentialError err \<longleftrightarrow>
     (\<exists>s\<in>{''invalid credentials'', ''user is disabled'', ''invalid API token'', ''API token has expired'', ''invalid enrollment token'',
        ''enrollment token has already been used or revoked'', ''enrollment token has expired'', ''enrollment token is bound to a different node'',
        ''node is not enrolled'', ''node enrollment is not allowed''}. errors_is err s)"

definition storageFailure :: "string \<Rightarrow> go_error \<Rightarrow> go_error" where
  "storageFailure op err = ErrWrap2 ErrStorageFailure (ErrWrap (op @ '': '') err)"

text \<open>A column with a time: \<open>None\<close> is a text that \<^verbatim>\<open>time.Parse\<close> does not accept.\<close>

type_synonym stored_time = "time option"

definition parseStoredTime :: "string \<Rightarrow> stored_time \<Rightarrow> time result" where
  "parseStoredTime field value =
     (case value of None \<Rightarrow> Inl (ErrWrap2 ErrStorageFailure (ErrWrap (''invalid stored '' @ field) (ErrStd ''time.Parse''))) | Some t \<Rightarrow> Inr t)"

section \<open>Transactions\<close>

record audit_row =
  au_Actor :: string
  au_Action :: string
  au_Resource :: string
  au_ResourceID :: string
  au_Revision :: int
  au_Attributes :: labels

record store =
  st_keys :: "(string \<times> (string \<times> bytes)) list"
  st_audit :: "audit_row list"

type_synonym faults = "string \<Rightarrow> check"

record tx_answers =
  tx_err :: faults
  tx_commit :: "bool \<times> check"

text \<open>
  The body of a transaction returns the tables to commit (\<open>None\<close>: it returns without a commit) and its value;
  \<open>wb\<close> and \<open>wc\<close> wrap the errors of the begin and of the commit.
\<close>

definition run_write :: "(go_error \<Rightarrow> go_error) \<Rightarrow> (go_error \<Rightarrow> go_error) \<Rightarrow> tx_answers \<Rightarrow> ('s \<Rightarrow> ('s option \<times> 'a) result) \<Rightarrow> 's \<Rightarrow> 's \<times> 'a result" where
  "run_write wb wc ans body db =
     (case tx_err ans ''begin'' of Some e \<Rightarrow> (db, Inl (wb e)) | None \<Rightarrow>
      case body db of
        Inl e \<Rightarrow> (db, Inl e)
      | Inr (None, v) \<Rightarrow> (db, Inr v)
      | Inr (Some tx, v) \<Rightarrow>
          (if fst (tx_commit ans) then tx else db, case snd (tx_commit ans) of Some e \<Rightarrow> Inl (wc e) | None \<Rightarrow> Inr v))"

section \<open>Idempotency keys and the audit trail\<close>

abbreviation empty_json :: bytes where "empty_json \<equiv> [123, 125]"

definition idempotencyHit :: "faults \<Rightarrow> string \<Rightarrow> string result \<Rightarrow> 'z store_scheme \<Rightarrow> ('z store_scheme \<times> bool) result" where
  "idempotencyHit err key0 requestHash tx =
     (let key = trim_space key0 in
      check_then (validateIdempotencyKey key)
      (if key = [] then Inr (tx, False)
       else bind_result requestHash (\<lambda>hash.
         check_then (err ''reserve key'')
         (let row = map_of (st_keys tx) key;
              tx' = (if row = None then tx\<lparr>st_keys := AList.update key (hash, empty_json) (st_keys tx)\<rparr> else tx)
          in check_then (map_option (ErrWrap ''reserve idempotency key rows affected: '') (err ''reserve key rows''))
            (case row of
               None \<Rightarrow> Inr (tx', False)
             | Some (stored, _) \<Rightarrow>
                 check_then (err ''select request hash'')
                 (if stored \<noteq> hash then Inl (ErrNew ''idempotency key was used for a different request'') else Inr (tx', True)))))))"

definition recordIdempotency :: "faults \<Rightarrow> string \<Rightarrow> string result \<Rightarrow> bytes result \<Rightarrow> 'z store_scheme \<Rightarrow> 'z store_scheme result" where
  "recordIdempotency err key0 requestHash response tx =
     (let key = trim_space key0 in
      check_then (validateIdempotencyKey key)
      (if key = [] then Inr tx
       else bind_result requestHash (\<lambda>hash. bind_result response (\<lambda>encoded.
         check_then (err ''update response'')
         (let hit = (case map_of (st_keys tx) key of None \<Rightarrow> False | Some (stored, _) \<Rightarrow> stored = hash);
              tx' = (if hit then tx\<lparr>st_keys := AList.update key (hash, encoded) (st_keys tx)\<rparr> else tx)
          in check_then (map_option (ErrWrap ''record idempotency key rows affected: '') (err ''update response rows''))
            (if hit then Inr tx' else Inl (ErrNew ''idempotency key reservation was not held'')))))))"

text \<open>The stored response of a key, decoded.\<close>

definition stored_response :: "faults \<Rightarrow> string \<Rightarrow> (bytes \<Rightarrow> 'r result) \<Rightarrow> 'z store_scheme \<Rightarrow> 'r result" where
  "stored_response err key decode tx =
     check_then (err ''select response'')
     (case map_of (st_keys tx) (trim_space key) of None \<Rightarrow> Inl sql_ErrNoRows | Some (_, doc) \<Rightarrow> decode doc)"

definition insertAudit :: "faults \<Rightarrow> string \<Rightarrow> string \<Rightarrow> string \<Rightarrow> string \<Rightarrow> int \<Rightarrow> labels \<Rightarrow> 'z store_scheme \<Rightarrow> 'z store_scheme result" where
  "insertAudit err actor action resource resourceID revision attributes tx =
     check_then (err ''insert audit'')
     (Inr (tx\<lparr>st_audit := st_audit tx @ [\<lparr>au_Actor = (if trim_space actor = [] then ''system'' else actor), au_Action = action,
        au_Resource = resource, au_ResourceID = resourceID, au_Revision = revision, au_Attributes = attributes\<rparr>]\<rparr>))"

text \<open>\<open>affected\<close> is whether the conditional write met a row, \<open>actual\<close> the revision read afterwards.\<close>

definition requireRevisionWrite :: "faults \<Rightarrow> string \<Rightarrow> int \<Rightarrow> bool \<Rightarrow> int option \<Rightarrow> check" where
  "requireRevisionWrite err resource expected affected actual =
     and_then (map_option (ErrWrap (resource @ '' revision write rows affected: '')) (err ''revision rows''))
     (if affected then None
      else case err ''read revision'' of
          Some e \<Rightarrow> if errors_is e ''sql: no rows in result set'' then Some (RevisionConflictError resource expected 0)
                    else Some (ErrWrap (''read '' @ resource @ '' revision after conditional write: '') e)
        | None \<Rightarrow> Some (RevisionConflictError resource expected (case actual of None \<Rightarrow> 0 | Some r \<Rightarrow> r)))"

text \<open>
  The frame every keyed operation has: reserve the key, replay if it was used, otherwise do the work, which gives
  the tables, the response to record and the value, and record the response.
\<close>

definition keyed_tx ::
  "faults \<Rightarrow> string \<Rightarrow> string result \<Rightarrow> ('z store_scheme \<Rightarrow> ('z store_scheme option \<times> 'a) result) \<Rightarrow>
   ('z store_scheme \<Rightarrow> ('z store_scheme \<times> bytes result \<times> 'a) result) \<Rightarrow> 'z store_scheme \<Rightarrow> ('z store_scheme option \<times> 'a) result" where
  "keyed_tx err key hash replay work db =
     bind_result (idempotencyHit err key hash db) (\<lambda>(tx, hit).
       if hit then replay tx
       else bind_result (work tx) (\<lambda>(tx1, response, v).
         bind_result (recordIdempotency err key hash response tx1) (\<lambda>tx2. Inr (Some tx2, v))))"

section \<open>Lemmas\<close>

lemma run_write_cases:
  assumes "run_write wb wc ans body db = (db', r)"
  obtains "db' = db" | tx v where "body db = Inr (Some tx, v)" "db' = tx" "fst (tx_commit ans)"
  using assms by (auto simp: run_write_def split: option.splits sum.splits prod.splits if_splits)

text \<open>A commit that reports no error has happened.\<close>

definition commit_told :: "tx_answers \<Rightarrow> bool" where
  "commit_told ans \<longleftrightarrow> (snd (tx_commit ans) = None \<longrightarrow> fst (tx_commit ans))"

lemma run_write_success:
  assumes "run_write wb wc ans body db = (db', Inr v)" "commit_told ans"
  obtains "body db = Inr (None, v)" "db' = db" | "body db = Inr (Some db', v)"
  using assms by (auto simp: run_write_def commit_told_def split: option.splits sum.splits prod.splits if_splits)

lemma run_write_good:
  "tx_err ans ''begin'' = None \<Longrightarrow> tx_commit ans = (True, None) \<Longrightarrow> body db = Inr (Some tx, v) \<Longrightarrow> run_write wb wc ans body db = (tx, Inr v)"
  "tx_err ans ''begin'' = None \<Longrightarrow> body db = Inr (None, v) \<Longrightarrow> run_write wb wc ans body db = (db, Inr v)"
  by (simp_all add: run_write_def)

text \<open>Only the table of keys is touched by the keys, and only the audit trail by the audit.\<close>

definition same_but_keys :: "'z store_scheme \<Rightarrow> 'z store_scheme \<Rightarrow> bool" where
  "same_but_keys a b \<longleftrightarrow> (\<exists>k. b = a\<lparr>st_keys := k\<rparr>)"

lemma same_but_keys_refl [simp]: "same_but_keys a a"
  by (simp add: same_but_keys_def exI [of _ "st_keys a"])

lemma same_but_keys_update [simp]: "same_but_keys a (a\<lparr>st_keys := k\<rparr>)"
  by (auto simp: same_but_keys_def)

lemma hit_keeps:
  assumes "idempotencyHit err key hash db = Inr (tx, hit)"
  shows "same_but_keys db tx" "hit \<Longrightarrow> tx = db" "validateIdempotencyKey (trim_space key) = None"
    and "trim_space key \<noteq> [] \<Longrightarrow> \<exists>h doc. hash = Inr h \<and> map_of (st_keys tx) (trim_space key) = Some (h, doc)"
    and "trim_space key = [] \<Longrightarrow> tx = db \<and> \<not> hit"
  using assms by (auto simp: idempotencyHit_def Let_def update_conv' split: option.splits if_splits)

lemma record_keeps:
  assumes "recordIdempotency err key hash response tx = Inr tx'"
  shows "same_but_keys tx tx'"
    and "trim_space key \<noteq> [] \<Longrightarrow> \<exists>h doc. hash = Inr h \<and> response = Inr doc \<and> map_of (st_keys tx') (trim_space key) = Some (h, doc)"
  using assms by (auto simp: recordIdempotency_def Let_def update_conv' split: option.splits if_splits)

lemma insertAudit_Inr [simp]:
  "insertAudit err actor action resource i revision attrs tx = Inr tx' \<longleftrightarrow> err ''insert audit'' = None \<and>
     tx' = tx\<lparr>st_audit := st_audit tx @ [\<lparr>au_Actor = (if trim_space actor = [] then ''system'' else actor), au_Action = action,
        au_Resource = resource, au_ResourceID = i, au_Revision = revision, au_Attributes = attrs\<rparr>]\<rparr>"
  by (auto simp: insertAudit_def)

lemma requireRevisionWrite_None [simp]:
  "requireRevisionWrite err resource expected affected actual = None \<longleftrightarrow> affected \<and> err ''revision rows'' = None"
  by (auto simp: requireRevisionWrite_def split: option.splits)

lemma keyed_tx_cases:
  assumes "keyed_tx err key hash replay work db = Inr (ntx, v)"
  obtains (replayed) "idempotencyHit err key hash db = Inr (db, True)" "replay db = Inr (ntx, v)"
  | (fresh) tx tx1 response tx2 where "idempotencyHit err key hash db = Inr (tx, False)" "work tx = Inr (tx1, response, v)"
      "recordIdempotency err key hash response tx1 = Inr tx2" "ntx = Some tx2"
proof -
  obtain tx hit where h: "idempotencyHit err key hash db = Inr (tx, hit)" using assms by (auto simp: keyed_tx_def)
  show ?thesis
  proof (cases hit)
    case True
    moreover from this have "tx = db" using hit_keeps(2) [OF h] by simp
    ultimately show ?thesis using h assms replayed by (simp add: keyed_tx_def)
  next
    case False
    then show ?thesis using h assms fresh by (auto simp: keyed_tx_def)
  qed
qed

text \<open>Once the key is stored with the hash of the request, the operation replays.\<close>

lemma keyed_tx_replays:
  assumes "trim_space key \<noteq> []" "validateIdempotencyKey (trim_space key) = None" "hash = Inr h" "map_of (st_keys db) (trim_space key) = Some (h, doc)"
    and "err ''reserve key'' = None" "err ''reserve key rows'' = None" "err ''select request hash'' = None"
  shows "keyed_tx err key hash replay work db = replay db"
  using assms by (simp add: keyed_tx_def idempotencyHit_def Let_def)

text \<open>A keyed operation that succeeded has stored its key, with the hash of its request.\<close>

lemma keyed_tx_stores:
  assumes "keyed_tx err key hash replay work db = Inr (Some tx, v)" "trim_space key \<noteq> []" "\<And>x y. replay db = Inr (Some x, y) \<Longrightarrow> x = db"
  shows "validateIdempotencyKey (trim_space key) = None \<and> (\<exists>h doc. hash = Inr h \<and> map_of (st_keys tx) (trim_space key) = Some (h, doc))"
  using assms(1)
proof (cases rule: keyed_tx_cases)
  case replayed
  then show ?thesis using hit_keeps(3,4) [OF replayed(1)] assms(2,3) by auto
next
  case (fresh tx0 tx1 response tx2)
  then show ?thesis using hit_keeps(3) [OF fresh(1)] record_keeps(2) [OF fresh(3) assms(2)] by auto
qed

text \<open>What the work keeps and the keys do not touch, the operation keeps.\<close>

lemma keyed_tx_keeps:
  assumes "keyed_tx err key hash replay work db = Inr (Some tx, v)" "P db"
    and "\<And>a b. P a \<Longrightarrow> same_but_keys a b \<Longrightarrow> P b"
    and "\<And>a b r w. P a \<Longrightarrow> same_but_keys db a \<Longrightarrow> work a = Inr (b, r, w) \<Longrightarrow> P b" "\<And>b w. replay db = Inr (Some b, w) \<Longrightarrow> P b"
  shows "P tx"
  using assms(1)
proof (cases rule: keyed_tx_cases)
  case replayed
  then show ?thesis using assms(5) by blast
next
  case (fresh tx0 tx1 response tx2)
  have "P tx0" using assms(2,3) hit_keeps(1) [OF fresh(1)] by blast
  then have "P tx1" using assms(4) fresh(2) hit_keeps(1) [OF fresh(1)] by blast
  then show ?thesis using assms(3) record_keeps(1) [OF fresh(3)] fresh(4) by blast
qed

end
