(* ===== verification/Controller_Credentials.thy ===== *)
theory Controller_Credentials
  imports Go_Encoding Controller_Store
begin

text \<open>
  The credentials of \<^verbatim>\<open>internal/controller/crypto.go\<close> (password hashes and API tokens), the format of enrollment
  tokens that are bound to a node (\<^verbatim>\<open>enrollment_issue.go\<close>), and the checks on user names and roles. SHA-256, Argon2id
  and the random generator are parameters.
\<close>

section \<open>Passwords\<close>

definition argonMemory :: nat where "argonMemory = 65536"
definition argonTime :: nat where "argonTime = 3"
definition argonThreads :: nat where "argonThreads = 2"
definition argonHashBytes :: nat where "argonHashBytes = 32"
definition maxPasswordBytes :: nat where "maxPasswordBytes = 4096"

text \<open>\<open>cx_argon2 password salt time memory threads length\<close>.\<close>

record crypto_env =
  cx_sha256 :: "bytes \<Rightarrow> bytes"
  cx_argon2 :: "bytes \<Rightarrow> bytes \<Rightarrow> nat \<Rightarrow> nat \<Rightarrow> nat \<Rightarrow> nat \<Rightarrow> bytes"

definition HashPassword :: "crypto_env \<Rightarrow> bytes result \<Rightarrow> string \<Rightarrow> string result" where
  "HashPassword env rnd password =
     (if length password < 12 then Inl (ErrNew ''password must contain at least 12 characters'')
      else if length password > maxPasswordBytes then Inl (ErrNew ''password is too long'')
      else bind_result rnd (\<lambda>salt.
        let hash = cx_argon2 env (text_of password) salt argonTime argonMemory argonThreads argonHashBytes in
        Inr (''$argon2id$v=19$m='' @ show_nat argonMemory @ '',t='' @ show_nat argonTime @ '',p='' @ show_nat argonThreads
          @ ''$'' @ b64_encode std_alphabet salt @ ''$'' @ b64_encode std_alphabet hash)))"

text \<open>\<^verbatim>\<open>strconv.ParseUint(s, 10, 32)\<close>.\<close>

definition parse_uint32 :: "string \<Rightarrow> nat option" where
  "parse_uint32 s = (if s = [] then None else case scan_uint 0 s of ScanOk n \<Rightarrow> if n < 2 ^ 32 then Some n else None | _ \<Rightarrow> None)"

fun argon_params :: "string list \<Rightarrow> (string \<times> nat) list \<Rightarrow> (string \<times> nat) list option" where
  "argon_params [] params = Some params"
| "argon_params (part # parts) params =
     (case split_n2 CHR ''='' part of
        [name, text] \<Rightarrow>
          if name \<noteq> ''m'' \<and> name \<noteq> ''t'' \<and> name \<noteq> ''p'' then None
          else if map_of params name \<noteq> None then None
          else (case parse_uint32 text of None \<Rightarrow> None | Some v \<Rightarrow> argon_params parts (AList.update name v params))
      | _ \<Rightarrow> None)"

definition VerifyPassword :: "crypto_env \<Rightarrow> string \<Rightarrow> string \<Rightarrow> bool" where
  "VerifyPassword env encoded password =
     (if length password < 12 \<or> length password > maxPasswordBytes then False
      else let parts = split_on CHR ''$'' encoded in
        if length parts \<noteq> 6 \<or> parts ! 1 \<noteq> ''argon2id'' \<or> parts ! 2 \<noteq> ''v=19'' then False
        else case argon_params (split_on CHR '','' (parts ! 3)) [] of
            None \<Rightarrow> False
          | Some params \<Rightarrow>
              if length params \<noteq> 3 \<or> map_of params ''m'' \<noteq> Some argonMemory \<or> map_of params ''t'' \<noteq> Some argonTime \<or> map_of params ''p'' \<noteq> Some argonThreads
              then False
              else (case b64_decode std_alphabet (parts ! 4) of
                  None \<Rightarrow> False
                | Some salt \<Rightarrow>
                    if length salt < 8 \<or> length salt > 64 then False
                    else (case b64_decode std_alphabet (parts ! 5) of
                        None \<Rightarrow> False
                      | Some want \<Rightarrow>
                          if want = [] \<or> length want > 64 then False
                          else cx_argon2 env (text_of password) salt argonTime argonMemory argonThreads (length want) = want)))"

section \<open>Tokens\<close>

definition HashToken :: "crypto_env \<Rightarrow> string \<Rightarrow> string" where
  "HashToken env token = hex_encode (cx_sha256 env (text_of token))"

definition NewAPIToken :: "crypto_env \<Rightarrow> bytes result \<Rightarrow> (string \<times> string) result" where
  "NewAPIToken env rnd =
     bind_result rnd (\<lambda>token. let plain = ''af_'' @ b64_encode url_alphabet token in Inr (plain, HashToken env plain))"

definition randomID :: "bytes result \<Rightarrow> string result" where
  "randomID rnd = bind_result rnd (\<lambda>b. Inr (hex_encode b))"

definition nodeEnrollmentTokenPrefix :: string where "nodeEnrollmentTokenPrefix = ''afn_''"

definition nodeEnrollmentToken :: "string \<Rightarrow> string \<Rightarrow> string" where
  "nodeEnrollmentToken nodeID randomToken =
     nodeEnrollmentTokenPrefix @ hex_encode (text_of nodeID) @ ''_'' @ trim_prefix randomToken ''af_''"

definition string_of_bytes :: "bytes \<Rightarrow> string" where
  "string_of_bytes bs = map (\<lambda>b. char_of (unat b)) bs"

text \<open>The node a token is bound to; \<open>None\<close>: it is not bound to one.\<close>

definition parseNodeEnrollmentToken :: "string \<Rightarrow> string option result" where
  "parseNodeEnrollmentToken token =
     (if \<not> has_prefix token nodeEnrollmentTokenPrefix then Inr None
      else case split_n2 CHR ''_'' (trim_prefix token nodeEnrollmentTokenPrefix) of
          [hexID, secret] \<Rightarrow>
            if hexID = [] \<or> secret = [] then Inl (ErrNew ''node enrollment token is malformed'')
            else (case hex_decode hexID of
                None \<Rightarrow> Inl (ErrNew ''node enrollment token node binding is malformed'')
              | Some decoded \<Rightarrow>
                  if decoded = [] then Inl (ErrNew ''node enrollment token node binding is malformed'')
                  else if ValidateID (string_of_bytes decoded) ''node_id'' \<noteq> None
                    then Inl (ErrNew ''node enrollment token node binding is invalid'')
                    else Inr (Some (string_of_bytes decoded)))
        | _ \<Rightarrow> Inl (ErrNew ''node enrollment token is malformed''))"

section \<open>Users\<close>

definition RoleViewer :: string where "RoleViewer = ''viewer''"
definition RoleOperator :: string where "RoleOperator = ''operator''"
definition RoleAdmin :: string where "RoleAdmin = ''admin''"

definition ValidateRole :: "string \<Rightarrow> check" where
  "ValidateRole role = fail_if (role \<noteq> RoleViewer \<and> role \<noteq> RoleOperator \<and> role \<noteq> RoleAdmin) (ErrNew (''unknown role '' @ quoted role))"

definition validateUsername :: "string \<Rightarrow> check" where
  "validateUsername username =
     fail_if (username = [] \<or> length username > 128 \<or> trim_space username = [] \<or> contains_any username [CHR 0x00, CHR 0x0D, CHR 0x0A])
       (apply_error ''invalid_username'' ''username'' ''username must contain 1 to 128 single-line characters'')"

definition roleAllows :: "string \<Rightarrow> string \<Rightarrow> bool" where
  "roleAllows actual required =
     (if actual = RoleAdmin then True
      else if required = RoleViewer then actual = RoleViewer \<or> actual = RoleOperator
      else actual = required)"

section \<open>A stored hash verifies exactly its password\<close>

lemma std_no_dollar: "c \<in> set (b64_encode std_alphabet bs) \<Longrightarrow> c \<noteq> CHR ''$''"
  using b64_encode_chars [OF good_alphabets(1)] by (fastforce simp: std_alphabet_def)

lemma shown_params: "show_nat argonMemory = ''65536''" "show_nat argonTime = ''3''" "show_nat argonThreads = ''2''"
  by (simp_all add: argonMemory_def argonTime_def argonThreads_def show_nat.simps digit_char_def char_of_def bit_0)

lemma canonical_params:
  "argon_params (split_on CHR '','' ''m=65536,t=3,p=2'') [] = Some [(''m'', 65536), (''t'', 3), (''p'', 2)]"
  by (simp add: split_n2_def index_byte_def parse_uint32_def char_class_defs)

lemma split_hash:
  assumes "CHR ''$'' \<notin> set a" "CHR ''$'' \<notin> set b"
  shows "split_on CHR ''$'' (''$argon2id$v=19$m=65536,t=3,p=2$'' @ a @ ''$'' @ b) = [[], ''argon2id'', ''v=19'', ''m=65536,t=3,p=2'', a, b]"
  using assms by (simp add: split_on_append split_on_none)

lemma verify_parts:
  assumes "split_on CHR ''$'' encoded = [x, ''argon2id'', ''v=19'', ps, a, b]" "argon_params (split_on CHR '','' ps) [] = Some [(''m'', 65536), (''t'', 3), (''p'', 2)]"
    and "b64_decode std_alphabet a = Some salt" "b64_decode std_alphabet b = Some want"
  shows "VerifyPassword env encoded q \<longleftrightarrow> 12 \<le> length q \<and> length q \<le> maxPasswordBytes \<and> 8 \<le> length salt \<and> length salt \<le> 64 \<and> want \<noteq> [] \<and> length want \<le> 64
     \<and> cx_argon2 env (text_of q) salt argonTime argonMemory argonThreads (length want) = want"
  unfolding VerifyPassword_def Let_def assms(1) using assms(2-4) by (auto simp: argonMemory_def argonTime_def argonThreads_def)

text \<open>
  The verifier accepts exactly the passwords of admissible length whose Argon2id key under the stored
  salt is the stored one: in particular the password that was hashed.
\<close>

theorem password_verifies:
  assumes "HashPassword env (Inr salt) p = Inr encoded" "length salt = 16"
    and "\<And>a b. length (cx_argon2 env a b argonTime argonMemory argonThreads argonHashBytes) = argonHashBytes"
  shows "VerifyPassword env encoded q \<longleftrightarrow> 12 \<le> length q \<and> length q \<le> maxPasswordBytes
     \<and> cx_argon2 env (text_of q) salt argonTime argonMemory argonThreads argonHashBytes = cx_argon2 env (text_of p) salt argonTime argonMemory argonThreads argonHashBytes"
proof -
  let ?h = "cx_argon2 env (text_of p) salt argonTime argonMemory argonThreads argonHashBytes"
  have e: "encoded = ''$argon2id$v=19$m=65536,t=3,p=2$'' @ b64_encode std_alphabet salt @ ''$'' @ b64_encode std_alphabet ?h"
    using assms(1) by (auto simp: HashPassword_def shown_params split: if_splits)
  have s: "split_on CHR ''$'' encoded = [[], ''argon2id'', ''v=19'', ''m=65536,t=3,p=2'', b64_encode std_alphabet salt, b64_encode std_alphabet ?h]"
    unfolding e by (rule split_hash) (auto dest: std_no_dollar)
  have l: "length ?h = 32" using assms(3) by (simp add: argonHashBytes_def)
  then have n: "?h \<noteq> []" by auto
  show ?thesis
    using verify_parts [OF s canonical_params b64_decode_encode [OF good_alphabets(1)] b64_decode_encode [OF good_alphabets(1)], of env q] assms(2) l n
    by (simp add: argonHashBytes_def)
qed

section \<open>A token stays bound to its node\<close>

lemma string_of_text [simp]: "string_of_bytes (text_of s) = s"
proof -
  have "char_of (unat (of_nat (byte_of c) :: byte)) = c" for c by (simp add: unsigned_of_nat char_of_take_bit_eq)
  then show ?thesis by (simp add: string_of_bytes_def text_of_def comp_def)
qed

lemma hex_no_underscore: "CHR ''_'' \<notin> set (hex_encode bs)"
  using hex_encode_chars [of bs] by (auto simp: list_all_iff char_class_defs)

text \<open>A node's token names exactly that node, and an API token names none.\<close>

theorem node_token_bound:
  assumes "ValidateID nodeID ''node_id'' = None" "NewAPIToken env (Inr token) = Inr (plain, digest)" "token \<noteq> []"
  shows "parseNodeEnrollmentToken (nodeEnrollmentToken nodeID plain) = Inr (Some nodeID) \<and> parseNodeEnrollmentToken plain = Inr None"
proof -
  have p: "plain = ''af_'' @ b64_encode url_alphabet token" using assms(2) by (simp add: NewAPIToken_def Let_def)
  have b: "b64_encode url_alphabet token \<noteq> []"
    using assms(3) b64_decode_encode [OF good_alphabets(2), of token] by (cases "b64_encode url_alphabet token") (auto simp: b64_decode_def)
  have n: "nodeID \<noteq> []" using assms(1) by (auto simp: ValidateID_def split: if_splits)
  then have h: "hex_encode (text_of nodeID) \<noteq> []" using length_hex_encode [of "text_of nodeID"] by (cases nodeID) (auto simp: text_of_def)
  have "split_n2 CHR ''_'' (hex_encode (text_of nodeID) @ CHR ''_'' # b64_encode url_alphabet token) = [hex_encode (text_of nodeID), b64_encode url_alphabet token]"
    by (rule split_n2_append [OF hex_no_underscore])
  then show ?thesis using n h b assms(1)
    by (auto simp: parseNodeEnrollmentToken_def nodeEnrollmentToken_def nodeEnrollmentTokenPrefix_def p has_prefix_def trim_prefix_def hex_decode_encode text_of_def [symmetric])
      (auto simp: text_of_def)
qed

end
