(* ===== verification/Afdp_Datagram.thy ===== *)
theory Afdp_Datagram
  imports Prelude
begin

text \<open>
  \<^verbatim>\<open>internal/afdp/protocol_datagram.go\<close>: the fixed 24-byte header of an AFDP datagram, its
  validation, and the encoder and decoder; \<^verbatim>\<open>Fragments\<close> of \<^verbatim>\<open>protocol_reassembly.go\<close> splits a
  payload into such datagrams.
\<close>

unbundle bit_operations_syntax

section \<open>Errors and limits\<close>

abbreviation "ErrInvalidVersion \<equiv> Sentinel ''unsupported AFDP version''"
abbreviation "ErrMalformedFrame \<equiv> Sentinel ''malformed AFDP frame''"
abbreviation "ErrFrameTooLarge \<equiv> Sentinel ''AFDP frame exceeds configured limit''"
abbreviation "ErrTransient \<equiv> Sentinel ''AFDP transient resource limit''"

abbreviation Version :: byte where "Version \<equiv> 1"
abbreviation datagramHeaderBytes :: nat where "datagramHeaderBytes \<equiv> 24"
abbreviation maxDatagramPayload :: int where "maxDatagramPayload \<equiv> 65535"
abbreviation maxDatagramFragments :: nat where "maxDatagramFragments \<equiv> 1024"
abbreviation DatagramFlagFragmented :: byte where "DatagramFlagFragmented \<equiv> 1"
abbreviation DatagramFlagFin :: byte where "DatagramFlagFin \<equiv> 2"

record DatagramHeader =
  dh_Flags :: byte
  dh_FlowID :: u64
  dh_Sequence :: u32
  dh_FragmentIndex :: u16
  dh_FragmentCount :: u16

section \<open>Operations\<close>

definition validateDatagramHeader :: "DatagramHeader \<Rightarrow> check" where
  "validateDatagramHeader h =
     (if dh_FlowID h = 0 then Some ErrMalformedFrame
      else if dh_FragmentCount h = 0 then Some ErrMalformedFrame
      else if dh_FragmentCount h = 1 \<and> dh_FragmentIndex h \<noteq> 0 then Some ErrMalformedFrame
      else if dh_FragmentIndex h \<ge> dh_FragmentCount h then Some ErrMalformedFrame
      else if unat (dh_FragmentCount h) > maxDatagramFragments then Some ErrFrameTooLarge
      else if dh_FragmentCount h = 1 \<and> dh_Flags h AND DatagramFlagFragmented \<noteq> 0 then Some ErrMalformedFrame
      else if dh_FragmentCount h > 1 \<and> dh_Flags h AND DatagramFlagFragmented = 0 then Some ErrMalformedFrame
      else if dh_Flags h AND NOT (DatagramFlagFragmented OR DatagramFlagFin) \<noteq> 0 then Some ErrMalformedFrame
      else if dh_FragmentIndex h = dh_FragmentCount h - 1 \<and> dh_Flags h AND DatagramFlagFin = 0 then
        Some ErrMalformedFrame
      else if dh_FragmentIndex h \<noteq> dh_FragmentCount h - 1 \<and> dh_Flags h AND DatagramFlagFin \<noteq> 0 then
        Some ErrMalformedFrame
      else None)"

definition normalizeDatagramPayloadLimit :: "int \<Rightarrow> int" where
  "normalizeDatagramPayloadLimit maxPayload =
     (if maxPayload \<le> 0 \<or> maxPayload > maxDatagramPayload then maxDatagramPayload else maxPayload)"

definition EncodeDatagram :: "DatagramHeader \<Rightarrow> bytes \<Rightarrow> int \<Rightarrow> bytes result" where
  "EncodeDatagram h payload maxPayload =
     check_then (validateDatagramHeader h)
     (if int (length payload) > normalizeDatagramPayloadLimit maxPayload then Inl ErrFrameTooLarge
      else Inr (Version # dh_Flags h # be_put 2 (24 :: u16) @ be_put 8 (dh_FlowID h)
        @ be_put 4 (dh_Sequence h) @ be_put 2 (dh_FragmentIndex h) @ be_put 2 (dh_FragmentCount h)
        @ be_put 2 (of_nat (length payload) :: u16) @ [0, 0] @ payload))"

definition sub_slice :: "bytes \<Rightarrow> nat \<Rightarrow> nat \<Rightarrow> bytes" where
  "sub_slice bs i j = take (j - i) (drop i bs)"

definition decoded_header :: "bytes \<Rightarrow> DatagramHeader" where
  "decoded_header bs = \<lparr>dh_Flags = bs ! 1, dh_FlowID = be_get (sub_slice bs 4 12),
     dh_Sequence = be_get (sub_slice bs 12 16), dh_FragmentIndex = be_get (sub_slice bs 16 18),
     dh_FragmentCount = be_get (sub_slice bs 18 20)\<rparr>"

definition DecodeDatagram :: "bytes \<Rightarrow> int \<Rightarrow> (DatagramHeader \<times> bytes) result" where
  "DecodeDatagram bs maxPayload =
     (if length bs < datagramHeaderBytes then Inl ErrMalformedFrame
      else if bs ! 0 \<noteq> Version then Inl ErrInvalidVersion
      else if (be_get (sub_slice bs 2 4) :: u16) \<noteq> 24 \<or> (be_get (sub_slice bs 22 24) :: u16) \<noteq> 0 then
        Inl ErrMalformedFrame
      else if unat (be_get (sub_slice bs 20 22) :: u16) \<noteq> length bs - datagramHeaderBytes then
        Inl ErrMalformedFrame
      else check_then (validateDatagramHeader (decoded_header bs))
        (if int (unat (be_get (sub_slice bs 20 22) :: u16)) > normalizeDatagramPayloadLimit maxPayload then
           Inl ErrFrameTooLarge
         else Inr (decoded_header bs, drop datagramHeaderBytes bs)))"

text \<open>
  One datagram of \<^verbatim>\<open>Fragments\<close>: the bytes from \<open>index * partSize\<close> to the end of the part, with
  the flags the position demands.
\<close>

definition fragment_flags :: "nat \<Rightarrow> nat \<Rightarrow> byte" where
  "fragment_flags cnt index =
     (if cnt > 1 then DatagramFlagFragmented else 0) OR (if index = cnt - 1 then DatagramFlagFin else 0)"

definition fragment_part :: "bytes \<Rightarrow> nat \<Rightarrow> nat \<Rightarrow> bytes" where
  "fragment_part payload partSize index =
     sub_slice payload (index * partSize) (min (index * partSize + partSize) (length payload))"

definition fragment_header :: "u64 \<Rightarrow> u32 \<Rightarrow> nat \<Rightarrow> nat \<Rightarrow> DatagramHeader" where
  "fragment_header flowID seq cnt index =
     \<lparr>dh_Flags = fragment_flags cnt index, dh_FlowID = flowID, dh_Sequence = seq,
      dh_FragmentIndex = of_nat index, dh_FragmentCount = of_nat cnt\<rparr>"

definition fragment_count :: "nat \<Rightarrow> nat \<Rightarrow> nat" where
  "fragment_count len partSize =
     (let cnt = (len + partSize - 1) div partSize in if cnt = 0 then 1 else cnt)"

definition Fragments :: "u64 \<Rightarrow> u32 \<Rightarrow> bytes \<Rightarrow> int \<Rightarrow> bytes list result" where
  "Fragments flowID seq payload mtu =
     (if flowID = 0 then Inl ErrMalformedFrame
      else if mtu \<le> int datagramHeaderBytes then Inl (ErrNew ''datagram MTU is too small'')
      else let partSize = nat (mtu - int datagramHeaderBytes);
               cnt = fragment_count (length payload) partSize
        in if cnt > maxDatagramFragments then Inl ErrFrameTooLarge
           else map_result (\<lambda>index. EncodeDatagram (fragment_header flowID seq cnt index)
             (fragment_part payload partSize index) (int partSize)) [0 ..< cnt])"

section \<open>Round trips\<close>

lemma slice_append: "length pre = i \<Longrightarrow> j = i + length xs \<Longrightarrow> sub_slice (pre @ xs @ post) i j = xs"
  by (simp add: sub_slice_def)

lemma length_slice [simp]: "j \<le> length bs \<Longrightarrow> length (sub_slice bs i j) = j - i"
  by (simp add: sub_slice_def)

lemma slice_split: "i \<le> j \<Longrightarrow> j \<le> length bs \<Longrightarrow> drop i bs = sub_slice bs i j @ drop j bs"
  by (simp add: sub_slice_def) (metis append_take_drop_id drop_drop le_add_diff_inverse2)

lemma normalize_limit_bounds:
  "0 < normalizeDatagramPayloadLimit m" "normalizeDatagramPayloadLimit m \<le> maxDatagramPayload"
  by (simp_all add: normalizeDatagramPayloadLimit_def)

lemma payload_length_word:
  "int (length p) \<le> normalizeDatagramPayloadLimit m \<Longrightarrow> unat (of_nat (length p) :: u16) = length p"
  using normalize_limit_bounds [of m] by (simp add: unat_of_nat)

definition datagram_bytes :: "DatagramHeader \<Rightarrow> bytes \<Rightarrow> bytes" where
  "datagram_bytes h payload =
     Version # dh_Flags h # be_put 2 (24 :: u16) @ be_put 8 (dh_FlowID h)
        @ be_put 4 (dh_Sequence h) @ be_put 2 (dh_FragmentIndex h) @ be_put 2 (dh_FragmentCount h)
        @ be_put 2 (of_nat (length payload) :: u16) @ [0, 0] @ payload"

lemma EncodeDatagram_Inr:
  "EncodeDatagram h p m = Inr bs \<longleftrightarrow>
     validateDatagramHeader h = None \<and> int (length p) \<le> normalizeDatagramPayloadLimit m
     \<and> bs = datagram_bytes h p"
  by (auto simp: EncodeDatagram_def datagram_bytes_def)

lemma datagram_bytes_fields:
  "length (datagram_bytes h p) = 24 + length p"
  "datagram_bytes h p ! 0 = Version" "datagram_bytes h p ! Suc 0 = dh_Flags h"
  "sub_slice (datagram_bytes h p) 2 4 = be_put 2 (24 :: u16)"
  "sub_slice (datagram_bytes h p) 4 12 = be_put 8 (dh_FlowID h)"
  "sub_slice (datagram_bytes h p) 12 16 = be_put 4 (dh_Sequence h)"
  "sub_slice (datagram_bytes h p) 16 18 = be_put 2 (dh_FragmentIndex h)"
  "sub_slice (datagram_bytes h p) 18 20 = be_put 2 (dh_FragmentCount h)"
  "sub_slice (datagram_bytes h p) 20 22 = be_put 2 (of_nat (length p) :: u16)"
  "sub_slice (datagram_bytes h p) 22 24 = [0, 0]"
  "drop 24 (datagram_bytes h p) = p"
  by (simp_all add: datagram_bytes_def sub_slice_def codec_simps del: be_put.simps)

lemma decoded_header_bytes [simp]: "decoded_header (datagram_bytes h p) = h"
  by (simp add: decoded_header_def datagram_bytes_fields codec_simps del: be_put.simps)

lemma Decode_datagram_bytes:
  assumes "validateDatagramHeader h = None" "int (length p) \<le> normalizeDatagramPayloadLimit m"
  shows "DecodeDatagram (datagram_bytes h p) m = Inr (h, p)"
proof -
  have "(be_get [0, 0] :: u16) = 0" by (simp add: be_get_def be_nat_def)
  then show ?thesis
    using assms payload_length_word [OF assms(2)]
    by (simp add: DecodeDatagram_def datagram_bytes_fields codec_simps del: be_put.simps)
qed

lemma DecodeDatagram_bytes:
  assumes "DecodeDatagram bs m = Inr (h, p)"
  shows "bs = datagram_bytes h p" "validateDatagramHeader h = None"
    "int (length p) \<le> normalizeDatagramPayloadLimit m"
proof -
  have d: "24 \<le> length bs" "bs ! 0 = Version" "(be_get (sub_slice bs 2 4) :: u16) = 24"
    "(be_get (sub_slice bs 22 24) :: u16) = 0" "unat (be_get (sub_slice bs 20 22) :: u16) = length bs - 24"
    "h = decoded_header bs" "p = drop 24 bs"
    "validateDatagramHeader (decoded_header bs) = None"
    "int (length bs - 24) \<le> normalizeDatagramPayloadLimit m"
    using assms by (auto simp: DecodeDatagram_def not_less split: if_splits)
  show "validateDatagramHeader h = None" "int (length p) \<le> normalizeDatagramPayloadLimit m"
    using d by simp_all
  have len: "of_nat (length p) = (be_get (sub_slice bs 20 22) :: u16)"
    using d(5,7) by (metis length_drop of_nat_unat ucast_id)
  have put: "be_put 2 (be_get (sub_slice bs i (i + 2)) :: u16) = sub_slice bs i (i + 2)" if "i + 2 \<le> 24" for i
    using that d(1) by (intro u16be.put_get) simp
  obtain a b cs where "bs = a # b # cs" using d(1) by (cases bs; cases "tl bs") auto
  then have "bs = bs ! 0 # bs ! 1 # drop 2 bs" by simp
  also have "drop 2 bs = sub_slice bs 2 4 @ sub_slice bs 4 12 @ sub_slice bs 12 16 @ sub_slice bs 16 18
      @ sub_slice bs 18 20 @ sub_slice bs 20 22 @ sub_slice bs 22 24 @ drop 24 bs"
    using d(1) slice_split [of 2 4 bs] slice_split [of 4 12 bs] slice_split [of 12 16 bs]
      slice_split [of 16 18 bs] slice_split [of 18 20 bs] slice_split [of 20 22 bs]
      slice_split [of 22 24 bs] by simp
  also have "sub_slice bs 22 24 = [0, 0]"
    using put [of 22] d(4) by (simp add: numeral_2_eq_2)
  also have "sub_slice bs 20 22 = be_put 2 (of_nat (length p) :: u16)"
    using put [of 20] len by simp
  also have "sub_slice bs 2 4 = be_put 2 (24 :: u16)"
    using put [of 2] d(3) by simp
  finally have bs: "bs = bs ! 0 # bs ! 1 # be_put 2 (24 :: u16) @ sub_slice bs 4 12 @ sub_slice bs 12 16
      @ sub_slice bs 16 18 @ sub_slice bs 18 20 @ be_put 2 (of_nat (length p) :: u16) @ [0, 0] @ drop 24 bs" .
  have "sub_slice bs 16 18 = be_put 2 (dh_FragmentIndex h)" "sub_slice bs 18 20 = be_put 2 (dh_FragmentCount h)"
    "sub_slice bs 4 12 = be_put 8 (dh_FlowID h)" "sub_slice bs 12 16 = be_put 4 (dh_Sequence h)"
    using put [of 16] put [of 18] d(1,6) u64be.put_get [of "sub_slice bs 4 12"]
      u32be.put_get [of "sub_slice bs 12 16"]
    by (simp_all add: decoded_header_def del: be_put.simps)
  moreover have "bs ! 1 = dh_Flags h" using d(6) by (simp add: decoded_header_def)
  ultimately show "bs = datagram_bytes h p"
    unfolding datagram_bytes_def using bs unfolding d(2) d(7) [symmetric] by (simp only:)
qed

text \<open>
  C26. A datagram decodes to exactly the header and payload it was encoded from, whenever the
  reader's payload limit admits it.
\<close>

theorem DecodeDatagram_EncodeDatagram:
  assumes "EncodeDatagram h p m = Inr bs" and "int (length p) \<le> normalizeDatagramPayloadLimit m'"
  shows "DecodeDatagram bs m' = Inr (h, p)"
  using assms by (simp add: EncodeDatagram_Inr Decode_datagram_bytes)

definition sample_header :: DatagramHeader where
  "sample_header = \<lparr>dh_Flags = 3, dh_FlowID = 7, dh_Sequence = 9, dh_FragmentIndex = 1, dh_FragmentCount = 2\<rparr>"

lemma sample_header_valid: "validateDatagramHeader sample_header = None"
  by (simp add: validateDatagramHeader_def sample_header_def word_le_nat_alt word_less_nat_alt)

theorem DecodeDatagram_EncodeDatagram_witness:
  "\<exists>bs. EncodeDatagram sample_header [1, 2, 3] 100 = Inr bs \<and> DecodeDatagram bs 3 = Inr (sample_header, [1, 2, 3])"
proof -
  obtain bs where "EncodeDatagram sample_header [1, 2, 3] 100 = Inr bs"
    by (simp add: EncodeDatagram_Inr sample_header_valid normalizeDatagramPayloadLimit_def)
  moreover from this have "DecodeDatagram bs 3 = Inr (sample_header, [1, 2, 3])"
    by (rule DecodeDatagram_EncodeDatagram) (simp add: normalizeDatagramPayloadLimit_def)
  ultimately show ?thesis by blast
qed

text \<open>
  The wire format is canonical: whatever bytes the decoder accepts, re-encoding the decoded
  header and payload yields the same bytes, so no two byte strings carry the same datagram and
  the reserved bytes can hide nothing.
\<close>

theorem EncodeDatagram_DecodeDatagram:
  assumes "DecodeDatagram bs m = Inr (h, p)"
  shows "EncodeDatagram h p m = Inr bs \<and> length bs = datagramHeaderBytes + length p"
  using DecodeDatagram_bytes [OF assms] by (simp add: EncodeDatagram_Inr datagram_bytes_fields)

theorem EncodeDatagram_DecodeDatagram_witness:
  "EncodeDatagram sample_header [5] 10 = Inr (datagram_bytes sample_header [5])"
  using EncodeDatagram_DecodeDatagram [OF Decode_datagram_bytes [of sample_header "[5]" 10]]
  by (simp add: sample_header_valid normalizeDatagramPayloadLimit_def)

section \<open>Fragmentation\<close>

lemma fragment_count_pos: "0 < fragment_count len ps"
  by (simp add: fragment_count_def Let_def)

lemma fragment_count_cover:
  assumes "0 < ps"
  shows "len \<le> fragment_count len ps * ps" and "0 < len \<Longrightarrow> (fragment_count len ps - 1) * ps < len"
proof -
  let ?c = "(len + ps - 1) div ps"
  have "?c * ps + (len + ps - 1) mod ps = len + ps - 1" by simp
  moreover have "(len + ps - 1) mod ps < ps" using assms by simp
  ultimately have c: "len \<le> ?c * ps" "?c * ps < len + ps" using assms by linarith+
  show "len \<le> fragment_count len ps * ps" using c by (auto simp: fragment_count_def Let_def)
  assume "0 < len"
  then have "0 < ?c" using c by (cases ?c) auto
  then show "(fragment_count len ps - 1) * ps < len"
    using c \<open>0 < len\<close> by (simp add: fragment_count_def Let_def diff_mult_distrib)
qed

text \<open>The parts of a payload, in order, are the payload.\<close>

lemma concat_parts:
  "k * ps \<le> length p \<or> 0 < k \<and> (k - 1) * ps \<le> length p \<Longrightarrow>
   concat (map (fragment_part p ps) [0 ..< k]) = take (k * ps) p"
proof (induction k)
  case (Suc k)
  have k: "k * ps \<le> length p" using Suc.prems by auto
  have "fragment_part p ps k = take ps (drop (k * ps) p)"
    by (simp add: fragment_part_def sub_slice_def min_def)
  moreover have "take (Suc k * ps) p = take (k * ps) p @ take ps (drop (k * ps) p)"
    by (metis mult_Suc add.commute take_add)
  ultimately show ?case using k Suc.IH by simp
qed simp

lemma concat_fragment_parts:
  assumes "0 < ps"
  shows "concat (map (fragment_part p ps) [0 ..< fragment_count (length p) ps]) = p"
proof -
  have "(fragment_count (length p) ps - 1) * ps \<le> length p"
    using fragment_count_cover(2) [OF assms, of "length p"] by (cases "p = []") (auto simp: fragment_count_def assms)
  with concat_parts [of "fragment_count (length p) ps" ps p] fragment_count_pos [of "length p" ps]
    fragment_count_cover(1) [OF assms, of "length p"] show ?thesis by simp
qed

lemma fragment_part_length: "length (fragment_part p ps i) \<le> ps"
  by (simp add: fragment_part_def sub_slice_def)

lemma fragment_header_valid:
  assumes "flowID \<noteq> 0" "i < cnt" "cnt \<le> maxDatagramFragments"
  shows "validateDatagramHeader (fragment_header flowID sq cnt i) = None"
proof -
  have u: "unat (of_nat k :: u16) = k" if "k \<le> cnt" for k
    using that assms by (simp add: unat_of_nat)
  have less: "(of_nat i :: u16) < of_nat cnt" and one: "(of_nat cnt = (1 :: u16)) \<longleftrightarrow> cnt = 1"
    and zero: "(of_nat i = (0 :: u16)) \<longleftrightarrow> i = 0" "(of_nat cnt :: u16) \<noteq> 0"
    and gt: "(1 :: u16) < of_nat cnt \<longleftrightarrow> 1 < cnt"
    using u [of i] u [of cnt] assms by (auto simp: word_less_nat_alt word_unat_eq_iff)
  have last: "(of_nat i :: u16) = of_nat cnt - 1 \<longleftrightarrow> i = cnt - 1"
    using u [of i] u [of "cnt - 1"] assms by (auto simp: word_unat_eq_iff of_nat_diff)
  show ?thesis
    using assms less u [of cnt]
    by (auto simp: validateDatagramHeader_def fragment_header_def fragment_flags_def one zero gt last not_le)
qed

lemma Fragments_Inr:
  assumes "Fragments flowID sq p mtu = Inr frames"
  defines "ps \<equiv> nat (mtu - 24)" and "cnt \<equiv> fragment_count (length p) (nat (mtu - 24))"
  shows "flowID \<noteq> 0" "0 < ps" "cnt \<le> maxDatagramFragments" "length frames = cnt"
    and "i < cnt \<Longrightarrow> frames ! i = datagram_bytes (fragment_header flowID sq cnt i) (fragment_part p ps i)"
    and "i < cnt \<Longrightarrow> int (length (fragment_part p ps i)) \<le> normalizeDatagramPayloadLimit (int ps)"
  using assms
  by (auto simp: Fragments_def Let_def map_result_Inr EncodeDatagram_Inr split: if_splits)

lemma fragment_count_le:
  assumes "0 < ps" "len \<le> k * ps" "0 < k"
  shows "fragment_count len ps \<le> k"
proof -
  have "(len + ps - 1) div ps \<le> (k * ps + (ps - 1)) div ps"
    using assms by (intro div_le_mono) linarith
  also have "\<dots> = k" by (rule div_nat_eqI) (use assms in \<open>simp_all add: mult.commute\<close>)
  finally show ?thesis using assms by (simp add: fragment_count_def Let_def)
qed

text \<open>
  Fragmentation always succeeds for a payload of at most 1024 parts: every datagram carries
  the position and flags the header validation asks for, and the parts in order are the payload.
\<close>

theorem Fragments_total:
  assumes "flowID \<noteq> 0" and "24 < mtu" and "mtu \<le> 24 + maxDatagramPayload"
    and "int (length p) \<le> int maxDatagramFragments * (mtu - 24)"
  shows "\<exists>frames. Fragments flowID sq p mtu = Inr frames
    \<and> concat (map (drop datagramHeaderBytes) frames) = p
    \<and> (\<forall>f\<in>set frames. int (length f) \<le> mtu
         \<and> (\<exists>h part. DecodeDatagram f (mtu - 24) = Inr (h, part) \<and> dh_FlowID h = flowID \<and> dh_Sequence h = sq))"
proof -
  define ps where "ps = nat (mtu - 24)"
  define cnt where "cnt = fragment_count (length p) ps"
  define frame where "frame i = datagram_bytes (fragment_header flowID sq cnt i) (fragment_part p ps i)" for i
  have ps: "0 < ps" "int ps = mtu - 24" using assms by (auto simp: ps_def)
  have "int (length p) \<le> int (maxDatagramFragments * ps)" using assms(4) ps by simp
  then have cnt: "cnt \<le> maxDatagramFragments" unfolding cnt_def
    by (intro fragment_count_le) (use ps in \<open>auto simp only: of_nat_le_iff\<close>)
  have lim: "normalizeDatagramPayloadLimit (int ps) = int ps"
    using ps assms by (simp add: normalizeDatagramPayloadLimit_def)
  have len: "int (length (fragment_part p ps i)) \<le> int ps" for i
    using fragment_part_length [of p ps i] by simp
  have valid: "validateDatagramHeader (fragment_header flowID sq cnt i) = None" if "i < cnt" for i
    using assms(1) that cnt by (rule fragment_header_valid)
  have "Fragments flowID sq p mtu = map_result (\<lambda>i. EncodeDatagram (fragment_header flowID sq cnt i)
      (fragment_part p ps i) (int ps)) [0 ..< cnt]"
    using assms(1,2) cnt by (simp add: Fragments_def Let_def ps_def [symmetric] cnt_def [symmetric])
  also have "\<dots> = Inr (map frame [0 ..< cnt])"
    using valid lim len by (simp add: map_result_Inr EncodeDatagram_Inr frame_def)
  finally have "Fragments flowID sq p mtu = Inr (map frame [0 ..< cnt])" .
  moreover have "concat (map (drop datagramHeaderBytes) (map frame [0 ..< cnt])) = p"
    using concat_fragment_parts [OF ps(1), of p]
    by (simp add: o_def frame_def datagram_bytes_fields cnt_def [symmetric])
  moreover have "int (length (frame i)) \<le> mtu"
    "DecodeDatagram (frame i) (mtu - 24) = Inr (fragment_header flowID sq cnt i, fragment_part p ps i)"
    if "i < cnt" for i
    using len [of i] ps lim valid [OF that] Decode_datagram_bytes [of "fragment_header flowID sq cnt i" "fragment_part p ps i" "int ps"]
    by (simp_all add: frame_def datagram_bytes_fields)
  ultimately show ?thesis
    by (intro exI [of _ "map frame [0 ..< cnt]"]) (auto simp: fragment_header_def)
qed

theorem Fragments_total_witness:
  "\<exists>frames. Fragments 5 1 [10, 20, 30, 40, 50] 26 = Inr frames
     \<and> concat (map (drop datagramHeaderBytes) frames) = [10, 20, 30, 40, 50]"
  using Fragments_total [of 5 26 "[10, 20, 30, 40, 50]" 1] by fastforce

end
