(* ===== verification/Afdp_Control.thy ===== *)
theory Afdp_Control
  imports Afdp_Datagram Domain_Model
begin

text \<open>
  \<^verbatim>\<open>internal/afdp/protocol_control.go\<close>, \<^verbatim>\<open>protocol_capabilities.go\<close>, \<^verbatim>\<open>stream.go\<close> and
  \<^verbatim>\<open>internal/wireio\<close>: the control messages of an AFDP session, their validation, authorization
  and framing. The protobuf runtime is not part of the repository: \<open>mar\<close> stands for the
  deterministic marshaller and \<open>unm\<close> for the unmarshaller, which returns the message with the
  unknown fields it kept.
\<close>

section \<open>Messages\<close>

abbreviation "ErrUnauthorizedAgent \<equiv> Sentinel ''agent is not present in assignment''"
abbreviation "ErrProtocolViolation \<equiv> Sentinel ''AFDP protocol violation''"
abbreviation "ErrUnauthorizedOpen \<equiv> Sentinel ''AFDP open is unauthorized''"

abbreviation SessionHelloKind :: byte where "SessionHelloKind \<equiv> 1"
abbreviation SessionAcceptKind :: byte where "SessionAcceptKind \<equiv> 2"
abbreviation OpenKind :: byte where "OpenKind \<equiv> 3"

definition maxSessionFrame :: int where "maxSessionFrame = 2 ^ 20"
definition maxSessionCapabilities :: nat where "maxSessionCapabilities = 64"
definition maxSessionServiceIDs :: nat where "maxSessionServiceIDs = 4096"
definition maxTargetBytes :: nat where "maxTargetBytes = 2048"
definition defaultCapabilities :: "string list" where
  "defaultCapabilities = [''http'', ''socks5'', ''tcp'', ''udp'']"

text \<open>\<^verbatim>\<open>ServiceIDs\<close> is a set; the list holds its elements in the order \<^verbatim>\<open>range\<close> visits them.\<close>

record AssignmentView =
  av_ID :: string
  av_AgentID :: string
  av_Generation :: u64
  av_State :: string
  av_ServiceIDs :: "string list"
  av_MaxStreams :: int

record SessionHello =
  sh_AssignmentID :: string
  sh_Generation :: u64
  sh_AgentID :: string
  sh_Capabilities :: "string list"

record SessionAccept =
  sa_AssignmentID :: string
  sa_Generation :: u64
  sa_Capabilities :: "string list"
  sa_ServiceIDs :: "string list"

record OpenMetadata =
  om_Protocol :: string
  om_ServiceID :: string
  om_Target :: string
  om_FlowID :: u64
  om_Egress :: bool

definition AssignmentFromDomain :: "Assignment \<Rightarrow> int \<Rightarrow> AssignmentView" where
  "AssignmentFromDomain v maxStreams = \<lparr>av_ID = as_ID v, av_AgentID = as_AgentID v,
     av_Generation = as_Generation v, av_State = as_State v,
     av_ServiceIDs = remdups (as_ServiceIDs v), av_MaxStreams = maxStreams\<rparr>"

section \<open>Capabilities\<close>

definition CanonicalCapabilities :: "string list \<Rightarrow> string list" where
  "CanonicalCapabilities vs = sort vs"

definition CanonicalServiceIDs :: "string list \<Rightarrow> string list" where
  "CanonicalServiceIDs vs = sort vs"

fun intersect_caps :: "string list \<Rightarrow> string list \<Rightarrow> string list \<Rightarrow> string list" where
  "intersect_caps peer seen [] = []"
| "intersect_caps peer seen (c # cs) =
     (if c \<notin> set peer \<or> c \<in> set seen then intersect_caps peer seen cs
      else c # intersect_caps peer (c # seen) cs)"

definition NegotiateCapabilities :: "string list \<Rightarrow> string list \<Rightarrow> string list" where
  "NegotiateCapabilities local peer =
     CanonicalCapabilities (intersect_caps peer [] (if local = [] then defaultCapabilities else local))"

section \<open>Validation and authorization\<close>

definition validWireID :: "string \<Rightarrow> nat \<Rightarrow> bool" where
  "validWireID v mx \<longleftrightarrow> \<not> (v = [] \<or> length v > mx \<or> ValidateID v ''wire_id'' \<noteq> None)"

definition bad_capability :: "string \<Rightarrow> bool" where
  "bad_capability c \<longleftrightarrow> c = [] \<or> length c > 64 \<or> contains_any c [CHR 0x00, CHR 0x0D, CHR 0x0A]"

fun unique_check :: "('a \<Rightarrow> bool) \<Rightarrow> 'a list \<Rightarrow> 'a list \<Rightarrow> check" where
  "unique_check bad seen [] = None"
| "unique_check bad seen (x # xs) =
     (if bad x then Some ErrMalformedFrame
      else if x \<in> set seen then Some ErrMalformedFrame
      else unique_check bad (x # seen) xs)"

definition validateSession :: "SessionHello \<Rightarrow> check" where
  "validateSession v =
     (if \<not> validWireID (sh_AssignmentID v) 128 \<or> sh_Generation v = 0 \<or> \<not> validWireID (sh_AgentID v) 128 then
        Some ErrMalformedFrame
      else if length (sh_Capabilities v) > maxSessionCapabilities then Some ErrFrameTooLarge
      else unique_check bad_capability [] (sh_Capabilities v))"

definition validateSessionAccept :: "SessionAccept \<Rightarrow> check" where
  "validateSessionAccept v =
     (if \<not> validWireID (sa_AssignmentID v) 128 \<or> sa_Generation v = 0 then Some ErrMalformedFrame
      else if length (sa_Capabilities v) > maxSessionCapabilities then Some ErrFrameTooLarge
      else and_then (unique_check bad_capability [] (sa_Capabilities v))
        (if length (sa_ServiceIDs v) > maxSessionServiceIDs then Some ErrFrameTooLarge
         else unique_check (\<lambda>i. \<not> validWireID i 128) [] (sa_ServiceIDs v)))"

definition EncodeOpenValidation :: "OpenMetadata \<Rightarrow> check" where
  "EncodeOpenValidation v =
     (if om_Protocol v \<noteq> ''tcp'' \<and> om_Protocol v \<noteq> ''udp'' then Some ErrMalformedFrame
      else if om_Egress v \<and> om_ServiceID v \<noteq> [] then Some ErrMalformedFrame
      else if \<not> om_Egress v \<and> \<not> validWireID (om_ServiceID v) 128 then Some ErrMalformedFrame
      else if length (om_Target v) = 0 \<or> length (om_Target v) > maxTargetBytes
          \<or> contains_any (om_Target v) [CHR 0x00, CHR 0x0D, CHR 0x0A] then Some ErrMalformedFrame
      else case split_host_port (om_Target v) of
          None \<Rightarrow> Some ErrMalformedFrame
        | Some (host, portText) \<Rightarrow>
            if trim_space host = [] \<or> host \<noteq> trim_space host \<or> contains_any portText [CHR 0x09, CHR '' ''] then
              Some ErrMalformedFrame
            else case atoi portText of (port, ok) \<Rightarrow>
              if \<not> ok \<or> port < 1 \<or> port > 65535 then Some ErrMalformedFrame
              else if om_Protocol v = ''udp'' \<and> om_FlowID v = 0 then Some ErrMalformedFrame
              else if om_Protocol v = ''tcp'' \<and> om_FlowID v \<noteq> 0 then Some ErrMalformedFrame
              else None)"

definition placement_inactive :: "string \<Rightarrow> bool" where
  "placement_inactive state \<longleftrightarrow>
     state = AssignmentPending \<or> state = AssignmentDraining \<or> state = AssignmentDegraded"

definition AuthorizeSession :: "SessionHello \<Rightarrow> AssignmentView \<Rightarrow> check" where
  "AuthorizeSession hello a =
     and_then (validateSession hello)
     (if sh_AssignmentID hello \<noteq> av_ID a \<or> sh_AgentID hello \<noteq> av_AgentID a
         \<or> sh_Generation hello \<noteq> av_Generation a then Some ErrUnauthorizedAgent
      else if placement_inactive (av_State a) then Some ErrUnauthorizedAgent
      else None)"

definition AuthorizeOpen :: "OpenMetadata \<Rightarrow> AssignmentView \<Rightarrow> check" where
  "AuthorizeOpen open a =
     and_then (EncodeOpenValidation open)
     (if placement_inactive (av_State a) then Some ErrUnauthorizedAgent
      else if om_Egress open then None
      else if om_ServiceID open \<notin> set (av_ServiceIDs a) then Some ErrUnauthorizedAgent
      else None)"

section \<open>Frames\<close>

definition normalizeFrameLimit :: "int \<Rightarrow> int" where
  "normalizeFrameLimit mx = (if mx \<le> 0 \<or> mx > maxSessionFrame then maxSessionFrame else mx)"

definition control_bytes :: "byte \<Rightarrow> bytes \<Rightarrow> bytes" where
  "control_bytes kind b = Version # kind # be_put 4 (of_nat (length b) :: u32) @ b"

definition encodeControl :: "('m \<Rightarrow> bytes result) \<Rightarrow> byte \<Rightarrow> 'm \<Rightarrow> int \<Rightarrow> bytes result" where
  "encodeControl mar kind v mx =
     bind_result (mar v) (\<lambda>b.
       if int (length b) > normalizeFrameLimit mx \<or> int (length b) > 2 ^ 32 - 1 then Inl ErrFrameTooLarge
       else Inr (control_bytes kind b))"

definition decodeControl :: "(bytes \<Rightarrow> ('m \<times> bytes) option) \<Rightarrow> bytes \<Rightarrow> byte \<Rightarrow> int \<Rightarrow> 'm result" where
  "decodeControl unm bs kind mx0 =
     (let mx = normalizeFrameLimit mx0
      in if length bs < 6 \<or> int (length bs) > mx + 6 \<or> bs ! 0 \<noteq> Version \<or> bs ! 1 \<noteq> kind then
           if length bs \<ge> 1 \<and> bs ! 0 \<noteq> Version then Inl ErrInvalidVersion else Inl ErrMalformedFrame
         else let len = int (unat (be_get (sub_slice bs 2 6) :: u32))
           in if len > mx \<or> len \<noteq> int (length bs) - 6 then Inl ErrMalformedFrame
              else case unm (drop 6 bs) of
                  None \<Rightarrow> Inl ErrMalformedFrame
                | Some (m, unknown) \<Rightarrow> if unknown \<noteq> [] then Inl ErrMalformedFrame else Inr m)"

definition EncodeSessionHello :: "(SessionHello \<Rightarrow> bytes result) \<Rightarrow> SessionHello \<Rightarrow> int \<Rightarrow> bytes result" where
  "EncodeSessionHello mar v mx =
     check_then (validateSession v)
       (encodeControl mar SessionHelloKind (v\<lparr>sh_Capabilities := CanonicalCapabilities (sh_Capabilities v)\<rparr>) mx)"

definition EncodeSessionAccept :: "(SessionAccept \<Rightarrow> bytes result) \<Rightarrow> SessionAccept \<Rightarrow> int \<Rightarrow> bytes result" where
  "EncodeSessionAccept mar v mx =
     check_then (validateSessionAccept v)
       (encodeControl mar SessionAcceptKind
         (v\<lparr>sa_Capabilities := CanonicalCapabilities (sa_Capabilities v),
            sa_ServiceIDs := CanonicalServiceIDs (sa_ServiceIDs v)\<rparr>) mx)"

definition EncodeOpen :: "(OpenMetadata \<Rightarrow> bytes result) \<Rightarrow> OpenMetadata \<Rightarrow> int \<Rightarrow> bytes result" where
  "EncodeOpen mar v mx = check_then (EncodeOpenValidation v) (encodeControl mar OpenKind v mx)"

definition DecodeSessionHello ::
  "(SessionHello \<Rightarrow> bytes result) \<Rightarrow> (bytes \<Rightarrow> (SessionHello \<times> bytes) option) \<Rightarrow> bytes \<Rightarrow> int \<Rightarrow> SessionHello result" where
  "DecodeSessionHello mar unm bs mx =
     bind_result (decodeControl unm bs SessionHelloKind mx) (\<lambda>v.
     check_then (validateSession v)
     (if EncodeSessionHello mar v mx \<noteq> Inr bs then Inl ErrMalformedFrame else Inr v))"

definition DecodeSessionAccept ::
  "(SessionAccept \<Rightarrow> bytes result) \<Rightarrow> (bytes \<Rightarrow> (SessionAccept \<times> bytes) option) \<Rightarrow> bytes \<Rightarrow> int \<Rightarrow> SessionAccept result" where
  "DecodeSessionAccept mar unm bs mx =
     bind_result (decodeControl unm bs SessionAcceptKind mx) (\<lambda>v.
     check_then (validateSessionAccept v)
     (if EncodeSessionAccept mar v mx \<noteq> Inr bs then Inl ErrMalformedFrame else Inr v))"

definition DecodeOpen ::
  "(OpenMetadata \<Rightarrow> bytes result) \<Rightarrow> (bytes \<Rightarrow> (OpenMetadata \<times> bytes) option) \<Rightarrow> bytes \<Rightarrow> int \<Rightarrow> OpenMetadata result" where
  "DecodeOpen mar unm bs mx =
     bind_result (decodeControl unm bs OpenKind mx) (\<lambda>v.
     bind_result (EncodeOpen mar v mx) (\<lambda>encoded.
     if encoded \<noteq> bs then Inl ErrMalformedFrame else Inr v))"

section \<open>Streams\<close>

text \<open>
  A reader is the list of bytes it will deliver; \<^verbatim>\<open>io.ReadFull\<close> takes a prefix or fails when
  the stream ends early.
\<close>

definition read_full :: "nat \<Rightarrow> bytes \<Rightarrow> (bytes \<times> bytes) result" where
  "read_full n stream =
     (if length stream < n then Inl (ErrStd ''io.ReadFull'') else Inr (take n stream, drop n stream))"

text \<open>
  A writer is a step function: the state, the number of bytes it took and the error of one
  \<^verbatim>\<open>Write\<close>.
\<close>

type_synonym 'w writer = "'w \<Rightarrow> bytes \<Rightarrow> 'w \<times> nat \<times> check"

function WriteFull :: "'w writer \<Rightarrow> 'w \<Rightarrow> bytes \<Rightarrow> 'w \<times> check" where
  "WriteFull write w bs =
     (if bs = [] then (w, None)
      else case write w bs of (w', n, err) \<Rightarrow>
        (case err of
           Some e \<Rightarrow> (w', Some e)
         | None \<Rightarrow> if n = 0 then (w', Some (ErrStd ''io.ErrShortWrite'')) else WriteFull write w' (drop n bs)))"
  by pat_completeness auto
termination
  by (relation "measure (\<lambda>(write, w, bs). length bs)") auto

declare WriteFull.simps [simp del]

definition length_prefix :: "bytes \<Rightarrow> bytes" where
  "length_prefix frame = be_put 4 (of_nat (length frame) :: u32)"

definition writeControlFrame ::
  "'w writer \<Rightarrow> ('a \<Rightarrow> int \<Rightarrow> bytes result) \<Rightarrow> 'w \<Rightarrow> 'a \<Rightarrow> int \<Rightarrow> 'w \<times> check" where
  "writeControlFrame write encode w v mx =
     (case encode v mx of
        Inl e \<Rightarrow> (w, Some e)
      | Inr frame \<Rightarrow>
          if int (length frame) > 2 ^ 32 - 1 then (w, Some ErrFrameTooLarge)
          else case WriteFull write w (length_prefix frame) of
              (w', Some e) \<Rightarrow> (w', Some e)
            | (w', None) \<Rightarrow> WriteFull write w' frame)"

definition WriteOpen :: "'w writer \<Rightarrow> (OpenMetadata \<Rightarrow> bytes result) \<Rightarrow> 'w \<Rightarrow> OpenMetadata \<Rightarrow> int \<Rightarrow> 'w \<times> check" where
  "WriteOpen write mar w v mx = writeControlFrame write (EncodeOpen mar) w v mx"

definition readControlFrame :: "bytes \<Rightarrow> int \<Rightarrow> (bytes \<times> bytes) result" where
  "readControlFrame stream mx0 =
     (let mx = (if mx0 \<le> 0 then maxSessionFrame else mx0)
      in bind_result (read_full 4 stream) (\<lambda>(size, rest).
         let len = int (unat (be_get size :: u32))
         in if len = 0 \<or> len > mx + 6 \<or> len > maxSessionFrame + 6 then Inl ErrFrameTooLarge
            else read_full (nat len) rest))"

definition ReadOpen ::
  "(OpenMetadata \<Rightarrow> bytes result) \<Rightarrow> (bytes \<Rightarrow> (OpenMetadata \<times> bytes) option) \<Rightarrow> bytes \<Rightarrow> int \<Rightarrow>
   (OpenMetadata \<times> bytes) result" where
  "ReadOpen mar unm stream mx0 =
     (let mx = normalizeFrameLimit (if mx0 \<le> 0 then maxSessionFrame else mx0)
      in bind_result (read_full 4 stream) (\<lambda>(size, rest).
         let len = int (unat (be_get size :: u32))
         in if len = 0 \<or> len > mx + 6 then Inl ErrFrameTooLarge
            else bind_result (read_full (nat len) rest) (\<lambda>(frame, rest').
              bind_result (DecodeOpen mar unm frame mx) (\<lambda>v. Inr (v, rest')))))"

definition ReadSessionHello ::
  "(SessionHello \<Rightarrow> bytes result) \<Rightarrow> (bytes \<Rightarrow> (SessionHello \<times> bytes) option) \<Rightarrow> bytes \<Rightarrow> int \<Rightarrow>
   (SessionHello \<times> bytes) result" where
  "ReadSessionHello mar unm stream mx =
     bind_result (readControlFrame stream mx) (\<lambda>(frame, rest).
     bind_result (DecodeSessionHello mar unm frame mx) (\<lambda>v. Inr (v, rest)))"

definition ReadSessionAccept ::
  "(SessionAccept \<Rightarrow> bytes result) \<Rightarrow> (bytes \<Rightarrow> (SessionAccept \<times> bytes) option) \<Rightarrow> bytes \<Rightarrow> int \<Rightarrow>
   (SessionAccept \<times> bytes) result" where
  "ReadSessionAccept mar unm stream mx =
     bind_result (readControlFrame stream mx) (\<lambda>(frame, rest).
     bind_result (DecodeSessionAccept mar unm frame mx) (\<lambda>v. Inr (v, rest)))"

section \<open>Capability negotiation\<close>

lemma set_intersect_caps: "set (intersect_caps peer seen cs) = (set cs \<inter> set peer) - set seen"
  by (induction peer seen cs rule: intersect_caps.induct) auto

lemma distinct_intersect_caps: "distinct (intersect_caps peer seen cs)"
  by (induction peer seen cs rule: intersect_caps.induct) (auto simp: set_intersect_caps)

lemma negotiated_caps:
  "set (NegotiateCapabilities local peer) = set (if local = [] then defaultCapabilities else local) \<inter> set peer"
  "sorted (NegotiateCapabilities local peer)" "distinct (NegotiateCapabilities local peer)"
  by (simp_all add: NegotiateCapabilities_def CanonicalCapabilities_def set_intersect_caps distinct_intersect_caps)

text \<open>
  Negotiation yields exactly the capabilities both sides offered, each once and in order;
  a side that offers none offers the defaults. A capability the peer merely echoed without the
  local side having it never appears.
\<close>

theorem NegotiateCapabilities_intersection:
  "set (NegotiateCapabilities local peer) = set (if local = [] then defaultCapabilities else local) \<inter> set peer
   \<and> sorted (NegotiateCapabilities local peer) \<and> distinct (NegotiateCapabilities local peer)"
  by (simp add: negotiated_caps)

section \<open>The contract of a control codec\<close>

text \<open>
  What the session layer relies on for each of the three messages: the decoder only accepts the
  one encoding of what it returns, and a frame fits the limit it was encoded for.
\<close>

locale control_codec =
  fixes encode :: "'a \<Rightarrow> int \<Rightarrow> bytes result" and decode :: "bytes \<Rightarrow> int \<Rightarrow> 'a result"
  assumes canonical: "decode bs mx = Inr v \<Longrightarrow> encode v mx = Inr bs"
    and frame_size: "encode v mx = Inr bs \<Longrightarrow> 6 \<le> length bs \<and> int (length bs) \<le> normalizeFrameLimit mx + 6"
begin

lemma decode_unique: "decode bs mx = Inr v \<Longrightarrow> decode bs' mx = Inr v \<Longrightarrow> bs = bs'"
  using canonical [of bs mx v] canonical [of bs' mx v] by simp

lemma frame_length_word:
  assumes "encode v mx = Inr f"
  shows "int (unat (be_get (length_prefix f) :: u32)) = int (length f)" "int (length f) \<le> 2 ^ 32 - 1"
proof -
  have le: "int (length f) \<le> 2 ^ 20 + 6"
    using frame_size [OF assms] by (simp add: normalizeFrameLimit_def maxSessionFrame_def split: if_splits)
  then show "int (length f) \<le> 2 ^ 32 - 1" by simp
  have "(be_get (length_prefix f) :: u32) = of_nat (length f)"
    by (simp add: length_prefix_def codec_simps del: be_put.simps)
  with le show "int (unat (be_get (length_prefix f) :: u32)) = int (length f)"
    by (simp add: unat_of_nat)
qed

lemma read_frame:
  assumes "encode v mx = Inr f"
  shows "readControlFrame (length_prefix f @ f @ rest) mx = Inr (f, rest)"
proof -
  have len: "length (length_prefix f) = 4" by (simp add: length_prefix_def del: be_put.simps)
  have sz: "6 \<le> length f" "int (length f) \<le> normalizeFrameLimit mx + 6" using frame_size [OF assms] by auto
  then have "int (length f) \<le> maxSessionFrame + 6"
    "int (length f) \<le> (if mx \<le> 0 then maxSessionFrame else mx) + 6"
    by (auto simp: normalizeFrameLimit_def split: if_splits)
  moreover have "f \<noteq> []" using sz by auto
  ultimately show ?thesis using len frame_length_word [OF assms]
    by (simp add: readControlFrame_def read_full_def Let_def del: of_nat_unat)
qed

end

lemma encodeControl_Inr:
  "encodeControl mar kind v mx = Inr bs \<longleftrightarrow>
     (\<exists>b. mar v = Inr b \<and> int (length b) \<le> normalizeFrameLimit mx \<and> bs = control_bytes kind b)"
  by (cases "mar v") (auto simp: encodeControl_def normalizeFrameLimit_def maxSessionFrame_def)

lemma encodeControl_size:
  "encodeControl mar kind v mx = Inr bs \<Longrightarrow> 6 \<le> length bs \<and> int (length bs) \<le> normalizeFrameLimit mx + 6"
  by (auto simp: encodeControl_Inr control_bytes_def simp del: be_put.simps)

interpretation hello: control_codec "EncodeSessionHello mar" "DecodeSessionHello mar unm" for mar unm
  by unfold_locales (auto simp: DecodeSessionHello_def EncodeSessionHello_def dest: encodeControl_size split: if_splits)

interpretation accept: control_codec "EncodeSessionAccept mar" "DecodeSessionAccept mar unm" for mar unm
  by unfold_locales (auto simp: DecodeSessionAccept_def EncodeSessionAccept_def dest: encodeControl_size split: if_splits)

interpretation opened: control_codec "EncodeOpen mar" "DecodeOpen mar unm" for mar unm
  by unfold_locales (auto simp: DecodeOpen_def EncodeOpen_def dest: encodeControl_size split: if_splits)

text \<open>
  Control messages are canonical for every protobuf runtime: bytes that decode to a message
  are the encoding of that message, so two different frames never decode to the same message,
  and what is accepted has passed the validation of its kind.
\<close>

theorem control_frames_canonical:
  "(DecodeSessionHello mar_h unm_h bs mx = Inr h \<longrightarrow>
      EncodeSessionHello mar_h h mx = Inr bs \<and> validateSession h = None)
   \<and> (DecodeSessionAccept mar_a unm_a bs mx = Inr a \<longrightarrow>
      EncodeSessionAccept mar_a a mx = Inr bs \<and> validateSessionAccept a = None)
   \<and> (DecodeOpen mar_o unm_o bs mx = Inr op \<longrightarrow> EncodeOpen mar_o op mx = Inr bs \<and> EncodeOpenValidation op = None)"
  by (auto dest: hello.canonical accept.canonical opened.canonical)
    (auto simp: DecodeSessionHello_def DecodeSessionAccept_def DecodeOpen_def EncodeOpen_def split: if_splits)

section \<open>Round trips\<close>

text \<open>The documented behaviour of the protobuf runtime: unmarshalling undoes marshalling.\<close>

definition proto_roundtrip :: "('m \<Rightarrow> bytes result) \<Rightarrow> (bytes \<Rightarrow> ('m \<times> bytes) option) \<Rightarrow> bool" where
  "proto_roundtrip mar unm \<longleftrightarrow> (\<forall>m b. mar m = Inr b \<longrightarrow> unm b = Some (m, []))"

lemma decode_control_bytes:
  assumes "encodeControl mar kind v mx = Inr bs" "proto_roundtrip mar unm"
  shows "decodeControl unm bs kind mx = Inr v"
proof -
  obtain b where b: "mar v = Inr b" "int (length b) \<le> normalizeFrameLimit mx" "bs = control_bytes kind b"
    using assms(1) by (auto simp: encodeControl_Inr)
  have "sub_slice bs 2 6 = be_put 4 (of_nat (length b) :: u32)"
    by (simp add: b(3) control_bytes_def sub_slice_def del: be_put.simps)
  moreover have "int (length b) \<le> 2 ^ 20" using b(2)
    by (simp add: normalizeFrameLimit_def maxSessionFrame_def split: if_splits)
  ultimately have "int (unat (be_get (sub_slice bs 2 6) :: u32)) = int (length b)"
    by (simp add: codec_simps unat_of_nat del: be_put.simps)
  moreover have "bs ! 0 = Version" "bs ! Suc 0 = kind" "length bs = 6 + length b" "drop 6 bs = b"
    by (simp_all add: b(3) control_bytes_def del: be_put.simps)
  ultimately show ?thesis
    using b(1,2) assms(2) by (simp add: decodeControl_def proto_roundtrip_def del: of_nat_unat)
qed

lemma unique_check_None:
  "unique_check bad seen xs = None \<longleftrightarrow> distinct xs \<and> set seen \<inter> set xs = {} \<and> (\<forall>x\<in>set xs. \<not> bad x)"
  by (induction bad seen xs rule: unique_check.induct) auto

definition canonical_hello :: "SessionHello \<Rightarrow> SessionHello" where
  "canonical_hello v = v\<lparr>sh_Capabilities := CanonicalCapabilities (sh_Capabilities v)\<rparr>"

lemma validateSession_canonical [simp]: "validateSession (canonical_hello v) = None \<longleftrightarrow> validateSession v = None"
  by (simp add: validateSession_def canonical_hello_def unique_check_None CanonicalCapabilities_def)

lemma DecodeSessionHello_Encode:
  assumes "EncodeSessionHello mar v mx = Inr bs" "proto_roundtrip mar unm"
  shows "DecodeSessionHello mar unm bs mx = Inr (canonical_hello v)"
proof -
  have v: "validateSession v = None" and e: "encodeControl mar SessionHelloKind (canonical_hello v) mx = Inr bs"
    using assms(1) by (simp_all add: EncodeSessionHello_def canonical_hello_def)
  have "EncodeSessionHello mar (canonical_hello v) mx = Inr bs"
    using e v by (simp add: EncodeSessionHello_def) (simp add: canonical_hello_def CanonicalCapabilities_def)
  with v decode_control_bytes [OF e assms(2)] show ?thesis
    by (simp add: DecodeSessionHello_def)
qed

lemma DecodeOpen_Encode:
  assumes "EncodeOpen mar v mx = Inr bs" "proto_roundtrip mar unm"
  shows "DecodeOpen mar unm bs mx = Inr v"
  using assms decode_control_bytes [OF _ assms(2), of OpenKind v mx bs]
  by (simp add: DecodeOpen_def) (simp add: EncodeOpen_def)

section \<open>Writers\<close>

text \<open>
  A writer that behaves as \<^verbatim>\<open>io.Writer\<close> documents and does not fail: each call takes a non-empty
  prefix of its argument, however short, and appends it to what was written before.
\<close>

definition appends :: "'w writer \<Rightarrow> ('w \<Rightarrow> bytes) \<Rightarrow> bool" where
  "appends write content \<longleftrightarrow>
     (\<forall>w bs. bs \<noteq> [] \<longrightarrow> (\<exists>w' n. write w bs = (w', n, None) \<and> 0 < n \<and> n \<le> length bs
        \<and> content w' = content w @ take n bs))"

lemma WriteFull_appends:
  "appends wr content \<Longrightarrow> \<exists>w'. WriteFull wr w bs = (w', None) \<and> content w' = content w @ bs"
proof (induction wr w bs rule: WriteFull.induct)
  case (1 wr w bs)
  show ?case
  proof (cases "bs = []")
    case False
    then obtain w' n where n: "wr w bs = (w', n, None)" "0 < n" "content w' = content w @ take n bs"
      using 1(2) unfolding appends_def by blast
    from 1(2) n obtain w'' where "WriteFull wr w' (drop n bs) = (w'', None)" "content w'' = content w' @ drop n bs"
      using 1(1) [OF False, of w' "(n, None)" n None] by auto
    with n False show ?thesis by (simp add: WriteFull.simps [of wr w bs])
  qed (simp add: WriteFull.simps)
qed

lemma write_control_frame:
  assumes "encode v mx = Inr f" "int (length f) \<le> 2 ^ 32 - 1" "appends write content"
  shows "\<exists>w'. writeControlFrame write encode w v mx = (w', None) \<and> content w' = content w @ length_prefix f @ f"
proof -
  obtain w1 where "WriteFull write w (length_prefix f) = (w1, None)" "content w1 = content w @ length_prefix f"
    using WriteFull_appends [OF assms(3)] by blast
  moreover obtain w2 where "WriteFull write w1 f = (w2, None)" "content w2 = content w1 @ f"
    using WriteFull_appends [OF assms(3)] by blast
  ultimately show ?thesis using assms(1,2) by (simp add: writeControlFrame_def)
qed

text \<open>
  A session hello travels: written through a writer that takes the bytes in arbitrary
  pieces, the peer reads back the hello with its capabilities sorted and leaves the bytes that
  follow untouched.
\<close>

theorem session_hello_travels:
  assumes "EncodeSessionHello mar v mx = Inr f" and "proto_roundtrip mar unm" and "appends write content"
  shows "\<exists>w'. writeControlFrame write (EncodeSessionHello mar) w v mx = (w', None)
    \<and> (\<exists>sent. content w' = content w @ sent
         \<and> ReadSessionHello mar unm (sent @ rest) mx = Inr (canonical_hello v, rest))"
proof -
  obtain w' where "writeControlFrame write (EncodeSessionHello mar) w v mx = (w', None)"
    "content w' = content w @ length_prefix f @ f"
    using write_control_frame [where encode = "EncodeSessionHello mar", OF assms(1) hello.frame_length_word(2) [OF assms(1)] assms(3)]
    by blast
  moreover have "ReadSessionHello mar unm ((length_prefix f @ f) @ rest) mx = Inr (canonical_hello v, rest)"
    using hello.read_frame [OF assms(1), of rest] DecodeSessionHello_Encode [OF assms(1,2)]
    by (simp add: ReadSessionHello_def)
  ultimately show ?thesis by blast
qed

text \<open>A message codec that knows one message, and a writer that takes one byte per call.\<close>

definition one_message :: "'m \<Rightarrow> 'm \<Rightarrow> bytes result" where
  "one_message m v = (if v = m then Inr [7] else Inl (ErrStd ''proto.Marshal''))"

definition byte_writer :: "bytes writer" where
  "byte_writer w bs = (w @ take 1 bs, 1, None)"

lemma one_message_roundtrip: "proto_roundtrip (one_message m) (\<lambda>b. Some (m, []))"
  by (simp add: proto_roundtrip_def one_message_def)

lemma byte_writer_appends: "appends byte_writer (\<lambda>w. w)"
  by (simp add: appends_def byte_writer_def Suc_le_eq)

definition sample_hello :: SessionHello where
  "sample_hello = \<lparr>sh_AssignmentID = ''a1'', sh_Generation = 4, sh_AgentID = ''ag'', sh_Capabilities = [''tcp'']\<rparr>"

lemma sample_hello_encodes: "\<exists>f. EncodeSessionHello (one_message sample_hello) sample_hello 100 = Inr f"
proof -
  have "validateSession sample_hello = None"
    by (simp add: validateSession_def sample_hello_def validWireID_def ValidateID_def trim_space_graphic
        id_char_def id_punct_def char_class_defs maxSessionCapabilities_def bad_capability_def contains_any_def)
  moreover have "sample_hello\<lparr>sh_Capabilities := CanonicalCapabilities (sh_Capabilities sample_hello)\<rparr> = sample_hello"
    by (simp add: sample_hello_def CanonicalCapabilities_def)
  ultimately show ?thesis
    by (simp add: EncodeSessionHello_def encodeControl_Inr one_message_def normalizeFrameLimit_def maxSessionFrame_def)
qed

theorem session_hello_travels_witness:
  "\<exists>w'. writeControlFrame byte_writer (EncodeSessionHello (one_message sample_hello)) [] sample_hello 100 = (w', None)
    \<and> ReadSessionHello (one_message sample_hello) (\<lambda>b. Some (sample_hello, [])) (w' @ [1, 2]) 100 =
        Inr (canonical_hello sample_hello, [1, 2])"
  using sample_hello_encodes session_hello_travels [OF _ one_message_roundtrip byte_writer_appends, of sample_hello sample_hello 100 _ "[]" "[1, 2]"]
  by auto

theorem control_frames_canonical_witness:
  "\<exists>bs h. DecodeSessionHello (one_message sample_hello) (\<lambda>b. Some (sample_hello, [])) bs 100 = Inr h
     \<and> EncodeSessionHello (one_message sample_hello) h 100 = Inr bs \<and> validateSession h = None"
proof -
  obtain f where "EncodeSessionHello (one_message sample_hello) sample_hello 100 = Inr f"
    using sample_hello_encodes by blast
  from DecodeSessionHello_Encode [OF this one_message_roundtrip] control_frames_canonical show ?thesis by blast
qed

end
