(* ===== verification/Admission.thy ===== *)
theory Admission
  imports Prelude
begin

text \<open>
  Admission counters. Several components bound what they hold with a counter that is raised
  before a resource is taken and lowered, never below zero, when it is returned: the streams of
  a session, the sessions and the egress connections of the engine. The locale states that
  contract once.
\<close>

locale admission =
  fixes used :: "'s \<Rightarrow> int" and cap :: "'s \<Rightarrow> int" and reserve :: "'s \<Rightarrow> 's option" and release :: "'s \<Rightarrow> 's"
  assumes reserve_refused: "reserve s = None \<longleftrightarrow> cap s \<le> used s"
    and reserve_taken: "reserve s = Some t \<Longrightarrow> used t = used s + 1 \<and> cap t = cap s"
    and release_back: "0 \<le> used s \<Longrightarrow> used (release s) = max 0 (used s - 1)"
    and release_cap: "cap (release s) = cap s"
begin

text \<open>One request: a reservation that may be refused, or a release.\<close>

definition request :: "bool \<Rightarrow> 's \<Rightarrow> 's" where
  "request acquire s = (if acquire then (case reserve s of None \<Rightarrow> s | Some t \<Rightarrow> t) else release s)"

lemma request_bounds:
  "0 \<le> used s \<Longrightarrow> used s \<le> cap s \<Longrightarrow> 0 \<le> used (request b s) \<and> used (request b s) \<le> cap (request b s)"
  using reserve_refused [of s] reserve_taken [of s] release_back [of s] release_cap [of s]
  by (cases "reserve s") (auto simp: request_def)

lemma request_cap: "cap (request b s) = cap s"
  using reserve_taken [of s] release_cap [of s] by (cases "reserve s") (auto simp: request_def)

lemma requests_bounds:
  "0 \<le> used s \<Longrightarrow> used s \<le> cap s \<Longrightarrow>
   0 \<le> used (fold request bs s) \<and> used (fold request bs s) \<le> cap s"
proof (induction bs arbitrary: s)
  case (Cons b bs)
  with request_bounds [of s b] request_cap [of b s] Cons.IH [of "request b s"] show ?case by simp
qed simp

lemma reserve_release: "reserve s = Some t \<Longrightarrow> 0 \<le> used s \<Longrightarrow> used (release t) = used s"
  using reserve_taken [of s t] release_back [of t] by simp

lemma reserve_available: "used s < cap s \<Longrightarrow> \<exists>t. reserve s = Some t"
  using reserve_refused [of s] by (cases "reserve s") auto

end

end
