(* ===== verification/Dataplane_Engine.thy ===== *)
theory Dataplane_Engine
  imports Afdp_Control Domain_Validate Admission
begin

text \<open>
  \<^verbatim>\<open>internal/dataplane/engine_*.go\<close>: the admission and authorization engine of a node. The state is
  what the mutex and the atomics protect; a method that holds the mutex for its whole body, or
  whose only effect is one compare-and-swap, is one step. \<^verbatim>\<open>ApplySnapshot\<close> builds its indexes
  before it takes the mutex, so it is a preparation that reads a state and a commit that may
  run on a later one. Maps that are only indexed are functions; a map from assignments to
  counts reads as 0 where it has no entry.
\<close>

section \<open>State\<close>

record Options =
  opt_Kind :: string
  opt_NodeID :: string
  opt_MaxStreams :: int
  opt_MaxSessions :: int

record Engine =
  en_kind :: string
  en_nodeID :: string
  en_maxStreams :: int
  en_maxSessions :: int
  en_draining :: bool
  en_closed :: bool
  en_generation :: u64
  en_epoch :: u64
  en_gatewaySpec :: "GatewaySpec option"
  en_agentSpec :: "AgentSpec option"
  en_assignments :: "string \<rightharpoonup> AssignmentView"
  en_services :: "string \<rightharpoonup> Service"
  en_active :: "string \<Rightarrow> int"
  en_baseMaxStreams :: int
  en_connectionLimit :: int
  en_bufferLimit :: int
  en_streams :: int
  en_sessions :: int
  en_egress :: EgressPolicy
  en_egressOpen :: int

record OpenLease =
  ol_assignmentID :: string
  ol_epoch :: u64
  ol_once :: bool

definition default_256 :: "int \<Rightarrow> int" where
  "default_256 n = (if n \<le> 0 then 256 else n)"

definition New :: "Options \<Rightarrow> Engine result" where
  "New opts =
     (if opt_Kind opts \<noteq> NodeSpecGateway \<and> opt_Kind opts \<noteq> NodeSpecAgent then
        Inl (ErrNew ''data-plane kind must be gateway or agent'')
      else check_then (ValidateID (opt_NodeID opts) ''node_id'')
       (if default_256 (opt_MaxStreams opts) > 2 ^ 20 then
          Inl (ErrNew ''data-plane stream limit exceeds the supported maximum'')
        else if default_256 (opt_MaxSessions opts) > 2 ^ 20 then
          Inl (ErrNew ''data-plane session limit exceeds the supported maximum'')
        else Inr \<lparr>en_kind = opt_Kind opts, en_nodeID = opt_NodeID opts,
          en_maxStreams = default_256 (opt_MaxStreams opts), en_maxSessions = default_256 (opt_MaxSessions opts),
          en_draining = False, en_closed = False, en_generation = 0, en_epoch = 0,
          en_gatewaySpec = None, en_agentSpec = None, en_assignments = Map.empty, en_services = Map.empty,
          en_active = (\<lambda>a. 0), en_baseMaxStreams = default_256 (opt_MaxStreams opts),
          en_connectionLimit = 0, en_bufferLimit = 0, en_streams = 0, en_sessions = 0,
          en_egress = no_egress, en_egressOpen = 0\<rparr>))"

section \<open>Accessors\<close>

definition Proxy :: "string \<Rightarrow> Engine \<Rightarrow> ProxySpec option" where
  "Proxy i e = (case en_agentSpec e of None \<Rightarrow> None | Some spec \<Rightarrow> find (\<lambda>p. px_ID p = i) (ag_Proxies spec))"

definition AssignmentForSession :: "SessionHello \<Rightarrow> Engine \<Rightarrow> AssignmentView option" where
  "AssignmentForSession hello e =
     (case en_assignments e (sh_AssignmentID hello) of
        None \<Rightarrow> None
      | Some a \<Rightarrow> if av_AgentID a \<noteq> sh_AgentID hello \<or> av_Generation a \<noteq> sh_Generation hello then None else Some a)"

section \<open>Snapshots\<close>

text \<open>The node-scoped service index: an agent keeps only its own services.\<close>

fun index_services :: "Engine \<Rightarrow> Service list \<Rightarrow> (string \<rightharpoonup> Service) \<Rightarrow> (string \<rightharpoonup> Service) result" where
  "index_services e [] m = Inr m"
| "index_services e (s # ss) m =
     check_then (Service_Validate s)
       (if sv_AgentID s \<noteq> en_nodeID e \<and> en_kind e = NodeSpecAgent then index_services e ss m
        else index_services e ss (m(sv_ID s \<mapsto> s)))"

fun check_service_owners :: "(string \<rightharpoonup> Service) \<Rightarrow> Assignment \<Rightarrow> string list \<Rightarrow> check" where
  "check_service_owners services a [] = None"
| "check_service_owners services a (i # is) =
     (case services i of
        None \<Rightarrow> Some (ErrNew ''assignment references a service not present in snapshot'')
      | Some s \<Rightarrow>
          if sv_AgentID s \<noteq> as_AgentID a then Some (ErrNew ''assignment references a service owned by another agent'')
          else check_service_owners services a is)"

definition tighter :: "int \<Rightarrow> int \<Rightarrow> int" where
  "tighter limit base = (if limit > 0 \<and> limit < base then limit else base)"

definition assignment_limit :: "Engine \<Rightarrow> DesiredSnapshot \<Rightarrow> int" where
  "assignment_limit e s =
     (let l = (case ds_Agent s of None \<Rightarrow> en_baseMaxStreams e
               | Some a \<Rightarrow> tighter (al_MaxStreams (ag_Limits a)) (en_baseMaxStreams e))
      in case ds_Gateway s of None \<Rightarrow> l | Some g \<Rightarrow> tighter (tp_MaxStreams (gw_Transport g)) l)"

fun index_assignments ::
  "Engine \<Rightarrow> DesiredSnapshot \<Rightarrow> (string \<rightharpoonup> Service) \<Rightarrow> Assignment list \<Rightarrow> (string \<rightharpoonup> AssignmentView) \<Rightarrow>
   (string \<rightharpoonup> AssignmentView) result" where
  "index_assignments e s services [] m = Inr m"
| "index_assignments e s services (a # as) m =
     (if as_Generation a > ds_Generation s then Inl (ErrNew ''assignment generation is newer than snapshot'')
      else if en_kind e = NodeSpecGateway \<and> as_GatewayID a \<noteq> en_nodeID e then index_assignments e s services as m
      else if en_kind e = NodeSpecAgent \<and> as_AgentID a \<noteq> en_nodeID e then index_assignments e s services as m
      else check_then (check_service_owners services a (as_ServiceIDs a))
        (index_assignments e s services as (m(as_ID a \<mapsto> AssignmentFromDomain a (assignment_limit e s)))))"

record prepared =
  pp_snapshot :: DesiredSnapshot
  pp_previous :: "u64 option"
  pp_rollback :: bool
  pp_sameGeneration :: bool
  pp_assignments :: "string \<rightharpoonup> AssignmentView"
  pp_services :: "string \<rightharpoonup> Service"

text \<open>
  The part before the lock. \<open>ctx\<close> is the error of a cancelled context; of the previous
  snapshot only its generation is read.
\<close>

definition apply_prepare ::
  "go_env \<Rightarrow> check \<Rightarrow> DesiredSnapshot \<Rightarrow> u64 option \<Rightarrow> Engine \<Rightarrow> prepared result" where
  "apply_prepare env ctx s previous e =
     check_then ctx
     (check_then (fail_if (en_closed e) (ErrNew ''data-plane engine is closed''))
     (check_then (DesiredSnapshot_Validate env s)
     (check_then (fail_if (ds_Checksum s = [])
        (apply_error ''missing_checksum'' ''checksum'' ''data-plane snapshots must include a checksum''))
     (check_then (fail_if (ds_NodeID s \<noteq> en_nodeID e) (ErrNew ''snapshot node id does not match engine''))
     (check_then (fail_if (en_kind e = NodeSpecGateway \<and> ds_Gateway s = None) (ErrNew ''gateway snapshot is required''))
     (check_then (fail_if (en_kind e = NodeSpecAgent \<and> ds_Agent s = None) (ErrNew ''agent snapshot is required''))
     (let current = en_generation e;
          rollback = (\<exists>p\<in>set_option previous. ds_Generation s < p \<and> current = p);
          same = (previous = Some (ds_Generation s) \<and> ds_Generation s = current)
      in if \<not> rollback \<and> \<not> same \<and> ds_Generation s \<le> current then Inl (ErrNew ''snapshot generation is stale'')
         else bind_result (index_services e (ds_Services s) Map.empty) (\<lambda>services.
              bind_result (index_assignments e s services (ds_Assignments s) Map.empty) (\<lambda>assignments.
                Inr \<lparr>pp_snapshot = s, pp_previous = previous, pp_rollback = rollback, pp_sameGeneration = same,
                  pp_assignments = assignments, pp_services = services\<rparr>)))))))))"

text \<open>The fields the new specification sets.\<close>

definition install_limits :: "DesiredSnapshot \<Rightarrow> Engine \<Rightarrow> Engine" where
  "install_limits s e =
     (case ds_Agent s of
        Some a \<Rightarrow> e\<lparr>en_egress := ag_Egress a, en_connectionLimit := al_MaxConnections (ag_Limits a),
          en_bufferLimit := al_MaxBufferBytes (ag_Limits a),
          en_maxStreams := tighter (al_MaxStreams (ag_Limits a)) (en_baseMaxStreams e)\<rparr>
      | None \<Rightarrow> (case ds_Gateway s of
          Some g \<Rightarrow> e\<lparr>en_egress := gw_Egress g, en_connectionLimit := cap_MaxConnections (gw_Capacity g),
            en_bufferLimit := 0, en_maxStreams := tighter (tp_MaxStreams (gw_Transport g)) (en_baseMaxStreams e)\<rparr>
        | None \<Rightarrow> e\<lparr>en_egress := no_egress, en_connectionLimit := 0, en_bufferLimit := 0,
            en_maxStreams := en_baseMaxStreams e\<rparr>))"

definition apply_commit :: "prepared \<Rightarrow> Engine \<Rightarrow> Engine \<times> check" where
  "apply_commit p e =
     (let s = pp_snapshot p in
      if en_closed e then (e, Some (ErrNew ''data-plane engine is closed''))
      else if pp_rollback p \<and> pp_previous p \<noteq> Some (en_generation e) then
        (e, Some (ErrNew ''snapshot generation changed during rollback''))
      else if pp_sameGeneration p \<and> en_generation e \<noteq> ds_Generation s then
        (e, Some (ErrNew ''snapshot generation changed during resync''))
      else if \<not> pp_rollback p \<and> \<not> pp_sameGeneration p \<and> ds_Generation s \<le> en_generation e then
        (e, Some (ErrNew ''snapshot generation is stale''))
      else (install_limits s (e\<lparr>en_assignments := pp_assignments p, en_services := pp_services p,
          en_generation := ds_Generation s, en_epoch := en_epoch e + 1, en_active := (\<lambda>a. 0),
          en_gatewaySpec := ds_Gateway s, en_agentSpec := ds_Agent s\<rparr>), None))"

definition ApplySnapshot ::
  "go_env \<Rightarrow> check \<Rightarrow> DesiredSnapshot \<Rightarrow> u64 option \<Rightarrow> Engine \<Rightarrow> Engine \<times> check" where
  "ApplySnapshot env ctx s previous e =
     (case apply_prepare env ctx s previous e of
        Inl err \<Rightarrow> (e, Some err)
      | Inr p \<Rightarrow> apply_commit p e)"

definition ResetSnapshot :: "u64 \<Rightarrow> Engine \<Rightarrow> Engine \<times> check" where
  "ResetSnapshot expected e =
     (if expected \<noteq> 0 \<and> en_generation e \<noteq> expected then
        (e, Some (ErrNew ''data-plane snapshot generation changed during reset''))
      else (e\<lparr>en_generation := 0, en_gatewaySpec := None, en_agentSpec := None, en_assignments := Map.empty,
        en_services := Map.empty, en_active := (\<lambda>a. 0), en_connectionLimit := 0, en_bufferLimit := 0,
        en_maxStreams := en_baseMaxStreams e, en_egress := no_egress, en_epoch := en_epoch e + 1,
        en_draining := True\<rparr>, None))"

section \<open>Admission\<close>

definition reserve_session :: "Engine \<Rightarrow> Engine option" where
  "reserve_session e =
     (if en_sessions e \<ge> en_maxSessions e then None else Some (e\<lparr>en_sessions := en_sessions e + 1\<rparr>))"

definition Engine_AuthorizeSession :: "SessionHello \<Rightarrow> Engine \<Rightarrow> Engine \<times> check" where
  "Engine_AuthorizeSession hello e =
     (if en_closed e \<or> en_draining e then (e, Some (ErrNew ''data-plane engine is not accepting sessions''))
      else case en_assignments e (sh_AssignmentID hello) of
          None \<Rightarrow> (e, Some ErrUnauthorizedAgent)
        | Some a \<Rightarrow>
            (case AuthorizeSession hello a of
               Some err \<Rightarrow> (e, Some err)
             | None \<Rightarrow>
                 (case reserve_session e of
                    None \<Rightarrow> (e, Some (ErrWrap '': session limit reached'' ErrTransient))
                  | Some e' \<Rightarrow> (e', None))))"

definition ReleaseSession :: "Engine \<Rightarrow> Engine" where
  "ReleaseSession e = (if en_sessions e \<le> 0 then e else e\<lparr>en_sessions := en_sessions e - 1\<rparr>)"

text \<open>The compare-and-swap loop on the global stream counter, with both ceilings.\<close>

definition reserve_stream :: "Engine \<Rightarrow> Engine result" where
  "reserve_stream e =
     (if en_streams e \<ge> en_maxStreams e then Inl (ErrWrap '': stream limit reached'' ErrTransient)
      else if en_connectionLimit e > 0 \<and> en_streams e \<ge> en_connectionLimit e then
        Inl (ErrWrap '': connection limit reached'' ErrTransient)
      else Inr (e\<lparr>en_streams := en_streams e + 1\<rparr>))"

definition service_mismatch :: "OpenMetadata \<Rightarrow> Engine \<Rightarrow> bool" where
  "service_mismatch open e \<longleftrightarrow> \<not> om_Egress open \<and>
     (case en_services e (om_ServiceID open) of
        None \<Rightarrow> True
      | Some s \<Rightarrow> \<not> sv_Enabled s \<or> sv_Protocol s \<noteq> om_Protocol open \<or> sv_LocalTarget s \<noteq> om_Target open)"

definition ReserveOpen :: "string \<Rightarrow> OpenMetadata \<Rightarrow> Engine \<Rightarrow> Engine \<times> OpenLease result" where
  "ReserveOpen assignmentID open e =
     (if en_closed e \<or> en_draining e then (e, Inl (ErrNew ''data-plane engine is not accepting opens''))
      else case en_assignments e assignmentID of
          None \<Rightarrow> (e, Inl ErrUnauthorizedAgent)
        | Some a \<Rightarrow>
            (case AuthorizeOpen open a of
               Some err \<Rightarrow> (e, Inl err)
             | None \<Rightarrow>
                 if service_mismatch open e then (e, Inl ErrUnauthorizedAgent)
                 else if en_active e assignmentID \<ge> tighter (av_MaxStreams a) (en_maxStreams e) then
                   (e, Inl (ErrWrap '': assignment stream limit reached'' ErrTransient))
                 else (case reserve_stream e of
                     Inl err \<Rightarrow> (e, Inl err)
                   | Inr e' \<Rightarrow>
                       (e'\<lparr>en_active := (en_active e')(assignmentID := en_active e' assignmentID + 1)\<rparr>,
                        Inr \<lparr>ol_assignmentID = assignmentID, ol_epoch = en_epoch e', ol_once = False\<rparr>))))"

definition ReserveLocalOpen :: "Engine \<Rightarrow> Engine \<times> OpenLease result" where
  "ReserveLocalOpen e =
     (if en_closed e \<or> en_draining e then (e, Inl (ErrNew ''data-plane engine is not accepting local opens''))
      else case reserve_stream e of
          Inl err \<Rightarrow> (e, Inl err)
        | Inr e' \<Rightarrow> (e', Inr \<lparr>ol_assignmentID = [], ol_epoch = en_epoch e', ol_once = False\<rparr>))"

definition Engine_AuthorizeOpen :: "string \<Rightarrow> OpenMetadata \<Rightarrow> Engine \<Rightarrow> Engine \<times> check" where
  "Engine_AuthorizeOpen assignmentID open e =
     (case ReserveOpen assignmentID open e of (e', Inl err) \<Rightarrow> (e', Some err) | (e', Inr l) \<Rightarrow> (e', None))"

definition AuthorizeLocalOpen :: "Engine \<Rightarrow> Engine \<times> check" where
  "AuthorizeLocalOpen e = (case ReserveLocalOpen e of (e', Inl err) \<Rightarrow> (e', Some err) | (e', Inr l) \<Rightarrow> (e', None))"

definition releaseStreamReservation :: "Engine \<Rightarrow> Engine" where
  "releaseStreamReservation e = (if en_streams e \<le> 0 then e else e\<lparr>en_streams := en_streams e - 1\<rparr>)"

definition lower_active :: "string \<Rightarrow> Engine \<Rightarrow> Engine" where
  "lower_active a e = e\<lparr>en_active := (en_active e)(a := if en_active e a \<le> 1 then 0 else en_active e a - 1)\<rparr>"

definition ReleaseOpen :: "string \<Rightarrow> Engine \<Rightarrow> Engine" where
  "ReleaseOpen a e = lower_active a (releaseStreamReservation e)"

definition releaseLease :: "string \<Rightarrow> u64 \<Rightarrow> Engine \<Rightarrow> Engine" where
  "releaseLease a epoch e =
     (let e' = releaseStreamReservation e in
      if a = [] then e' else if epoch \<noteq> en_epoch e' then e' else lower_active a e')"

definition Release :: "OpenLease \<Rightarrow> Engine \<Rightarrow> OpenLease \<times> Engine" where
  "Release l e =
     (if ol_once l then (l, e) else (l\<lparr>ol_once := True\<rparr>, releaseLease (ol_assignmentID l) (ol_epoch l) e))"

definition BeginDrain :: "Engine \<Rightarrow> Engine" where "BeginDrain e = e\<lparr>en_draining := True\<rparr>"

definition EndDrain :: "Engine \<Rightarrow> Engine" where
  "EndDrain e = (if en_closed e then e else e\<lparr>en_draining := False\<rparr>)"

definition Engine_Close :: "Engine \<Rightarrow> Engine" where
  "Engine_Close e = e\<lparr>en_closed := True, en_draining := True\<rparr>"

section \<open>Session admission\<close>

interpretation sessions: admission en_sessions en_maxSessions reserve_session ReleaseSession
  by unfold_locales (auto simp: reserve_session_def ReleaseSession_def split: if_splits)

section \<open>Leases\<close>

text \<open>
  The engine together with the leases it has handed out, under any sequence of its methods.
  An activation is possible as long as the 64-bit epoch does not wrap around.
\<close>

type_synonym engine_world = "Engine \<times> OpenLease list"

definition epoch_left :: "Engine \<Rightarrow> bool" where
  "epoch_left e \<longleftrightarrow> unat (en_epoch e) + 1 < 2 ^ 64"

inductive engine_step :: "engine_world \<Rightarrow> engine_world \<Rightarrow> bool" where
  open_stream: "ReserveOpen a om e = (e', Inr l) \<Longrightarrow> engine_step (e, ls) (e', ls @ [l])"
| open_local: "ReserveLocalOpen e = (e', Inr l) \<Longrightarrow> engine_step (e, ls) (e', ls @ [l])"
| release: "i < length ls \<Longrightarrow> Release (ls ! i) e = (l, e') \<Longrightarrow> engine_step (e, ls) (e', ls[i := l])"
| activate: "apply_prepare env ctx s previous e0 = Inr p \<Longrightarrow> epoch_left e \<Longrightarrow> apply_commit p e = (e', err) \<Longrightarrow>
    engine_step (e, ls) (e', ls)"
| reset: "epoch_left e \<Longrightarrow> ResetSnapshot g e = (e', err) \<Longrightarrow> engine_step (e, ls) (e', ls)"
| session_open: "Engine_AuthorizeSession hello e = (e', err) \<Longrightarrow> engine_step (e, ls) (e', ls)"
| session_close: "engine_step (e, ls) (ReleaseSession e, ls)"
| drain: "engine_step (e, ls) (BeginDrain e, ls)"
| undrain: "engine_step (e, ls) (EndDrain e, ls)"
| close: "engine_step (e, ls) (Engine_Close e, ls)"

inductive_cases engine_stepE: "engine_step w w'"

text \<open>The leases not yet released: all of them, and those of one assignment in one epoch.\<close>

definition held :: "OpenLease list \<Rightarrow> int" where
  "held ls = int (length (filter (\<lambda>l. \<not> ol_once l) ls))"

definition held_by :: "string \<Rightarrow> u64 \<Rightarrow> OpenLease list \<Rightarrow> int" where
  "held_by a ep ls = int (length (filter (\<lambda>l. \<not> ol_once l \<and> ol_assignmentID l = a \<and> ol_epoch l = ep) ls))"

definition engine_ok :: "engine_world \<Rightarrow> bool" where
  "engine_ok w \<longleftrightarrow> (case w of (e, ls) \<Rightarrow>
     en_streams e = held ls \<and> (\<forall>a. en_active e a = (if a = [] then 0 else held_by a (en_epoch e) ls))
     \<and> (\<forall>l\<in>set ls. unat (ol_epoch l) \<le> unat (en_epoch e)) \<and> en_assignments e [] = None
     \<and> 0 \<le> en_sessions e \<and> en_sessions e \<le> en_maxSessions e)"

lemma held_append [simp]: "held (ls @ [l]) = held ls + (if ol_once l then 0 else 1)"
  by (simp add: held_def)

lemma held_by_append [simp]:
  "held_by a ep (ls @ [l]) = held_by a ep ls + (if \<not> ol_once l \<and> ol_assignmentID l = a \<and> ol_epoch l = ep then 1 else 0)"
  by (simp add: held_by_def)

lemma length_filter_update:
  "i < length xs \<Longrightarrow> int (length (filter P (xs[i := x]))) =
    int (length (filter P xs)) - (if P (xs ! i) then 1 else 0) + (if P x then 1 else 0)"
proof (induction xs arbitrary: i)
  case (Cons y ys)
  show ?case
  proof (cases i)
    case (Suc j)
    with Cons.prems Cons.IH [of j] show ?thesis by (auto split: if_splits)
  qed simp
qed simp

lemma held_nonneg: "0 \<le> held ls" "0 \<le> held_by a ep ls" by (simp_all add: held_def held_by_def)

lemma held_by_pos:
  "i < length ls \<Longrightarrow> \<not> ol_once (ls ! i) \<Longrightarrow> 0 < held ls \<and> 0 < held_by (ol_assignmentID (ls ! i)) (ol_epoch (ls ! i)) ls"
  by (auto simp: held_def held_by_def filter_empty_conv)

lemma held_by_future: "\<forall>l\<in>set ls. unat (ol_epoch l) \<le> n \<Longrightarrow> n < unat ep \<Longrightarrow> held_by a ep ls = 0"
  by (fastforce simp: held_by_def filter_empty_conv)


lemma epoch_next: "epoch_left e \<Longrightarrow> unat (en_epoch e + 1) = unat (en_epoch e) + 1"
  by (simp add: epoch_left_def unat_word_ariths)

lemma held_by_next:
  assumes "\<forall>l\<in>set ls. unat (ol_epoch l) \<le> unat (en_epoch e)" "epoch_left e"
  shows "held_by a (en_epoch e + 1) ls = 0"
  using held_by_future [OF assms(1)] epoch_next [OF assms(2)] by simp

lemma reserve_stream_Inr:
  "reserve_stream e = Inr e' \<longleftrightarrow> e' = e\<lparr>en_streams := en_streams e + 1\<rparr> \<and> en_streams e < en_maxStreams e
     \<and> (en_connectionLimit e > 0 \<longrightarrow> en_streams e < en_connectionLimit e)"
  by (auto simp: reserve_stream_def)

lemma ReserveOpen_Inr:
  "ReserveOpen a om e = (e', Inr l) \<longleftrightarrow>
     \<not> en_closed e \<and> \<not> en_draining e \<and> l = \<lparr>ol_assignmentID = a, ol_epoch = en_epoch e, ol_once = False\<rparr>
     \<and> e' = e\<lparr>en_streams := en_streams e + 1, en_active := (en_active e)(a := en_active e a + 1)\<rparr>
     \<and> (\<exists>v. en_assignments e a = Some v \<and> AuthorizeOpen om v = None \<and> \<not> service_mismatch om e
          \<and> en_active e a < tighter (av_MaxStreams v) (en_maxStreams e))
     \<and> en_streams e < en_maxStreams e \<and> (en_connectionLimit e > 0 \<longrightarrow> en_streams e < en_connectionLimit e)"
  by (cases "reserve_stream e") (auto simp: ReserveOpen_def reserve_stream_Inr not_le split: option.split,
    auto simp: reserve_stream_def split: if_splits)

lemma ReserveLocalOpen_Inr:
  "ReserveLocalOpen e = (e', Inr l) \<longleftrightarrow>
     \<not> en_closed e \<and> \<not> en_draining e \<and> l = \<lparr>ol_assignmentID = [], ol_epoch = en_epoch e, ol_once = False\<rparr>
     \<and> reserve_stream e = Inr e'"
  by (auto simp: ReserveLocalOpen_def reserve_stream_def)


lemma engine_ok_open:
  assumes "engine_ok (e, ls)" "ReserveOpen a om e = (e', Inr l)"
  shows "engine_ok (e', ls @ [l])"
  using assms by (auto simp: ReserveOpen_Inr engine_ok_def)

lemma engine_ok_local:
  assumes "engine_ok (e, ls)" "ReserveLocalOpen e = (e', Inr l)"
  shows "engine_ok (e', ls @ [l])"
  using assms by (auto simp: ReserveLocalOpen_Inr reserve_stream_Inr engine_ok_def)

lemma engine_ok_release:
  assumes ok: "engine_ok (e, ls)" and i: "i < length ls" and r: "Release (ls ! i) e = (l, e')"
  shows "engine_ok (e', ls[i := l])"
proof (cases "ol_once (ls ! i)")
  case True
  with r have "l = ls ! i" "e' = e" by (simp_all add: Release_def)
  with ok show ?thesis by simp
next
  case False
  let ?l = "ls ! i"
  have l: "l = ?l\<lparr>ol_once := True\<rparr>" and e': "e' = releaseLease (ol_assignmentID ?l) (ol_epoch ?l) e"
    using r False by (auto simp: Release_def)
  have h: "held (ls[i := l]) = held ls - 1"
    "held_by a ep (ls[i := l]) = held_by a ep ls - (if ol_assignmentID ?l = a \<and> ol_epoch ?l = ep then 1 else 0)" for a ep
    using False i by (simp_all add: held_def held_by_def length_filter_update l)
  have pos: "0 < held ls" "0 < held_by (ol_assignmentID ?l) (ol_epoch ?l) ls" using held_by_pos [OF i False] by auto
  have ep: "\<forall>k\<in>set (ls[i := l]). unat (ol_epoch k) \<le> unat (en_epoch e)"
    using ok i set_update_subset_insert [of ls i l] by (auto simp: engine_ok_def l)
  show ?thesis
    using ok pos ep h
    by (auto simp: engine_ok_def e' releaseLease_def releaseStreamReservation_def lower_active_def Let_def)
qed

lemma index_assignments_Nil:
  "index_assignments e s services as m = Inr m' \<Longrightarrow> m [] = None \<Longrightarrow> \<forall>a\<in>set as. as_ID a \<noteq> [] \<Longrightarrow> m' [] = None"
  by (induction as arbitrary: m) (auto split: if_splits)

lemma apply_prepare_Nil:
  assumes "apply_prepare env ctx s previous e = Inr p"
  shows "pp_assignments p [] = None"
proof -
  have v: "DesiredSnapshot_Validate env s = None" using assms by (auto simp: apply_prepare_def)
  then have "\<forall>a\<in>set (ds_Assignments s). assignment_ok env s a"
    using check_assignments_None [OF DesiredSnapshot_ValidateD(2) [OF v]] by blast
  then have "\<forall>a\<in>set (ds_Assignments s). as_ID a \<noteq> []"
    by (auto simp: assignment_ok_def Assignment_Validate_def ValidateID_def)
  with assms show ?thesis
    by (auto simp: apply_prepare_def Let_def split: if_splits dest: index_assignments_Nil)
qed


lemma install_limits_fields [simp]:
  "en_streams (install_limits s e) = en_streams e" "en_active (install_limits s e) = en_active e"
  "en_epoch (install_limits s e) = en_epoch e" "en_assignments (install_limits s e) = en_assignments e"
  "en_sessions (install_limits s e) = en_sessions e" "en_maxSessions (install_limits s e) = en_maxSessions e"
  "en_generation (install_limits s e) = en_generation e" "en_services (install_limits s e) = en_services e"
  "en_closed (install_limits s e) = en_closed e" "en_draining (install_limits s e) = en_draining e"
  "en_nodeID (install_limits s e) = en_nodeID e" "en_kind (install_limits s e) = en_kind e"
  "en_baseMaxStreams (install_limits s e) = en_baseMaxStreams e"
  by (simp_all add: install_limits_def split: option.split)

lemma apply_prepare_Inr:
  assumes "apply_prepare env ctx s previous e = Inr p"
  shows "pp_snapshot p = s" "pp_previous p = previous"
    "pp_rollback p = (\<exists>q\<in>set_option previous. ds_Generation s < q \<and> en_generation e = q)"
    "pp_sameGeneration p = (previous = Some (ds_Generation s) \<and> ds_Generation s = en_generation e)"
proof -
  define rb where "rb = (\<exists>q\<in>set_option previous. ds_Generation s < q \<and> en_generation e = q)"
  define sm where "sm = (previous = Some (ds_Generation s) \<and> ds_Generation s = en_generation e)"
  have "\<exists>sv asg. p = \<lparr>pp_snapshot = s, pp_previous = previous, pp_rollback = rb, pp_sameGeneration = sm,
      pp_assignments = asg, pp_services = sv\<rparr>"
    using assms unfolding apply_prepare_def Let_def rb_def [symmetric] sm_def [symmetric]
    by (auto split: if_splits)
  then show "pp_snapshot p = s" "pp_previous p = previous"
    "pp_rollback p = (\<exists>q\<in>set_option previous. ds_Generation s < q \<and> en_generation e = q)"
    "pp_sameGeneration p = (previous = Some (ds_Generation s) \<and> ds_Generation s = en_generation e)"
    unfolding rb_def [symmetric] sm_def [symmetric] by auto
qed

lemma engine_ok_activate:
  assumes "engine_ok (e, ls)" "apply_prepare env ctx s previous e0 = Inr p" "epoch_left e" "apply_commit p e = (e', err)"
  shows "engine_ok (e', ls)"
proof -
  have le: "\<forall>l\<in>set ls. unat (ol_epoch l) \<le> unat (en_epoch e)" using assms(1) by (simp add: engine_ok_def)
  have "\<forall>l\<in>set ls. unat (ol_epoch l) \<le> unat (en_epoch e + 1)"
    unfolding epoch_next [OF assms(3)] using le by fastforce
  with assms held_by_next [OF le assms(3)] apply_prepare_Nil [OF assms(2)] show ?thesis
    by (auto simp: engine_ok_def apply_commit_def Let_def split: if_splits)
qed

lemma engine_ok_reset:
  assumes "engine_ok (e, ls)" "epoch_left e" "ResetSnapshot g e = (e', err)"
  shows "engine_ok (e', ls)"
proof -
  have le: "\<forall>l\<in>set ls. unat (ol_epoch l) \<le> unat (en_epoch e)" using assms(1) by (simp add: engine_ok_def)
  have "\<forall>l\<in>set ls. unat (ol_epoch l) \<le> unat (en_epoch e + 1)"
    unfolding epoch_next [OF assms(2)] using le by fastforce
  with assms held_by_next [OF le assms(2)] show ?thesis
    by (auto simp: engine_ok_def ResetSnapshot_def split: if_splits)
qed

lemma engine_ok_session:
  assumes "engine_ok (e, ls)" "Engine_AuthorizeSession hello e = (e', err)"
  shows "engine_ok (e', ls)"
  using assms
  by (auto simp: engine_ok_def Engine_AuthorizeSession_def reserve_session_def split: if_splits option.splits)

lemma engine_step_ok: "engine_step w w' \<Longrightarrow> engine_ok w \<Longrightarrow> engine_ok w'"
proof (induction rule: engine_step.induct)
  case (open_stream a om e e' l ls)
  show ?case by (rule engine_ok_open [OF open_stream.prems open_stream.hyps])
next
  case (open_local e e' l ls)
  show ?case by (rule engine_ok_local [OF open_local.prems open_local.hyps])
next
  case (release i ls e l e')
  show ?case by (rule engine_ok_release [OF release.prems release.hyps])
next
  case (activate env ctx s previous e0 p e e' err ls)
  show ?case by (rule engine_ok_activate [OF activate.prems activate.hyps])
next
  case (reset e g e' err ls)
  show ?case by (rule engine_ok_reset [OF reset.prems reset.hyps])
next
  case (session_open hello e e' err ls)
  show ?case by (rule engine_ok_session [OF session_open.prems session_open.hyps])
qed (simp_all add: engine_ok_def ReleaseSession_def BeginDrain_def EndDrain_def Engine_Close_def)

lemma New_ok: "New opts = Inr e \<Longrightarrow> engine_ok (e, [])"
  by (auto simp: New_def engine_ok_def held_def held_by_def default_256_def split: if_splits)

text \<open>
  C30. Through every sequence of opens, releases, activations (also ones prepared on an older
  state), resets, sessions, drains and closes, the global stream counter is the number of
  leases not yet released, the counter of an assignment is the number of those that were taken
  for it in the current epoch, so that a lease of an older snapshot never lowers it, and the
  session counter stays within its limit.
\<close>

theorem engine_leases_exact:
  assumes "New opts = Inr e0" and "engine_step\<^sup>*\<^sup>* (e0, []) (e, ls)"
  shows "en_streams e = held ls \<and> (\<forall>a. a \<noteq> [] \<longrightarrow> en_active e a = held_by a (en_epoch e) ls)
    \<and> 0 \<le> en_sessions e \<and> en_sessions e \<le> en_maxSessions e"
proof -
  have "engine_ok (e, ls)"
    using assms(2) New_ok [OF assms(1)] by (induction rule: rtranclp_induct) (auto dest: engine_step_ok)
  then show ?thesis by (simp add: engine_ok_def)
qed


text \<open>
  An activation is all or nothing, also when the engine changed between the preparation and
  the commit: either the engine is left as it was and an error is returned, or the prepared
  indexes are installed. The generation then rises, unless the call names the generation that
  is still active as the one it replaces: a repair of the same generation or a rollback.
\<close>

theorem activation_atomic:
  assumes "apply_prepare env ctx s previous e0 = Inr p" and "apply_commit p e = (e', err)"
  shows "(err \<noteq> None \<and> e' = e)
    \<or> (err = None \<and> en_generation e' = ds_Generation s \<and> en_assignments e' = pp_assignments p
       \<and> en_services e' = pp_services p \<and> en_epoch e' = en_epoch e + 1 \<and> en_streams e' = en_streams e
       \<and> (en_generation e < en_generation e'
          \<or> (previous = Some (en_generation e) \<and> en_generation e' \<le> en_generation e)))"
proof -
  note p = apply_prepare_Inr [OF assms(1)]
  consider (err) "err \<noteq> None" "e' = e" | (installed) "err = None"
    "en_generation e' = ds_Generation s" "en_assignments e' = pp_assignments p" "en_services e' = pp_services p"
    "en_epoch e' = en_epoch e + 1" "en_streams e' = en_streams e"
    "pp_rollback p \<Longrightarrow> previous = Some (en_generation e)" "pp_sameGeneration p \<Longrightarrow> en_generation e = ds_Generation s"
    "\<not> pp_rollback p \<Longrightarrow> \<not> pp_sameGeneration p \<Longrightarrow> en_generation e < ds_Generation s"
    using assms(2) p(1,2) by (auto simp: apply_commit_def Let_def not_le split: if_splits)
  then show ?thesis
  proof cases
    case installed
    consider "pp_rollback p" | "pp_sameGeneration p" | "\<not> pp_rollback p" "\<not> pp_sameGeneration p" by blast
    then have "en_generation e < ds_Generation s \<or> (previous = Some (en_generation e) \<and> ds_Generation s \<le> en_generation e)"
    proof cases
      case 1
      with installed(7) p(3) show ?thesis by (auto simp: less_imp_le)
    next
      case 2
      with installed(8) p(4) show ?thesis by simp
    next
      case 3
      with installed(9) show ?thesis by simp
    qed
    with installed(1-6) show ?thesis by simp
  qed simp
qed

section \<open>A sample engine\<close>

definition sample_engine :: Engine where
  "sample_engine = \<lparr>en_kind = ''gateway'', en_nodeID = ''gw'', en_maxStreams = 256, en_maxSessions = 256,
     en_draining = False, en_closed = False, en_generation = 0, en_epoch = 0, en_gatewaySpec = None,
     en_agentSpec = None, en_assignments = Map.empty, en_services = Map.empty, en_active = (\<lambda>a. 0),
     en_baseMaxStreams = 256, en_connectionLimit = 0, en_bufferLimit = 0, en_streams = 0, en_sessions = 0,
     en_egress = no_egress, en_egressOpen = 0\<rparr>"

lemma sample_engine_new:
  "New \<lparr>opt_Kind = ''gateway'', opt_NodeID = ''gw'', opt_MaxStreams = 0, opt_MaxSessions = 0\<rparr> = Inr sample_engine"
  by (simp add: New_def default_256_def sample_ids sample_engine_def)

theorem engine_leases_exact_witness:
  "en_streams (sample_engine\<lparr>en_streams := 1\<rparr>) = held [\<lparr>ol_assignmentID = [], ol_epoch = 0, ol_once = False\<rparr>]"
proof -
  have "engine_step (sample_engine, []) (sample_engine\<lparr>en_streams := 1\<rparr>, [] @ [\<lparr>ol_assignmentID = [], ol_epoch = 0, ol_once = False\<rparr>])"
    by (rule open_local) (simp add: ReserveLocalOpen_Inr reserve_stream_Inr, simp add: sample_engine_def)
  from engine_leases_exact [OF sample_engine_new r_into_rtranclp [where r = engine_step, OF this]] show ?thesis by simp
qed

definition sample_open :: OpenMetadata where
  "sample_open = \<lparr>om_Protocol = ''tcp'', om_ServiceID = ''web'', om_Target = ''127.0.0.1:80'', om_FlowID = 0, om_Egress = False\<rparr>"

definition sample_serving :: Engine where
  "sample_serving = sample_engine\<lparr>en_services := [''web'' \<mapsto> sample_service], en_assignments := [''a1'' \<mapsto>
     \<lparr>av_ID = ''a1'', av_AgentID = ''ag'', av_Generation = 4, av_State = ''active'', av_ServiceIDs = [''web''], av_MaxStreams = 3\<rparr>]\<rparr>"


lemma sample_checksummed:
  obtains c where "c \<noteq> []" "DesiredSnapshot_Validate plain_env ((sample_snapshot ''a1'' 8000)\<lparr>ds_Checksum := c\<rparr>) = None"
proof -
  obtain c where c: "ComputeChecksum plain_env (sample_snapshot ''a1'' 8000) = Inr c" using sample_checksum by blast
  then have "c = hex_encode (replicate 32 0)" by (auto simp: ComputeChecksum_def)
  then have "c \<noteq> []" by (simp add: hex_encode_def hex_byte_def)
  moreover have "(sample_snapshot ''a1'' 8000)\<lparr>ds_Checksum := []\<rparr> = sample_snapshot ''a1'' 8000" by (simp add: sample_snapshot_def)
  ultimately show ?thesis using that Validate_Checksum [OF _ c] sample_valid by simp
qed

theorem activation_atomic_witness:
  "\<exists>s p e'. apply_prepare plain_env None s None sample_engine = Inr p \<and> apply_commit p sample_engine = (e', None)
     \<and> en_generation e' = 5"
proof -
  obtain c where c: "c \<noteq> []" "DesiredSnapshot_Validate plain_env ((sample_snapshot ''a1'' 8000)\<lparr>ds_Checksum := c\<rparr>) = None"
    by (rule sample_checksummed)
  let ?s = "(sample_snapshot ''a1'' 8000)\<lparr>ds_Checksum := c\<rparr>"
  have "\<exists>sv. index_services sample_engine (ds_Services ?s) Map.empty = Inr sv \<and> sv ''web'' = Some sample_service"
    by (simp add: sample_snapshot_def sample_parts sample_engine_def) (simp add: sample_service_def)
  then obtain sv where sv: "index_services sample_engine (ds_Services ?s) Map.empty = Inr sv" "sv ''web'' = Some sample_service"
    by blast
  have "\<exists>asg. index_assignments sample_engine ?s sv (ds_Assignments ?s) Map.empty = Inr asg"
    using sv(2) by (simp add: sample_snapshot_def sample_assignment_def sample_engine_def sample_service_def)
  then obtain asg where asg: "index_assignments sample_engine ?s sv (ds_Assignments ?s) Map.empty = Inr asg" by blast
  have f: "ds_NodeID ?s = ''gw''" "ds_Generation ?s = 5" "ds_Gateway ?s \<noteq> None" "ds_Checksum ?s = c"
    by (simp_all add: sample_snapshot_def)
  have g: "\<not> en_closed sample_engine" "en_nodeID sample_engine = ''gw''" "en_generation sample_engine = 0"
    "en_kind sample_engine = ''gateway''" by (simp_all add: sample_engine_def)
  have "\<exists>p. apply_prepare plain_env None ?s None sample_engine = Inr p"
    unfolding apply_prepare_def using c sv(1) asg f g by simp
  then obtain p where p: "apply_prepare plain_env None ?s None sample_engine = Inr p" by blast
  then have "snd (apply_commit p sample_engine) = None"
    using apply_prepare_Inr [OF p] f g by (simp add: apply_commit_def)
  then obtain e' where e': "apply_commit p sample_engine = (e', None)" by (metis prod.collapse)
  from activation_atomic [OF p e'] have "en_generation e' = 5" unfolding f(2) by auto
  with p e' show ?thesis by blast
qed

end
