(* ===== verification/Dataplane_Egress.thy ===== *)
theory Dataplane_Egress
  imports Dataplane_Engine
begin

text \<open>
  \<^verbatim>\<open>internal/dataplane/egress.go\<close> and \<^verbatim>\<open>routing.go\<close>: the outbound policy of a node and the choice of
  a route. The resolver behind \<^verbatim>\<open>net.DefaultResolver\<close> and the country lookup of the GeoIP database
  are parameters.
\<close>

section \<open>Targets\<close>

definition normalizeEgressTarget :: "string \<Rightarrow> string \<Rightarrow> (string \<times> string \<times> int) result" where
  "normalizeEgressTarget network target =
     (if network \<noteq> ProtocolTCP \<and> network \<noteq> ProtocolUDP then Inl (ErrNew ''unsupported egress network'')
      else if trim_space target \<noteq> target \<or> length target = 0 \<or> length target > 2048
          \<or> contains_any target [CHR 0x00, CHR 0x0D, CHR 0x0A] then Inl (ErrNew ''egress target must be host:port'')
      else case split_host_port target of
          None \<Rightarrow> Inl (ErrNew ''egress target must be host:port'')
        | Some (host, portText) \<Rightarrow>
            if trim_space host = [] \<or> host \<noteq> trim_space host
               \<or> contains_any host [CHR 0x00, CHR 0x0D, CHR 0x0A, CHR '' '', CHR 0x09]
               \<or> contains_any portText [CHR 0x00, CHR 0x0D, CHR 0x0A, CHR '' '', CHR 0x09] then
              Inl (ErrNew ''egress target must be host:port'')
            else case atoi portText of (port, ok) \<Rightarrow>
              if \<not> ok \<or> port < 1 \<or> port > 65535 then Inl (ErrNew ''egress target port is invalid'')
              else Inr (join_host_port host (show_nat (nat port)), host, port))"

section \<open>Ports and addresses\<close>

text \<open>
  One entry of the port list. As in the code, the error of the lower bound is forgotten when
  there is an upper bound.
\<close>

definition port_range_admits :: "int \<Rightarrow> string \<Rightarrow> bool" where
  "port_range_admits port value =
     (let parts = split_on CHR ''-'' (trim_space value) in
      if length parts < 1 \<or> length parts > 2 then False
      else case atoi (trim_space (parts ! 0)) of (lo, ok) \<Rightarrow>
        (case (if length parts = 2 then atoi (trim_space (parts ! 1)) else (lo, ok)) of (hi, ok') \<Rightarrow>
           ok' \<and> lo \<ge> 1 \<and> hi \<le> 65535 \<and> lo \<le> hi \<and> port \<ge> lo \<and> port \<le> hi))"

definition egressPortAllowed :: "EgressPolicy \<Rightarrow> string \<Rightarrow> int \<Rightarrow> bool" where
  "egressPortAllowed policy network port =
     list_ex (port_range_admits port) (if network = ProtocolUDP then eg_UDPPorts policy else eg_TCPPorts policy)"

definition containsEgressPrefix :: "string list \<Rightarrow> addr \<Rightarrow> bool" where
  "containsEgressPrefix values a =
     list_ex (\<lambda>v. case parse_prefix (trim_space v) of None \<Rightarrow> False | Some p \<Rightarrow> prefix_contains p a) values"

definition egressIPAllowed :: "EgressPolicy \<Rightarrow> addr \<Rightarrow> bool" where
  "egressIPAllowed policy address =
     (let a = unmap address in
      if IsSpecial a \<and> \<not> containsEgressPrefix (eg_AllowSpecialCIDRs policy) a then False
      else if eg_AllowCIDRs policy = [] then True
      else containsEgressPrefix (eg_AllowCIDRs policy) a)"

definition egress_candidates :: "(string \<Rightarrow> addr list result) \<Rightarrow> string \<Rightarrow> addr list result" where
  "egress_candidates lookup host =
     (case parse_addr (trim_chars host ''[]'') of
        Some literal \<Rightarrow> Inr [unmap literal]
      | None \<Rightarrow>
          (case lookup (trim_suffix host ''.'') of
             Inl e \<Rightarrow> Inl (ErrWrap ''resolve egress destination: '' e)
           | Inr ips \<Rightarrow>
               if length ips > 64 then Inl (ErrNew ''egress destination resolves to too many addresses'')
               else Inr (map unmap ips)))"

definition resolveAllowedEgress ::
  "(string \<Rightarrow> addr list result) \<Rightarrow> EgressPolicy \<Rightarrow> string \<Rightarrow> string \<Rightarrow> int \<Rightarrow> string result" where
  "resolveAllowedEgress lookup policy network host port =
     (if \<not> egressPortAllowed policy network port then Inl (ErrNew ''egress port is not allowed'')
      else bind_result (egress_candidates lookup host) (\<lambda>addresses.
        case find (egressIPAllowed policy) addresses of
          None \<Rightarrow> Inl (ErrNew ''egress destination is denied by policy'')
        | Some a \<Rightarrow> Inr (join_host_port (addr_string a) (show_nat (nat port)))))"

section \<open>Connections\<close>

text \<open>
  The counter is raised by one compare-and-swap below the limit of the policy that was read.
  The callback that is returned lowers it once; without a limit there is nothing to lower.
\<close>

definition take_egress :: "int \<Rightarrow> Engine \<Rightarrow> Engine option" where
  "take_egress limit e = (if en_egressOpen e \<ge> limit then None else Some (e\<lparr>en_egressOpen := en_egressOpen e + 1\<rparr>))"

definition releaseEgress :: "Engine \<Rightarrow> Engine" where
  "releaseEgress e = (if en_egressOpen e \<le> 0 then e else e\<lparr>en_egressOpen := en_egressOpen e - 1\<rparr>)"

definition reserve_egress :: "EgressPolicy \<Rightarrow> Engine \<Rightarrow> Engine \<times> bool result" where
  "reserve_egress policy e =
     (if eg_MaxConnections policy \<le> 0 then (e, Inr False)
      else case take_egress (eg_MaxConnections policy) e of
          None \<Rightarrow> (e, Inl (ErrWrap '': egress connection limit reached'' ErrTransient))
        | Some e' \<Rightarrow> (e', Inr True))"

definition release_callback :: "bool \<Rightarrow> Engine \<Rightarrow> Engine" where
  "release_callback counted e = (if counted then releaseEgress e else e)"

text \<open>The address to dial and whether the callback holds a slot.\<close>

definition AcquireEgress ::
  "(string \<Rightarrow> addr list result) \<Rightarrow> string \<Rightarrow> string \<Rightarrow> Engine \<Rightarrow> Engine \<times> (string \<times> bool) result" where
  "AcquireEgress lookup network target e =
     (if en_closed e \<or> en_draining e then (e, Inl (ErrNew ''data-plane engine is not accepting egress''))
      else case normalizeEgressTarget network target of
          Inl err \<Rightarrow> (e, Inl err)
        | Inr (normalized, host, port) \<Rightarrow>
            (case (if \<not> eg_Enabled (en_egress e) then Inr normalized
                   else resolveAllowedEgress lookup (en_egress e) network host port) of
               Inl err \<Rightarrow> (e, Inl err)
             | Inr address \<Rightarrow>
                 (case reserve_egress (en_egress e) e of
                    (e', Inl err) \<Rightarrow> (e', Inl err)
                  | (e', Inr counted) \<Rightarrow> (e', Inr (address, counted)))))"

definition ActiveEgress :: "Engine \<Rightarrow> int" where
  "ActiveEgress e = en_egressOpen e"

interpretation egress: admission en_egressOpen "\<lambda>e. limit" "take_egress limit" releaseEgress for limit :: int
  by unfold_locales (auto simp: take_egress_def releaseEgress_def split: if_splits)

section \<open>Routes\<close>

text \<open>
  \<^verbatim>\<open>net.ParseIP\<close> gives a 16-byte address, in which a mapped address and the plain IPv4 address are
  the same; \<^verbatim>\<open>net.ParseCIDR\<close> differs from the netip parser in that the length may have leading
  zeros. \<open>dtoi\<close> scans decimal digits up to a bound.
\<close>

definition parse_ip :: "string \<Rightarrow> addr option" where
  "parse_ip s = (case parse_addr s of None \<Rightarrow> None | Some a \<Rightarrow> if has_zone a then None else Some (unmap a))"

fun dtoi :: "nat \<Rightarrow> string \<Rightarrow> nat option" where
  "dtoi n [] = Some n"
| "dtoi n (c # cs) =
     (if \<not> is_digit c then None
      else let m = n * 10 + (byte_of c - 48) in if m \<ge> 0xFFFFFF then None else dtoi m cs)"

definition parse_cidr :: "string \<Rightarrow> (addr \<times> nat) option" where
  "parse_cidr s =
     (case index_byte CHR ''/'' s of
        None \<Rightarrow> None
      | Some i \<Rightarrow>
          (case parse_addr (take i s) of
             None \<Rightarrow> None
           | Some a \<Rightarrow>
               if has_zone a \<or> drop (Suc i) s = [] then None
               else case dtoi 0 (drop (Suc i) s) of
                   None \<Rightarrow> None
                 | Some n \<Rightarrow> if n > bit_len a then None else Some (a, n)))"

text \<open>\<^verbatim>\<open>IPNet.Contains\<close>: a mapped network longer than 96 bits is an IPv4 network.\<close>

fun cidr_contains :: "addr \<times> nat \<Rightarrow> addr \<Rightarrow> bool" where
  "cidr_contains (Addr4 w, n) (Addr4 v) = (drop_bit (32 - n) v = drop_bit (32 - n) w)"
| "cidr_contains (Addr6 w z, n) (Addr4 v) =
     (is_4in6 (Addr6 w z) \<and> n \<ge> 96 \<and> drop_bit (128 - n) v = drop_bit (128 - n) (ucast w))"
| "cidr_contains (Addr6 w z, n) (Addr6 v y) =
     (\<not> (is_4in6 (Addr6 w z) \<and> n \<ge> 96) \<and> drop_bit (128 - n) v = drop_bit (128 - n) w)"
| "cidr_contains (Addr4 w, n) (Addr6 v y) = False"

fun local_ip :: "addr \<Rightarrow> bool" where
  "local_ip (Addr4 v) \<longleftrightarrow> drop_bit 24 v = 10 \<or> drop_bit 20 v = 0xAC1 \<or> drop_bit 16 v = 0xC0A8
     \<or> drop_bit 24 v = 127 \<or> drop_bit 16 v = 0xA9FE"
| "local_ip (Addr6 v z) \<longleftrightarrow> drop_bit 121 v = 0x7E \<or> v = 1 \<or> drop_bit 118 v = 0x3FA"

definition domain_matches :: "string \<Rightarrow> string \<Rightarrow> bool" where
  "domain_matches host value =
     (let name = trim_prefix (to_lower (trim_suffix (trim_space value) ''.'')) ''*.''
      in host = name \<or> has_suffix host (''.'' @ name))"

definition geo_matches :: "(addr \<Rightarrow> string option) option \<Rightarrow> addr option \<Rightarrow> string \<Rightarrow> bool" where
  "geo_matches db ip value =
     (let code = to_lower (trim_space value) in
      case ip of
        None \<Rightarrow> False
      | Some a \<Rightarrow>
          if code = ''private'' then local_ip a
          else (case db of None \<Rightarrow> False
                | Some country \<Rightarrow> (case country a of None \<Rightarrow> False | Some isoCode \<Rightarrow> equal_fold isoCode code)))"

definition routeMatches :: "RouteRule \<Rightarrow> string \<Rightarrow> addr option \<Rightarrow> (addr \<Rightarrow> string option) option \<Rightarrow> bool" where
  "routeMatches rule host ip db \<longleftrightarrow>
     (rt_CIDRs rule = [] \<and> rt_Domains rule = [] \<and> rt_GeoIP rule = [])
     \<or> list_ex (\<lambda>v. case (parse_cidr (trim_space v), ip) of (Some n, Some a) \<Rightarrow> cidr_contains n a | _ \<Rightarrow> False) (rt_CIDRs rule)
     \<or> list_ex (domain_matches host) (rt_Domains rule)
     \<or> list_ex (geo_matches db ip) (rt_GeoIP rule)"

definition SelectRouteWithResolver :: "AgentSpec \<Rightarrow> string \<Rightarrow> (addr \<Rightarrow> string option) option \<Rightarrow> string" where
  "SelectRouteWithResolver spec target db =
     (case split_host_port target of
        None \<Rightarrow> ''direct''
      | Some (rawHost, _) \<Rightarrow>
          let host = trim_suffix (to_lower (trim_space rawHost)) ''.'';
              ip = parse_ip (trim_chars host ''[]'')
          in case find (\<lambda>r. rt_Enabled r \<and> routeMatches r host ip db) (ag_Routes spec) of
               None \<Rightarrow> ''direct''
             | Some r \<Rightarrow> to_lower (rt_Destination r))"

section \<open>What an approved connection satisfies\<close>

lemma AcquireEgress_Inr:
  assumes "AcquireEgress lookup network target e = (e', Inr (address, counted))"
  obtains normalized host port where "\<not> en_closed e" "\<not> en_draining e"
    "normalizeEgressTarget network target = Inr (normalized, host, port)"
    "if eg_Enabled (en_egress e) then resolveAllowedEgress lookup (en_egress e) network host port = Inr address
     else address = normalized"
    "reserve_egress (en_egress e) e = (e', Inr counted)"
  using assms by (auto simp: AcquireEgress_def split: if_splits sum.splits prod.splits)

lemma reserve_egress_Inr:
  "reserve_egress policy e = (e', Inr counted) \<Longrightarrow>
   (eg_MaxConnections policy \<le> 0 \<and> e' = e \<and> \<not> counted)
   \<or> (0 < eg_MaxConnections policy \<and> counted \<and> en_egressOpen e < eg_MaxConnections policy
      \<and> e' = e\<lparr>en_egressOpen := en_egressOpen e + 1\<rparr>)"
  by (auto simp: reserve_egress_def take_egress_def split: if_splits)

lemma find_Some_mem: "find P xs = Some x \<Longrightarrow> P x \<and> x \<in> set xs"
  by (induction xs) (auto split: if_splits)

text \<open>
  C32. With an enabled policy, whatever the resolver answers, an approved connection goes to the
  text of one unmapped address, the literal or one the resolver returned, on a port that a range
  of the policy admits; the address lies in the allowed prefixes when there are any, and an
  address without a zone is not special-use unless an exception of the policy contains it. The
  connection count does not exceed a positive limit.
\<close>

theorem egress_policy_enforced:
  assumes "AcquireEgress lookup network target e = (e', Inr (address, counted))" and "eg_Enabled (en_egress e)"
  shows "\<exists>a port. unmap a = a \<and> address = join_host_port (addr_string a) (show_nat (nat port))
    \<and> 1 \<le> port \<and> port \<le> 65535
    \<and> (\<exists>r\<in>set (if network = ''udp'' then eg_UDPPorts (en_egress e) else eg_TCPPorts (en_egress e)). port_range_admits port r)
    \<and> (IsSpecial a \<longrightarrow> containsEgressPrefix (eg_AllowSpecialCIDRs (en_egress e)) a)
    \<and> (eg_AllowCIDRs (en_egress e) \<noteq> [] \<longrightarrow> containsEgressPrefix (eg_AllowCIDRs (en_egress e)) a)
    \<and> (0 < eg_MaxConnections (en_egress e) \<longrightarrow> en_egressOpen e' \<le> eg_MaxConnections (en_egress e))"
proof -
  obtain normalized host port where n: "normalizeEgressTarget network target = Inr (normalized, host, port)"
    and r: "resolveAllowedEgress lookup (en_egress e) network host port = Inr address"
    and c: "reserve_egress (en_egress e) e = (e', Inr counted)"
    using assms by (auto elim: AcquireEgress_Inr)
  obtain as a where as: "egress_candidates lookup host = Inr as" and a: "find (egressIPAllowed (en_egress e)) as = Some a"
    and p: "egressPortAllowed (en_egress e) network port"
    and addr: "address = join_host_port (addr_string a) (show_nat (nat port))"
    using r by (auto simp: resolveAllowedEgress_def split: if_splits option.splits)
  have u: "unmap a = a" and ok: "egressIPAllowed (en_egress e) a"
    using as find_Some_mem [OF a] by (auto simp: egress_candidates_def split: option.splits sum.splits if_splits)
  have port: "1 \<le> port" "port \<le> 65535"
    using n by (auto simp: normalizeEgressTarget_def split: if_splits option.splits prod.splits)
  have "IsSpecial a \<longrightarrow> containsEgressPrefix (eg_AllowSpecialCIDRs (en_egress e)) a"
    "eg_AllowCIDRs (en_egress e) \<noteq> [] \<longrightarrow> containsEgressPrefix (eg_AllowCIDRs (en_egress e)) a"
    using ok u by (auto simp: egressIPAllowed_def Let_def split: if_splits)
  moreover have "\<exists>r\<in>set (if network = ''udp'' then eg_UDPPorts (en_egress e) else eg_TCPPorts (en_egress e)). port_range_admits port r"
    using p by (auto simp: egressPortAllowed_def list_ex_iff)
  moreover have "0 < eg_MaxConnections (en_egress e) \<longrightarrow> en_egressOpen e' \<le> eg_MaxConnections (en_egress e)"
    using reserve_egress_Inr [OF c] by auto
  ultimately show ?thesis using u addr port by blast
qed

definition web_only :: EgressPolicy where
  "web_only = \<lparr>eg_Enabled = True, eg_TCPPorts = [''80''], eg_UDPPorts = [], eg_AllowCIDRs = [],
     eg_AllowSpecialCIDRs = [], eg_MaxConnections = 2\<rparr>"

lemma web_only_port: "egressPortAllowed web_only ''tcp'' 80"
proof -
  have "trim_space ''80'' = ''80''" by (simp add: trim_space_graphic char_class_defs)
  then show ?thesis
    by (simp add: egressPortAllowed_def web_only_def port_range_admits_def sample_hosts)
qed

lemma egress_target_eval:
  "normalizeEgressTarget ''tcp'' ''[::1%1]:80'' = Inr (''[::1%1]:80'', ''::1%1'', 80)"
  "normalizeEgressTarget ''tcp'' ''8.8.8.8:80'' = Inr (''8.8.8.8:80'', ''8.8.8.8'', 80)"
proof -
  have t: "trim_space ''[::1%1]:80'' = ''[::1%1]:80''" "trim_space ''::1%1'' = ''::1%1''"
    "trim_space ''8.8.8.8:80'' = ''8.8.8.8:80''" "trim_space ''8.8.8.8'' = ''8.8.8.8''"
    by (simp_all add: trim_space_graphic char_class_defs)
  have s: "split_host_port ''[::1%1]:80'' = Some (''::1%1'', ''80'')" "split_host_port ''8.8.8.8:80'' = Some (''8.8.8.8'', ''80'')"
    by (simp_all add: split_host_port_def last_index_byte_def index_byte_def)
  have n: "show_nat 80 = ''80''" by code_simp
  show "normalizeEgressTarget ''tcp'' ''[::1%1]:80'' = Inr (''[::1%1]:80'', ''::1%1'', 80)"
    "normalizeEgressTarget ''tcp'' ''8.8.8.8:80'' = Inr (''8.8.8.8:80'', ''8.8.8.8'', 80)"
    by (simp_all add: normalizeEgressTarget_def t s n contains_any_def sample_hosts join_host_port_def)
qed

lemma egress_literals:
  "parse_addr (trim_chars ''::1%1'' ''[]'') = Some (Addr6 1 ''1'')"
  "parse_addr (trim_chars ''8.8.8.8'' ''[]'') = Some (Addr4 0x08080808)"
  by (simp_all add: parse_eval trim_chars_def)

lemma digits_eval: "show_nat 8 = ''8''" "show_nat 80 = ''80''" "show_hex (Suc 0) = ''1''" "zero_run [0, 0, 0, 0, 0, 0, 0, Suc 0] = (0, 7)"
  by code_simp+

lemma egress_texts: "show6 1 = ''::1''" "show4 0x08080808 = ''8.8.8.8''"
proof -
  have "groups6 1 = [0, 0, 0, 0, 0, 0, 0, 1]" by (simp add: groups6_def)
  then show "show6 1 = ''::1''" by (simp add: show6_def digits_eval Let_def)
  show "show4 0x08080808 = ''8.8.8.8''" by (simp add: show4_def digits_eval)
qed

lemma special_loopback: "IsSpecial (Addr6 1 [])" "\<not> IsSpecial (Addr6 1 ''1'')" "\<not> IsSpecial (Addr4 0x08080808)"
  by (simp_all add: IsSpecial_def special_table)

definition web_engine :: Engine where
  "web_engine = sample_engine\<lparr>en_egress := web_only\<rparr>"

lemma web_engine_fields:
  "\<not> en_closed web_engine" "\<not> en_draining web_engine" "en_egress web_engine = web_only"
  "reserve_egress web_only web_engine = (web_engine\<lparr>en_egressOpen := 1\<rparr>, Inr True)"
  "eg_Enabled web_only" "eg_AllowSpecialCIDRs web_only = []" "eg_MaxConnections web_only = 2"
  by (simp_all add: web_engine_def reserve_egress_def take_egress_def) (simp_all add: sample_engine_def web_only_def)

theorem egress_policy_enforced_witness:
  "\<exists>e'. AcquireEgress (\<lambda>h. Inl (ErrNew h)) ''tcp'' ''8.8.8.8:80'' web_engine = (e', Inr (''8.8.8.8:80'', True))
     \<and> en_egressOpen e' \<le> 2"
proof -
  have "egressIPAllowed web_only (Addr4 0x08080808)"
    by (simp add: egressIPAllowed_def special_loopback web_only_def)
  then have "resolveAllowedEgress (\<lambda>h. Inl (ErrNew h)) web_only ''tcp'' ''8.8.8.8'' 80 = Inr ''8.8.8.8:80''"
    using web_only_port by (simp add: resolveAllowedEgress_def egress_candidates_def egress_literals egress_texts join_host_port_def digits_eval)
  then obtain e' where "AcquireEgress (\<lambda>h. Inl (ErrNew h)) ''tcp'' ''8.8.8.8:80'' web_engine = (e', Inr (''8.8.8.8:80'', True))"
    by (simp add: AcquireEgress_def egress_target_eval web_engine_fields)
  moreover have "eg_Enabled (en_egress web_engine)" "eg_MaxConnections (en_egress web_engine) = 2"
    by (simp_all add: web_engine_fields)
  ultimately show ?thesis using egress_policy_enforced [of "\<lambda>h. Inl (ErrNew h)" "''tcp''" "''8.8.8.8:80''" web_engine] by fastforce
qed

text \<open>
  A zone defeats the special-use filter: with a policy that has no exception, the loopback
  address \<^verbatim>\<open>::1\<close> is refused, but the same address written with a zone is approved and handed back
  for dialling, because no prefix contains an address that has a zone.
\<close>

theorem zoned_loopback_approved:
  "\<exists>e'. eg_Enabled (en_egress web_engine) \<and> eg_AllowSpecialCIDRs (en_egress web_engine) = []
    \<and> IsSpecial (Addr6 1 []) \<and> \<not> egressIPAllowed (en_egress web_engine) (Addr6 1 [])
    \<and> AcquireEgress (\<lambda>h. Inl (ErrNew h)) ''tcp'' ''[::1%1]:80'' web_engine = (e', Inr (''[::1%1]:80'', True))"
proof -
  have "egressIPAllowed web_only (Addr6 1 ''1'')"
    by (simp add: egressIPAllowed_def special_loopback web_only_def)
  then have "resolveAllowedEgress (\<lambda>h. Inl (ErrNew h)) web_only ''tcp'' ''::1%1'' 80 = Inr ''[::1%1]:80''"
    using web_only_port by (simp add: resolveAllowedEgress_def egress_candidates_def egress_literals egress_texts join_host_port_def digits_eval)
  then show ?thesis
    by (simp add: AcquireEgress_def egress_target_eval web_engine_fields special_loopback egressIPAllowed_def containsEgressPrefix_def)
qed


section \<open>Route selection\<close>

lemma to_lower_plain: "plain_host h \<Longrightarrow> plain_host (to_lower h)"
  by (auto simp: plain_host_def to_lower_def image_iff eq_commute [of "CHR ''[''"] eq_commute [of "CHR '']''"] lower_char_keeps)

text \<open>
  The route does not depend on the case of the destination's letters nor on the final dot of
  a fully qualified name: both forms of a host select the same rule.
\<close>

theorem route_ignores_case_and_dot:
  assumes "plain_host h" and "plain_port p" and "list_all is_graphic h" and "h \<noteq> []" and "last h \<noteq> CHR ''.''"
  shows "SelectRouteWithResolver spec (join_host_port (to_lower h @ ''.'') p) db =
    SelectRouteWithResolver spec (join_host_port h p) db"
proof -
  let ?l = "to_lower h"
  have g: "list_all is_graphic ?l" using assms(3) by (simp add: to_lower_def list_all_iff lower_char_keeps)
  have l: "?l \<noteq> []" "last ?l \<noteq> CHR ''.''" using assms(4,5) by (simp_all add: to_lower_def last_map lower_char_keeps)
  have dot: "lower_char CHR ''.'' = CHR ''.''" by (simp add: lower_char_keeps)
  have "plain_host (?l @ ''.'')" using to_lower_plain [OF assms(1)] by (simp add: plain_host_def)
  then have s: "split_host_port (join_host_port (?l @ ''.'') p) = Some (?l @ ''.'', p)"
    "split_host_port (join_host_port h p) = Some (h, p)"
    using assms(1,2) split_join_host_port by blast+
  have t: "trim_space (?l @ ''.'') = ?l @ ''.''" "trim_space h = h"
    using g assms(3,4) l by (auto intro!: trim_space_graphic simp: list_all_iff is_graphic_def)
  have "trim_suffix (to_lower (?l @ ''.'')) ''.'' = ?l"
    using to_lower_idem [of h] by (simp add: trim_suffix_def has_suffix_def dot to_lower_def)
  moreover have "trim_suffix ?l ''.'' = ?l"
    using l by (cases ?l rule: rev_cases) (auto simp: trim_suffix_def has_suffix_def)
  ultimately show ?thesis by (simp add: SelectRouteWithResolver_def s t)
qed

theorem route_ignores_case_and_dot_witness:
  "\<forall>spec db. SelectRouteWithResolver spec (join_host_port ''example.org.'' ''443'') db =
   SelectRouteWithResolver spec (join_host_port ''Example.ORG'' ''443'') db"
proof (intro allI)
  fix spec db
  have "to_lower ''Example.ORG'' = ''example.org''" by code_simp
  with route_ignores_case_and_dot [of "''Example.ORG''" "''443''" spec db]
  show "SelectRouteWithResolver spec (join_host_port ''example.org.'' ''443'') db =
      SelectRouteWithResolver spec (join_host_port ''Example.ORG'' ''443'') db"
    by (simp add: plain_host_def plain_port_def char_class_defs)
qed

end
