(* ===== verification/Controller_Limits.thy ===== *)
theory Controller_Limits
  imports Dataplane_Egress
begin

text \<open>
  \<^verbatim>\<open>internal/controller/ratelimit.go\<close> and \<^verbatim>\<open>admission.go\<close>: the limiter of failed logins and the limiter of
  new connections. A map is an association list; the order in which \<^verbatim>\<open>range\<close> visits its keys is
  unspecified in Go and here an argument \<open>rng\<close> of the operations. The clock is an argument too.
\<close>

section \<open>Bounded tables\<close>

text \<open>
  Both limiters keep one bucket per key in a table of bounded size; every operation respects the
  bound because it makes room before it inserts.
\<close>

locale bounded_table =
  fixes table :: "'s \<Rightarrow> ('k \<times> 'b) list" and cap :: "'s \<Rightarrow> int" and run :: "'a \<Rightarrow> 's \<Rightarrow> 's" and ok :: "'a \<Rightarrow> bool"
  assumes run_cap: "cap (run x s) = cap s"
    and run_bounded: "ok x \<Longrightarrow> distinct (map fst (table s)) \<Longrightarrow> 0 < cap s \<Longrightarrow> int (length (table s)) \<le> cap s \<Longrightarrow>
      int (length (table (run x s))) \<le> cap s \<and> distinct (map fst (table (run x s)))"
begin

lemma runs_bounded:
  "\<forall>x\<in>set xs. ok x \<Longrightarrow> distinct (map fst (table s)) \<Longrightarrow> 0 < cap s \<Longrightarrow> int (length (table s)) \<le> cap s \<Longrightarrow>
   int (length (table (fold run xs s))) \<le> cap s \<and> distinct (map fst (table (fold run xs s)))"
proof (induction xs arbitrary: s)
  case (Cons x xs)
  with run_cap [of x s] run_bounded [of x s] Cons.IH [of "run x s"] show ?case by simp
qed simp

end

type_synonym ranger = "string list \<Rightarrow> string list"

text \<open>\<^verbatim>\<open>range\<close> visits every key once, in some order.\<close>

definition visits_all :: "ranger \<Rightarrow> bool" where
  "visits_all rng \<longleftrightarrow> (\<forall>ks. set (rng ks) = set ks)"

lemma length_delete_first:
  assumes "visits_all rng" "distinct (map fst xs)" "xs \<noteq> []"
  shows "Suc (length (AList.delete (hd (rng (map fst xs))) xs)) = length xs"
proof -
  have "rng (map fst xs) \<noteq> []" using assms(1,3) unfolding visits_all_def by (metis list.map_disc_iff set_empty)
  then have "hd (rng (map fst xs)) \<in> set (rng (map fst xs))" by simp
  then have "hd (rng (map fst xs)) \<in> fst ` set xs" using assms(1) by (simp add: visits_all_def)
  then show ?thesis by (rule length_delete_present [OF assms(2)])
qed

section \<open>Failed logins\<close>

record loginBucket =
  lb_failures :: int
  lb_windowStart :: time
  lb_blockedTill :: time
  lb_lastSeen :: time

record loginLimiter =
  ll_entries :: "(string \<times> loginBucket) list"
  ll_maxEntries :: int
  ll_failureCap :: int
  ll_window :: duration
  ll_block :: duration
  ll_idleExpiry :: duration

definition newLoginLimiter :: loginLimiter where
  "newLoginLimiter = \<lparr>ll_entries = [], ll_maxEntries = 10000, ll_failureCap = 5, ll_window = minute, ll_block = minute,
     ll_idleExpiry = 10 * minute\<rparr>"

abbreviation loginPurgeBatch :: nat where "loginPurgeBatch \<equiv> 64"

definition expired_bucket :: "time \<Rightarrow> loginLimiter \<Rightarrow> loginBucket \<Rightarrow> bool" where
  "expired_bucket now l b \<longleftrightarrow>
     (lb_lastSeen b \<noteq> 0 \<and> time_sub now (lb_lastSeen b) \<ge> ll_idleExpiry l)
     \<or> (\<not> lb_blockedTill b > now \<and> lb_windowStart b \<noteq> 0 \<and> time_sub now (lb_windowStart b) \<ge> ll_window l)"

definition delete_key :: "string \<Rightarrow> loginLimiter \<Rightarrow> loginLimiter" where
  "delete_key k l = l\<lparr>ll_entries := AList.delete k (ll_entries l)\<rparr>"

definition purge_key :: "time \<Rightarrow> string \<Rightarrow> loginLimiter \<Rightarrow> loginLimiter" where
  "purge_key now k l =
     (case map_of (ll_entries l) k of
        None \<Rightarrow> l
      | Some b \<Rightarrow> if expired_bucket now l b then delete_key k l else l)"

definition purgeSomeLocked :: "ranger \<Rightarrow> time \<Rightarrow> loginLimiter \<Rightarrow> loginLimiter" where
  "purgeSomeLocked rng now l = fold (purge_key now) (take loginPurgeBatch (rng (map fst (ll_entries l)))) l"

fun uniqueKeys :: "string list \<Rightarrow> string list \<Rightarrow> string list" where
  "uniqueKeys seen [] = []"
| "uniqueKeys seen (k # ks) = (if k = [] \<or> k \<in> set seen then uniqueKeys seen ks else k # uniqueKeys (k # seen) ks)"

fun allow_keys :: "time \<Rightarrow> string list \<Rightarrow> loginLimiter \<Rightarrow> duration \<Rightarrow> loginLimiter \<times> duration" where
  "allow_keys now [] l retry = (l, retry)"
| "allow_keys now (k # ks) l retry =
     (case map_of (ll_entries l) k of
        None \<Rightarrow> allow_keys now ks l retry
      | Some b \<Rightarrow>
          if \<not> lb_blockedTill b > now then
            allow_keys now ks (if lb_windowStart b \<noteq> 0 \<and> time_sub now (lb_windowStart b) \<ge> ll_window l then delete_key k l else l) retry
          else allow_keys now ks l (max retry (time_sub (lb_blockedTill b) now)))"

definition allow :: "ranger \<Rightarrow> time \<Rightarrow> string list \<Rightarrow> loginLimiter \<Rightarrow> loginLimiter \<times> bool \<times> duration" where
  "allow rng now keys l =
     (case allow_keys now (uniqueKeys [] keys) (purgeSomeLocked rng now l) 0 of (l', retry) \<Rightarrow> (l', retry = 0, retry))"

definition evictForInsertLocked :: "ranger \<Rightarrow> loginLimiter \<Rightarrow> loginLimiter" where
  "evictForInsertLocked rng l =
     (if ll_maxEntries l \<le> 0 \<or> int (length (ll_entries l)) < ll_maxEntries l then l
      else case rng (map fst (ll_entries l)) of [] \<Rightarrow> l | k # ks \<Rightarrow> delete_key k l)"

definition zero_bucket :: loginBucket where
  "zero_bucket = \<lparr>lb_failures = 0, lb_windowStart = 0, lb_blockedTill = 0, lb_lastSeen = 0\<rparr>"

definition bump_bucket :: "time \<Rightarrow> loginLimiter \<Rightarrow> loginBucket \<Rightarrow> loginBucket" where
  "bump_bucket now l b0 =
     (let b = (if lb_windowStart b0 = 0 \<or> time_sub now (lb_windowStart b0) \<ge> ll_window l
               then zero_bucket\<lparr>lb_windowStart := now\<rparr> else b0);
          n = lb_failures b + 1
      in b\<lparr>lb_failures := n, lb_lastSeen := now,
           lb_blockedTill := (if n \<ge> ll_failureCap l then now + ll_block l else lb_blockedTill b)\<rparr>)"

definition fail_key :: "ranger \<Rightarrow> time \<Rightarrow> string \<Rightarrow> loginLimiter \<Rightarrow> loginLimiter" where
  "fail_key rng now k l =
     (case map_of (ll_entries l) k of
        None \<Rightarrow> let l' = evictForInsertLocked rng l in
          l'\<lparr>ll_entries := AList.update k (bump_bucket now l zero_bucket) (ll_entries l')\<rparr>
      | Some b \<Rightarrow> l\<lparr>ll_entries := AList.update k (bump_bucket now l b) (ll_entries l)\<rparr>)"

definition failure :: "ranger \<Rightarrow> time \<Rightarrow> string list \<Rightarrow> loginLimiter \<Rightarrow> loginLimiter" where
  "failure rng now keys l = fold (fail_key rng now) (uniqueKeys [] keys) (purgeSomeLocked rng now l)"

definition success :: "string list \<Rightarrow> loginLimiter \<Rightarrow> loginLimiter" where
  "success keys l = fold delete_key (uniqueKeys [] keys) l"

definition directPeerAddress :: "string \<Rightarrow> string" where
  "directPeerAddress remote0 =
     (let remote = trim_space remote0 in
      if remote = [] then []
      else case split_host_port remote of
          Some (host, port) \<Rightarrow> host
        | None \<Rightarrow>
            (case parse_ip remote of
               Some a \<Rightarrow> addr_string a
             | None \<Rightarrow> if length remote > 256 \<or> contains_any remote [CHR 0x0D, CHR 0x0A] then [] else remote))"

definition loginKeys :: "string option \<Rightarrow> string \<Rightarrow> string list" where
  "loginKeys remoteAddr username =
     (let address = (case remoteAddr of None \<Rightarrow> [] | Some a \<Rightarrow> directPeerAddress a);
          normalized = to_lower (trim_space username)
      in (if address = [] then [] else [''ip:'' @ address]) @ (if normalized = [] then [] else [''user:'' @ normalized]))"

section \<open>Size of the login table\<close>

datatype login_op = Allow ranger time "string list" | Failure ranger time "string list" | Success "string list"

fun login_run :: "login_op \<Rightarrow> loginLimiter \<Rightarrow> loginLimiter" where
  "login_run (Allow rng now ks) l = fst (allow rng now ks l)"
| "login_run (Failure rng now ks) l = failure rng now ks l"
| "login_run (Success ks) l = success ks l"

fun login_ok :: "login_op \<Rightarrow> bool" where
  "login_ok (Allow rng now ks) \<longleftrightarrow> visits_all rng"
| "login_ok (Failure rng now ks) \<longleftrightarrow> visits_all rng"
| "login_ok (Success ks) \<longleftrightarrow> True"

text \<open>What an operation that only deletes entries leaves.\<close>

definition login_shrinks :: "loginLimiter \<Rightarrow> loginLimiter \<Rightarrow> bool" where
  "login_shrinks l l' \<longleftrightarrow> l' = l\<lparr>ll_entries := ll_entries l'\<rparr> \<and> length (ll_entries l') \<le> length (ll_entries l)
     \<and> (distinct (map fst (ll_entries l)) \<longrightarrow> distinct (map fst (ll_entries l')))"

lemma login_shrinks_refl [simp]: "login_shrinks l l"
  by (simp add: login_shrinks_def)

lemma login_shrinks_trans: "login_shrinks l l1 \<Longrightarrow> login_shrinks l1 l2 \<Longrightarrow> login_shrinks l l2"
  unfolding login_shrinks_def by (cases l; cases l1; cases l2) auto

lemma login_shrinks_max: "login_shrinks l l' \<Longrightarrow> ll_maxEntries l' = ll_maxEntries l"
  unfolding login_shrinks_def by (cases l; cases l') auto

lemma delete_key_shrinks [simp]: "login_shrinks l (delete_key k l)"
  using length_delete_le [of k "ll_entries l"]
  by (auto simp: login_shrinks_def delete_key_def distinct_delete)

lemma fold_shrinks: "(\<And>x l. login_shrinks l (f x l)) \<Longrightarrow> login_shrinks l (fold f xs l)"
  by (induction xs arbitrary: l) (auto intro: login_shrinks_trans)

lemma purge_shrinks [simp]: "login_shrinks l (purgeSomeLocked rng now l)"
  unfolding purgeSomeLocked_def by (rule fold_shrinks) (auto simp: purge_key_def split: option.split)

lemma allow_keys_shrinks: "allow_keys now ks l retry = (l', retry') \<Longrightarrow> login_shrinks l l'"
  by (induction ks arbitrary: l retry) (auto split: option.splits if_splits intro: login_shrinks_trans [OF delete_key_shrinks])

lemma allow_shrinks: "login_shrinks l (fst (allow rng now ks l))"
  by (auto simp: allow_def split: prod.split intro: login_shrinks_trans [OF purge_shrinks allow_keys_shrinks])

lemma success_shrinks: "login_shrinks l (success ks l)"
  unfolding success_def by (rule fold_shrinks) simp

lemma evict_bucket_shrinks [simp]: "login_shrinks l (evictForInsertLocked rng l)"
  by (simp add: evictForInsertLocked_def split: list.split)

lemma evict_room:
  assumes "visits_all rng" "distinct (map fst (ll_entries l))" "0 < ll_maxEntries l" "int (length (ll_entries l)) \<le> ll_maxEntries l"
  shows "int (length (ll_entries (evictForInsertLocked rng l))) < ll_maxEntries l"
proof (cases "int (length (ll_entries l)) < ll_maxEntries l")
  case False
  then have ne: "ll_entries l \<noteq> []" using assms(3,4) by auto
  have "rng (map fst (ll_entries l)) \<noteq> []"
    using assms(1) ne unfolding visits_all_def by (metis list.map_disc_iff set_empty)
  then show ?thesis using length_delete_first [OF assms(1,2) ne] assms(3,4) False
    by (cases "rng (map fst (ll_entries l))") (auto simp: evictForInsertLocked_def delete_key_def)
qed (simp add: evictForInsertLocked_def)

definition login_bounded :: "loginLimiter \<Rightarrow> bool" where
  "login_bounded l \<longleftrightarrow> distinct (map fst (ll_entries l)) \<and> 0 < ll_maxEntries l \<and> int (length (ll_entries l)) \<le> ll_maxEntries l"

lemma shrinks_bounded: "login_shrinks l l' \<Longrightarrow> login_bounded l \<Longrightarrow> login_bounded l'"
  using login_shrinks_max [of l l'] by (auto simp: login_shrinks_def login_bounded_def)

lemma fail_key_max [simp]: "ll_maxEntries (fail_key rng now k l) = ll_maxEntries l"
  using login_shrinks_max [OF evict_bucket_shrinks] by (simp add: fail_key_def Let_def split: option.split)

lemma fail_key_bounded:
  assumes "visits_all rng" "login_bounded l"
  shows "login_bounded (fail_key rng now k l)"
proof (cases "map_of (ll_entries l) k")
  case None
  have b: "login_bounded (evictForInsertLocked rng l)" by (rule shrinks_bounded [OF evict_bucket_shrinks assms(2)])
  have "int (length (ll_entries (evictForInsertLocked rng l))) < ll_maxEntries l"
    using evict_room assms by (simp add: login_bounded_def)
  with b None login_shrinks_max [OF evict_bucket_shrinks [of l rng]] show ?thesis
    by (simp add: fail_key_def Let_def login_bounded_def distinct_update length_update)
next
  case (Some b)
  then have "k \<in> fst ` set (ll_entries l)" by (metis map_of_eq_None_iff option.discI)
  with Some assms(2) show ?thesis by (simp add: fail_key_def login_bounded_def distinct_update length_update)
qed

lemma failure_bounded: "visits_all rng \<Longrightarrow> login_bounded l \<Longrightarrow> login_bounded (failure rng now ks l)"
proof -
  assume r: "visits_all rng" and l: "login_bounded l"
  have "login_bounded m \<Longrightarrow> login_bounded (fold (fail_key rng now) xs m)" for xs m
    using r by (induction xs arbitrary: m) (auto intro: fail_key_bounded)
  then show ?thesis using shrinks_bounded [OF purge_shrinks l] by (simp add: failure_def)
qed

lemma failure_max: "ll_maxEntries (failure rng now ks l) = ll_maxEntries l"
proof -
  have "ll_maxEntries (fold (fail_key rng now) xs m) = ll_maxEntries m" for xs m by (induction xs arbitrary: m) simp_all
  then show ?thesis using login_shrinks_max [OF purge_shrinks] by (simp add: failure_def)
qed

lemma login_run_bounded: "login_ok op \<Longrightarrow> login_bounded l \<Longrightarrow> login_bounded (login_run op l)"
  by (cases op) (auto intro: failure_bounded shrinks_bounded [OF allow_shrinks] shrinks_bounded [OF success_shrinks])

lemma login_run_max: "ll_maxEntries (login_run op l) = ll_maxEntries l"
  by (cases op) (simp_all add: failure_max login_shrinks_max [OF allow_shrinks] login_shrinks_max [OF success_shrinks])

interpretation logins: bounded_table ll_entries ll_maxEntries login_run login_ok
  using login_run_max login_run_bounded by unfold_locales (auto simp: login_bounded_def)


text \<open>
  Whatever keys are tried, the login table never holds more than its ten thousand buckets, and at
  most one bucket per key.
\<close>

theorem login_table_bounded:
  assumes "\<forall>op\<in>set ops. login_ok op"
  shows "length (ll_entries (fold login_run ops newLoginLimiter)) \<le> 10000
    \<and> distinct (map fst (ll_entries (fold login_run ops newLoginLimiter)))"
  using logins.runs_bounded [OF assms, of newLoginLimiter] by (simp add: newLoginLimiter_def)

section \<open>A locked key stays locked\<close>

definition default_limits :: "loginLimiter \<Rightarrow> bool" where
  "default_limits l \<longleftrightarrow> l = newLoginLimiter\<lparr>ll_entries := ll_entries l\<rparr>"

lemma default_limitsD:
  "default_limits l \<Longrightarrow> ll_maxEntries l = 10000 \<and> ll_failureCap l = 5 \<and> ll_window l = minute \<and> ll_block l = minute \<and> ll_idleExpiry l = 10 * minute"
  by (cases l) (auto simp: default_limits_def newLoginLimiter_def)

lemma default_limits_entries [simp]: "default_limits (l\<lparr>ll_entries := es\<rparr>) = default_limits l"
  by (cases l) (auto simp: default_limits_def newLoginLimiter_def)

lemma shrinks_default: "login_shrinks l l' \<Longrightarrow> default_limits l' = default_limits l"
  unfolding login_shrinks_def by (metis default_limits_entries)

lemma minute_le: "minute \<le> max_duration" "10 * minute \<le> max_duration" "min_duration < minute" "min_duration < 10 * minute" "0 < minute"
  by (simp_all add: minute_def second_def max_duration_def min_duration_def)

definition locked :: "string \<Rightarrow> time \<Rightarrow> loginLimiter \<Rightarrow> bool" where
  "locked k till l \<longleftrightarrow> default_limits l \<and> distinct (map fst (ll_entries l))
     \<and> (\<exists>b. map_of (ll_entries l) k = Some b \<and> lb_blockedTill b = till \<and> till = lb_lastSeen b + minute)"

lemma locked_delete: "locked k till l \<Longrightarrow> k' \<noteq> k \<Longrightarrow> locked k till (delete_key k' l)"
  by (auto simp: locked_def delete_key_def map_of_delete distinct_delete)

lemma locked_not_expired: "locked k till l \<Longrightarrow> map_of (ll_entries l) k = Some b \<Longrightarrow> now < till \<Longrightarrow> \<not> expired_bucket now l b"
  using minute_le by (auto simp: locked_def expired_bucket_def time_sub_ge dest: default_limitsD)

lemma locked_purge:
  assumes "locked k till l" "now < till"
  shows "locked k till (purgeSomeLocked rng now l)"
proof -
  have "locked k till m \<Longrightarrow> locked k till (fold (purge_key now) xs m)" for xs m
  proof (induction xs arbitrary: m)
    case (Cons x xs)
    have "locked k till (purge_key now x m)"
      using Cons.prems locked_delete locked_not_expired [OF Cons.prems _ assms(2)]
      by (cases "x = k") (auto simp: purge_key_def split: option.split)
    then show ?case using Cons.IH by simp
  qed simp
  then show ?thesis using assms(1) by (simp add: purgeSomeLocked_def)
qed

lemma locked_allow_keys:
  assumes "locked k till l" "now < till" "allow_keys now ks l retry = (l', retry')"
  shows "locked k till l' \<and> retry \<le> retry' \<and> (k \<in> set ks \<longrightarrow> time_sub till now \<le> retry')"
  using assms(1,3)
proof (induction ks arbitrary: l retry)
  case (Cons x xs)
  show ?case
  proof (cases "map_of (ll_entries l) x")
    case None
    then have "x \<noteq> k" using Cons.prems(1) by (auto simp: locked_def)
    with None Cons.IH [OF Cons.prems(1)] Cons.prems(2) show ?thesis by simp
  next
    case (Some b)
    show ?thesis
    proof (cases "lb_blockedTill b > now")
      case True
      have "x = k \<Longrightarrow> lb_blockedTill b = till" using Cons.prems(1) Some by (auto simp: locked_def)
      with Cons Some True show ?thesis by fastforce
    next
      case False
      then have "x \<noteq> k" using Cons.prems(1) Some assms(2) by (auto simp: locked_def)
      with Cons Some False locked_delete [OF Cons.prems(1)] show ?thesis by (auto split: if_splits)
    qed
  qed
qed simp

lemma uniqueKeys_set: "set (uniqueKeys seen ks) = set ks - {[]} - set seen"
  by (induction ks arbitrary: seen) auto

lemma locked_allow:
  assumes "locked k till l" "now < till"
  shows "locked k till (fst (allow rng now ks l))"
    "k \<noteq> [] \<Longrightarrow> k \<in> set ks \<Longrightarrow> \<exists>l' retry. allow rng now ks l = (l', False, retry) \<and> time_sub till now \<le> retry"
proof -
  obtain l' retry where r: "allow_keys now (uniqueKeys [] ks) (purgeSomeLocked rng now l) 0 = (l', retry)" by fastforce
  note a = locked_allow_keys [OF locked_purge [OF assms] assms(2) r]
  then show "locked k till (fst (allow rng now ks l))" using r by (simp add: allow_def)
  assume "k \<noteq> []" "k \<in> set ks"
  then have t: "time_sub till now \<le> retry" using a uniqueKeys_set by fastforce
  moreover have "0 < time_sub till now" using assms(2) by (simp add: time_sub_def max_duration_def min_duration_def)
  ultimately show "\<exists>l' retry. allow rng now ks l = (l', False, retry) \<and> time_sub till now \<le> retry"
    using r by (simp add: allow_def)
qed

lemma evict_idle: "default_limits l \<Longrightarrow> length (ll_entries l) < 10000 \<Longrightarrow> evictForInsertLocked rng l = l"
  using default_limitsD [of l] by (simp add: evictForInsertLocked_def)

lemma fail_key_room:
  assumes "default_limits l" "length (ll_entries l) < 10000"
  shows "fail_key rng now x l = l\<lparr>ll_entries := AList.update x (bump_bucket now l (case map_of (ll_entries l) x of None \<Rightarrow> zero_bucket | Some b \<Rightarrow> b)) (ll_entries l)\<rparr>"
  using evict_idle [OF assms] by (simp add: fail_key_def split: option.split)

lemma locked_fail_keys:
  assumes "locked k till l" "k \<notin> set xs" "length (ll_entries l) + length xs \<le> 10000"
  shows "locked k till (fold (fail_key rng now) xs l) \<and> length (ll_entries (fold (fail_key rng now) xs l)) \<le> length (ll_entries l) + length xs"
  using assms
proof (induction xs arbitrary: l)
  case (Cons x xs)
  have f: "fail_key rng now x l = l\<lparr>ll_entries := AList.update x (bump_bucket now l (case map_of (ll_entries l) x of None \<Rightarrow> zero_bucket | Some b \<Rightarrow> b)) (ll_entries l)\<rparr>"
    using fail_key_room Cons.prems by (simp add: locked_def)
  have "locked k till (fail_key rng now x l)"
    unfolding f using Cons.prems(1,2) by (auto simp: locked_def update_conv' distinct_update)
  moreover have "length (ll_entries (fail_key rng now x l)) \<le> Suc (length (ll_entries l))"
    unfolding f by (simp add: length_update)
  ultimately show ?case using Cons.IH [of "fail_key rng now x l"] Cons.prems(2,3) by auto
qed simp

text \<open>Operations that come before the end of a lock and do not touch its key.\<close>

fun harmless :: "string \<Rightarrow> time \<Rightarrow> login_op \<Rightarrow> bool" where
  "harmless k till (Allow rng now ks) \<longleftrightarrow> now < till"
| "harmless k till (Failure rng now ks) \<longleftrightarrow> now < till \<and> k \<notin> set ks"
| "harmless k till (Success ks) \<longleftrightarrow> k \<notin> set ks"

fun inserts :: "login_op \<Rightarrow> nat" where
  "inserts (Failure rng now ks) = length ks"
| "inserts _ = 0"

lemma uniqueKeys_length: "length (uniqueKeys seen ks) \<le> length ks"
  by (induction ks arbitrary: seen) (auto simp: le_SucI)

lemma locked_run:
  assumes "locked k till l" "harmless k till op" "length (ll_entries l) + inserts op \<le> 10000"
  shows "locked k till (login_run op l) \<and> length (ll_entries (login_run op l)) \<le> length (ll_entries l) + inserts op"
proof (cases op)
  case (Allow rng now ks)
  then show ?thesis using locked_allow(1) [OF assms(1)] assms(2) allow_shrinks [of l rng now ks] by (simp add: login_shrinks_def)
next
  case (Failure rng now ks)
  let ?p = "purgeSomeLocked rng now l"
  have p: "locked k till ?p" using locked_purge assms(1,2) Failure by simp
  have len: "length (ll_entries ?p) \<le> length (ll_entries l)" using purge_shrinks [of l rng now] by (simp add: login_shrinks_def)
  have "locked k till (failure rng now ks l) \<and> length (ll_entries (failure rng now ks l)) \<le> length (ll_entries ?p) + length (uniqueKeys [] ks)"
    unfolding failure_def using uniqueKeys_set [of "[]" ks] uniqueKeys_length [of "[]" ks] assms(2,3) Failure len
    by (intro locked_fail_keys [OF p]) auto
  then show ?thesis using Failure len uniqueKeys_length [of "[]" ks] by fastforce
next
  case (Success ks)
  have "k \<notin> set xs \<Longrightarrow> locked k till m \<Longrightarrow> locked k till (fold delete_key xs m)" for xs m
    by (induction xs arbitrary: m) (auto simp: locked_delete)
  then show ?thesis using assms Success success_shrinks [of l ks] uniqueKeys_set [of "[]" ks]
    by (auto simp: success_def login_shrinks_def)
qed

lemma locked_runs:
  assumes "locked k till l" "\<forall>op\<in>set ops. harmless k till op" "length (ll_entries l) + sum_list (map inserts ops) \<le> 10000"
  shows "locked k till (fold login_run ops l)"
  using assms
proof (induction ops arbitrary: l)
  case (Cons op ops)
  have "locked k till (login_run op l) \<and> length (ll_entries (login_run op l)) \<le> length (ll_entries l) + inserts op"
    using locked_run [OF Cons.prems(1), of op] Cons.prems(2,3) by simp
  with Cons.IH [of "login_run op l"] Cons.prems(2,3) show ?case by simp
qed simp

section \<open>Five failures lock\<close>

text \<open>A bucket that counts \<open>n\<close> failures of the window that began at \<open>t0\<close>, the last at \<open>t\<close>.\<close>

definition counting :: "string \<Rightarrow> time \<Rightarrow> int \<Rightarrow> time \<Rightarrow> loginLimiter \<Rightarrow> bool" where
  "counting k t0 n t l \<longleftrightarrow> default_limits l \<and> distinct (map fst (ll_entries l))
     \<and> (\<exists>b. map_of (ll_entries l) k = Some b \<and> lb_failures b = n \<and> lb_windowStart b = t0 \<and> lb_lastSeen b = t
          \<and> (n \<ge> 5 \<longrightarrow> lb_blockedTill b = t + minute))"

lemma counting_delete: "counting k t0 n t l \<Longrightarrow> k' \<noteq> k \<Longrightarrow> counting k t0 n t (delete_key k' l)"
  by (auto simp: counting_def delete_key_def map_of_delete distinct_delete)

lemma counting_purge:
  assumes "counting k t0 n t l" "now < t0 + minute" "t0 \<le> t"
  shows "counting k t0 n t (purgeSomeLocked rng now l)"
proof -
  have "counting k t0 n t m \<Longrightarrow> counting k t0 n t (fold (purge_key now) xs m)" for xs m
  proof (induction xs arbitrary: m)
    case (Cons x xs)
    have e: "\<not> expired_bucket now m b" if "map_of (ll_entries m) k = Some b" for b
      using that Cons.prems assms(2,3) minute_le by (auto simp: counting_def expired_bucket_def time_sub_ge dest: default_limitsD)
    have "counting k t0 n t (purge_key now x m)"
      using Cons.prems counting_delete [OF Cons.prems] e by (cases "x = k") (auto simp: purge_key_def split: option.split)
    then show ?case using Cons.IH by simp
  qed simp
  then show ?thesis using assms(1) by (simp add: purgeSomeLocked_def)
qed

lemma failure_single: "k \<noteq> [] \<Longrightarrow> failure rng now [k] l = fail_key rng now k (purgeSomeLocked rng now l)"
  by (simp add: failure_def)

lemma counting_first:
  assumes "default_limits l" "distinct (map fst (ll_entries l))" "map_of (ll_entries l) k = None" "length (ll_entries l) < 10000" "k \<noteq> []" "t \<noteq> 0"
  shows "counting k t 1 t (failure rng t [k] l)"
proof -
  let ?p = "purgeSomeLocked rng t l"
  have p: "default_limits ?p" "distinct (map fst (ll_entries ?p))" "length (ll_entries ?p) < 10000"
    using purge_shrinks [of l rng t] shrinks_default [OF purge_shrinks [of l rng t]] assms(1,2,4) by (auto simp: login_shrinks_def)
  have "map_of (ll_entries (purge_key t x m)) k = None" if "map_of (ll_entries m) k = None" for x m
    using that by (simp add: purge_key_def delete_key_def delete_conv' split: option.split)
  then have "map_of (ll_entries (fold (purge_key t) xs m)) k = None" if "map_of (ll_entries m) k = None" for xs m
    using that by (induction xs arbitrary: m) auto
  then have "map_of (ll_entries ?p) k = None" using assms(3) by (simp add: purgeSomeLocked_def)
  with p show ?thesis using assms(5) default_limitsD [OF p(1)]
    by (simp add: failure_single fail_key_room counting_def update_conv' distinct_update bump_bucket_def zero_bucket_def Let_def)
qed

lemma counting_next:
  assumes "counting k t0 n t l" "t0 \<le> t" "t \<le> now" "now < t0 + minute" "k \<noteq> []" "t0 \<noteq> 0"
  shows "counting k t0 (n + 1) now (failure rng now [k] l)"
proof -
  let ?p = "purgeSomeLocked rng now l"
  have p: "counting k t0 n t ?p" by (rule counting_purge [OF assms(1,4,2)])
  then obtain b where b: "map_of (ll_entries ?p) k = Some b" "lb_failures b = n" "lb_windowStart b = t0" "default_limits ?p"
    "distinct (map fst (ll_entries ?p))" by (auto simp: counting_def)
  have "\<not> time_sub now t0 \<ge> minute" using assms(4) minute_le by (simp add: time_sub_ge)
  with b show ?thesis using assms(5,6) default_limitsD [OF b(4)]
    by (simp add: failure_single fail_key_def counting_def update_conv' distinct_update bump_bucket_def Let_def)
qed

lemma counting_locked: "counting k t0 n t l \<Longrightarrow> 5 \<le> n \<Longrightarrow> locked k (t + minute) l"
  by (auto simp: counting_def locked_def)

lemma sorted_le_last: "sorted xs \<Longrightarrow> x \<in> set xs \<Longrightarrow> x \<le> (last xs :: int)"
  by (induction xs) auto

lemma counting_fold:
  assumes "counting k t0 n t l" "t0 \<le> t" "sorted (t # ts)" "\<forall>u\<in>set ts. u < t0 + minute" "k \<noteq> []" "t0 \<noteq> 0"
  shows "counting k t0 (n + int (length ts)) (last (t # ts)) (fold (\<lambda>u. failure rng u [k]) ts l)"
  using assms
proof (induction ts arbitrary: l n t)
  case (Cons u ts)
  have "counting k t0 (n + 1) u (failure rng u [k] l)"
    using counting_next [OF Cons.prems(1,2)] Cons.prems(3-6) by simp
  from Cons.IH [OF this] Cons.prems show ?case by (simp add: ac_simps)
qed simp


lemmas login_eval = failure_def purgeSomeLocked_def purge_key_def expired_bucket_def fail_key_def evictForInsertLocked_def
  bump_bucket_def zero_bucket_def newLoginLimiter_def allow_def delete_key_def minute_def second_def time_sub_def
  max_duration_def min_duration_def Let_def

lemma minute_gt_one: "1 < minute" by (simp add: minute_def second_def)


theorem login_table_bounded_witness:
  "length (ll_entries (fold login_run [Failure id 1 [''user:a''], Success [''user:b'']] newLoginLimiter)) \<le> 10000"
  using login_table_bounded [of "[Failure id 1 [''user:a''], Success [''user:b'']]"] by (simp add: visits_all_def)

text \<open>
  A lock can end early. A login that was let through before the lock and fails after the minute that
  began with the first failure starts a new bucket, and with it the lock is gone: the key is locked
  at 61 seconds, the straggler fails, and at 62 seconds the key is let through again, although the
  lock was to hold until 120 seconds.
\<close>

theorem straggler_ends_lock:
  "\<exists>l. l = fold (\<lambda>t. failure id (t * second) [''user:a'']) [1, 1, 1, 1, 60] newLoginLimiter
     \<and> snd (allow id (61 * second) [''user:a''] l) = (False, 59 * second)
     \<and> snd (allow id (62 * second) [''user:a''] (failure id (61 * second) [''user:a''] l)) = (True, 0)"
  by (simp add: login_eval)

section \<open>New connections\<close>

record admissionBucket =
  ab_windowStart :: time
  ab_count :: int
  ab_lastSeen :: time

record admissionLimiter =
  al_entries :: "(string \<times> admissionBucket) list"
  al_limit :: int
  al_window :: duration
  al_maxEntries :: int

definition newAdmissionLimiter :: "int \<Rightarrow> duration \<Rightarrow> int \<Rightarrow> admissionLimiter" where
  "newAdmissionLimiter limit window maxEntries = \<lparr>al_entries = [], al_limit = limit, al_window = window, al_maxEntries = maxEntries\<rparr>"

definition drop_stale :: "time \<Rightarrow> admissionLimiter \<Rightarrow> (string \<times> admissionBucket) list \<Rightarrow> (string \<times> admissionBucket) list" where
  "drop_stale now l = filter (\<lambda>(k, b). \<not> time_sub now (ab_lastSeen b) \<ge> al_window l)"

definition make_room :: "ranger \<Rightarrow> time \<Rightarrow> admissionLimiter \<Rightarrow> (string \<times> admissionBucket) list" where
  "make_room rng now l =
     (if int (length (al_entries l)) < al_maxEntries l then al_entries l
      else let es = drop_stale now l (al_entries l) in
        if int (length es) < al_maxEntries l then es
        else case rng (map fst es) of [] \<Rightarrow> es | k # ks \<Rightarrow> AList.delete k es)"

definition zero_admission :: admissionBucket where
  "zero_admission = \<lparr>ab_windowStart = 0, ab_count = 0, ab_lastSeen = 0\<rparr>"

definition bucket_key :: "string \<Rightarrow> string" where
  "bucket_key key = (if trim_space key = [] then ''unknown'' else key)"

definition admission_allow :: "ranger \<Rightarrow> time \<Rightarrow> string \<Rightarrow> admissionLimiter \<Rightarrow> admissionLimiter \<times> bool \<times> duration" where
  "admission_allow rng now key0 l =
     (if al_limit l \<le> 0 \<or> al_window l \<le> 0 then (l, True, 0)
      else let key = bucket_key key0;
               es = make_room rng now l;
               b0 = (case map_of es key of None \<Rightarrow> zero_admission | Some b \<Rightarrow> b);
               b1 = (if ab_windowStart b0 = 0 \<or> time_sub now (ab_windowStart b0) \<ge> al_window l
                     then zero_admission\<lparr>ab_windowStart := now\<rparr> else b0);
               b = b1\<lparr>ab_lastSeen := now\<rparr>
           in if ab_count b \<ge> al_limit l
              then (l\<lparr>al_entries := AList.update key b es\<rparr>, False, max second (al_window l - time_sub now (ab_windowStart b)))
              else (l\<lparr>al_entries := AList.update key (b\<lparr>ab_count := ab_count b + 1\<rparr>) es\<rparr>, True, 0))"

text \<open>\<open>peer\<close> is the address the gRPC context holds, if any.\<close>

definition peerAddressKey :: "string option \<Rightarrow> string" where
  "peerAddressKey peer =
     (case peer of
        None \<Rightarrow> ''unknown''
      | Some address \<Rightarrow> (case split_host_port address of Some (host, port) \<Rightarrow> host | None \<Rightarrow> address))"

definition admission_run :: "ranger \<times> time \<times> string \<Rightarrow> admissionLimiter \<Rightarrow> admissionLimiter" where
  "admission_run c l = (case c of (rng, now, key) \<Rightarrow> fst (admission_allow rng now key l))"

lemma distinct_delete_keys: "distinct (map fst xs) \<Longrightarrow> distinct (map fst (AList.delete k xs))"
  by (rule distinct_delete)

lemma make_room_ok:
  assumes "visits_all rng" "distinct (map fst (al_entries l))" "0 < al_maxEntries l" "int (length (al_entries l)) \<le> al_maxEntries l"
  shows "distinct (map fst (make_room rng now l)) \<and> int (length (make_room rng now l)) < al_maxEntries l"
proof -
  let ?es = "drop_stale now l (al_entries l)"
  have d: "distinct (map fst ?es)" using assms(2) by (simp add: drop_stale_def distinct_fst_filter)
  have le: "int (length ?es) \<le> al_maxEntries l"
    using assms(4) length_filter_le [of _ "al_entries l"] unfolding drop_stale_def by (metis (no_types, lifting) of_nat_mono order_trans)
  show ?thesis
  proof (cases "int (length (al_entries l)) < al_maxEntries l \<or> int (length ?es) < al_maxEntries l")
    case True
    then show ?thesis using assms(2) d by (auto simp: make_room_def Let_def)
  next
    case False
    then have ne: "?es \<noteq> []" using assms(3) by auto
    have "rng (map fst ?es) \<noteq> []" using assms(1) ne unfolding visits_all_def by (metis list.map_disc_iff set_empty)
    then show ?thesis using False length_delete_first [OF assms(1) d ne] le distinct_delete_keys [OF d]
      by (cases "rng (map fst ?es)") (auto simp: make_room_def Let_def)
  qed
qed

lemma admission_run_bounded:
  assumes "visits_all (fst c)" "distinct (map fst (al_entries l))" "0 < al_maxEntries l" "int (length (al_entries l)) \<le> al_maxEntries l"
  shows "int (length (al_entries (admission_run c l))) \<le> al_maxEntries l \<and> distinct (map fst (al_entries (admission_run c l)))"
proof -
  obtain rng now key where c: "c = (rng, now, key)" by (cases c)
  have "distinct (map fst (make_room rng now l)) \<and> int (length (make_room rng now l)) < al_maxEntries l"
    using make_room_ok assms c by simp
  then show ?thesis using assms(2-4) c
    by (auto simp: admission_run_def admission_allow_def Let_def length_update distinct_update)
qed

interpretation admissions: bounded_table al_entries al_maxEntries admission_run "\<lambda>c. visits_all (fst c)"
proof unfold_locales
  show "al_maxEntries (admission_run x s) = al_maxEntries s" for x s
    by (simp add: admission_run_def admission_allow_def Let_def split: prod.split)
qed (use admission_run_bounded in blast)

text \<open>The connections a table admits, call by call.\<close>

fun admission_calls :: "(ranger \<times> time \<times> string) list \<Rightarrow> admissionLimiter \<Rightarrow> bool list" where
  "admission_calls [] l = []"
| "admission_calls ((rng, now, key) # cs) l =
     (case admission_allow rng now key l of (l', admitted, retry) \<Rightarrow> admitted # admission_calls cs l')"

definition quota_used :: "string \<Rightarrow> time \<Rightarrow> int \<Rightarrow> admissionLimiter \<Rightarrow> bool" where
  "quota_used k t0 n l \<longleftrightarrow>
     (n = 0 \<and> map_of (al_entries l) k = None)
     \<or> (\<exists>b. map_of (al_entries l) k = Some b \<and> ab_count b = min (al_limit l) n \<and> t0 \<le> ab_windowStart b \<and> ab_windowStart b < t0 + al_window l)"

lemma admission_call:
  assumes "0 < al_limit l" "0 < al_window l" "al_window l \<le> max_duration" "int (length (al_entries l)) < al_maxEntries l"
    and "quota_used k t0 n l" "0 \<le> n" "0 < t0" "t0 \<le> now" "now < t0 + al_window l" "admission_allow rng now key l = (l', admitted, retry)"
  shows "quota_used k t0 (if bucket_key key = k then n + 1 else n) l'" "bucket_key key = k \<Longrightarrow> admitted = (n < al_limit l)"
    "length (al_entries l') \<le> Suc (length (al_entries l))"
    "al_limit l' = al_limit l" "al_window l' = al_window l" "al_maxEntries l' = al_maxEntries l"
proof -
  have room: "make_room rng now l = al_entries l" using assms(4) by (simp add: make_room_def)
  have w: "min_duration < al_window l" using assms(2) by (simp add: min_duration_def)
  have in_window: "\<not> al_window l \<le> time_sub now t" if "t0 \<le> t" for t
    using that assms(9) time_sub_ge [OF assms(3) w] by simp
  show "al_limit l' = al_limit l" "al_window l' = al_window l" "al_maxEntries l' = al_maxEntries l"
    "length (al_entries l') \<le> Suc (length (al_entries l))"
    using assms(10) room by (auto simp: admission_allow_def Let_def length_update split: if_splits)
  show "quota_used k t0 (if bucket_key key = k then n + 1 else n) l'" "bucket_key key = k \<Longrightarrow> admitted = (n < al_limit l)"
    using assms room in_window
    by (auto simp: admission_allow_def quota_used_def Let_def update_conv' zero_admission_def split: if_splits)
qed

definition admitted_of :: "string \<Rightarrow> (ranger \<times> time \<times> string) list \<Rightarrow> admissionLimiter \<Rightarrow> int" where
  "admitted_of k cs l = int (length (filter (\<lambda>((rng, now, key), admitted). bucket_key key = k \<and> admitted) (zip cs (admission_calls cs l))))"

definition calls_of :: "string \<Rightarrow> (ranger \<times> time \<times> string) list \<Rightarrow> int" where
  "calls_of k cs = int (length (filter (\<lambda>(rng, now, key). bucket_key key = k) cs))"

lemma quota_calls:
  assumes "0 < al_limit l" "0 < al_window l" "al_window l \<le> max_duration" "int (length (al_entries l)) + int (length cs) \<le> al_maxEntries l"
    and "quota_used k t0 n l" "0 \<le> n" "0 < t0" "\<forall>(rng, now, key)\<in>set cs. t0 \<le> now \<and> now < t0 + al_window l"
  shows "admitted_of k cs l = min (calls_of k cs) (max 0 (al_limit l - n))"
  using assms
proof (induction cs arbitrary: l n)
  case Nil
  then show ?case by (simp add: admitted_of_def calls_of_def)
next
  case (Cons c cs)
  obtain rng now key where c: "c = (rng, now, key)" by (cases c)
  obtain l' admitted retry where a: "admission_allow rng now key l = (l', admitted, retry)" by (metis prod.exhaust)
  have t: "t0 \<le> now" "now < t0 + al_window l" using Cons.prems(8) c by auto
  have room: "int (length (al_entries l)) < al_maxEntries l" using Cons.prems(4) by simp
  note call = admission_call [OF Cons.prems(1-3) room Cons.prems(5-7) t a]
  let ?n = "if bucket_key key = k then n + 1 else n"
  have "admitted_of k cs l' = min (calls_of k cs) (max 0 (al_limit l - ?n))"
    using Cons.IH [of l' ?n] call Cons.prems by auto
  moreover have "admitted_of k (c # cs) l = (if bucket_key key = k \<and> admitted then 1 else 0) + admitted_of k cs l'"
    "calls_of k (c # cs) = (if bucket_key key = k then 1 else 0) + calls_of k cs" "0 \<le> calls_of k cs"
    using a c by (simp_all add: admitted_of_def calls_of_def)
  ultimately show ?case using call(2) by (auto simp: min_def max_def)
qed

text \<open>
  C38. The admission limiter enforces its quota: from a source without a bucket exactly the first
  \<open>limit\<close> calls of a window are admitted and all others refused, however calls of other sources are
  mixed in, as long as the table has room for all of them.
\<close>

theorem admission_quota:
  assumes "0 < al_limit l" "0 < al_window l" "al_window l \<le> max_duration" "int (length (al_entries l)) + int (length cs) \<le> al_maxEntries l"
    and "map_of (al_entries l) k = None" "0 < t0" "\<forall>(rng, now, key)\<in>set cs. t0 \<le> now \<and> now < t0 + al_window l"
  shows "admitted_of k cs l = min (calls_of k cs) (al_limit l)"
  using quota_calls [OF assms(1-4), of k t0 0] assms by (simp add: quota_used_def)

theorem admission_quota_witness:
  "admitted_of ''10.0.0.1'' [(id, 5, ''10.0.0.1''), (id, 6, ''10.0.0.2''), (id, 7, ''10.0.0.1''), (id, 8, ''10.0.0.1'')]
     (newAdmissionLimiter 2 minute 100) = 2"
proof -
  let ?cs = "[(id, 5, ''10.0.0.1''), (id, 6, ''10.0.0.2''), (id, 7, ''10.0.0.1''), (id, 8, ''10.0.0.1'')] :: (ranger \<times> time \<times> string) list"
  have "calls_of ''10.0.0.1'' ?cs = 3" by (simp add: calls_of_def bucket_key_def trim_space_graphic char_class_defs)
  then show ?thesis
    using admission_quota [of "newAdmissionLimiter 2 minute 100" ?cs "''10.0.0.1''" 5] minute_le
    by (simp add: newAdmissionLimiter_def minute_def second_def)
qed

text \<open>The admission table stays within its size too.\<close>

lemma admission_table_bounded:
  "\<forall>c\<in>set cs. visits_all (fst c) \<Longrightarrow> 0 < n \<Longrightarrow>
   int (length (al_entries (fold admission_run cs (newAdmissionLimiter limit window n)))) \<le> n"
  using admissions.runs_bounded [of cs "newAdmissionLimiter limit window n"] by (simp add: newAdmissionLimiter_def)

end
