(* ===== verification/Controller_Auth.thy ===== *)
theory Controller_Auth
  imports Controller_Credentials Controller_Limits
begin

text \<open>
  Users, API tokens and web sessions of the controller: \<^verbatim>\<open>internal/controller/auth_users.go\<close>, \<^verbatim>\<open>auth_tokens.go\<close>, \<^verbatim>\<open>sessions.go\<close>
  over their tables (with the uniqueness constraints, foreign keys and cascades of the schema in
  \<^verbatim>\<open>store_db.go\<close>), and \<^verbatim>\<open>authorize\<close> and \<^verbatim>\<open>login\<close> of \<^verbatim>\<open>api_auth.go\<close>, which decide about every request. The
  JSON encoding of requests and responses is a parameter. A read that the code makes before it begins its transaction sees
  an earlier state of the tables (\<open>before\<close>).
\<close>

section \<open>Rows and values\<close>

record user_row =
  us_ID :: string
  us_Username :: string
  us_PasswordHash :: string
  us_PasswordChangedAt :: stored_time
  us_Role :: string
  us_Enabled :: bool
  us_Revision :: int
  us_CreatedAt :: stored_time
  us_UpdatedAt :: stored_time

record User =
  u_ID :: string
  u_Username :: string
  u_Role :: string
  u_Enabled :: bool
  u_Revision :: int
  u_CreatedAt :: time
  u_UpdatedAt :: time
  u_PasswordChangedAt :: time

record token_row =
  tk_ID :: string
  tk_UserID :: string
  tk_Hash :: string
  tk_Name :: string
  tk_ExpiresAt :: "stored_time option"
  tk_RevokedAt :: "stored_time option"
  tk_CreatedAt :: stored_time

record APIToken =
  at_ID :: string
  at_UserID :: string
  at_Name :: string
  at_ExpiresAt :: "time option"
  at_RevokedAt :: "time option"
  at_CreatedAt :: time

record session_row =
  se_Hash :: string
  se_UserID :: string
  se_CSRFHash :: string
  se_ExpiresAt :: stored_time
  se_RevokedAt :: "stored_time option"

record webSession =
  ws_UserID :: string
  ws_CSRFHash :: string
  ws_ExpiresAt :: time

record UserUpdate =
  uu_Username :: "string option"
  uu_Password :: "string option"
  uu_Role :: "string option"
  uu_Enabled :: "bool option"

record auth_db = store +
  db_users :: "user_row list"
  db_tokens :: "token_row list"
  db_sessions :: "session_row list"

datatype auth_request =
    CreateTokenRequest string string "time option"
  | RevokeTokenRequest "string option" string
  | CreateUserRequest string string
  | UpdateUserRequest string "string option" bool "string option" "bool option" int
  | DeleteUserRequest string int

record auth_env =
  ae_crypto :: crypto_env
  ae_requestHash :: "auth_request \<Rightarrow> string result"
  ae_MarshalID :: "string \<Rightarrow> bytes result"
  ae_MarshalRevision :: "string \<times> int \<Rightarrow> bytes result"
  ae_UnmarshalID :: "bytes \<Rightarrow> string result"

section \<open>Reading users and tokens\<close>

definition scanUser :: "user_row \<Rightarrow> User result" where
  "scanUser r =
     bind_result (parseStoredTime ''user.created_at'' (us_CreatedAt r)) (\<lambda>created.
     bind_result (parseStoredTime ''user.updated_at'' (us_UpdatedAt r)) (\<lambda>updated.
     bind_result (parseStoredTime ''user.password_changed_at'' (us_PasswordChangedAt r)) (\<lambda>changed.
       Inr \<lparr>u_ID = us_ID r, u_Username = us_Username r, u_Role = us_Role r, u_Enabled = us_Enabled r, u_Revision = us_Revision r,
         u_CreatedAt = created, u_UpdatedAt = updated, u_PasswordChangedAt = changed\<rparr>)))"

definition user_where :: "(user_row \<Rightarrow> bool) \<Rightarrow> check \<Rightarrow> auth_db \<Rightarrow> user_row result" where
  "user_where p query db =
     check_then query (case find p (db_users db) of None \<Rightarrow> Inl sql_ErrNoRows | Some r \<Rightarrow> Inr r)"

definition GetUser :: "check \<Rightarrow> string \<Rightarrow> auth_db \<Rightarrow> User result" where
  "GetUser query i db = bind_result (user_where (\<lambda>u. us_ID u = i) query db) scanUser"

definition opt_time :: "string \<Rightarrow> stored_time option \<Rightarrow> time option result" where
  "opt_time field v = (case v of None \<Rightarrow> Inr None | Some t \<Rightarrow> bind_result (parseStoredTime field t) (\<lambda>t'. Inr (Some t')))"

definition scan_token :: "token_row \<Rightarrow> APIToken result" where
  "scan_token r =
     bind_result (opt_time ''api_token.expires_at'' (tk_ExpiresAt r)) (\<lambda>expires.
     bind_result (opt_time ''api_token.revoked_at'' (tk_RevokedAt r)) (\<lambda>revoked.
     bind_result (parseStoredTime ''api_token.created_at'' (tk_CreatedAt r)) (\<lambda>created.
       Inr \<lparr>at_ID = tk_ID r, at_UserID = tk_UserID r, at_Name = tk_Name r, at_ExpiresAt = expires, at_RevokedAt = revoked, at_CreatedAt = created\<rparr>)))"

text \<open>The database returns the rows in the order of \<^verbatim>\<open>created_at\<close>, latest first.\<close>

definition ListAPITokens :: "check \<Rightarrow> string \<Rightarrow> (token_row list \<Rightarrow> token_row list) \<Rightarrow> auth_db \<Rightarrow> APIToken list result" where
  "ListAPITokens query userID latest_first db =
     check_then query
     (map_result scan_token (latest_first (if trim_space userID \<noteq> [] then filter (\<lambda>r. tk_UserID r = userID) (db_tokens db) else db_tokens db)))"

definition Authenticate :: "crypto_env \<Rightarrow> check \<Rightarrow> string \<Rightarrow> string \<Rightarrow> auth_db \<Rightarrow> User result" where
  "Authenticate env query username password db =
     (case query of
        Some e \<Rightarrow> Inl (if errors_is e ''sql: no rows in result set'' then ErrInvalidCredentials else storageFailure ''authenticate user'' e)
      | None \<Rightarrow>
          (case find (\<lambda>u. us_Username u = trim_space username) (db_users db) of
             None \<Rightarrow> Inl ErrInvalidCredentials
           | Some r \<Rightarrow>
               if \<not> VerifyPassword env (us_PasswordHash r) password then Inl ErrInvalidCredentials
               else if \<not> us_Enabled r then Inl ErrUserDisabled
               else scanUser r))"

definition AuthenticateToken :: "crypto_env \<Rightarrow> check \<Rightarrow> time \<Rightarrow> string \<Rightarrow> auth_db \<Rightarrow> User result" where
  "AuthenticateToken env query now token db =
     (case query of
        Some e \<Rightarrow> Inl (if errors_is e ''sql: no rows in result set'' then ErrInvalidAPIToken else storageFailure ''authenticate API token'' e)
      | None \<Rightarrow>
          (case find (\<lambda>(t, u). us_ID u = tk_UserID t \<and> tk_Hash t = HashToken env token \<and> tk_RevokedAt t = None) (List.product (db_tokens db) (db_users db)) of
             None \<Rightarrow> Inl ErrInvalidAPIToken
           | Some (t, r) \<Rightarrow>
               if \<not> us_Enabled r then Inl ErrUserDisabled
               else bind_result (opt_time ''api_token.expires_at'' (tk_ExpiresAt t)) (\<lambda>expires.
                 case expires of
                   Some e \<Rightarrow> if \<not> now < e then Inl ErrAPITokenExpired else scanUser r
                 | None \<Rightarrow> scanUser r)))"

section \<open>Writing users\<close>

definition RevisionConflict_user :: "int \<Rightarrow> int \<Rightarrow> go_error" where
  "RevisionConflict_user expected actual = RevisionConflictError ''user'' expected actual"

definition insert_user :: "faults \<Rightarrow> user_row \<Rightarrow> auth_db \<Rightarrow> auth_db result" where
  "insert_user err r tx =
     (case err ''insert user'' of Some e \<Rightarrow> Inl (ErrWrap ''create user: '' e) | None \<Rightarrow>
      if \<exists>u\<in>set (db_users tx). us_ID u = us_ID r \<or> us_Username u = us_Username r then Inl (ErrWrap ''create user: '' (ErrStd ''unique constraint''))
      else Inr (tx\<lparr>db_users := db_users tx @ [r]\<rparr>))"

definition CreateUserWithOptions ::
  "auth_env \<Rightarrow> bytes result \<Rightarrow> bytes result \<Rightarrow> tx_answers \<Rightarrow> time \<Rightarrow> string \<Rightarrow> string \<Rightarrow> string \<Rightarrow> WriteOptions \<Rightarrow> auth_db \<Rightarrow> auth_db \<times> User result" where
  "CreateUserWithOptions env salt rnd ans now username0 password role options db =
     (let username = trim_space username0; err = tx_err ans; key = wo_IdempotencyKey options in
      case and_then (validateUsername username) (ValidateRole role) of Some e \<Rightarrow> (db, Inl e) | None \<Rightarrow>
      case HashPassword (ae_crypto env) salt password of Inl e \<Rightarrow> (db, Inl e) | Inr hash \<Rightarrow>
      case randomID rnd of Inl e \<Rightarrow> (db, Inl e) | Inr i \<Rightarrow>
      run_write id id ans
        (keyed_tx err key (ae_requestHash env (CreateUserRequest username role))
          (\<lambda>tx. bind_result (user_where (\<lambda>u. us_Username u = username) (err ''select user'') tx) (\<lambda>r. bind_result (scanUser r) (\<lambda>u. Inr (None, u))))
          (\<lambda>tx. bind_result (insert_user err \<lparr>us_ID = i, us_Username = username, us_PasswordHash = hash, us_PasswordChangedAt = Some now, us_Role = role,
                us_Enabled = True, us_Revision = 1, us_CreatedAt = Some now, us_UpdatedAt = Some now\<rparr> tx) (\<lambda>tx1.
             bind_result (insertAudit err (wo_Actor options) ''create'' ''user'' i 1 [(''role'', role), (''username'', username)] tx1) (\<lambda>tx2.
               Inr (tx2, ae_MarshalRevision env (i, 1), \<lparr>u_ID = i, u_Username = username, u_Role = role, u_Enabled = True, u_Revision = 1,
                 u_CreatedAt = now, u_UpdatedAt = now, u_PasswordChangedAt = now\<rparr>))))) db)"

definition enabled_admins :: "auth_db \<Rightarrow> nat" where
  "enabled_admins db = length (filter (\<lambda>u. us_Role u = RoleAdmin \<and> us_Enabled u) (db_users db))"

text \<open>The three optional changes of an update, in the order of the code.\<close>

definition update_fields :: "faults \<Rightarrow> UserUpdate \<Rightarrow> auth_db \<Rightarrow> User \<Rightarrow> User result" where
  "update_fields err update tx user =
     bind_result
       (case uu_Username update of
          None \<Rightarrow> Inr user
        | Some name \<Rightarrow> check_then (validateUsername (trim_space name)) (Inr (user\<lparr>u_Username := trim_space name\<rparr>))) (\<lambda>user1.
     bind_result
       (case uu_Role update of
          None \<Rightarrow> Inr user1
        | Some role \<Rightarrow>
            check_then (ValidateRole role)
            (if u_Role user1 = RoleAdmin \<and> role \<noteq> RoleAdmin \<and> u_Enabled user1
             then check_then (err ''count admins'')
               (if enabled_admins tx \<le> 1 then Inl (ErrNew ''cannot demote the last enabled admin'') else Inr (user1\<lparr>u_Role := role\<rparr>))
             else Inr (user1\<lparr>u_Role := role\<rparr>))) (\<lambda>user2.
       (case uu_Enabled update of
          None \<Rightarrow> Inr user2
        | Some enabled \<Rightarrow>
            if \<not> enabled \<and> u_Role user2 = RoleAdmin
            then check_then (err ''count admins'')
              (if enabled_admins tx \<le> 1 then Inl (ErrNew ''cannot disable the last enabled admin'') else Inr (user2\<lparr>u_Enabled := enabled\<rparr>))
            else Inr (user2\<lparr>u_Enabled := enabled\<rparr>))))"

text \<open>The conditional update of the row, with the unique constraint on the user name.\<close>

definition write_user :: "faults \<Rightarrow> string \<Rightarrow> int \<Rightarrow> (user_row \<Rightarrow> user_row) \<Rightarrow> auth_db \<Rightarrow> auth_db result" where
  "write_user err i revision f tx =
     check_then (err ''update user'')
     (let hit = (\<lambda>u. us_ID u = i \<and> us_Revision u = revision);
          users' = map (\<lambda>u. if hit u then f u else u) (db_users tx)
      in if \<not> distinct (map us_Username users') then Inl (ErrStd ''unique constraint'')
         else check_then (requireRevisionWrite err ''user'' revision (\<exists>u\<in>set (db_users tx). hit u)
             (map_option us_Revision (find (\<lambda>u. us_ID u = i) users')))
           (Inr (tx\<lparr>db_users := users'\<rparr>)))"

definition revoke_tokens :: "(token_row \<Rightarrow> bool) \<Rightarrow> time \<Rightarrow> auth_db \<Rightarrow> auth_db" where
  "revoke_tokens p now tx =
     tx\<lparr>db_tokens := map (\<lambda>t. if p t \<and> tk_RevokedAt t = None then t\<lparr>tk_RevokedAt := Some (Some now)\<rparr> else t) (db_tokens tx)\<rparr>"

definition revoke_sessions :: "(session_row \<Rightarrow> bool) \<Rightarrow> time \<Rightarrow> auth_db \<Rightarrow> auth_db" where
  "revoke_sessions p now tx =
     tx\<lparr>db_sessions := map (\<lambda>s. if p s \<and> se_RevokedAt s = None then s\<lparr>se_RevokedAt := Some (Some now)\<rparr> else s) (db_sessions tx)\<rparr>"

definition update_work ::
  "auth_env \<Rightarrow> bytes result \<Rightarrow> faults \<Rightarrow> time \<Rightarrow> string \<Rightarrow> UserUpdate \<Rightarrow> WriteOptions \<Rightarrow> string \<Rightarrow> User \<Rightarrow> auth_db \<Rightarrow> (auth_db \<times> bytes result \<times> User) result" where
  "update_work env salt err now i update options hash0 user tx =
     (if wo_IfMatch options \<le> 0 \<or> wo_IfMatch options \<noteq> u_Revision user
      then Inl (RevisionConflict_user (wo_IfMatch options) (u_Revision user))
      else
        let passwordChangedAt = (if now \<le> u_PasswordChangedAt user then u_PasswordChangedAt user + 1 else now);
            newRevision = u_Revision user + 1 in
        bind_result (case uu_Password update of None \<Rightarrow> Inr hash0 | Some p \<Rightarrow> HashPassword (ae_crypto env) salt p) (\<lambda>hash.
        let user' = (if uu_Password update \<noteq> None then user\<lparr>u_PasswordChangedAt := passwordChangedAt\<rparr> else user) in
        bind_result (write_user err i (u_Revision user)
            (\<lambda>r. r\<lparr>us_Username := u_Username user', us_PasswordHash := hash, us_PasswordChangedAt := Some (u_PasswordChangedAt user'), us_Role := u_Role user',
               us_Enabled := u_Enabled user', us_Revision := newRevision, us_UpdatedAt := Some now\<rparr>) tx) (\<lambda>tx1.
        bind_result
          (if uu_Password update = None then Inr tx1
           else check_then (err ''revoke tokens'')
             (check_then (err ''revoke sessions'')
               (Inr (revoke_sessions (\<lambda>s. se_UserID s = i) now (revoke_tokens (\<lambda>t. tk_UserID t = i) now tx1))))) (\<lambda>tx2.
        bind_result (insertAudit err (wo_Actor options) ''update'' ''user'' i newRevision [(''role'', u_Role user'), (''username'', u_Username user')] tx2) (\<lambda>tx3.
          Inr (tx3, ae_MarshalRevision env (i, newRevision), user'\<lparr>u_Revision := newRevision, u_UpdatedAt := now\<rparr>))))))"

definition UpdateUser ::
  "auth_env \<Rightarrow> bytes result \<Rightarrow> tx_answers \<Rightarrow> time \<Rightarrow> string \<Rightarrow> UserUpdate \<Rightarrow> WriteOptions \<Rightarrow> auth_db \<Rightarrow> auth_db \<times> User result" where
  "UpdateUser env salt ans now i update options db =
     (if trim_space i = [] then (db, Inl sql_ErrNoRows)
      else run_write id id ans (\<lambda>tx.
        let err = tx_err ans in
        bind_result (user_where (\<lambda>u. us_ID u = i) (err ''select user for update'') tx) (\<lambda>row.
        bind_result (scanUser row) (\<lambda>user0.
        bind_result (update_fields err update tx user0) (\<lambda>user.
          keyed_tx err (wo_IdempotencyKey options)
            (ae_requestHash env (UpdateUserRequest i (uu_Username update) (uu_Password update \<noteq> None) (uu_Role update) (uu_Enabled update) (wo_IfMatch options)))
            (\<lambda>tx'. bind_result (GetUser (err ''select user'') i tx') (\<lambda>u. Inr (None, u)))
            (update_work env salt err now i update options (us_PasswordHash row) user) tx)))) db)"

text \<open>The deletion cascades to the user's tokens and sessions.\<close>

definition delete_user_row :: "string \<Rightarrow> int \<Rightarrow> auth_db \<Rightarrow> auth_db" where
  "delete_user_row i revision tx =
     (if \<exists>u\<in>set (db_users tx). us_ID u = i \<and> us_Revision u = revision
      then tx\<lparr>db_users := filter (\<lambda>u. us_ID u \<noteq> i) (db_users tx), db_tokens := filter (\<lambda>t. tk_UserID t \<noteq> i) (db_tokens tx),
        db_sessions := filter (\<lambda>s. se_UserID s \<noteq> i) (db_sessions tx)\<rparr>
      else tx)"

definition delete_work :: "auth_env \<Rightarrow> faults \<Rightarrow> string \<Rightarrow> WriteOptions \<Rightarrow> auth_db \<Rightarrow> (auth_db \<times> bytes result \<times> unit) result" where
  "delete_work env err i options tx =
     bind_result (user_where (\<lambda>u. us_ID u = i) (err ''select user'') tx) (\<lambda>row.
     if wo_IfMatch options \<le> 0 \<or> wo_IfMatch options \<noteq> us_Revision row then Inl (RevisionConflict_user (wo_IfMatch options) (us_Revision row))
     else check_then
       (if us_Role row = RoleAdmin \<and> us_Enabled row
        then and_then (err ''count admins'') (fail_if (enabled_admins tx \<le> 1) (ErrNew ''cannot delete the last enabled admin''))
        else None)
       (check_then (err ''delete user'')
       (check_then (requireRevisionWrite err ''user'' (us_Revision row) (\<exists>u\<in>set (db_users tx). us_ID u = i \<and> us_Revision u = us_Revision row) None)
       (bind_result (insertAudit err (wo_Actor options) ''delete'' ''user'' i (us_Revision row) [] (delete_user_row i (us_Revision row) tx)) (\<lambda>tx1.
          Inr (tx1, ae_MarshalRevision env (i, us_Revision row), ()))))))"

definition DeleteUser :: "auth_env \<Rightarrow> tx_answers \<Rightarrow> string \<Rightarrow> WriteOptions \<Rightarrow> auth_db \<Rightarrow> auth_db \<times> unit result" where
  "DeleteUser env ans i options db =
     run_write id id ans
       (keyed_tx (tx_err ans) (wo_IdempotencyKey options) (ae_requestHash env (DeleteUserRequest i (wo_IfMatch options)))
         (\<lambda>tx. Inr (Some tx, ())) (delete_work env (tx_err ans) i options)) db"

section \<open>Writing tokens and sessions\<close>

definition ErrSecretAlreadyCreated :: go_error where
  "ErrSecretAlreadyCreated = Sentinel ''one-time token was already created and its plaintext cannot be recovered''"

definition insert_token :: "faults \<Rightarrow> token_row \<Rightarrow> auth_db \<Rightarrow> auth_db result" where
  "insert_token err r tx =
     check_then (err ''insert token'')
     (if (\<exists>t\<in>set (db_tokens tx). tk_ID t = tk_ID r \<or> tk_Hash t = tk_Hash r) \<or> \<not> (\<exists>u\<in>set (db_users tx). us_ID u = tk_UserID r)
      then Inl (ErrStd ''constraint'')
      else Inr (tx\<lparr>db_tokens := db_tokens tx @ [r]\<rparr>))"

text \<open>The value is the plaintext, the token, and the error that comes with it.\<close>

definition replay_token :: "auth_env \<Rightarrow> faults \<Rightarrow> string \<Rightarrow> auth_db \<Rightarrow> (auth_db option \<times> string \<times> APIToken \<times> check) result" where
  "replay_token env err key tx =
     check_then (err ''select response'')
     (case map_of (st_keys tx) (trim_space key) of
        None \<Rightarrow> Inl sql_ErrNoRows
      | Some (_, response) \<Rightarrow>
          (case ae_UnmarshalID env response of
             Inl _ \<Rightarrow> Inl (ErrNew ''idempotency response is invalid'')
           | Inr i \<Rightarrow>
               if i = [] then Inl (ErrNew ''idempotency response is invalid'')
               else check_then (err ''select token'')
                 (case find (\<lambda>t. tk_ID t = i) (db_tokens tx) of
                    None \<Rightarrow> Inl sql_ErrNoRows
                  | Some r \<Rightarrow> bind_result (scan_token r) (\<lambda>token. Inr (Some tx, [], token, Some ErrSecretAlreadyCreated)))))"

definition token_request_check :: "faults \<Rightarrow> time \<Rightarrow> string \<Rightarrow> string \<Rightarrow> time option \<Rightarrow> auth_db \<Rightarrow> check" where
  "token_request_check err now userID name expiresAt before =
     and_then (fail_if (userID = [] \<or> name = []) (ErrNew ''token user and name are required''))
     (and_then (fail_if (length name > 128 \<or> contains_any name [CHR 0x00, CHR 0x0D, CHR 0x0A]) (ErrNew ''token name is invalid''))
     (case user_where (\<lambda>u. us_ID u = userID) (err ''select token user'') before of
        Inl e \<Rightarrow> Some (if errors_is e ''sql: no rows in result set'' then sql_ErrNoRows else e)
      | Inr u \<Rightarrow>
          and_then (fail_if (\<not> us_Enabled u) (ErrNew ''user is disabled''))
          (case expiresAt of None \<Rightarrow> None | Some e \<Rightarrow> fail_if (\<not> e > now) (ErrNew ''token expiration must be in the future''))))"

definition CreateAPITokenWithOptions ::
  "auth_env \<Rightarrow> bytes result \<Rightarrow> bytes result \<Rightarrow> tx_answers \<Rightarrow> time \<Rightarrow> string \<Rightarrow> string \<Rightarrow> time option \<Rightarrow> WriteOptions \<Rightarrow> auth_db \<Rightarrow> auth_db \<Rightarrow>
   auth_db \<times> (string \<times> APIToken \<times> check) result" where
  "CreateAPITokenWithOptions env rnd1 rnd2 ans now userID0 name0 expiresAt options before db =
     (let userID = trim_space userID0; name = trim_space name0; err = tx_err ans; key = wo_IdempotencyKey options in
      case token_request_check err now userID name expiresAt before of Some e \<Rightarrow> (db, Inl e) | None \<Rightarrow>
      run_write id id ans
        (keyed_tx err key (ae_requestHash env (CreateTokenRequest userID name expiresAt)) (replay_token env err key)
          (\<lambda>tx. bind_result (NewAPIToken (ae_crypto env) rnd1) (\<lambda>(plain, digest).
             bind_result (randomID rnd2) (\<lambda>i.
             bind_result (insert_token err \<lparr>tk_ID = i, tk_UserID = userID, tk_Hash = digest, tk_Name = name, tk_ExpiresAt = map_option Some expiresAt,
                 tk_RevokedAt = None, tk_CreatedAt = Some now\<rparr> tx) (\<lambda>tx1.
             bind_result (insertAudit err (wo_Actor options) ''create'' ''api_token'' i 1 [(''name'', name), (''user_id'', userID)] tx1) (\<lambda>tx2.
               Inr (tx2, ae_MarshalID env i, plain,
                 \<lparr>at_ID = i, at_UserID = userID, at_Name = name, at_ExpiresAt = expiresAt, at_RevokedAt = None, at_CreatedAt = now\<rparr>, None))))))) db)"

definition revoke_work ::
  "auth_env \<Rightarrow> faults \<Rightarrow> time \<Rightarrow> string \<Rightarrow> (token_row \<Rightarrow> bool) \<Rightarrow> labels \<Rightarrow> WriteOptions \<Rightarrow> auth_db \<Rightarrow> (auth_db \<times> bytes result \<times> unit) result" where
  "revoke_work env err now i p attrs options tx =
     check_then (err ''revoke token'')
     (check_then (map_option (ErrWrap ''revoke API token: rows affected: '') (err ''revoke token rows''))
     (if \<not> (\<exists>t\<in>set (db_tokens tx). p t \<and> tk_RevokedAt t = None) then Inl sql_ErrNoRows
      else bind_result (insertAudit err (wo_Actor options) ''revoke'' ''api_token'' i 1 attrs (revoke_tokens p now tx)) (\<lambda>tx1.
        Inr (tx1, ae_MarshalID env i, ()))))"

definition RevokeAPITokenForUser ::
  "auth_env \<Rightarrow> tx_answers \<Rightarrow> time \<Rightarrow> string \<Rightarrow> string \<Rightarrow> WriteOptions \<Rightarrow> auth_db \<Rightarrow> auth_db \<times> unit result" where
  "RevokeAPITokenForUser env ans now userID i options db =
     (if trim_space userID = [] \<or> trim_space i = [] then (db, Inl sql_ErrNoRows)
      else run_write id id ans
        (keyed_tx (tx_err ans) (wo_IdempotencyKey options) (ae_requestHash env (RevokeTokenRequest (Some (trim_space userID)) (trim_space i)))
          (\<lambda>tx. Inr (Some tx, ()))
          (revoke_work env (tx_err ans) now i (\<lambda>t. tk_ID t = i \<and> tk_UserID t = userID) [(''user_id'', userID)] options)) db)"

definition RevokeAPITokenWithOptions :: "auth_env \<Rightarrow> tx_answers \<Rightarrow> time \<Rightarrow> string \<Rightarrow> WriteOptions \<Rightarrow> auth_db \<Rightarrow> auth_db \<times> unit result" where
  "RevokeAPITokenWithOptions env ans now i options db =
     run_write id id ans
       (keyed_tx (tx_err ans) (wo_IdempotencyKey options) (ae_requestHash env (RevokeTokenRequest None (trim_space i)))
         (\<lambda>tx. Inr (Some tx, ())) (revoke_work env (tx_err ans) now i (\<lambda>t. tk_ID t = i) [] options)) db"

definition CreateWebSession ::
  "crypto_env \<Rightarrow> tx_answers \<Rightarrow> string \<Rightarrow> string \<Rightarrow> string \<Rightarrow> time \<Rightarrow> auth_db \<Rightarrow> auth_db \<times> unit result" where
  "CreateWebSession env ans userID sessionID csrf expiresAt db =
     (if trim_space userID = [] \<or> trim_space sessionID = [] \<or> trim_space csrf = [] \<or> expiresAt = 0
      then (db, Inl (ErrNew ''web session fields are required''))
      else run_write id id ans (\<lambda>tx.
        check_then (tx_err ans ''insert session'')
        (if (\<exists>s\<in>set (db_sessions tx). se_Hash s = HashToken env sessionID) \<or> \<not> (\<exists>u\<in>set (db_users tx). us_ID u = userID) then Inl (ErrStd ''constraint'')
         else Inr (Some (tx\<lparr>db_sessions := db_sessions tx @ [\<lparr>se_Hash = HashToken env sessionID, se_UserID = userID, se_CSRFHash = HashToken env csrf,
            se_ExpiresAt = Some expiresAt, se_RevokedAt = None\<rparr>]\<rparr>), ()))) db)"

definition GetWebSession :: "crypto_env \<Rightarrow> check \<Rightarrow> time \<Rightarrow> string \<Rightarrow> auth_db \<Rightarrow> webSession result" where
  "GetWebSession env query now sessionID db =
     (if trim_space sessionID = [] then Inl sql_ErrNoRows
      else check_then query
        (case find (\<lambda>s. se_Hash s = HashToken env sessionID) (db_sessions db) of
           None \<Rightarrow> Inl sql_ErrNoRows
         | Some s \<Rightarrow>
             if se_RevokedAt s \<noteq> None then Inl sql_ErrNoRows
             else bind_result (parseStoredTime ''web_session.expires_at'' (se_ExpiresAt s)) (\<lambda>expires.
               if \<not> now < expires then Inl sql_ErrNoRows
               else Inr \<lparr>ws_UserID = se_UserID s, ws_CSRFHash = se_CSRFHash s, ws_ExpiresAt = expires\<rparr>)))"

definition RevokeWebSession :: "crypto_env \<Rightarrow> tx_answers \<Rightarrow> time \<Rightarrow> string \<Rightarrow> auth_db \<Rightarrow> auth_db \<times> unit result" where
  "RevokeWebSession env ans now sessionID db =
     (if trim_space sessionID = [] then (db, Inr ())
      else run_write id id ans (\<lambda>tx.
        check_then (tx_err ans ''revoke session'') (Inr (Some (revoke_sessions (\<lambda>s. se_Hash s = HashToken env sessionID) now tx), ()))) db)"

section \<open>Deciding about a request\<close>

text \<open>\<^verbatim>\<open>strings.Fields\<close>: the runs of bytes between white space.\<close>

fun word_span :: "string \<Rightarrow> string \<times> string" where
  "word_span [] = ([], [])"
| "word_span (c # s) = (if leading_space (c # s) \<noteq> None then ([], c # s) else case word_span s of (w, r) \<Rightarrow> (c # w, r))"

lemma trim_left_space_start: "leading_space (trim_left_space s) = None"
proof (induction s rule: trim_left_space.induct)
  case (1 s)
  then show ?case by (subst trim_left_space.simps) (auto split: option.splits)
qed

lemma trim_left_space_length: "length (trim_left_space s) \<le> length s"
proof (induction s rule: trim_left_space.induct)
  case (1 s)
  then show ?case by (subst trim_left_space.simps) (fastforce split: option.splits)
qed

lemma word_span_length: "length (snd (word_span s)) \<le> length s"
  by (induction s) (auto split: prod.splits)

function go_fields :: "string \<Rightarrow> string list" where
  "go_fields s =
     (case trim_left_space s of [] \<Rightarrow> [] | c # r \<Rightarrow> fst (word_span (c # r)) # go_fields (snd (word_span (c # r))))"
  by pat_completeness auto
termination
proof (relation "measure length", goal_cases)
  case (2 s c r)
  have "leading_space (c # r) = None" using trim_left_space_start [of s] 2 by simp
  then have "length (snd (word_span (c # r))) < length (c # r)" using word_span_length [of r] by (auto split: prod.splits)
  then show ?case using trim_left_space_length [of s] 2 by simp
qed simp

declare go_fields.simps [simp del]

record http_request =
  hr_Method :: string
  hr_Authorization :: string
  hr_Session :: "string option"
  hr_CSRF :: string

text \<open>A refusal is the HTTP status with the error code.\<close>

type_synonym refusal = "nat \<times> string"

abbreviation unavailable :: refusal where "unavailable \<equiv> (503, ''authentication_unavailable'')"
abbreviation unauthorized :: refusal where "unauthorized \<equiv> (401, ''unauthorized'')"

definition session_user :: "crypto_env \<Rightarrow> faults \<Rightarrow> time \<Rightarrow> http_request \<Rightarrow> string \<Rightarrow> auth_db \<Rightarrow> refusal + User option" where
  "session_user env err now r cookie db =
     (case GetWebSession env (err ''select session'') now cookie db of
        Inl e \<Rightarrow> if errors_is e ''sql: no rows in result set'' then Inr None else Inl unavailable
      | Inr sess \<Rightarrow>
          (case GetUser (err ''select session user'') (ws_UserID sess) db of
             Inl e \<Rightarrow> Inl (if errors_is e ''sql: no rows in result set'' then unauthorized else unavailable)
           | Inr fresh \<Rightarrow>
               if \<not> u_Enabled fresh then Inl unauthorized
               else if hr_Method r \<noteq> ''GET'' \<and> hr_Method r \<noteq> ''HEAD'' \<and> HashToken env (hr_CSRF r) \<noteq> ws_CSRFHash sess then Inl (403, ''csrf_failed'')
               else Inr (Some fresh)))"

definition bearer_user :: "crypto_env \<Rightarrow> faults \<Rightarrow> time \<Rightarrow> string \<Rightarrow> auth_db \<Rightarrow> refusal + User option" where
  "bearer_user env err now header db =
     (case go_fields header of
        [scheme, token] \<Rightarrow>
          if equal_fold scheme ''Bearer''
          then (case AuthenticateToken env (err ''select token'') now token db of
              Inl e \<Rightarrow> Inl (if isCredentialError e then unauthorized else unavailable)
            | Inr u \<Rightarrow> Inr (Some u))
          else Inr None
      | _ \<Rightarrow> Inr None)"

definition authorize :: "crypto_env \<Rightarrow> faults \<Rightarrow> time \<Rightarrow> http_request \<Rightarrow> string \<Rightarrow> auth_db \<Rightarrow> refusal + User" where
  "authorize env err now r required db =
     (let header = trim_space (hr_Authorization r) in
      case (if header \<noteq> [] then bearer_user env err now header db
            else case hr_Session r of None \<Rightarrow> Inr None | Some cookie \<Rightarrow> session_user env err now r cookie db) of
        Inl e \<Rightarrow> Inl e
      | Inr None \<Rightarrow> Inl unauthorized
      | Inr (Some user) \<Rightarrow>
          if \<not> u_Enabled user then Inl unauthorized
          else if \<not> roleAllows (u_Role user) required then Inl (403, ''forbidden'')
          else Inr user)"

definition sessionTTL :: duration where "sessionTTL = 12 * hour"

record login_answers =
  la_range :: "ranger"
  la_now :: time
  la_select :: check
  la_random :: "(bytes \<times> bytes) result"
  la_tx :: tx_answers

text \<open>
  \<^verbatim>\<open>login\<close> for a decoded body: the limiter, the tables, and either a refusal or the user with the two cookies.
\<close>

definition login ::
  "crypto_env \<Rightarrow> login_answers \<Rightarrow> string option \<Rightarrow> string \<Rightarrow> string \<Rightarrow> loginLimiter \<times> auth_db \<Rightarrow>
   (loginLimiter \<times> auth_db) \<times> (refusal + User \<times> string \<times> string)" where
  "login env ans remote username password w =
     (case w of (l, db) \<Rightarrow>
      let keys = loginKeys remote username; now = la_now ans in
      case allow (la_range ans) now keys l of (l1, allowed, retry) \<Rightarrow>
      if \<not> allowed then ((l1, db), Inl (429, ''rate_limited''))
      else case Authenticate env (la_select ans) username password db of
          Inl e \<Rightarrow>
            if \<not> isCredentialError e then ((l1, db), Inl unavailable)
            else ((failure (la_range ans) now keys l1, db), Inl (401, ''invalid_credentials''))
        | Inr user \<Rightarrow>
            let l2 = success keys l1 in
            (case la_random ans of
               Inl e \<Rightarrow> ((l2, db), Inl (500, ''session_failed''))
             | Inr (a, b) \<Rightarrow>
                 (case CreateWebSession env (la_tx ans) (u_ID user) (hex_encode a) (hex_encode b) (now + sessionTTL) db of
                    (db', Inl e) \<Rightarrow> ((l2, db'), Inl unavailable)
                  | (db', Inr _) \<Rightarrow> ((l2, db'), Inr (user, hex_encode a, hex_encode b)))))"

section \<open>Who gets in\<close>

lemma find_productD:
  "find (\<lambda>(t, u). P t u) (List.product ts us) = Some (t, u) \<Longrightarrow> t \<in> set ts \<and> u \<in> set us \<and> P t u"
  by (auto dest!: find_SomeD)

lemma find_SomeD': "find P xs = Some x \<Longrightarrow> x \<in> set xs \<and> P x"
  by (auto dest: find_SomeD)

lemma opt_time_Inr: "opt_time f v = Inr w \<Longrightarrow> (v = None \<and> w = None) \<or> (\<exists>t. v = Some (Some t) \<and> w = Some t)"
  by (auto simp: opt_time_def parseStoredTime_def split: option.splits)

definition live_token :: "time \<Rightarrow> token_row \<Rightarrow> bool" where
  "live_token now t \<longleftrightarrow> tk_RevokedAt t = None \<and> (tk_ExpiresAt t = None \<or> (\<exists>e. tk_ExpiresAt t = Some (Some e) \<and> now < e))"

definition live_session :: "time \<Rightarrow> session_row \<Rightarrow> bool" where
  "live_session now s \<longleftrightarrow> se_RevokedAt s = None \<and> (\<exists>e. se_ExpiresAt s = Some e \<and> now < e)"

lemma AuthenticateToken_Inr:
  assumes "AuthenticateToken env q now token db = Inr u"
  shows "\<exists>t\<in>set (db_tokens db). \<exists>row\<in>set (db_users db). scanUser row = Inr u \<and> us_Enabled row \<and> us_ID row = tk_UserID t
    \<and> tk_Hash t = HashToken env token \<and> live_token now t"
proof -
  note unf = assms [unfolded AuthenticateToken_def]
  have q: "q = None" using unf by (cases q) auto
  obtain t row where f: "find (\<lambda>(t, u). us_ID u = tk_UserID t \<and> tk_Hash t = HashToken env token \<and> tk_RevokedAt t = None) (List.product (db_tokens db) (db_users db)) = Some (t, row)"
    using unf q by (cases "find (\<lambda>(t, u). us_ID u = tk_UserID t \<and> tk_Hash t = HashToken env token \<and> tk_RevokedAt t = None) (List.product (db_tokens db) (db_users db))") auto
  have e: "us_Enabled row" using unf q f by (cases "us_Enabled row") auto
  obtain w where w: "opt_time ''api_token.expires_at'' (tk_ExpiresAt t) = Inr w"
    and x: "(case w of Some e \<Rightarrow> if \<not> now < e then Inl ErrAPITokenExpired else scanUser row | None \<Rightarrow> scanUser row) = Inr u"
    using unf q f e by auto
  have s: "scanUser row = Inr u" and "\<forall>e. w = Some e \<longrightarrow> now < e" using x by (auto split: option.splits if_splits)
  with opt_time_Inr [OF w] have "tk_ExpiresAt t = None \<or> (\<exists>e. tk_ExpiresAt t = Some (Some e) \<and> now < e)" by auto
  with find_productD [OF f] e s show ?thesis by (auto simp: live_token_def)
qed

lemma session_user_Inr:
  assumes "session_user env err now r cookie db = Inr (Some u)"
  shows "\<exists>s\<in>set (db_sessions db). \<exists>row\<in>set (db_users db). scanUser row = Inr u \<and> us_ID row = se_UserID s \<and> se_Hash s = HashToken env cookie
    \<and> live_session now s \<and> (hr_Method r \<in> {''GET'', ''HEAD''} \<or> HashToken env (hr_CSRF r) = se_CSRFHash s)"
proof -
  obtain ws where g: "GetWebSession env (err ''select session'') now cookie db = Inr ws" and u: "GetUser (err ''select session user'') (ws_UserID ws) db = Inr u"
    and c: "hr_Method r \<in> {''GET'', ''HEAD''} \<or> HashToken env (hr_CSRF r) = ws_CSRFHash ws"
    using assms by (auto simp: session_user_def split: sum.splits if_splits)
  obtain s where s: "s \<in> set (db_sessions db)" "se_Hash s = HashToken env cookie" "live_session now s" "ws_UserID ws = se_UserID s" "ws_CSRFHash ws = se_CSRFHash s"
    using g by (auto simp: GetWebSession_def live_session_def parseStoredTime_def split: option.splits if_splits dest!: find_SomeD')
  obtain row where "row \<in> set (db_users db)" "us_ID row = ws_UserID ws" "scanUser row = Inr u"
    using u by (auto simp: GetUser_def user_where_def split: option.splits dest!: find_SomeD')
  with s c show ?thesis by metis
qed

lemma scanUser_fields: "scanUser row = Inr u \<Longrightarrow> u_ID u = us_ID row \<and> u_Role u = us_Role row \<and> u_Enabled u = us_Enabled row"
  by (auto simp: scanUser_def)

text \<open>
  C11. Only the entitled get in. A request that is authorized acts for an enabled user of the table
  whose role suffices, and it carried either an API token of that user that is neither revoked nor expired, or the cookie of
  a session of that user that is neither revoked nor expired, together with its CSRF token unless it only reads.
\<close>

theorem authorize_sound:
  assumes "authorize env err now r required db = Inr u"
  shows "\<exists>row\<in>set (db_users db). scanUser row = Inr u \<and> us_Enabled row \<and> roleAllows (us_Role row) required
    \<and> ((\<exists>scheme token. \<exists>t\<in>set (db_tokens db). go_fields (trim_space (hr_Authorization r)) = [scheme, token] \<and> tk_Hash t = HashToken env token
          \<and> tk_UserID t = us_ID row \<and> live_token now t)
     \<or> (\<exists>cookie. \<exists>s\<in>set (db_sessions db). hr_Session r = Some cookie \<and> se_Hash s = HashToken env cookie \<and> se_UserID s = us_ID row \<and> live_session now s
          \<and> (hr_Method r \<in> {''GET'', ''HEAD''} \<or> HashToken env (hr_CSRF r) = se_CSRFHash s)))"
proof -
  let ?h = "trim_space (hr_Authorization r)"
  have ok: "u_Enabled u" "roleAllows (u_Role u) required"
    using assms by (auto simp: authorize_def Let_def split: sum.splits option.splits if_splits)
  show ?thesis
  proof (cases "?h = []")
    case False
    then have "bearer_user env err now ?h db = Inr (Some u)" using assms by (auto simp: authorize_def split: sum.splits option.splits if_splits)
    then obtain scheme token where "go_fields ?h = [scheme, token]" "AuthenticateToken env (err ''select token'') now token db = Inr u"
      by (auto simp: bearer_user_def split: list.splits if_splits sum.splits)
    moreover from AuthenticateToken_Inr [OF this(2)] obtain t row where "t \<in> set (db_tokens db)" "row \<in> set (db_users db)" "scanUser row = Inr u" "us_Enabled row"
      "us_ID row = tk_UserID t" "tk_Hash t = HashToken env token" "live_token now t" by blast
    ultimately show ?thesis using ok scanUser_fields [of row u] by (intro bexI [of _ row]) auto
  next
    case True
    then obtain cookie where "hr_Session r = Some cookie" "session_user env err now r cookie db = Inr (Some u)"
      using assms by (auto simp: authorize_def split: sum.splits option.splits if_splits)
    moreover from session_user_Inr [OF this(2)] obtain s row where "s \<in> set (db_sessions db)" "row \<in> set (db_users db)" "scanUser row = Inr u"
      "us_ID row = se_UserID s" "se_Hash s = HashToken env cookie" "live_session now s" "hr_Method r \<in> {''GET'', ''HEAD''} \<or> HashToken env (hr_CSRF r) = se_CSRFHash s" by blast
    ultimately show ?thesis using ok scanUser_fields [of row u] by (intro bexI [of _ row]) auto
  qed
qed

end
