(* ===== verification/Controller_Accounts.thy ===== *)
theory Controller_Accounts
  imports Controller_Auth
begin

text \<open>
  Sequences of the account operations of \<^verbatim>\<open>Controller_Auth\<close>: what no order of them can break.
\<close>

section \<open>Operations\<close>

datatype auth_op =
    CreateUserOp "bytes result" "bytes result" tx_answers time string string string WriteOptions
  | UpdateUserOp "bytes result" tx_answers time string UserUpdate WriteOptions
  | DeleteUserOp tx_answers string WriteOptions
  | CreateTokenOp "bytes result" "bytes result" tx_answers time string string "time option" WriteOptions auth_db
  | RevokeUserTokenOp tx_answers time string string WriteOptions
  | RevokeTokenOp tx_answers time string WriteOptions
  | CreateSessionOp tx_answers string string string time
  | RevokeSessionOp tx_answers time string

fun auth_run :: "auth_env \<Rightarrow> auth_op \<Rightarrow> auth_db \<Rightarrow> auth_db" where
  "auth_run env (CreateUserOp salt rnd ans now name pw role o') db = fst (CreateUserWithOptions env salt rnd ans now name pw role o' db)"
| "auth_run env (UpdateUserOp salt ans now i upd o') db = fst (UpdateUser env salt ans now i upd o' db)"
| "auth_run env (DeleteUserOp ans i o') db = fst (DeleteUser env ans i o' db)"
| "auth_run env (CreateTokenOp r1 r2 ans now uid name ex o' before) db = fst (CreateAPITokenWithOptions env r1 r2 ans now uid name ex o' before db)"
| "auth_run env (RevokeUserTokenOp ans now uid i o') db = fst (RevokeAPITokenForUser env ans now uid i o' db)"
| "auth_run env (RevokeTokenOp ans now i o') db = fst (RevokeAPITokenWithOptions env ans now i o' db)"
| "auth_run env (CreateSessionOp ans uid sid csrf ex) db = fst (CreateWebSession (ae_crypto env) ans uid sid csrf ex db)"
| "auth_run env (RevokeSessionOp ans now sid) db = fst (RevokeWebSession (ae_crypto env) ans now sid db)"

text \<open>The user an operation gives a new credential to.\<close>

fun grants :: "auth_op \<Rightarrow> string option" where
  "grants (CreateTokenOp r1 r2 ans now uid name ex o' before) = Some (trim_space uid)"
| "grants (CreateSessionOp ans uid sid csrf ex) = Some uid"
| "grants _ = None"

section \<open>What each operation does to the tables\<close>

text \<open>
  The effect of an operation on users, tokens and sessions: a list of the ways in which one table changes.
\<close>

datatype table_change =
    AddUser user_row
  | SetUser string int "user_row \<Rightarrow> user_row"
  | DropUser string
  | AddToken token_row
  | AddSession session_row
  | KillTokens "token_row \<Rightarrow> bool" time
  | KillSessions "session_row \<Rightarrow> bool" time

fun change :: "table_change \<Rightarrow> auth_db \<Rightarrow> auth_db" where
  "change (AddUser r) db = db\<lparr>db_users := db_users db @ [r]\<rparr>"
| "change (SetUser i v f) db = db\<lparr>db_users := map (\<lambda>u. if us_ID u = i \<and> us_Revision u = v then f u else u) (db_users db)\<rparr>"
| "change (DropUser i) db = db\<lparr>db_users := filter (\<lambda>u. us_ID u \<noteq> i) (db_users db), db_tokens := filter (\<lambda>t. tk_UserID t \<noteq> i) (db_tokens db),
     db_sessions := filter (\<lambda>s. se_UserID s \<noteq> i) (db_sessions db)\<rparr>"
| "change (AddToken r) db = db\<lparr>db_tokens := db_tokens db @ [r]\<rparr>"
| "change (AddSession r) db = db\<lparr>db_sessions := db_sessions db @ [r]\<rparr>"
| "change (KillTokens p now) db = revoke_tokens p now db"
| "change (KillSessions p now) db = revoke_sessions p now db"

text \<open>Two states that agree on users, tokens and sessions.\<close>

definition same_tables :: "auth_db \<Rightarrow> auth_db \<Rightarrow> bool" where
  "same_tables a b \<longleftrightarrow> db_users a = db_users b \<and> db_tokens a = db_tokens b \<and> db_sessions a = db_sessions b"

lemma same_tables_keys: "same_but_keys a b \<Longrightarrow> same_tables a b"
  by (auto simp: same_but_keys_def same_tables_def)

lemma same_tables_simps [simp]: "same_tables a a" "same_tables a (b\<lparr>st_audit := x\<rparr>) = same_tables a b" "same_tables (a\<lparr>st_audit := x\<rparr>) b = same_tables a b"
  by (simp_all add: same_tables_def)

lemma same_tables_trans: "same_tables a b \<Longrightarrow> same_tables b c \<Longrightarrow> same_tables a c"
  and same_tables_sym: "same_tables a b \<Longrightarrow> same_tables b a"
  by (simp_all add: same_tables_def)

lemma change_same: "same_tables a b \<Longrightarrow> same_tables (change c a) (change c b)"
  by (cases c) (auto simp: same_tables_def revoke_tokens_def revoke_sessions_def)

lemma changes_same: "same_tables a b \<Longrightarrow> same_tables (fold change cs a) (fold change cs b)"
  by (induction cs arbitrary: a b) (auto intro: change_same)

text \<open>A keyed transaction changes the tables as its work does.\<close>

lemma keyed_run:
  assumes "run_write wb wc ans (keyed_tx err key hash replay work) db = (db', r)"
    and "\<And>tx v. replay db = Inr (Some tx, v) \<Longrightarrow> tx = db"
    and "\<And>tx tx' resp v. same_tables db tx \<Longrightarrow> work tx = Inr (tx', resp, v) \<Longrightarrow> \<exists>cs. P cs \<and> same_tables (fold change cs tx) tx'"
  shows "same_tables db db' \<or> (\<exists>cs. P cs \<and> same_tables (fold change cs db) db')"
  using assms(1)
proof (cases rule: run_write_cases)
  case (2 tx v)
  from 2(1) show ?thesis
  proof (cases rule: keyed_tx_cases)
    case replayed
    then show ?thesis using assms(2) 2(2) by auto
  next
    case (fresh tx0 tx1 response tx2)
    have a: "same_tables db tx0" using same_tables_keys hit_keeps(1) [OF fresh(1)] by blast
    obtain cs where c: "P cs" "same_tables (fold change cs tx0) tx1" using assms(3) [OF a fresh(2)] by blast
    have "same_tables tx1 db'" using same_tables_keys [OF record_keeps(1) [OF fresh(3)]] fresh(4) 2(2) by simp
    with c changes_same [OF a] same_tables_trans show ?thesis by blast
  qed
qed simp

abbreviation admin :: "user_row \<Rightarrow> bool" where
  "admin u \<equiv> us_Role u = RoleAdmin \<and> us_Enabled u"

definition update_change :: "auth_db \<Rightarrow> string \<Rightarrow> UserUpdate \<Rightarrow> table_change list \<Rightarrow> bool" where
  "update_change db i upd cs \<longleftrightarrow> (\<exists>v f row now. find (\<lambda>u. us_ID u = i) (db_users db) = Some row
     \<and> cs = SetUser i v f # (if uu_Password upd = None then [] else [KillTokens (\<lambda>t. tk_UserID t = i) now, KillSessions (\<lambda>s. se_UserID s = i) now])
     \<and> (\<forall>u. us_ID (f u) = us_ID u) \<and> distinct (map us_Username (map (\<lambda>u. if us_ID u = i \<and> us_Revision u = v then f u else u) (db_users db)))
     \<and> (admin row \<longrightarrow> enabled_admins db \<le> 1 \<longrightarrow> admin (f row)))"

fun permitted :: "auth_op \<Rightarrow> auth_db \<Rightarrow> table_change list \<Rightarrow> bool" where
  "permitted (CreateUserOp salt rnd ans now name pw role o') db cs \<longleftrightarrow>
     (\<exists>r. cs = [AddUser r] \<and> (\<forall>u\<in>set (db_users db). us_ID u \<noteq> us_ID r \<and> us_Username u \<noteq> us_Username r))"
| "permitted (UpdateUserOp salt ans now i upd o') db cs \<longleftrightarrow> update_change db i upd cs"
| "permitted (DeleteUserOp ans i o') db cs \<longleftrightarrow>
     cs = [DropUser i] \<and> (\<exists>row. find (\<lambda>u. us_ID u = i) (db_users db) = Some row \<and> (admin row \<longrightarrow> \<not> enabled_admins db \<le> 1))"
| "permitted (CreateTokenOp r1 r2 ans now uid name ex o' before) db cs \<longleftrightarrow> (\<exists>r. cs = [AddToken r] \<and> tk_UserID r = trim_space uid)"
| "permitted (RevokeUserTokenOp ans now uid i o') db cs \<longleftrightarrow> (\<exists>p t. cs = [KillTokens p t])"
| "permitted (RevokeTokenOp ans now i o') db cs \<longleftrightarrow> (\<exists>p t. cs = [KillTokens p t])"
| "permitted (CreateSessionOp ans uid sid csrf ex) db cs \<longleftrightarrow> (\<exists>r. cs = [AddSession r] \<and> se_UserID r = uid)"
| "permitted (RevokeSessionOp ans now sid) db cs \<longleftrightarrow> (\<exists>p t. cs = [KillSessions p t])"

lemma same_tables_admins: "same_tables a b \<Longrightarrow> enabled_admins b = enabled_admins a"
  by (simp add: same_tables_def enabled_admins_def)

lemma update_fields_admin:
  assumes "update_fields err upd tx user = Inr user'" "enabled_admins tx \<le> 1" "u_Role user = RoleAdmin" "u_Enabled user"
  shows "u_Role user' = RoleAdmin \<and> u_Enabled user'"
  using assms by (auto simp: update_fields_def split: option.splits if_splits)

lemma write_user_Inr:
  assumes "write_user err i v f tx = Inr tx'"
  shows "tx' = change (SetUser i v f) tx"
    and "distinct (map us_Username (map (\<lambda>u. if us_ID u = i \<and> us_Revision u = v then f u else u) (db_users tx)))"
  using assms by (auto simp: write_user_def Let_def split: if_splits)

lemma update_work_change:
  assumes "update_work env salt err now i upd o' hash user tx = Inr (tx', resp, v)" "find (\<lambda>u. us_ID u = i) (db_users tx) = Some row"
    and "admin row \<Longrightarrow> enabled_admins tx \<le> 1 \<Longrightarrow> u_Role user = RoleAdmin \<and> u_Enabled user"
  shows "\<exists>cs. update_change tx i upd cs \<and> same_tables (fold change cs tx) tx'"
proof -
  obtain f tx1 where w: "write_user err i (u_Revision user) f tx = Inr tx1" and f: "\<And>u. us_ID (f u) = us_ID u \<and> us_Role (f u) = u_Role user \<and> us_Enabled (f u) = u_Enabled user"
    and t: "tx' = (if uu_Password upd = None then tx1 else revoke_sessions (\<lambda>s. se_UserID s = i) now (revoke_tokens (\<lambda>t. tk_UserID t = i) now tx1))\<lparr>st_audit := st_audit tx'\<rparr>"
    using assms(1) by (fastforce simp: update_work_def Let_def split: if_splits)
  let ?cs = "SetUser i (u_Revision user) f # (if uu_Password upd = None then [] else [KillTokens (\<lambda>t. tk_UserID t = i) now, KillSessions (\<lambda>s. se_UserID s = i) now])"
  have "update_change tx i upd ?cs"
    unfolding update_change_def using assms(2,3) f write_user_Inr(2) [OF w]
    by (intro exI [of _ "u_Revision user"] exI [of _ f] exI [of _ row] exI [of _ now]) auto
  moreover have "same_tables (fold change ?cs tx) tx'"
    by (subst t) (simp add: write_user_Inr(1) [OF w])
  ultimately show ?thesis by blast
qed

lemma permitted_same: "same_tables a b \<Longrightarrow> permitted op a cs \<longleftrightarrow> permitted op b cs"
  by (cases op) (simp_all add: same_tables_def update_change_def enabled_admins_def)

lemma update_change_same: "same_tables a b \<Longrightarrow> update_change a i upd cs \<longleftrightarrow> update_change b i upd cs"
  by (simp add: same_tables_def update_change_def enabled_admins_def)

lemma insert_user_Inr:
  "insert_user err r tx = Inr tx' \<Longrightarrow> tx' = change (AddUser r) tx \<and> (\<forall>u\<in>set (db_users tx). us_ID u \<noteq> us_ID r \<and> us_Username u \<noteq> us_Username r)"
  by (auto simp: insert_user_def split: option.splits if_splits)

lemma create_user_effect:
  "same_tables db (fst (CreateUserWithOptions env salt rnd ans now name pw role o' db))
   \<or> (\<exists>cs. permitted (CreateUserOp salt rnd ans now name pw role o') db cs \<and> same_tables (fold change cs db) (fst (CreateUserWithOptions env salt rnd ans now name pw role o' db)))"
proof -
  let ?u = "CreateUserWithOptions env salt rnd ans now name pw role o' db"
  show ?thesis
  proof (cases "and_then (validateUsername (trim_space name)) (ValidateRole role) = None \<and> (\<exists>h i. HashPassword (ae_crypto env) salt pw = Inr h \<and> randomID rnd = Inr i)")
    case True
    then obtain h i where h: "and_then (validateUsername (trim_space name)) (ValidateRole role) = None" "HashPassword (ae_crypto env) salt pw = Inr h" "randomID rnd = Inr i" by blast
    show ?thesis
      unfolding CreateUserWithOptions_def Let_def h option.case sum.case
    proof (rule keyed_run [OF prod.collapse [symmetric]], goal_cases)
      case (2 tx tx' resp v)
      then obtain r a where "tx' = (change (AddUser r) tx)\<lparr>st_audit := a\<rparr>" "\<forall>u\<in>set (db_users tx). us_ID u \<noteq> us_ID r \<and> us_Username u \<noteq> us_Username r"
        by (auto dest!: insert_user_Inr)
      then show ?case using 2(1) by (intro exI [of _ "[AddUser r]"]) (auto simp: same_tables_def)
    qed auto
  next
    case False
    then have "fst ?u = db"
      by (cases "and_then (validateUsername (trim_space name)) (ValidateRole role)"; cases "HashPassword (ae_crypto env) salt pw"; cases "randomID rnd")
        (auto simp: CreateUserWithOptions_def Let_def split: option.splits)
    then show ?thesis by simp
  qed
qed

lemma update_user_effect:
  "same_tables db (fst (UpdateUser env salt ans now i upd o' db))
   \<or> (\<exists>cs. update_change db i upd cs \<and> same_tables (fold change cs db) (fst (UpdateUser env salt ans now i upd o' db)))"
proof (cases "trim_space i = []")
  case False
  obtain db' r where u: "UpdateUser env salt ans now i upd o' db = (db', r)" by fastforce
  then have "run_write id id ans (\<lambda>tx. bind_result (user_where (\<lambda>u. us_ID u = i) (tx_err ans ''select user for update'') tx) (\<lambda>row.
        bind_result (scanUser row) (\<lambda>user0. bind_result (update_fields (tx_err ans) upd tx user0) (\<lambda>user.
          keyed_tx (tx_err ans) (wo_IdempotencyKey o') (ae_requestHash env (UpdateUserRequest i (uu_Username upd) (uu_Password upd \<noteq> None) (uu_Role upd) (uu_Enabled upd) (wo_IfMatch o')))
            (\<lambda>tx'. bind_result (GetUser (tx_err ans ''select user'') i tx') (\<lambda>u. Inr (None, u)))
            (update_work env salt (tx_err ans) now i upd o' (us_PasswordHash row) user) tx)))) db = (db', r)"
    using False by (simp add: UpdateUser_def Let_def)
  then show ?thesis
  proof (cases rule: run_write_cases)
    case (2 tx v)
    then obtain row user0 user where row: "find (\<lambda>u. us_ID u = i) (db_users db) = Some row" and sc: "scanUser row = Inr user0" and uf: "update_fields (tx_err ans) upd db user0 = Inr user"
      and k: "keyed_tx (tx_err ans) (wo_IdempotencyKey o') (ae_requestHash env (UpdateUserRequest i (uu_Username upd) (uu_Password upd \<noteq> None) (uu_Role upd) (uu_Enabled upd) (wo_IfMatch o')))
            (\<lambda>tx'. bind_result (GetUser (tx_err ans ''select user'') i tx') (\<lambda>u. Inr (None, u)))
            (update_work env salt (tx_err ans) now i upd o' (us_PasswordHash row) user) db = Inr (Some tx, v)"
      by (auto simp: user_where_def split: option.splits)
    from k show ?thesis
    proof (cases rule: keyed_tx_cases)
      case (fresh tx0 tx1 response tx2)
      have a: "same_tables db tx0" using same_tables_keys hit_keeps(1) [OF fresh(1)] by blast
      have "\<exists>cs. update_change tx0 i upd cs \<and> same_tables (fold change cs tx0) tx1"
        using update_work_change [OF fresh(2)] row a update_fields_admin [OF uf] scanUser_fields [OF sc] same_tables_admins [OF a] by (auto simp: same_tables_def)
      then obtain cs where c: "update_change tx0 i upd cs" "same_tables (fold change cs tx0) tx1" by blast
      have "same_tables tx1 db'" using same_tables_keys [OF record_keeps(1) [OF fresh(3)]] fresh(4) 2(2) by simp
      then have "same_tables (fold change cs db) db'" using c(2) changes_same [OF a] same_tables_trans by blast
      moreover have "update_change db i upd cs" using c(1) update_change_same [OF a] by simp
      ultimately show ?thesis using u by auto
    qed (auto simp: GetUser_def)
  qed (simp add: u)
qed (simp add: UpdateUser_def)

lemma delete_work_change:
  assumes "delete_work env err i o' tx = Inr (tx', resp, v)"
  shows "permitted (DeleteUserOp ans i o') tx [DropUser i] \<and> same_tables (fold change [DropUser i] tx) tx'"
  using assms by (auto simp: delete_work_def user_where_def delete_user_row_def same_tables_def split: option.splits if_splits)

lemma delete_user_effect:
  "same_tables db (fst (DeleteUser env ans i o' db))
   \<or> (\<exists>cs. permitted (DeleteUserOp ans i o') db cs \<and> same_tables (fold change cs db) (fst (DeleteUser env ans i o' db)))"
  unfolding DeleteUser_def
proof (rule keyed_run [OF prod.collapse [symmetric]], goal_cases)
  case (2 tx tx' resp v)
  from delete_work_change [OF 2(2)] show ?case using permitted_same [OF 2(1)] by blast
qed simp

lemma replay_token_same: "replay_token env err key tx = Inr (Some tx', v) \<Longrightarrow> tx' = tx"
  by (auto simp: replay_token_def split: option.splits sum.splits if_splits)

lemma create_token_effect:
  "same_tables db (fst (CreateAPITokenWithOptions env r1 r2 ans now uid name ex o' before db))
   \<or> (\<exists>cs. (\<exists>r. cs = [AddToken r] \<and> tk_UserID r = trim_space uid)
        \<and> same_tables (fold change cs db) (fst (CreateAPITokenWithOptions env r1 r2 ans now uid name ex o' before db)))"
proof (cases "token_request_check (tx_err ans) now (trim_space uid) (trim_space name) ex before")
  case None
  show ?thesis unfolding CreateAPITokenWithOptions_def Let_def None option.case
  proof (rule keyed_run [OF prod.collapse [symmetric]], goal_cases)
    case (1 tx v)
    then show ?case using replay_token_same by metis
  next
    case (2 tx tx' resp v)
    then obtain r a where "tx' = (change (AddToken r) tx)\<lparr>st_audit := a\<rparr>" "tk_UserID r = trim_space uid"
      by (auto simp: insert_token_def split: if_splits)
    then show ?case by (intro exI [of _ "[AddToken r]"]) auto
  qed
qed (simp add: CreateAPITokenWithOptions_def)

lemma revoke_work_change:
  "revoke_work env err now i p attrs o' tx = Inr (tx', resp, v) \<Longrightarrow> same_tables (fold change [KillTokens p now] tx) tx'"
  by (auto simp: revoke_work_def split: if_splits)

lemma revoke_effects:
  "same_tables db (fst (RevokeAPITokenForUser env ans now uid i o' db))
   \<or> (\<exists>cs. (\<exists>p t. cs = [KillTokens p t]) \<and> same_tables (fold change cs db) (fst (RevokeAPITokenForUser env ans now uid i o' db)))"
  "same_tables db (fst (RevokeAPITokenWithOptions env ans now i o' db))
   \<or> (\<exists>cs. (\<exists>p t. cs = [KillTokens p t]) \<and> same_tables (fold change cs db) (fst (RevokeAPITokenWithOptions env ans now i o' db)))"
proof -
  show "same_tables db (fst (RevokeAPITokenForUser env ans now uid i o' db))
   \<or> (\<exists>cs. (\<exists>p t. cs = [KillTokens p t]) \<and> same_tables (fold change cs db) (fst (RevokeAPITokenForUser env ans now uid i o' db)))"
  proof (cases "trim_space uid = [] \<or> trim_space i = []")
    case False
    then have g: "(trim_space uid = [] \<or> trim_space i = []) = False" by simp
    show ?thesis unfolding RevokeAPITokenForUser_def g if_False
      by (rule keyed_run [OF prod.collapse [symmetric]]) (auto dest!: revoke_work_change)
  qed (auto simp: RevokeAPITokenForUser_def)
  show "same_tables db (fst (RevokeAPITokenWithOptions env ans now i o' db))
   \<or> (\<exists>cs. (\<exists>p t. cs = [KillTokens p t]) \<and> same_tables (fold change cs db) (fst (RevokeAPITokenWithOptions env ans now i o' db)))"
    unfolding RevokeAPITokenWithOptions_def
    by (rule keyed_run [OF prod.collapse [symmetric]]) (auto dest!: revoke_work_change)
qed

lemma create_session_effect:
  "fst (CreateWebSession env ans uid sid csrf ex db) = db
   \<or> fst (CreateWebSession env ans uid sid csrf ex db) = change (AddSession \<lparr>se_Hash = HashToken env sid, se_UserID = uid, se_CSRFHash = HashToken env csrf,
        se_ExpiresAt = Some ex, se_RevokedAt = None\<rparr>) db"
  by (auto simp: CreateWebSession_def run_write_def split: option.splits sum.splits prod.splits if_splits)

lemma revoke_session_effect:
  "fst (RevokeWebSession env ans now sid db) = db
   \<or> fst (RevokeWebSession env ans now sid db) = change (KillSessions (\<lambda>s. se_Hash s = HashToken env sid) now) db"
  by (auto simp: RevokeWebSession_def run_write_def split: option.splits sum.splits prod.splits if_splits)

text \<open>Every operation leaves the tables alone or makes a permitted change.\<close>

lemma op_effect: "same_tables db (auth_run env op db) \<or> (\<exists>cs. permitted op db cs \<and> same_tables (fold change cs db) (auth_run env op db))"
proof (cases op)
  case (CreateSessionOp ans uid sid csrf ex)
  let ?r = "\<lparr>se_Hash = HashToken (ae_crypto env) sid, se_UserID = uid, se_CSRFHash = HashToken (ae_crypto env) csrf, se_ExpiresAt = Some ex, se_RevokedAt = None\<rparr>"
  have "permitted op db [AddSession ?r]" by (simp add: CreateSessionOp)
  moreover have "auth_run env op db = db \<or> auth_run env op db = fold change [AddSession ?r] db"
    using create_session_effect [of "ae_crypto env" ans uid sid csrf ex db] by (simp add: CreateSessionOp)
  ultimately show ?thesis using same_tables_simps(1) by metis
next
  case (RevokeSessionOp ans now sid)
  let ?c = "KillSessions (\<lambda>s. se_Hash s = HashToken (ae_crypto env) sid) now"
  have "permitted op db [?c]" by (simp add: RevokeSessionOp)
  moreover have "auth_run env op db = db \<or> auth_run env op db = fold change [?c] db"
    using revoke_session_effect [of "ae_crypto env" ans now sid db] by (simp add: RevokeSessionOp)
  ultimately show ?thesis using same_tables_simps(1) by metis
qed (simp_all only: auth_run.simps permitted.simps create_user_effect [unfolded permitted.simps] update_user_effect delete_user_effect [unfolded permitted.simps]
    create_token_effect revoke_effects)

section \<open>There is always an administrator\<close>

definition users_ok :: "auth_db \<Rightarrow> bool" where
  "users_ok db \<longleftrightarrow> distinct (map us_ID (db_users db)) \<and> distinct (map us_Username (db_users db)) \<and> (\<exists>u\<in>set (db_users db). admin u)"

lemma users_ok_same: "same_tables a b \<Longrightarrow> users_ok a \<Longrightarrow> users_ok b"
  by (simp add: same_tables_def users_ok_def)

lemma other_admin:
  assumes "distinct (map us_ID (db_users db))" "\<not> enabled_admins db \<le> 1"
  shows "\<exists>u\<in>set (db_users db). admin u \<and> us_ID u \<noteq> i"
proof (rule ccontr)
  let ?as = "filter admin (db_users db)"
  assume "\<not> ?thesis"
  then have "us_ID ` set ?as \<subseteq> {i}" by auto
  moreover have "distinct (map us_ID ?as)" using assms(1) distinct_map_filter by blast
  ultimately have "length (map us_ID ?as) \<le> 1" using card_mono [of "{i}" "set (map us_ID ?as)"] distinct_card [of "map us_ID ?as"] by simp
  then show False using assms(2) by (simp add: enabled_admins_def)
qed

lemma find_by_id: "distinct (map us_ID us) \<Longrightarrow> find (\<lambda>u. us_ID u = i) us = Some row \<Longrightarrow> u \<in> set us \<Longrightarrow> us_ID u = i \<Longrightarrow> u = row"
  by (induction us) (auto split: if_splits dest: find_SomeD')

lemma map_if_ids: "\<forall>u. us_ID (f u) = us_ID u \<Longrightarrow> map us_ID (map (\<lambda>u. if us_ID u = i \<and> us_Revision u = v then f u else u) us) = map us_ID us"
  by (induction us) auto

lemma update_keeps_users:
  assumes "users_ok db" "update_change db i upd cs"
  shows "users_ok (fold change cs db)"
proof -
  obtain v f row now where row: "find (\<lambda>u. us_ID u = i) (db_users db) = Some row"
    and cs: "cs = SetUser i v f # (if uu_Password upd = None then [] else [KillTokens (\<lambda>t. tk_UserID t = i) now, KillSessions (\<lambda>s. se_UserID s = i) now])"
    and f: "\<forall>u. us_ID (f u) = us_ID u" and d: "distinct (map us_Username (map (\<lambda>u. if us_ID u = i \<and> us_Revision u = v then f u else u) (db_users db)))"
    and g: "admin row \<longrightarrow> enabled_admins db \<le> 1 \<longrightarrow> admin (f row)"
    using assms(2) unfolding update_change_def by blast
  let ?g = "\<lambda>u. if us_ID u = i \<and> us_Revision u = v then f u else u"
  have u: "db_users (fold change cs db) = map ?g (db_users db)" using cs by (simp add: revoke_tokens_def revoke_sessions_def)
  have ids: "distinct (map us_ID (db_users db))" using assms(1) by (simp add: users_ok_def)
  have "\<exists>u\<in>set (db_users db). admin (?g u)"
  proof (cases "\<exists>u\<in>set (db_users db). admin u \<and> us_ID u \<noteq> i")
    case False
    then obtain a where "a \<in> set (db_users db)" "admin a" "us_ID a = i" using assms(1) by (auto simp: users_ok_def)
    moreover from this have "a = row" using find_by_id [OF ids row] by blast
    moreover have "enabled_admins db \<le> 1" using other_admin [OF ids] False by blast
    ultimately show ?thesis using g by (intro bexI [of _ row]) auto
  qed auto
  then obtain a where "a \<in> set (db_users db)" "admin (?g a)" by blast
  then have "\<exists>u\<in>set (map ?g (db_users db)). admin u" by (metis (no_types, lifting) image_eqI set_map)
  moreover have "distinct (map us_ID (map ?g (db_users db)))" unfolding map_if_ids [OF f] by (rule ids)
  ultimately show ?thesis using d unfolding users_ok_def u by blast
qed

lemma permitted_keeps_users:
  assumes "users_ok db" "permitted op db cs"
  shows "users_ok (fold change cs db)"
proof (cases op)
  case (UpdateUserOp salt ans now i upd o')
  then show ?thesis using update_keeps_users assms by simp
next
  case (DeleteUserOp ans i o')
  then obtain row where r: "cs = [DropUser i]" "find (\<lambda>u. us_ID u = i) (db_users db) = Some row" "admin row \<longrightarrow> \<not> enabled_admins db \<le> 1" using assms(2) by auto
  have ids: "distinct (map us_ID (db_users db))" using assms(1) by (simp add: users_ok_def)
  have "\<exists>u\<in>set (db_users db). admin u \<and> us_ID u \<noteq> i"
    using other_admin [OF ids] find_by_id [OF ids r(2)] r(3) assms(1) unfolding users_ok_def by metis
  then show ?thesis using r(1) assms(1) by (auto simp: users_ok_def distinct_map_filter)
next
  case (CreateUserOp salt rnd ans now name pw role o')
  then show ?thesis using assms by (fastforce simp: users_ok_def)
qed (use assms in \<open>auto simp: users_ok_def revoke_tokens_def revoke_sessions_def\<close>)

text \<open>
  C13. There is always an administrator: from tables with one enabled administrator, no sequence of account
  operations, whatever statements or commits fail, leads to tables without one, and identifiers and user names
  stay unique.
\<close>

theorem last_admin_stays:
  assumes "users_ok db"
  shows "users_ok (fold (auth_run env) ops db)"
  using assms
proof (induction ops arbitrary: db)
  case (Cons op ops)
  have "users_ok (auth_run env op db)"
    using op_effect [of db env op] permitted_keeps_users [OF Cons.prems] Cons.prems users_ok_same by blast
  with Cons.IH show ?case by simp
qed simp

section \<open>A password change cuts off\<close>

definition no_live :: "string \<Rightarrow> auth_db \<Rightarrow> bool" where
  "no_live i db \<longleftrightarrow> (\<forall>t\<in>set (db_tokens db). tk_UserID t = i \<longrightarrow> tk_RevokedAt t \<noteq> None) \<and> (\<forall>s\<in>set (db_sessions db). se_UserID s = i \<longrightarrow> se_RevokedAt s \<noteq> None)"

lemma no_live_same: "same_tables a b \<Longrightarrow> no_live i a \<Longrightarrow> no_live i b"
  by (simp add: same_tables_def no_live_def)

lemma kills_no_live: "no_live i (revoke_sessions (\<lambda>s. se_UserID s = i) t1 (revoke_tokens (\<lambda>t. tk_UserID t = i) t2 db))"
  by (simp add: no_live_def revoke_sessions_def revoke_tokens_def del: if_image_distrib)

fun harmless :: "string \<Rightarrow> table_change \<Rightarrow> bool" where
  "harmless i (AddToken r) = (tk_UserID r \<noteq> i)"
| "harmless i (AddSession r) = (se_UserID r \<noteq> i)"
| "harmless i _ = True"

lemma change_no_live: "no_live i db \<Longrightarrow> harmless i c \<Longrightarrow> no_live i (change c db)"
  by (cases c) (auto simp: no_live_def revoke_sessions_def revoke_tokens_def simp del: if_image_distrib)

lemma changes_no_live: "no_live i db \<Longrightarrow> list_all (harmless i) cs \<Longrightarrow> no_live i (fold change cs db)"
  by (induction cs arbitrary: db) (simp_all add: change_no_live)

lemma permitted_no_live:
  assumes "no_live i db" "permitted op db cs" "grants op \<noteq> Some i"
  shows "no_live i (fold change cs db)"
proof (rule changes_no_live [OF assms(1)])
  show "list_all (harmless i) cs" using assms(2,3) by (cases op) (auto simp: update_change_def split: if_splits)
qed

lemma run_no_live: "no_live i db \<Longrightarrow> grants op \<noteq> Some i \<Longrightarrow> no_live i (auth_run env op db)"
  using op_effect [of db env op] permitted_no_live no_live_same by blast

text \<open>A new password kills every credential of the user.\<close>

lemma update_kills:
  assumes "UpdateUser env salt ans now i upd o' db = (db', Inr u)" "uu_Password upd \<noteq> None" "commit_told ans"
    and "map_of (st_keys db) (trim_space (wo_IdempotencyKey o')) = None"
  shows "no_live i db'"
proof -
  have "trim_space i \<noteq> []" using assms(1) by (auto simp: UpdateUser_def)
  then have run: "run_write id id ans (\<lambda>tx. bind_result (user_where (\<lambda>u. us_ID u = i) (tx_err ans ''select user for update'') tx) (\<lambda>row.
        bind_result (scanUser row) (\<lambda>user0. bind_result (update_fields (tx_err ans) upd tx user0) (\<lambda>user.
          keyed_tx (tx_err ans) (wo_IdempotencyKey o') (ae_requestHash env (UpdateUserRequest i (uu_Username upd) (uu_Password upd \<noteq> None) (uu_Role upd) (uu_Enabled upd) (wo_IfMatch o')))
            (\<lambda>tx'. bind_result (GetUser (tx_err ans ''select user'') i tx') (\<lambda>u. Inr (None, u)))
            (update_work env salt (tx_err ans) now i upd o' (us_PasswordHash row) user) tx)))) db = (db', Inr u)"
    using assms(1) by (simp add: UpdateUser_def Let_def)
  obtain row :: user_row and user ntx where k: "keyed_tx (tx_err ans) (wo_IdempotencyKey o') (ae_requestHash env (UpdateUserRequest i (uu_Username upd) (uu_Password upd \<noteq> None) (uu_Role upd) (uu_Enabled upd) (wo_IfMatch o')))
            (\<lambda>tx'. bind_result (GetUser (tx_err ans ''select user'') i tx') (\<lambda>u. Inr (None, u)))
            (update_work env salt (tx_err ans) now i upd o' (us_PasswordHash row) user) db = Inr (ntx, u)" and n: "ntx = None \<or> ntx = Some db'"
  proof -
    obtain ntx where "bind_result (user_where (\<lambda>u. us_ID u = i) (tx_err ans ''select user for update'') db) (\<lambda>row.
        bind_result (scanUser row) (\<lambda>user0. bind_result (update_fields (tx_err ans) upd db user0) (\<lambda>user.
          keyed_tx (tx_err ans) (wo_IdempotencyKey o') (ae_requestHash env (UpdateUserRequest i (uu_Username upd) (uu_Password upd \<noteq> None) (uu_Role upd) (uu_Enabled upd) (wo_IfMatch o')))
            (\<lambda>tx'. bind_result (GetUser (tx_err ans ''select user'') i tx') (\<lambda>u. Inr (None, u)))
            (update_work env salt (tx_err ans) now i upd o' (us_PasswordHash row) user) db))) = Inr (ntx, u)" "ntx = None \<or> ntx = Some db'"
      using run assms(3) by (rule run_write_success) blast+
    then show thesis by (simp only: bind_result_Inr) (blast intro: that)
  qed
  from k show ?thesis
  proof (cases rule: keyed_tx_cases)
    case replayed
    have "\<not> (trim_space (wo_IdempotencyKey o') = [])" using hit_keeps(5) [OF replayed(1)] by blast
    then show ?thesis using hit_keeps(4) [OF replayed(1)] assms(4) by auto
  next
    case (fresh tx0 tx1 response tx2)
    obtain tx3 a where "tx1 = (revoke_sessions (\<lambda>s. se_UserID s = i) now (revoke_tokens (\<lambda>t. tk_UserID t = i) now tx3))\<lparr>st_audit := a\<rparr>"
      using fresh(2) assms(2) by (auto simp: update_work_def Let_def split: if_splits)
    then have "same_tables (revoke_sessions (\<lambda>s. se_UserID s = i) now (revoke_tokens (\<lambda>t. tk_UserID t = i) now tx3)) tx1" by simp
    then have "no_live i tx1" using kills_no_live no_live_same by blast
    moreover have "same_tables tx1 db'" using same_tables_keys [OF record_keeps(1) [OF fresh(3)]] fresh(4) n by auto
    ultimately show ?thesis using no_live_same by blast
  qed
qed

text \<open>
  C12. A password change cuts off. After the password of a user was changed, none of the credentials that existed before
  (API tokens and browser sessions) gets in for that user, whatever operations follow, until the user is given a
  new token or a new session.
\<close>

theorem password_change_cuts_off:
  assumes "UpdateUser env salt ans now i upd o' db = (db', Inr u)" "uu_Password upd \<noteq> None" "commit_told ans"
    and "map_of (st_keys db) (trim_space (wo_IdempotencyKey o')) = None" "\<forall>op\<in>set ops. grants op \<noteq> Some i"
    and "authorize crypto err later r required (fold (auth_run env) ops db') = Inr v"
  shows "u_ID v \<noteq> i"
proof -
  have "no_live i (fold (auth_run env) ops db')" using update_kills [OF assms(1-4)] assms(5)
    by (induction ops arbitrary: db') (auto simp: run_no_live)
  then show ?thesis using authorize_sound [OF assms(6)] scanUser_fields unfolding no_live_def live_token_def live_session_def by metis
qed

section \<open>New credentials let in\<close>

lemma find_unique: "x \<in> set xs \<Longrightarrow> P x \<Longrightarrow> (\<And>y. y \<in> set xs \<Longrightarrow> P y \<Longrightarrow> y = x) \<Longrightarrow> find P xs = Some x"
proof (induction xs)
  case (Cons a xs)
  show ?case
  proof (cases "P a")
    case True
    then show ?thesis using Cons.prems(3) [of a] by simp
  next
    case False
    then have "x \<in> set xs" using Cons.prems(1,2) by (cases "x = a") simp_all
    then have "find P xs = Some x" by (rule Cons.IH [OF _ Cons.prems(2)]) (simp add: Cons.prems(3))
    then show ?thesis using False by simp
  qed
qed simp

lemma user_by_id:
  assumes "distinct (map us_ID us)" "row \<in> set us"
  shows "find (\<lambda>u. us_ID u = us_ID row) us = Some row"
proof (rule find_unique)
  show "y = row" if h: "y \<in> set us" "us_ID y = us_ID row" for y using assms h by (meson distinct_map inj_onD)
qed (use assms in simp_all)

lemma CreateWebSession_Inr:
  assumes "CreateWebSession env ans uid sid csrf ex db = (db', Inr w)" "commit_told ans"
  shows "trim_space sid \<noteq> []" "\<forall>s\<in>set (db_sessions db). se_Hash s \<noteq> HashToken env sid"
    and "db' = change (AddSession \<lparr>se_Hash = HashToken env sid, se_UserID = uid, se_CSRFHash = HashToken env csrf, se_ExpiresAt = Some ex, se_RevokedAt = None\<rparr>) db"
proof -
  have g: "\<not> (trim_space uid = [] \<or> trim_space sid = [] \<or> trim_space csrf = [] \<or> ex = 0)" using assms(1) by (auto simp: CreateWebSession_def)
  then show "trim_space sid \<noteq> []" by simp
  have run: "run_write id id ans (\<lambda>tx. check_then (tx_err ans ''insert session'')
        (if (\<exists>s\<in>set (db_sessions tx). se_Hash s = HashToken env sid) \<or> \<not> (\<exists>u\<in>set (db_users tx). us_ID u = uid) then Inl (ErrStd ''constraint'')
         else Inr (Some (tx\<lparr>db_sessions := db_sessions tx @ [\<lparr>se_Hash = HashToken env sid, se_UserID = uid, se_CSRFHash = HashToken env csrf,
            se_ExpiresAt = Some ex, se_RevokedAt = None\<rparr>]\<rparr>), ()))) db = (db', Inr w)"
    using assms(1) g by (simp add: CreateWebSession_def)
  show "\<forall>s\<in>set (db_sessions db). se_Hash s \<noteq> HashToken env sid" using run assms(2) by (rule run_write_success) (auto split: if_splits)
  show "db' = change (AddSession \<lparr>se_Hash = HashToken env sid, se_UserID = uid, se_CSRFHash = HashToken env csrf, se_ExpiresAt = Some ex, se_RevokedAt = None\<rparr>) db"
    using run assms(2) by (rule run_write_success) (auto split: if_splits)
qed

text \<open>What a successful login has checked and stored.\<close>

lemma login_Inr:
  assumes "login env ans remote name pw (l, db) = ((l', db'), Inr (user, cookie, csrf))" "commit_told (la_tx ans)"
  obtains row where "row \<in> set (db_users db)" "us_Username row = trim_space name" "VerifyPassword env (us_PasswordHash row) pw" "us_Enabled row" "scanUser row = Inr user"
    "trim_space cookie \<noteq> []" "\<forall>s\<in>set (db_sessions db). se_Hash s \<noteq> HashToken env cookie"
    "db' = change (AddSession \<lparr>se_Hash = HashToken env cookie, se_UserID = u_ID user, se_CSRFHash = HashToken env csrf,
        se_ExpiresAt = Some (la_now ans + sessionTTL), se_RevokedAt = None\<rparr>) db"
proof -
  obtain l1 allowed retry where al: "allow (la_range ans) (la_now ans) (loginKeys remote name) l = (l1, allowed, retry)" by (metis prod.exhaust)
  note unf = assms(1) [unfolded login_def Let_def prod.case al]
  have "allowed" using unf by (cases allowed) auto
  then obtain u where u: "Authenticate env (la_select ans) name pw db = Inr u" using unf by (cases "Authenticate env (la_select ans) name pw db") (auto split: if_splits)
  obtain a b where ab: "la_random ans = Inr (a, b)" using unf \<open>allowed\<close> u by (cases "la_random ans") auto
  obtain w where w: "CreateWebSession env (la_tx ans) (u_ID u) (hex_encode a) (hex_encode b) (la_now ans + sessionTTL) db = (db', Inr w)"
    and eq: "user = u" "cookie = hex_encode a" "csrf = hex_encode b"
    using unf \<open>allowed\<close> u ab by (cases "CreateWebSession env (la_tx ans) (u_ID u) (hex_encode a) (hex_encode b) (la_now ans + sessionTTL) db") (auto split: sum.splits)
  obtain row where r: "row \<in> set (db_users db)" "us_Username row = trim_space name" "VerifyPassword env (us_PasswordHash row) pw" "us_Enabled row" "scanUser row = Inr u"
    using u by (auto simp: Authenticate_def split: option.splits if_splits dest!: find_SomeD')
  show thesis
    using that [OF r [folded eq(1)]] CreateWebSession_Inr [OF w assms(2)] eq by simp
qed



section \<open>A retry that is refused\<close>

text \<open>
  The guard for the last administrator runs before the look-up of the idempotency key, and also for a user that is
  disabled already: a retry of an accepted request that disabled the second of two
  administrators is refused, although its key and its response are stored.
\<close>

lemma disable_retry_refused:
  assumes "find (\<lambda>u. us_ID u = i) (db_users db) = Some row" "scanUser row = Inr user" "us_Role row = RoleAdmin" "enabled_admins db \<le> 1" "trim_space i \<noteq> []"
    and "upd = \<lparr>uu_Username = None, uu_Password = None, uu_Role = None, uu_Enabled = Some False\<rparr>" "\<forall>s. tx_err ans s = None"
  shows "UpdateUser env salt ans now i upd o' db = (db, Inl (ErrNew ''cannot disable the last enabled admin''))"
  using assms scanUser_fields [OF assms(2)]
  by (simp add: UpdateUser_def run_write_def user_where_def update_fields_def)

section \<open>Two users\<close>

definition toy_crypto :: crypto_env where
  "toy_crypto = \<lparr>cx_sha256 = (\<lambda>bs. bs), cx_argon2 = (\<lambda>p s t m n len. take len (p @ replicate len 0))\<rparr>"

definition toy_auth_env :: auth_env where
  "toy_auth_env = \<lparr>ae_crypto = toy_crypto, ae_requestHash = (\<lambda>_. Inr ''h''), ae_MarshalID = (\<lambda>_. Inr []), ae_MarshalRevision = (\<lambda>_. Inr []), ae_UnmarshalID = (\<lambda>_. Inr ''t'')\<rparr>"

definition toy_user :: "string \<Rightarrow> string \<Rightarrow> string \<Rightarrow> user_row" where
  "toy_user i role hash = \<lparr>us_ID = i, us_Username = i, us_PasswordHash = hash, us_PasswordChangedAt = Some 1, us_Role = role, us_Enabled = True,
     us_Revision = 1, us_CreatedAt = Some 1, us_UpdatedAt = Some 1\<rparr>"

definition toy_accounts :: auth_db where
  "toy_accounts = \<lparr>st_keys = [], st_audit = [], db_users = [toy_user ''u1'' RoleAdmin [], toy_user ''u2'' RoleViewer []], db_tokens = [],
     db_sessions = [\<lparr>se_Hash = HashToken toy_crypto ''c'', se_UserID = ''u1'', se_CSRFHash = [], se_ExpiresAt = Some 10, se_RevokedAt = None\<rparr>]\<rparr>"

definition toy_answers :: tx_answers where
  "toy_answers = \<lparr>tx_err = (\<lambda>_. None), tx_commit = (True, None)\<rparr>"

definition toy_options :: WriteOptions where
  "toy_options = \<lparr>wo_IfMatch = 1, wo_IdempotencyKey = [], wo_Actor = ''u1''\<rparr>"

definition toy_get :: http_request where
  "toy_get = \<lparr>hr_Method = ''GET'', hr_Authorization = [], hr_Session = Some ''c'', hr_CSRF = []\<rparr>"

lemmas toy_simps = toy_auth_env_def toy_user_def toy_accounts_def toy_answers_def toy_options_def toy_get_def

lemma toy_trims: "trim_space ''c'' = ''c''" "trim_space ''u2'' = ''u2''" "trim_space ''u1'' = ''u1''"
  by (simp_all add: trim_space_graphic char_class_defs)

lemma toy_roles: "roleAllows RoleAdmin RoleViewer" "roleAllows RoleViewer RoleViewer" "RoleViewer \<noteq> RoleAdmin"
  by (simp_all add: roleAllows_def RoleAdmin_def RoleViewer_def)

lemma toy_users_ok: "users_ok toy_accounts"
  by (simp add: users_ok_def toy_simps)

lemma toy_authorized:
  assumes "find (\<lambda>s. se_Hash s = HashToken toy_crypto ''c'') (db_sessions db) =
      Some \<lparr>se_Hash = HashToken toy_crypto ''c'', se_UserID = ''u1'', se_CSRFHash = [], se_ExpiresAt = Some 10, se_RevokedAt = None\<rparr>"
    and "find (\<lambda>u. us_ID u = ''u1'') (db_users db) = Some (toy_user ''u1'' RoleAdmin [])"
  shows "\<exists>u. authorize toy_crypto (\<lambda>_. None) 5 toy_get RoleViewer db = Inr u \<and> u_ID u = ''u1''"
  using assms
  by (simp add: authorize_def session_user_def GetWebSession_def GetUser_def user_where_def parseStoredTime_def scanUser_def toy_get_def toy_user_def toy_trims toy_roles)

theorem authorize_sound_witness:
  "\<exists>u. authorize toy_crypto (\<lambda>_. None) 5 toy_get RoleViewer toy_accounts = Inr u \<and> (\<exists>row\<in>set (db_users toy_accounts). scanUser row = Inr u \<and> us_Enabled row)"
proof -
  obtain u where u: "authorize toy_crypto (\<lambda>_. None) 5 toy_get RoleViewer toy_accounts = Inr u"
    using toy_authorized [of toy_accounts] by (auto simp: toy_accounts_def toy_user_def)
  from authorize_sound [OF u] have "\<exists>row\<in>set (db_users toy_accounts). scanUser row = Inr u \<and> us_Enabled row" by blast
  with u show ?thesis by blast
qed

theorem last_admin_stays_witness:
  "users_ok toy_accounts \<and> users_ok (fold (auth_run toy_auth_env) [DeleteUserOp toy_answers ''u1'' toy_options, DeleteUserOp toy_answers ''u2'' toy_options] toy_accounts)"
  using toy_users_ok last_admin_stays [OF toy_users_ok] by blast

text \<open>The second user gets a new password; the administrator's session stays.\<close>

definition toy_password :: UserUpdate where
  "toy_password = \<lparr>uu_Username = None, uu_Password = Some (replicate 12 CHR ''x''), uu_Role = None, uu_Enabled = None\<rparr>"

lemma toy_update:
  "\<exists>db u. UpdateUser toy_auth_env (Inr []) toy_answers 2 ''u2'' toy_password toy_options toy_accounts = (db, Inr u)
     \<and> db_sessions db = db_sessions toy_accounts \<and> find (\<lambda>u. us_ID u = ''u1'') (db_users db) = Some (toy_user ''u1'' RoleAdmin [])"
proof -
  obtain h where h: "HashPassword toy_crypto (Inr []) (replicate 12 CHR ''x'') = Inr h" by (simp add: HashPassword_def maxPasswordBytes_def Let_def)
  have k: "validateIdempotencyKey [] = None" by (simp add: validateIdempotencyKey_def contains_any_def)
  show ?thesis
    using h k toy_trims toy_roles(3)
    by (simp add: UpdateUser_def run_write_def user_where_def update_fields_def keyed_tx_def idempotencyHit_def update_work_def write_user_def recordIdempotency_def
        scanUser_def parseStoredTime_def insertAudit_def revoke_tokens_def revoke_sessions_def toy_simps toy_password_def Let_def del: requireRevisionWrite_None
        add: requireRevisionWrite_def)
qed

theorem password_change_cuts_off_witness:
  "\<exists>db u v. UpdateUser toy_auth_env (Inr []) toy_answers 2 ''u2'' toy_password toy_options toy_accounts = (db, Inr u)
     \<and> authorize toy_crypto (\<lambda>_. None) 5 toy_get RoleViewer (fold (auth_run toy_auth_env) [] db) = Inr v \<and> u_ID v \<noteq> ''u2''"
proof -
  obtain db u where u: "UpdateUser toy_auth_env (Inr []) toy_answers 2 ''u2'' toy_password toy_options toy_accounts = (db, Inr u)"
    and d: "db_sessions db = db_sessions toy_accounts" "find (\<lambda>u. us_ID u = ''u1'') (db_users db) = Some (toy_user ''u1'' RoleAdmin [])" using toy_update by blast
  obtain v where v: "authorize toy_crypto (\<lambda>_. None) 5 toy_get RoleViewer db = Inr v" using toy_authorized [of db] d by (auto simp: toy_accounts_def)
  have "uu_Password toy_password \<noteq> None" "commit_told toy_answers" "map_of (st_keys toy_accounts) (trim_space (wo_IdempotencyKey toy_options)) = None"
    by (simp_all add: toy_password_def commit_told_def toy_simps)
  with password_change_cuts_off [OF u, of "[]" toy_crypto "\<lambda>_. None" 5 toy_get RoleViewer v] u v show ?thesis by (intro exI [of _ db] exI [of _ u] exI [of _ v]) auto
qed

text \<open>A login with the right password.\<close>

definition toy_hash :: string where
  "toy_hash = projr (HashPassword toy_crypto (Inr (replicate 16 0)) (replicate 12 CHR ''x''))"

lemma toy_verifies: "VerifyPassword toy_crypto toy_hash (replicate 12 CHR ''x'')"
proof -
  have "HashPassword toy_crypto (Inr (replicate 16 0)) (replicate 12 CHR ''x'') = Inr toy_hash" by (simp add: toy_hash_def HashPassword_def maxPasswordBytes_def Let_def)
  from password_verifies [OF this] show ?thesis by (simp add: toy_crypto_def maxPasswordBytes_def)
qed

definition toy_login :: login_answers where
  "toy_login = \<lparr>la_range = id, la_now = 2, la_select = None, la_random = Inr ([7], [9]), la_tx = toy_answers\<rparr>"

lemma fresh_limiter_allows: "allow id now keys newLoginLimiter = (newLoginLimiter, True, 0)"
proof -
  have "allow_keys now ks newLoginLimiter r = (newLoginLimiter, r)" for ks r by (induction ks) (simp_all add: newLoginLimiter_def)
  then show ?thesis by (simp add: allow_def purgeSomeLocked_def) (simp add: newLoginLimiter_def)
qed

abbreviation toy_logged_out :: auth_db where
  "toy_logged_out \<equiv> toy_accounts\<lparr>db_users := [toy_user ''u1'' RoleAdmin toy_hash], db_sessions := []\<rparr>"



end
