(* ===== verification/Controller_Leadership.thy ===== *)
theory Controller_Leadership
  imports Dataplane_Egress
begin

text \<open>
  \<^verbatim>\<open>internal/controller/leadership.go\<close>: several controller processes share one PostgreSQL database, and a
  lease row with a fencing epoch decides which of them may write. A statement either fails, with the
  transaction rolled back, or has the effect its SQL text describes; a \<^verbatim>\<open>COMMIT\<close> that reports an error may
  nevertheless have happened. \<open>now\<close> is \<^verbatim>\<open>CURRENT_TIMESTAMP\<close>, the start of the statement's transaction. The row
  lock of \<^verbatim>\<open>SELECT ... FOR UPDATE\<close> makes the check of the lease and the commit one step.
\<close>

section \<open>The lease and the local view\<close>

record lease =
  le_owner :: string
  le_epoch :: int
  le_until :: time

record leadershipEvent =
  lev_Leader :: bool
  lev_Epoch :: u64
  lev_Err :: check

record leadership =
  ld_enabled :: bool
  ld_ownerID :: string
  ld_active :: bool
  ld_epoch :: u64
  ld_observers :: "nat list"
  ld_nextObserver :: nat
  ld_notified :: "(nat \<times> leadershipEvent) list"

definition ErrControllerNotLeader :: go_error where "ErrControllerNotLeader = Sentinel ''controller is not the active leader''"
definition ErrLeadershipLost :: go_error where "ErrLeadershipLost = Sentinel ''controller leadership was lost during the operation''"

definition controllerLeaseTTL :: duration where "controllerLeaseTTL = 15 * second"
definition controllerLeaseRenewEvery :: duration where "controllerLeaseRenewEvery = 5 * second"
definition controllerLeaseRetryEvery :: duration where "controllerLeaseRetryEvery = second"

abbreviation max_bigint :: int where "max_bigint \<equiv> 9223372036854775807"

definition newLeadership :: "string \<Rightarrow> bool \<Rightarrow> leadership" where
  "newLeadership ownerID enabled =
     \<lparr>ld_enabled = enabled, ld_ownerID = ownerID, ld_active = (\<not> enabled), ld_epoch = 0,
      ld_observers = [], ld_nextObserver = 0, ld_notified = []\<rparr>"

definition observe :: "leadership \<Rightarrow> leadership \<times> nat" where
  "observe l = (let i = ld_nextObserver l + 1 in
     (l\<lparr>ld_nextObserver := i, ld_observers := ld_observers l @ [i]\<rparr>, i))"

definition unobserve :: "nat \<Rightarrow> leadership \<Rightarrow> leadership" where
  "unobserve i l = l\<lparr>ld_observers := removeAll i (ld_observers l)\<rparr>"

definition RequireLeader :: "leadership \<Rightarrow> check" where
  "RequireLeader l = (if ld_active l then None else Some ErrControllerNotLeader)"

definition ld_notify :: "leadershipEvent \<Rightarrow> leadership \<Rightarrow> leadership" where
  "ld_notify ev l = l\<lparr>ld_notified := ld_notified l @ map (\<lambda>i. (i, ev)) (ld_observers l)\<rparr>"

definition setLeader :: "u64 \<Rightarrow> leadership \<Rightarrow> leadership" where
  "setLeader epoch l =
     (if ld_active l \<and> ld_epoch l = epoch then l
      else ld_notify \<lparr>lev_Leader = True, lev_Epoch = epoch, lev_Err = None\<rparr> (l\<lparr>ld_active := True, ld_epoch := epoch\<rparr>))"

definition setStandby :: "check \<Rightarrow> leadership \<Rightarrow> leadership" where
  "setStandby err l =
     (let l' = l\<lparr>ld_active := False, ld_epoch := 0\<rparr> in
      if ld_active l then ld_notify \<lparr>lev_Leader = False, lev_Epoch = 0, lev_Err = err\<rparr> l' else l')"

section \<open>Statements on the lease row\<close>

record acquire_answers =
  aa_begin :: check
  aa_update :: check
  aa_rows :: check
  aa_select :: check
  aa_commit :: check
  aa_committed :: bool

definition acquire :: "acquire_answers \<Rightarrow> time \<Rightarrow> leadership \<Rightarrow> lease \<Rightarrow> lease \<times> u64 result" where
  "acquire ans now l row =
     (case aa_begin ans of Some err \<Rightarrow> (row, Inl err) | None \<Rightarrow>
      case aa_update ans of Some err \<Rightarrow> (row, Inl err) | None \<Rightarrow>
      if \<not> (le_owner row = [] \<or> le_until row \<le> now) then
        (row, Inl (case aa_rows ans of Some err \<Rightarrow> err | None \<Rightarrow> ErrControllerNotLeader))
      else if le_epoch row = max_bigint then (row, Inl (ErrStd ''bigint out of range''))
      else case aa_rows ans of Some err \<Rightarrow> (row, Inl err) | None \<Rightarrow>
        let row' = \<lparr>le_owner = ld_ownerID l, le_epoch = le_epoch row + 1, le_until = now + controllerLeaseTTL\<rparr> in
        (case aa_select ans of Some err \<Rightarrow> (row, Inl err) | None \<Rightarrow>
         if le_epoch row' \<le> 0 then (row, Inl (ErrNew ''controller lease returned an invalid fencing epoch''))
         else case aa_commit ans of
             Some err \<Rightarrow> (if aa_committed ans then row' else row, Inl err)
           | None \<Rightarrow> (row', Inr (word_of_int (le_epoch row')))))"

text \<open>The answers to one \<^verbatim>\<open>UPDATE\<close> outside a transaction: an error may hide that it happened.\<close>

record update_answers =
  ua_exec :: check
  ua_rows :: check
  ua_done :: bool

definition renew :: "update_answers \<Rightarrow> time \<Rightarrow> leadership \<Rightarrow> lease \<Rightarrow> lease \<times> check" where
  "renew ans now l row =
     (if \<not> ld_active l then (row, Some ErrControllerNotLeader)
      else let hit = (le_owner row = ld_ownerID l \<and> le_epoch row = uint (ld_epoch l) \<and> le_until row > now);
               row' = (if hit then row\<lparr>le_until := now + controllerLeaseTTL\<rparr> else row)
        in case ua_exec ans of
             Some err \<Rightarrow> (if ua_done ans then row' else row, Some err)
           | None \<Rightarrow>
               (case ua_rows ans of
                  Some err \<Rightarrow> (row', Some err)
                | None \<Rightarrow> (row', if hit then None else Some ErrLeadershipLost)))"

definition release :: "update_answers \<Rightarrow> time \<Rightarrow> leadership \<Rightarrow> lease \<Rightarrow> lease \<times> leadership" where
  "release ans now l row =
     (if \<not> ld_enabled l \<or> \<not> ld_active l then (row, l)
      else let hit = (le_owner row = ld_ownerID l \<and> le_epoch row = uint (ld_epoch l));
               row' = (if hit then row\<lparr>le_owner := [], le_until := now\<rparr> else row)
        in (if ua_exec ans = None \<or> ua_done ans then row' else row, setStandby (ua_exec ans) l))"

section \<open>The loop\<close>

record round_times =
  lr_now :: time
  lr_acquire :: acquire_answers
  lr_renew :: update_answers

definition run_round :: "round_times \<Rightarrow> lease \<times> leadership \<Rightarrow> (lease \<times> leadership) \<times> duration" where
  "run_round ans w =
     (case w of (row, l) \<Rightarrow>
      let w' = (if ld_active l then
                  (case renew (lr_renew ans) (lr_now ans) l row of
                     (row', Some err) \<Rightarrow> (row', setStandby (Some err) l)
                   | (row', None) \<Rightarrow> (row', l))
                else
                  (case acquire (lr_acquire ans) (lr_now ans) l row of
                     (row', Inl err) \<Rightarrow> (row', l)
                   | (row', Inr epoch) \<Rightarrow> (row', setLeader epoch l)))
      in (w', if ld_active (snd w') then controllerLeaseRenewEvery else controllerLeaseRetryEvery))"

section \<open>Fenced writes\<close>

definition assertWrite :: "check \<Rightarrow> time \<Rightarrow> leadership \<Rightarrow> lease \<Rightarrow> check" where
  "assertWrite query started l row =
     (if \<not> ld_enabled l then None
      else case RequireLeader l of Some err \<Rightarrow> Some err | None \<Rightarrow>
        case query of Some err \<Rightarrow> Some err | None \<Rightarrow>
          if le_epoch row \<le> 0 \<or> le_owner row \<noteq> ld_ownerID l \<or> word_of_int (le_epoch row) \<noteq> ld_epoch l \<or> \<not> le_until row > started
          then Some ErrLeadershipLost else None)"

definition beginWriteTx :: "check \<Rightarrow> leadership \<Rightarrow> check" where
  "beginWriteTx begin_err l = (case RequireLeader l of Some err \<Rightarrow> Some err | None \<Rightarrow> begin_err)"

text \<open>Whether the transaction's writes happened, and what the caller is told.\<close>

definition commitWriteTx :: "check \<Rightarrow> check \<times> bool \<Rightarrow> time \<Rightarrow> leadership \<Rightarrow> lease \<Rightarrow> bool \<times> check" where
  "commitWriteTx query commit started l row =
     (case assertWrite query started l row of
        Some err \<Rightarrow> (False, Some err)
      | None \<Rightarrow> (case fst commit of None \<Rightarrow> (True, None) | Some err \<Rightarrow> (snd commit, Some err)))"

section \<open>Several controllers\<close>

text \<open>
  The lease row, the local view of every process, the open write transactions (process and start time)
  and the log of committed writes with the writer and the epoch of the row.
\<close>

record fleet =
  fl_row :: lease
  fl_proc :: "nat \<Rightarrow> leadership"
  fl_tx :: "nat \<Rightarrow> (nat \<times> time) option"
  fl_log :: "(string \<times> int) list"

inductive fleet_step :: "fleet \<Rightarrow> fleet \<Rightarrow> bool" where
  round: "run_round ans (fl_row w, fl_proc w p) = ((row, l), d) \<Longrightarrow>
    fleet_step w (w\<lparr>fl_row := row, fl_proc := (fl_proc w)(p := l)\<rparr>)"
| stop: "release ua now (fl_proc w p) (fl_row w) = (row, l) \<Longrightarrow>
    fleet_step w (w\<lparr>fl_row := row, fl_proc := (fl_proc w)(p := l)\<rparr>)"
| begin_tx: "beginWriteTx None (fl_proc w p) = None \<Longrightarrow>
    fleet_step w (w\<lparr>fl_tx := (fl_tx w)(t \<mapsto> (p, now))\<rparr>)"
| commit_tx: "fl_tx w t = Some (p, started) \<Longrightarrow> commitWriteTx query commit started (fl_proc w p) (fl_row w) = (done, err) \<Longrightarrow>
    fleet_step w (w\<lparr>fl_tx := (fl_tx w)(t := None),
      fl_log := fl_log w @ (if done then [(ld_ownerID (fl_proc w p), le_epoch (fl_row w))] else [])\<rparr>)"

definition fleet_starts :: "fleet \<Rightarrow> bool" where
  "fleet_starts w \<longleftrightarrow> fl_log w = [] \<and> (\<forall>p. ld_enabled (fl_proc w p) \<and> ld_ownerID (fl_proc w p) \<noteq> [])"

definition fenced :: "(string \<times> int) list \<Rightarrow> bool" where
  "fenced log \<longleftrightarrow> sorted (map snd log) \<and> (\<forall>(o1, e1)\<in>set log. \<forall>(o2, e2)\<in>set log. e1 = e2 \<longrightarrow> o1 = o2)"

definition fleet_ok :: "fleet \<Rightarrow> bool" where
  "fleet_ok w \<longleftrightarrow> fenced (fl_log w) \<and> (\<forall>p. ld_enabled (fl_proc w p) \<and> ld_ownerID (fl_proc w p) \<noteq> [])
     \<and> (\<forall>(owner, e)\<in>set (fl_log w). e \<le> le_epoch (fl_row w) \<and> (e = le_epoch (fl_row w) \<longrightarrow> le_owner (fl_row w) = [] \<or> owner = le_owner (fl_row w)))"

text \<open>A change of the row keeps its owner, gives it up, or starts a new epoch.\<close>

definition row_step :: "lease \<Rightarrow> lease \<Rightarrow> bool" where
  "row_step row row' \<longleftrightarrow> le_epoch row < le_epoch row' \<or> (le_epoch row' = le_epoch row \<and> (le_owner row' = le_owner row \<or> le_owner row' = []))"

lemma acquire_row: "acquire ans now l row = (row', r) \<Longrightarrow> row_step row row'"
  by (auto simp: acquire_def row_step_def Let_def split: option.splits if_splits)

lemma renew_row: "renew ans now l row = (row', r) \<Longrightarrow> row_step row row'"
  by (auto simp: renew_def row_step_def Let_def split: option.splits if_splits)

lemma release_row: "release ans now l row = (row', l') \<Longrightarrow> row_step row row'"
  by (auto simp: release_def row_step_def Let_def split: option.splits if_splits)

lemma ld_set_fields [simp]:
  "ld_enabled (setLeader e l) = ld_enabled l" "ld_ownerID (setLeader e l) = ld_ownerID l"
  "ld_enabled (setStandby err l) = ld_enabled l" "ld_ownerID (setStandby err l) = ld_ownerID l"
  by (simp_all add: setLeader_def setStandby_def ld_notify_def Let_def)

lemma round_row:
  "run_round ans (row, l) = ((row', l'), d) \<Longrightarrow> row_step row row' \<and> ld_enabled l' = ld_enabled l \<and> ld_ownerID l' = ld_ownerID l"
  by (auto simp: run_round_def Let_def dest: acquire_row renew_row split: if_splits prod.splits option.splits sum.splits)

lemma release_fields: "release ans now l row = (row', l') \<Longrightarrow> ld_enabled l' = ld_enabled l \<and> ld_ownerID l' = ld_ownerID l"
  by (auto simp: release_def Let_def split: if_splits)

lemma fleet_ok_row:
  assumes "fleet_ok w" "row_step (fl_row w) row" "ld_enabled l = ld_enabled (fl_proc w p)" "ld_ownerID l = ld_ownerID (fl_proc w p)"
  shows "fleet_ok (w\<lparr>fl_row := row, fl_proc := (fl_proc w)(p := l)\<rparr>)"
proof -
  have "e \<le> le_epoch row \<and> (e = le_epoch row \<longrightarrow> le_owner row = [] \<or> owner = le_owner row)" if "(owner, e) \<in> set (fl_log w)" for owner e
    using assms(1,2) that unfolding fleet_ok_def row_step_def by fastforce
  then show ?thesis using assms(1,3,4) by (auto simp: fleet_ok_def)
qed

lemma commit_holds:
  assumes "commitWriteTx query commit started l row = (True, err)" "ld_enabled l"
  shows "ld_ownerID l = le_owner row \<and> ld_active l \<and> ld_epoch l = word_of_int (le_epoch row)"
  using assms by (auto simp: commitWriteTx_def assertWrite_def RequireLeader_def split: if_splits option.splits)

lemma fenced_snoc:
  "fenced log \<Longrightarrow> \<forall>(owner, e')\<in>set log. e' \<le> e \<and> (e' = e \<longrightarrow> owner = ow) \<Longrightarrow> fenced (log @ [(ow, e)])"
  by (fastforce simp: fenced_def sorted_append)

lemma fleet_step_ok: "fleet_step w w' \<Longrightarrow> fleet_ok w \<Longrightarrow> fleet_ok w'"
proof (induction rule: fleet_step.induct)
  case (round ans w p row l d)
  from round_row [OF round.hyps] fleet_ok_row [OF round.prems] show ?case by blast
next
  case (stop ua now w p row l)
  from release_row [OF stop.hyps] release_fields [OF stop.hyps] fleet_ok_row [OF stop.prems] show ?case by blast
next
  case (commit_tx w t p started query commit don err)
  show ?case
  proof (cases don)
    case True
    have h: "ld_ownerID (fl_proc w p) = le_owner (fl_row w)" "le_owner (fl_row w) \<noteq> []"
      using commit_holds [of query commit started "fl_proc w p" "fl_row w" err] commit_tx True by (auto simp: fleet_ok_def)
    then have "fenced (fl_log w @ [(ld_ownerID (fl_proc w p), le_epoch (fl_row w))])"
      using commit_tx.prems by (intro fenced_snoc) (auto simp: fleet_ok_def)
    with h True commit_tx.prems show ?thesis by (auto simp: fleet_ok_def)
  qed (use commit_tx.prems in \<open>simp add: fleet_ok_def\<close>)
qed (simp add: fleet_ok_def)

lemma fleet_steps_ok: "fleet_step\<^sup>*\<^sup>* w w' \<Longrightarrow> fleet_starts w \<Longrightarrow> fleet_ok w'"
proof (induction rule: rtranclp_induct)
  case base
  then show ?case by (simp add: fleet_starts_def fleet_ok_def fenced_def)
qed (use fleet_step_ok in blast)

text \<open>
  C10. Fencing works: however the controllers' renewals, acquisitions, shutdowns, database errors and write
  transactions interleave, the writes in the database are ordered by epoch, each epoch has a single
  writer, and at every moment only the owner of the lease row can commit.
\<close>

theorem writes_fenced:
  assumes "fleet_step\<^sup>*\<^sup>* w0 w" "fleet_starts w0"
  shows "fenced (fl_log w)
    \<and> (\<forall>q c t p err. commitWriteTx q c t (fl_proc w p) (fl_row w) = (True, err) \<longrightarrow> ld_ownerID (fl_proc w p) = le_owner (fl_row w))"
proof -
  have ok: "fleet_ok w" by (rule fleet_steps_ok [OF assms])
  then show ?thesis using commit_holds unfolding fleet_ok_def by metis
qed

text \<open>
  A standby takes over. Once the lease has run out or was given up, the next round of a standby with a
  working database makes it leader under the next epoch; its writes commit while the lease lasts, and
  every write of the former leader is refused with \<^verbatim>\<open>ErrLeadershipLost\<close>.
\<close>

theorem standby_takes_over:
  assumes "\<not> ld_active l" "ld_enabled l" "le_owner row = [] \<or> le_until row \<le> lr_now ans"
    and "0 \<le> le_epoch row" "le_epoch row < max_bigint"
    and "lr_acquire ans = \<lparr>aa_begin = None, aa_update = None, aa_rows = None, aa_select = None, aa_commit = None, aa_committed = True\<rparr>"
    and "started < lr_now ans + controllerLeaseTTL"
    and "ld_enabled old" "ld_active old" "ld_ownerID old \<noteq> ld_ownerID l"
  shows "\<exists>row' l'. run_round ans (row, l) = ((row', l'), controllerLeaseRenewEvery) \<and> ld_active l' \<and> le_epoch row' = le_epoch row + 1
    \<and> commitWriteTx None (None, True) started l' row' = (True, None)
    \<and> commitWriteTx None (None, True) t old row' = (False, Some ErrLeadershipLost)"
  using assms
  by (auto simp: run_round_def acquire_def setLeader_def ld_notify_def commitWriteTx_def assertWrite_def RequireLeader_def Let_def)

section \<open>Two controllers\<close>

definition good_acquire :: acquire_answers where
  "good_acquire = \<lparr>aa_begin = None, aa_update = None, aa_rows = None, aa_select = None, aa_commit = None, aa_committed = True\<rparr>"

definition good_update :: update_answers where
  "good_update = \<lparr>ua_exec = None, ua_rows = None, ua_done = True\<rparr>"

definition good_round :: "time \<Rightarrow> round_times" where
  "good_round now = \<lparr>lr_now = now, lr_acquire = good_acquire, lr_renew = good_update\<rparr>"

definition free_row :: lease where "free_row = \<lparr>le_owner = [], le_epoch = 0, le_until = 0\<rparr>"

definition two_controllers :: fleet where
  "two_controllers = \<lparr>fl_row = free_row, fl_proc = (\<lambda>p. newLeadership (if p = 0 then ''A'' else ''B'') True), fl_tx = (\<lambda>_. None), fl_log = []\<rparr>"

lemmas fleet_eval = good_round_def good_acquire_def good_update_def free_row_def two_controllers_def newLeadership_def run_round_def acquire_def
  renew_def release_def setLeader_def setStandby_def ld_notify_def beginWriteTx_def commitWriteTx_def assertWrite_def RequireLeader_def
  controllerLeaseTTL_def controllerLeaseRenewEvery_def controllerLeaseRetryEvery_def second_def Let_def

lemma two_controllers_start: "fleet_starts two_controllers"
  by (simp add: fleet_starts_def two_controllers_def newLeadership_def)

lemma first_leads:
  "\<exists>w. fleet_step two_controllers w \<and> ld_active (fl_proc w 0) \<and> le_owner (fl_row w) = ''A''
     \<and> commitWriteTx None (None, True) 6 (fl_proc w 0) (fl_row w) = (True, None)"
proof -
  let ?l = "newLeadership ''A'' True"
  have r: "run_round (good_round 5) (fl_row two_controllers, fl_proc two_controllers 0) =
      ((\<lparr>le_owner = ''A'', le_epoch = 1, le_until = 15000000005\<rparr>, ?l\<lparr>ld_active := True, ld_epoch := 1\<rparr>), controllerLeaseRenewEvery)"
    by (simp add: fleet_eval)
  show ?thesis by (rule exI, rule conjI, rule round [OF r]) (simp add: fleet_eval)
qed

theorem writes_fenced_witness:
  "\<exists>w. fleet_step\<^sup>*\<^sup>* two_controllers w \<and> fenced (fl_log w) \<and> ld_ownerID (fl_proc w 0) = le_owner (fl_row w)"
proof -
  obtain w where w: "fleet_step two_controllers w" "commitWriteTx None (None, True) 6 (fl_proc w 0) (fl_row w) = (True, None)"
    using first_leads by blast
  from w(1) have "fleet_step\<^sup>*\<^sup>* two_controllers w" by blast
  with writes_fenced [OF this two_controllers_start] w(2) show ?thesis by blast
qed

theorem standby_takes_over_witness:
  "\<exists>row' l'. run_round (good_round 40000000000) (\<lparr>le_owner = ''A'', le_epoch = 1, le_until = 15000000005\<rparr>, newLeadership ''B'' True)
       = ((row', l'), controllerLeaseRenewEvery)
     \<and> ld_active l' \<and> commitWriteTx None (None, True) 40000000001 l' row' = (True, None)
     \<and> commitWriteTx None (None, True) 7 ((newLeadership ''A'' True)\<lparr>ld_active := True, ld_epoch := 1\<rparr>) row' = (False, Some ErrLeadershipLost)"
  using standby_takes_over [of "newLeadership ''B'' True" "\<lparr>le_owner = ''A'', le_epoch = 1, le_until = 15000000005\<rparr>" "good_round 40000000000" 40000000001
      "(newLeadership ''A'' True)\<lparr>ld_active := True, ld_epoch := 1\<rparr>" 7]
  by (auto simp: newLeadership_def good_round_def good_acquire_def controllerLeaseTTL_def second_def)

text \<open>
  The fence compares the lease with the epoch at the commit, not with the epoch at the begin of the
  transaction: a transaction that began under epoch 1 commits under epoch 3, although another
  controller was leader, under epoch 2, in between. All times are in seconds.
\<close>

lemma write_crosses_epochs:
  fixes sec defines "sec \<equiv> 1000000000 :: int"
  shows "\<exists>rowA a rowB b row2 a2 row3 b3 row4 a4.
    run_round (good_round 0) (free_row, newLeadership ''A'' True) = ((rowA, a), controllerLeaseRenewEvery)
    \<and> beginWriteTx None a = None \<and> ld_epoch a = 1
    \<and> run_round (good_round (20 * sec)) (rowA, newLeadership ''B'' True) = ((rowB, b), controllerLeaseRenewEvery)
    \<and> commitWriteTx None (None, True) (20 * sec) b rowB = (True, None) \<and> ld_epoch b = 2
    \<and> run_round (good_round (21 * sec)) (rowB, a) = ((row2, a2), controllerLeaseRetryEvery)
    \<and> release good_update (22 * sec) b row2 = (row3, b3)
    \<and> run_round (good_round (23 * sec)) (row3, a2) = ((row4, a4), controllerLeaseRenewEvery)
    \<and> ld_epoch a4 = 3 \<and> commitWriteTx None (None, True) sec a4 row4 = (True, None)"
  by (simp add: fleet_eval sec_def)

end
