(* ===== verification/Node_Cache.thy ===== *)
theory Node_Cache
  imports Domain_Observed
begin

text \<open>
  \<^verbatim>\<open>internal/atomicfile/write.go\<close> and \<^verbatim>\<open>internal/node/cache.go\<close>: the encrypted file that holds a node's
  last applied snapshot, and the reconciler that accepts a new snapshot only when the components
  took it and the file was replaced. The file system is a map from paths to contents; every
  operating-system call may fail, and its answer is an argument. AES-GCM and \<^verbatim>\<open>encoding/json\<close> are
  parameters.
\<close>

section \<open>Replacing a file\<close>

type_synonym files = "string \<rightharpoonup> bytes"

text \<open>The answers of the calls \<^verbatim>\<open>AtomicWrite\<close> makes, in order, and the temporary names it was given.\<close>

record os_answers =
  oa_MkdirAll :: check
  oa_CreateTemp :: "go_error + string"
  oa_Chmod :: check
  oa_WriteFull :: check
  oa_opened :: bool
  oa_partial :: nat
  oa_Sync :: check
  oa_Close :: check
  oa_RenameFirst :: check
  oa_Stat :: check
  oa_reserve :: "go_error + string"
  oa_reserveClose :: check
  oa_reserveRemove :: check
  oa_RenameBackup :: check
  oa_RenamePublish :: check
  oa_RenameRestore :: check
  oa_removes :: bool

definition os_remove :: "os_answers \<Rightarrow> string \<Rightarrow> files \<Rightarrow> files" where
  "os_remove ans p fs = (if oa_removes ans then fs(p := None) else fs)"

definition os_rename :: "check \<Rightarrow> string \<Rightarrow> string \<Rightarrow> files \<Rightarrow> files" where
  "os_rename answer old new fs = (case answer of None \<Rightarrow> (fs(new := fs old))(old := None) | Some _ \<Rightarrow> fs)"

text \<open>\<^verbatim>\<open>os.WriteFile\<close> may fail before it opened the file or after part of the data was written.\<close>

definition Write :: "os_answers \<Rightarrow> string \<Rightarrow> bytes \<Rightarrow> files \<Rightarrow> files \<times> check" where
  "Write ans path bs fs =
     (case oa_MkdirAll ans of
        Some e \<Rightarrow> (fs, Some e)
      | None \<Rightarrow>
          (case oa_WriteFull ans of
             Some e \<Rightarrow> (if oa_opened ans then fs(path \<mapsto> take (oa_partial ans) bs) else fs, Some e)
           | None \<Rightarrow> (fs(path \<mapsto> bs), oa_Chmod ans)))"

definition reservePath :: "os_answers \<Rightarrow> files \<Rightarrow> files \<times> string result" where
  "reservePath ans fs =
     (case oa_reserve ans of
        Inl e \<Rightarrow> (fs, Inl e)
      | Inr reserved \<Rightarrow>
          (case oa_reserveClose ans of
             Some e \<Rightarrow> (os_remove ans reserved (fs(reserved \<mapsto> [])), Inl e)
           | None \<Rightarrow>
               (case oa_reserveRemove ans of
                  Some e \<Rightarrow> (fs(reserved \<mapsto> []), Inl e)
                | None \<Rightarrow> (fs(reserved := None), Inr reserved))))"

definition WriteTemp :: "os_answers \<Rightarrow> bytes \<Rightarrow> files \<Rightarrow> files \<times> string result" where
  "WriteTemp ans bs fs =
     (case oa_MkdirAll ans of
        Some e \<Rightarrow> (fs, Inl e)
      | None \<Rightarrow>
          (case oa_CreateTemp ans of
             Inl e \<Rightarrow> (fs, Inl e)
           | Inr tmp \<Rightarrow>
               (case oa_Chmod ans of
                  Some e \<Rightarrow> (os_remove ans tmp (fs(tmp \<mapsto> [])), Inl e)
                | None \<Rightarrow>
                    (case oa_WriteFull ans of
                       Some e \<Rightarrow> (os_remove ans tmp (fs(tmp \<mapsto> take (oa_partial ans) bs)), Inl e)
                     | None \<Rightarrow>
                         (case and_then (oa_Sync ans) (oa_Close ans) of
                            Some e \<Rightarrow> (os_remove ans tmp (fs(tmp \<mapsto> bs)), Inl e)
                          | None \<Rightarrow> (fs(tmp \<mapsto> bs), Inr tmp))))))"

definition join_errors :: "go_error \<Rightarrow> check \<Rightarrow> go_error" where
  "join_errors e rest = (case rest of None \<Rightarrow> e | Some e' \<Rightarrow> ErrWrap2 e e')"

definition AtomicWrite :: "os_answers \<Rightarrow> string \<Rightarrow> bytes \<Rightarrow> files \<Rightarrow> files \<times> check" where
  "AtomicWrite ans path bs fs0 =
     (case WriteTemp ans bs fs0 of
        (fs, Inl e) \<Rightarrow> (fs, Some e)
      | (fs, Inr tmp) \<Rightarrow>
          (case oa_RenameFirst ans of
             None \<Rightarrow> (os_remove ans tmp (os_rename None tmp path fs), None)
           | Some firstErr \<Rightarrow>
               let statErr = (if fs path = None then Some (ErrStd ''os.Stat'') else oa_Stat ans) in
               if statErr \<noteq> None then (os_remove ans tmp fs, Some (join_errors firstErr statErr))
               else case reservePath ans fs of
                   (fs0, Inl e) \<Rightarrow> (os_remove ans tmp fs0, Some (join_errors firstErr (Some e)))
                 | (fs0, Inr backup) \<Rightarrow>
                     (case oa_RenameBackup ans of
                        Some e \<Rightarrow> (os_remove ans tmp (os_remove ans backup fs0), Some (join_errors firstErr (Some e)))
                      | None \<Rightarrow>
                          let fs1 = os_rename None path backup fs0 in
                          (case oa_RenamePublish ans of
                             Some e \<Rightarrow>
                               (os_remove ans tmp (os_rename (oa_RenameRestore ans) backup path fs1),
                                Some (join_errors firstErr (Some (join_errors e (oa_RenameRestore ans)))))
                           | None \<Rightarrow> (os_remove ans tmp (os_remove ans backup (os_rename None tmp path fs1)), None)))))"

text \<open>Temporary names are fresh: \<^verbatim>\<open>os.CreateTemp\<close> never returns an existing file.\<close>

definition fresh_names :: "os_answers \<Rightarrow> string \<Rightarrow> files \<Rightarrow> bool" where
  "fresh_names ans path fs \<longleftrightarrow>
     (\<forall>tmp. oa_CreateTemp ans = Inr tmp \<longrightarrow> tmp \<noteq> path \<and> fs tmp = None)
     \<and> (\<forall>b. oa_reserve ans = Inr b \<longrightarrow> b \<noteq> path \<and> fs b = None \<and> oa_CreateTemp ans \<noteq> Inr b)"

lemma WriteTemp_keeps:
  assumes "WriteTemp ans bs fs = (fs', r)" "fresh_names ans path fs"
  shows "fs' path = fs path" "r = Inr tmp \<Longrightarrow> oa_CreateTemp ans = Inr tmp \<and> fs' = fs(tmp \<mapsto> bs)"
  using assms by (auto simp: WriteTemp_def os_remove_def fresh_names_def split: option.splits sum.splits if_splits)

text \<open>
  Replacing a file is atomic: on success it holds exactly the new content; on an error it
  holds what it held before, except when the last resort, renaming the backup back, fails too,
  and then the old content is still in the backup file.
\<close>

lemma AtomicWrite_replaces:
  assumes "AtomicWrite ans path bs fs = (fs', err)" "fresh_names ans path fs"
  shows "(err = None \<longrightarrow> fs' path = Some bs)
    \<and> (err \<noteq> None \<longrightarrow> fs' path = fs path
        \<or> (oa_RenameRestore ans \<noteq> None \<and> fs' path = None \<and> (\<exists>b. oa_reserve ans = Inr b \<and> fs' b = fs path)))"
proof (cases "WriteTemp ans bs fs")
  case (Pair fs1 r)
  show ?thesis
  proof (cases r)
    case (Inl e)
    then show ?thesis using assms Pair WriteTemp_keeps(1) [OF Pair assms(2)] by (auto simp: AtomicWrite_def)
  next
    case (Inr tmp)
    have t: "oa_CreateTemp ans = Inr tmp" "fs1 = fs(tmp \<mapsto> bs)" "tmp \<noteq> path"
      using WriteTemp_keeps [OF Pair assms(2)] Inr assms(2) by (auto simp: fresh_names_def)
    show ?thesis using assms Pair Inr t
      by (auto simp: AtomicWrite_def reservePath_def os_remove_def os_rename_def fresh_names_def Let_def
          split: option.splits sum.splits if_splits)
  qed
qed

section \<open>The encrypted cache\<close>

abbreviation cacheMagic :: bytes where "cacheMagic \<equiv> [65, 70, 83, 78, 49]"
abbreviation cacheKeySize :: nat where "cacheKeySize \<equiv> 32"
abbreviation maxCacheSize :: nat where "maxCacheSize \<equiv> 67108864"
abbreviation gcmNonceSize :: nat where "gcmNonceSize \<equiv> 12"
abbreviation gcmOverhead :: nat where "gcmOverhead \<equiv> 16"

definition ErrNoSnapshot :: go_error where "ErrNoSnapshot = Sentinel ''no cached desired snapshot''"
definition ErrStaleSnapshot :: go_error where "ErrStaleSnapshot = Sentinel ''snapshot generation is stale''"

text \<open>
  What the code takes from its libraries: \<^verbatim>\<open>json.Marshal\<close> and \<^verbatim>\<open>json.Unmarshal\<close> on a snapshot, AES-GCM
  with a key and a nonce, and the text of an error.
\<close>

record node_env =
  ne_go :: go_env
  ne_Error :: "go_error \<Rightarrow> string"
  ne_Marshal :: "DesiredSnapshot \<Rightarrow> bytes result"
  ne_Unmarshal :: "bytes \<Rightarrow> DesiredSnapshot option"
  ne_Seal :: "bytes \<Rightarrow> bytes \<Rightarrow> bytes \<Rightarrow> bytes"
  ne_Open :: "bytes \<Rightarrow> bytes \<Rightarrow> bytes \<Rightarrow> bytes option"

record SnapshotCache =
  sc_path :: string
  sc_key :: bytes

definition NewSnapshotCache :: "(string \<Rightarrow> string) \<Rightarrow> string \<Rightarrow> bytes \<Rightarrow> SnapshotCache result" where
  "NewSnapshotCache clean path key =
     (if trim_space path = [] then Inl (ErrNew ''snapshot cache path is required'')
      else if length key \<noteq> cacheKeySize then Inl (ErrNew ''snapshot cache key must contain exactly 32 bytes'')
      else Inr \<lparr>sc_path = clean path, sc_key = key\<rparr>)"

definition aes_key_check :: "bytes \<Rightarrow> check" where
  "aes_key_check key = fail_if (length key \<notin> {16, 24, 32}) (ErrStd ''aes.NewCipher'')"

definition encrypt :: "node_env \<Rightarrow> bytes result \<Rightarrow> bytes \<Rightarrow> bytes \<Rightarrow> bytes result" where
  "encrypt env rnd key plaintext =
     check_then (aes_key_check key) (bind_result rnd (\<lambda>nonce. Inr (nonce @ ne_Seal env key nonce plaintext)))"

definition decrypt :: "node_env \<Rightarrow> bytes \<Rightarrow> bytes \<Rightarrow> bytes result" where
  "decrypt env key ciphertext =
     check_then (aes_key_check key)
     (if length ciphertext < gcmNonceSize + gcmOverhead then Inl (ErrNew ''ciphertext is truncated'')
      else case ne_Open env key (take gcmNonceSize ciphertext) (drop gcmNonceSize ciphertext) of
          None \<Rightarrow> Inl (ErrStd ''cipher.Open'')
        | Some p \<Rightarrow> Inr p)"

text \<open>\<open>rnd\<close> is the nonce the generator delivers, \<open>ans\<close> the answers of the operating system.\<close>

definition Cache_Write :: "node_env \<Rightarrow> SnapshotCache \<Rightarrow> os_answers \<Rightarrow> bytes result \<Rightarrow> DesiredSnapshot \<Rightarrow> files \<Rightarrow> files \<times> check" where
  "Cache_Write env c ans rnd snapshot fs =
     (case check_then (DesiredSnapshot_Validate (ne_go env) snapshot)
            (bind_result (if ds_Checksum snapshot = [] then WithChecksum (ne_go env) snapshot else Inr snapshot) (\<lambda>s.
             bind_result (ne_Marshal env s) (\<lambda>document.
             if length document > maxCacheSize then Inl (ErrNew ''snapshot cache document is too large'')
             else encrypt env rnd (sc_key c) document))) of
        Inl e \<Rightarrow> (fs, Some e)
      | Inr ciphertext \<Rightarrow> AtomicWrite ans (sc_path c) (cacheMagic @ ciphertext) fs)"

text \<open>\<open>rd\<close> is an error of \<^verbatim>\<open>os.ReadFile\<close> other than a missing file.\<close>

definition Cache_Read :: "node_env \<Rightarrow> SnapshotCache \<Rightarrow> check \<Rightarrow> files \<Rightarrow> DesiredSnapshot result" where
  "Cache_Read env c rd fs =
     (case rd of
        Some e \<Rightarrow> Inl (ErrWrap ''read snapshot cache: '' e)
      | None \<Rightarrow>
          (case fs (sc_path c) of
             None \<Rightarrow> Inl ErrNoSnapshot
           | Some b \<Rightarrow>
               if length b < length cacheMagic + 1 \<or> length b > maxCacheSize + 256 \<or> take (length cacheMagic) b \<noteq> cacheMagic then
                 Inl (ErrNew ''snapshot cache has an invalid header'')
               else case decrypt env (sc_key c) (drop (length cacheMagic) b) of
                   Inl _ \<Rightarrow> Inl (ErrNew ''snapshot cache authentication failed'')
                 | Inr plaintext \<Rightarrow>
                     (case ne_Unmarshal env plaintext of
                        None \<Rightarrow> Inl (ErrNew ''snapshot cache document is invalid'')
                      | Some snapshot \<Rightarrow>
                          check_then (DesiredSnapshot_Validate (ne_go env) snapshot)
                          (if trim_space (ds_Checksum snapshot) = [] then
                             Inl (apply_error ''missing_checksum'' ''checksum'' ''cached snapshot checksum is required'')
                           else case ComputeChecksum (ne_go env) snapshot of
                               Inl e \<Rightarrow> Inl (ErrWrap ''compute cached snapshot checksum: '' e)
                             | Inr computed \<Rightarrow>
                                 if \<not> equal_fold computed (ds_Checksum snapshot) then
                                   Inl (apply_error ''checksum_mismatch'' ''checksum'' ''cached snapshot checksum does not match its content'')
                                 else Inr snapshot))))"

section \<open>The reconciler\<close>

record Reconciler =
  rc_last :: u64
  rc_lastChecksum :: string
  rc_state :: ObservedState
  rc_disconnectedAt :: time

datatype ApplyStatus = APPLIED | REJECTED

record ApplyResult =
  ar_Generation :: u64
  ar_Checksum :: string
  ar_Status :: ApplyStatus
  ar_Error :: "LastError option"

text \<open>The components behind the reconciler: \<^verbatim>\<open>ApplyFunc\<close> and \<^verbatim>\<open>ResetFunc\<close> on their state.\<close>

record 'd components =
  co_apply :: "DesiredSnapshot \<Rightarrow> DesiredSnapshot option \<Rightarrow> 'd \<Rightarrow> 'd \<times> check"
  co_reset :: "(u64 \<Rightarrow> 'd \<Rightarrow> 'd \<times> check) option"

text \<open>What one call meets: the clock, the read error, the nonce and the answers of the system.\<close>

record surroundings =
  su_now :: time
  su_read :: check
  su_nonce :: "bytes result"
  su_os :: os_answers

text \<open>\<^verbatim>\<open>errors.As\<close> for \<^verbatim>\<open>*ApplyError\<close>: the first one in the chain.\<close>

fun as_apply_error :: "go_error \<Rightarrow> go_error option" where
  "as_apply_error (ApplyError c p m r) = Some (ApplyError c p m r)"
| "as_apply_error (ErrWrap m e) = as_apply_error e"
| "as_apply_error (ErrWrap2 d e) = (case as_apply_error d of Some x \<Rightarrow> Some x | None \<Rightarrow> as_apply_error e)"
| "as_apply_error _ = None"

fun message_text :: "node_env \<Rightarrow> err_text \<Rightarrow> string" where
  "message_text env (Text s) = s"
| "message_text env (TextOf e) = ne_Error env e"

definition toApplyError :: "node_env \<Rightarrow> go_error \<Rightarrow> LastError" where
  "toApplyError env err =
     (case as_apply_error err of
        Some (ApplyError c p m r) \<Rightarrow> \<lparr>le_Code = c, le_Path = p, le_Message = message_text env m, le_Retryable = r\<rparr>
      | _ \<Rightarrow> \<lparr>le_Code = ''invalid_snapshot'', le_Path = [], le_Message = ne_Error env err, le_Retryable = False\<rparr>)"

definition toApplyFailure :: "node_env \<Rightarrow> go_error \<Rightarrow> LastError" where
  "toApplyFailure env err =
     (case as_apply_error err of
        Some (ApplyError c p m r) \<Rightarrow>
          \<lparr>le_Code = (if trim_space c = [] then ''apply_failed'' else c), le_Path = p,
           le_Message = (if trim_space (message_text env m) = [] then ne_Error env err else message_text env m), le_Retryable = r\<rparr>
      | _ \<Rightarrow> \<lparr>le_Code = ''apply_failed'', le_Path = [], le_Message = ne_Error env err, le_Retryable = True\<rparr>)"

definition rejected :: "u64 \<Rightarrow> string \<Rightarrow> LastError \<Rightarrow> ApplyResult" where
  "rejected g c e = \<lparr>ar_Generation = g, ar_Checksum = c, ar_Status = REJECTED, ar_Error = Some e\<rparr>"

definition empty_observed :: ObservedState where
  "empty_observed = \<lparr>os_SchemaVersion = CurrentControlProtocolVersion, os_NodeID = [], os_AppliedGeneration = 0, os_Healthy = False,
     os_Degraded = False, os_LastError = None, os_Sessions = [], os_Listeners = [], os_Metrics = zero_metrics, os_SystemInfo = None,
     os_ObservedAt = 0\<rparr>"

definition NewReconcilerWithReset :: "node_env \<Rightarrow> SnapshotCache \<Rightarrow> check \<Rightarrow> time \<Rightarrow> files \<Rightarrow> Reconciler" where
  "NewReconcilerWithReset env c rd now fs =
     (let r = \<lparr>rc_last = 0, rc_lastChecksum = [], rc_state = empty_observed, rc_disconnectedAt = 0\<rparr>
      in case Cache_Read env c rd fs of
           Inr s \<Rightarrow> r\<lparr>rc_last := ds_Generation s, rc_lastChecksum := ds_Checksum s,
               rc_state := empty_observed\<lparr>os_NodeID := ds_NodeID s, os_AppliedGeneration := ds_Generation s, os_Healthy := True, os_ObservedAt := now\<rparr>\<rparr>
         | Inl e \<Rightarrow>
             if errors_is e ''no cached desired snapshot'' then r
             else r\<lparr>rc_state := empty_observed\<lparr>os_Degraded := True,
               os_LastError := Some \<lparr>le_Code = ''cache_read_failed'', le_Path = [], le_Message = ne_Error env e, le_Retryable = False\<rparr>\<rparr>\<rparr>)"

definition SetNodeID :: "string \<Rightarrow> time \<Rightarrow> Reconciler \<Rightarrow> Reconciler \<times> check" where
  "SetNodeID nodeID now r =
     (case ValidateID nodeID ''node_id'' of
        Some e \<Rightarrow> (r, Some e)
      | None \<Rightarrow>
          if os_NodeID (rc_state r) \<noteq> [] \<and> os_NodeID (rc_state r) \<noteq> nodeID then
            (r, Some (ErrNew ''reconciler node id does not match bootstrap''))
          else (r\<lparr>rc_state := (rc_state r)\<lparr>os_NodeID := nodeID,
                  os_ObservedAt := (if os_ObservedAt (rc_state r) = 0 then now else os_ObservedAt (rc_state r))\<rparr>\<rparr>, None))"

definition degraded_with :: "LastError \<Rightarrow> Reconciler \<Rightarrow> Reconciler" where
  "degraded_with e r = r\<lparr>rc_state := (rc_state r)\<lparr>os_Healthy := False, os_Degraded := True, os_LastError := Some e\<rparr>\<rparr>"

text \<open>Undo a speculative apply whose snapshot could not be made durable.\<close>

definition roll_back :: "'d components \<Rightarrow> DesiredSnapshot \<Rightarrow> DesiredSnapshot option \<Rightarrow> 'd \<Rightarrow> 'd \<times> check" where
  "roll_back comps snapshot previous d =
     (case previous of
        Some old \<Rightarrow> co_apply comps old (Some snapshot) d
      | None \<Rightarrow> (case co_reset comps of None \<Rightarrow> (d, None) | Some reset \<Rightarrow> reset (ds_Generation snapshot) d))"

definition applied_state :: "DesiredSnapshot \<Rightarrow> time \<Rightarrow> Reconciler" where
  "applied_state s now = \<lparr>rc_last = ds_Generation s, rc_lastChecksum = ds_Checksum s,
     rc_state = empty_observed\<lparr>os_NodeID := ds_NodeID s, os_AppliedGeneration := ds_Generation s, os_Healthy := True, os_ObservedAt := now\<rparr>,
     rc_disconnectedAt = 0\<rparr>"

text \<open>The part after the checks: components, then the durable copy, then the new state.\<close>

definition apply_checked ::
  "node_env \<Rightarrow> SnapshotCache \<Rightarrow> 'd components \<Rightarrow> surroundings \<Rightarrow> DesiredSnapshot \<Rightarrow> DesiredSnapshot option \<Rightarrow>
   Reconciler \<times> files \<times> 'd \<Rightarrow> (Reconciler \<times> files \<times> 'd) \<times> ApplyResult" where
  "apply_checked env c comps su snapshot previous w =
     (case w of (r, fs, d) \<Rightarrow>
      case co_apply comps snapshot previous d of
        (d', Some err) \<Rightarrow>
          (let e = toApplyFailure env err in
           ((degraded_with e r, fs, d'), rejected (ds_Generation snapshot) (ds_Checksum snapshot) e))
      | (d', None) \<Rightarrow>
          (case Cache_Write env c (su_os su) (su_nonce su) snapshot fs of
             (fs', Some err) \<Rightarrow>
               (case roll_back comps snapshot previous d' of
                  (d'', rollbackErr) \<Rightarrow>
                    let e = \<lparr>le_Code = ''cache_write_failed'', le_Path = [],
                          le_Message = ne_Error env err @ (case rollbackErr of None \<Rightarrow> []
                            | Some x \<Rightarrow> ''; data-plane rollback failed: '' @ ne_Error env x), le_Retryable = True\<rparr>
                    in ((degraded_with e r, fs', d''), rejected (ds_Generation snapshot) (ds_Checksum snapshot) e))
           | (fs', None) \<Rightarrow>
               ((applied_state snapshot (su_now su), fs', d'),
                \<lparr>ar_Generation = ds_Generation snapshot, ar_Checksum = ds_Checksum snapshot, ar_Status = APPLIED, ar_Error = None\<rparr>)))"

definition Reconciler_Apply ::
  "node_env \<Rightarrow> SnapshotCache \<Rightarrow> 'd components \<Rightarrow> surroundings \<Rightarrow> DesiredSnapshot \<Rightarrow>
   Reconciler \<times> files \<times> 'd \<Rightarrow> (Reconciler \<times> files \<times> 'd) \<times> ApplyResult" where
  "Reconciler_Apply env c comps su snapshot0 w =
     (case w of (r, fs, d) \<Rightarrow>
      case (if ds_Checksum snapshot0 = [] then WithChecksum (ne_go env) snapshot0 else Inr snapshot0) of
        Inl err \<Rightarrow> (w, rejected (ds_Generation snapshot0) (ds_Checksum snapshot0) (toApplyError env err))
      | Inr snapshot \<Rightarrow>
          (case DesiredSnapshot_Validate (ne_go env) snapshot of
             Some err \<Rightarrow> (w, rejected (ds_Generation snapshot) (ds_Checksum snapshot) (toApplyError env err))
           | None \<Rightarrow>
               if os_NodeID (rc_state r) \<noteq> [] \<and> ds_NodeID snapshot \<noteq> os_NodeID (rc_state r) then
                 (w, rejected (ds_Generation snapshot) (ds_Checksum snapshot)
                   \<lparr>le_Code = ''node_mismatch'', le_Path = ''node_id'', le_Message = ''snapshot node id does not match reconciler'', le_Retryable = False\<rparr>)
               else if ds_Generation snapshot = 0 \<or> ds_Generation snapshot < rc_last r
                   \<or> (ds_Generation snapshot = rc_last r \<and> equal_fold (ds_Checksum snapshot) (rc_lastChecksum r)) then
                 (w, rejected (if ds_Generation snapshot = 0 then rc_last r else ds_Generation snapshot) (ds_Checksum snapshot)
                   \<lparr>le_Code = ''stale_generation'', le_Path = ''generation'', le_Message = ne_Error env ErrStaleSnapshot, le_Retryable = False\<rparr>)
               else
                 (case Cache_Read env c (su_read su) fs of
                    Inr old \<Rightarrow>
                      if rc_last r \<noteq> 0 \<and> ds_Generation old \<noteq> rc_last r then
                        (let e = \<lparr>le_Code = ''cache_generation_mismatch'', le_Path = ''generation'',
                               le_Message = ''snapshot cache generation differs from the applied generation'', le_Retryable = True\<rparr>
                         in ((degraded_with e r, fs, d), rejected (ds_Generation snapshot) (ds_Checksum snapshot) e))
                      else apply_checked env c comps su snapshot (Some old) (r, fs, d)
                  | Inl _ \<Rightarrow> apply_checked env c comps su snapshot None (r, fs, d))))"

definition Resync ::
  "node_env \<Rightarrow> SnapshotCache \<Rightarrow> 'd components \<Rightarrow> surroundings \<Rightarrow>
   Reconciler \<times> files \<times> 'd \<Rightarrow> (Reconciler \<times> files \<times> 'd) \<times> ApplyResult" where
  "Resync env c comps su w =
     (case w of (r, fs, d) \<Rightarrow>
      case Cache_Read env c (su_read su) fs of
        Inl err \<Rightarrow> (w, rejected (rc_last r) []
          \<lparr>le_Code = ''cache_read_failed'', le_Path = [], le_Message = ne_Error env err, le_Retryable = True\<rparr>)
      | Inr snapshot \<Rightarrow>
          (case DesiredSnapshot_Validate (ne_go env) snapshot of
             Some err \<Rightarrow> (w, rejected (ds_Generation snapshot) (ds_Checksum snapshot) (toApplyError env err))
           | None \<Rightarrow>
               (case co_apply comps snapshot (Some snapshot) d of
                  (d', Some err) \<Rightarrow>
                    (let e = toApplyFailure env err;
                         e' = (if le_Code e = ''apply_failed'' then e\<lparr>le_Code := ''resync_failed''\<rparr> else e)
                     in ((r, fs, d'), rejected (ds_Generation snapshot) (ds_Checksum snapshot) e'))
                | (d', None) \<Rightarrow>
                    ((r\<lparr>rc_state := (rc_state r)\<lparr>os_Healthy := True, os_Degraded := False, os_LastError := None,
                         os_ObservedAt := su_now su\<rparr>\<rparr>, fs, d'),
                     \<lparr>ar_Generation = ds_Generation snapshot, ar_Checksum = ds_Checksum snapshot, ar_Status = APPLIED, ar_Error = None\<rparr>))))"

definition MarkConnected :: "time \<Rightarrow> time \<Rightarrow> Reconciler \<Rightarrow> Reconciler" where
  "MarkConnected clock now0 r =
     (let now = (if now0 = 0 then clock else now0); st = rc_state r;
          st' = (if os_LastError st = None then st\<lparr>os_Healthy := True, os_Degraded := False\<rparr> else st)
      in r\<lparr>rc_disconnectedAt := 0, rc_state := st'\<lparr>os_ObservedAt := now\<rparr>\<rparr>)"

definition MarkDisconnected :: "time \<Rightarrow> time \<Rightarrow> duration \<Rightarrow> Reconciler \<Rightarrow> Reconciler" where
  "MarkDisconnected clock now0 grace0 r =
     (let grace = (if grace0 \<le> 0 then 30000000000 else grace0); now = (if now0 = 0 then clock else now0);
          since = (if rc_disconnectedAt r = 0 then now else rc_disconnectedAt r); st = rc_state r;
          st' = (if time_sub now since \<ge> grace then st\<lparr>os_Degraded := True, os_Healthy := False\<rparr> else st)
      in r\<lparr>rc_disconnectedAt := since, rc_state := st'\<lparr>os_ObservedAt := now\<rparr>\<rparr>)"

section \<open>What was written is read back\<close>

text \<open>
  What the code relies on: AES-GCM opens what it sealed and adds a 16 byte tag, a SHA-256 digest
  has 32 bytes, and a valid snapshot survives \<^verbatim>\<open>encoding/json\<close> (its strings are well-formed UTF-8).
\<close>

definition gcm_laws :: "node_env \<Rightarrow> bool" where
  "gcm_laws env \<longleftrightarrow> (\<forall>key nonce p. length nonce = gcmNonceSize \<longrightarrow>
     ne_Open env key nonce (ne_Seal env key nonce p) = Some p
     \<and> length (ne_Seal env key nonce p) = length p + gcmOverhead)"

definition json_laws :: "node_env \<Rightarrow> bool" where
  "json_laws env \<longleftrightarrow> (\<forall>s doc. DesiredSnapshot_Validate (ne_go env) s = None \<longrightarrow> ne_Marshal env s = Inr doc \<longrightarrow>
     ne_Unmarshal env doc = Some s)"

definition library_laws :: "node_env \<Rightarrow> bool" where
  "library_laws env \<longleftrightarrow> gcm_laws env \<and> json_laws env \<and> (\<forall>b. length (sha256 (ne_go env) b) = 32)"

text \<open>The nonce has its size, temporary names are fresh, and a displaced file can be renamed back.\<close>

definition surroundings_ok :: "SnapshotCache \<Rightarrow> surroundings \<Rightarrow> files \<Rightarrow> bool" where
  "surroundings_ok c su fs \<longleftrightarrow> (\<forall>n. su_nonce su = Inr n \<longrightarrow> length n = gcmNonceSize)
     \<and> fresh_names (su_os su) (sc_path c) fs \<and> oa_RenameRestore (su_os su) = None"

lemma to_lower_graphic: "list_all is_graphic (to_lower s) \<longleftrightarrow> list_all is_graphic s"
  by (auto simp: to_lower_def list_all_iff)

lemma checksum_not_blank:
  assumes "ComputeChecksum env s = Inr k" "equal_fold k c" "\<forall>b. length (sha256 env b) = 32"
  shows "trim_space c \<noteq> []"
proof -
  obtain b where k: "k = hex_encode (sha256 env b)"
    using assms(1) by (auto simp: ComputeChecksum_def)
  have "list_all is_graphic k"
    using hex_encode_chars [of "sha256 env b"] unfolding k by (auto simp: list_all_iff char_class_defs)
  then have "list_all is_graphic c" using assms(2) to_lower_graphic unfolding equal_fold_def by metis
  moreover have "length k = 64" using k assms(3) by (simp add: length_hex_encode)
  then have "c \<noteq> []" using assms(2) by (auto simp: equal_fold_def to_lower_def)
  ultimately show ?thesis by (simp add: trim_space_graphic list_all_iff)
qed

lemma ds_Checksum_not_blank:
  assumes "DesiredSnapshot_Validate (ne_go env) s = None" "ds_Checksum s \<noteq> []" "library_laws env"
  shows "trim_space (ds_Checksum s) \<noteq> []" "\<exists>k. ComputeChecksum (ne_go env) s = Inr k \<and> equal_fold k (ds_Checksum s)"
proof -
  have "checksum_check (ne_go env) s = None" using assms(1) by (simp add: DesiredSnapshot_Validate_def)
  then show k: "\<exists>k. ComputeChecksum (ne_go env) s = Inr k \<and> equal_fold k (ds_Checksum s)"
    using assms(2) by (auto simp: checksum_check_def fail_if_def split: sum.splits if_splits)
  then show "trim_space (ds_Checksum s) \<noteq> []"
    using checksum_not_blank assms(3) by (auto simp: library_laws_def)
qed

lemma Cache_Read_cong: "fs' (sc_path c) = fs (sc_path c) \<Longrightarrow> Cache_Read env c rd fs' = Cache_Read env c rd fs"
  by (simp only: Cache_Read_def)

lemma Cache_Write_failed:
  assumes "Cache_Write env c (su_os su) (su_nonce su) s fs = (fs', Some e)" "surroundings_ok c su fs"
  shows "Cache_Read env c rd fs' = Cache_Read env c rd fs"
proof (rule Cache_Read_cong)
  show "fs' (sc_path c) = fs (sc_path c)"
    using assms by (fastforce simp: Cache_Write_def surroundings_ok_def split: sum.splits dest: AtomicWrite_replaces)
qed

text \<open>The document \<^verbatim>\<open>Write\<close> seals is the one \<^verbatim>\<open>Read\<close> opens.\<close>

lemma Cache_Read_sealed:
  assumes "fs (sc_path c) = Some (cacheMagic @ nonce @ ne_Seal env (sc_key c) nonce doc)"
    and "aes_key_check (sc_key c) = None" "length nonce = gcmNonceSize" "length doc \<le> maxCacheSize"
    and "ne_Unmarshal env doc = Some s" "DesiredSnapshot_Validate (ne_go env) s = None" "ds_Checksum s \<noteq> []"
    and "library_laws env"
  shows "Cache_Read env c None fs = Inr s"
proof -
  have l: "length (ne_Seal env (sc_key c) nonce doc) = length doc + 16"
    "ne_Open env (sc_key c) nonce (ne_Seal env (sc_key c) nonce doc) = Some doc"
    using assms(3,8) by (auto simp: library_laws_def gcm_laws_def)
  then have d: "decrypt env (sc_key c) (nonce @ ne_Seal env (sc_key c) nonce doc) = Inr doc"
    using assms(2,3) by (simp add: decrypt_def)
  obtain k where "ComputeChecksum (ne_go env) s = Inr k" "equal_fold k (ds_Checksum s)"
    using ds_Checksum_not_blank(2) [OF assms(6,7,8)] by blast
  then show ?thesis using assms l d ds_Checksum_not_blank(1) [OF assms(6,7,8)] by (simp add: Cache_Read_def)
qed

lemma Cache_Write_read:
  assumes "Cache_Write env c (su_os su) (su_nonce su) s fs = (fs', None)" "ds_Checksum s \<noteq> []"
    and "library_laws env" "surroundings_ok c su fs"
  shows "Cache_Read env c None fs' = Inr s"
proof -
  obtain doc nonce where v: "DesiredSnapshot_Validate (ne_go env) s = None" "ne_Marshal env s = Inr doc"
    "\<not> maxCacheSize < length doc" "aes_key_check (sc_key c) = None" "su_nonce su = Inr nonce"
    and w: "AtomicWrite (su_os su) (sc_path c) (cacheMagic @ nonce @ ne_Seal env (sc_key c) nonce doc) fs = (fs', None)"
    using assms(1,2) by (auto simp: Cache_Write_def encrypt_def split: sum.splits if_splits)
  have "fs' (sc_path c) = Some (cacheMagic @ nonce @ ne_Seal env (sc_key c) nonce doc)"
    using AtomicWrite_replaces [OF w] assms(4) by (simp add: surroundings_ok_def)
  moreover have "ne_Unmarshal env doc = Some s" using v assms(3) by (simp add: library_laws_def json_laws_def)
  moreover have "length nonce = gcmNonceSize" using v(5) assms(4) by (simp add: surroundings_ok_def)
  ultimately show ?thesis using v assms by (intro Cache_Read_sealed [of fs' c nonce env doc s]) simp_all
qed

section \<open>The applied generation as a durable register\<close>

definition register :: "Reconciler \<Rightarrow> u64 \<times> string" where
  "register r = (rc_last r, rc_lastChecksum r)"

text \<open>A register takes a newer generation, or the same one with other content.\<close>

fun accepts :: "u64 \<times> string \<Rightarrow> u64 \<times> string \<Rightarrow> bool" where
  "accepts (g, k) (g', k') \<longleftrightarrow> g' \<noteq> 0 \<and> (g < g' \<or> (g = g' \<and> \<not> equal_fold k' k))"

fun register_step :: "ApplyStatus \<Rightarrow> u64 \<times> string \<Rightarrow> u64 \<times> string \<Rightarrow> u64 \<times> string \<Rightarrow> bool" where
  "register_step APPLIED offered reg reg' \<longleftrightarrow> accepts reg offered \<and> reg' = offered"
| "register_step REJECTED offered reg reg' \<longleftrightarrow> reg' = reg"

definition durable :: "node_env \<Rightarrow> SnapshotCache \<Rightarrow> Reconciler \<Rightarrow> files \<Rightarrow> bool" where
  "durable env c r fs \<longleftrightarrow> (rc_last r \<noteq> 0 \<longrightarrow>
     (\<exists>s. Cache_Read env c None fs = Inr s \<and> (ds_Generation s, ds_Checksum s) = register r))"

lemma register_degraded [simp]: "register (degraded_with e r) = register r"
  by (simp add: register_def degraded_with_def)

lemma durable_cong:
  "register r' = register r \<Longrightarrow> Cache_Read env c None fs' = Cache_Read env c None fs \<Longrightarrow> durable env c r' fs' = durable env c r fs"
  by (simp add: durable_def register_def)

lemma WithChecksum_nonempty:
  assumes "WithChecksum (ne_go env) s = Inr t" "library_laws env"
  shows "ds_Checksum t \<noteq> []"
proof -
  obtain b where "ds_Checksum t = hex_encode (sha256 (ne_go env) b)"
    using assms(1) by (auto simp: WithChecksum_def Let_def ComputeChecksum_def)
  then show ?thesis using assms(2) length_hex_encode [of "sha256 (ne_go env) b"] by (auto simp: library_laws_def)
qed

lemma apply_checked_refines:
  assumes "apply_checked env c comps su s previous (r, fs, d) = ((r', fs', d'), res)"
    and "durable env c r fs" "library_laws env" "surroundings_ok c su fs"
    and "accepts (register r) (ds_Generation s, ds_Checksum s)" "ds_Checksum s \<noteq> []"
  shows "durable env c r' fs' \<and> register_step (ar_Status res) (ar_Generation res, ar_Checksum res) (register r) (register r')"
proof (cases "co_apply comps s previous d")
  case (Pair d1 err)
  show ?thesis
  proof (cases err)
    case (Some e)
    then show ?thesis using assms Pair
      by (auto simp: apply_checked_def Let_def rejected_def durable_cong [of "degraded_with _ r" r])
  next
    case None
    obtain fs1 werr where w: "Cache_Write env c (su_os su) (su_nonce su) s fs = (fs1, werr)" by fastforce
    show ?thesis
    proof (cases werr)
      case (Some e)
      then show ?thesis using assms Pair None w durable_cong [OF _ Cache_Write_failed [of env c su s fs fs1 e], of _ r]
        by (auto simp: apply_checked_def Let_def rejected_def split: prod.splits)
    next
      case None': None
      have "Cache_Read env c None fs1 = Inr s" using Cache_Write_read [of env c su s fs fs1] w None' assms by simp
      then show ?thesis using assms Pair None w None'
        by (auto simp: apply_checked_def durable_def register_def applied_state_def)
    qed
  qed
qed

text \<open>How \<^verbatim>\<open>Apply\<close> ends once the checksum is there: with no change, degraded, or in the second half.\<close>

lemma Reconciler_Apply_cases:
  assumes "Reconciler_Apply env c comps su s (r, fs, d) = ((r', fs', d'), res)"
    and "(if ds_Checksum s = [] then WithChecksum (ne_go env) s else Inr s) = Inr t"
  shows "r' = r \<and> fs' = fs \<and> d' = d \<and> ar_Status res = REJECTED
    \<or> (\<exists>e. r' = degraded_with e r \<and> fs' = fs \<and> d' = d \<and> ar_Status res = REJECTED)
    \<or> (\<exists>previous. apply_checked env c comps su t previous (r, fs, d) = ((r', fs', d'), res)
        \<and> accepts (register r) (ds_Generation t, ds_Checksum t)
        \<and> previous = (case Cache_Read env c (su_read su) fs of Inl _ \<Rightarrow> None | Inr old \<Rightarrow> Some old))"
proof -
  let ?stale = "ds_Generation t = 0 \<or> ds_Generation t < rc_last r
      \<or> (ds_Generation t = rc_last r \<and> equal_fold (ds_Checksum t) (rc_lastChecksum r))"
  note eq = assms(1) [unfolded Reconciler_Apply_def prod.case assms(2) sum.case]
  consider (invalid) e where "DesiredSnapshot_Validate (ne_go env) t = Some e"
    | (node) "DesiredSnapshot_Validate (ne_go env) t = None" "os_NodeID (rc_state r) \<noteq> [] \<and> ds_NodeID t \<noteq> os_NodeID (rc_state r)"
    | (stale) "DesiredSnapshot_Validate (ne_go env) t = None" "\<not> (os_NodeID (rc_state r) \<noteq> [] \<and> ds_NodeID t \<noteq> os_NodeID (rc_state r))" ?stale
    | (fresh) "DesiredSnapshot_Validate (ne_go env) t = None" "\<not> (os_NodeID (rc_state r) \<noteq> [] \<and> ds_NodeID t \<noteq> os_NodeID (rc_state r))" "\<not> ?stale"
    by (cases "DesiredSnapshot_Validate (ne_go env) t") blast+
  then show ?thesis
  proof cases
    case invalid
    then show ?thesis using eq by (auto simp: rejected_def)
  next
    case node
    then show ?thesis using eq by (auto simp: rejected_def)
  next
    case stale
    then show ?thesis using eq by (simp only: option.case if_True if_False simp_thms) (auto simp: rejected_def)
  next
    case fresh
    then have a: "accepts (register r) (ds_Generation t, ds_Checksum t)" by (auto simp: register_def)
    show ?thesis
    proof (cases "Cache_Read env c (su_read su) fs")
      case (Inl e)
      have "apply_checked env c comps su t None (r, fs, d) = ((r', fs', d'), res)"
        using eq Inl fresh by (simp only: option.case sum.case if_True if_False simp_thms)
      with a Inl show ?thesis by auto
    next
      case (Inr old)
      have "(if rc_last r \<noteq> 0 \<and> ds_Generation old \<noteq> rc_last r then
           (let e = \<lparr>le_Code = ''cache_generation_mismatch'', le_Path = ''generation'',
               le_Message = ''snapshot cache generation differs from the applied generation'', le_Retryable = True\<rparr>
            in ((degraded_with e r, fs, d), rejected (ds_Generation t) (ds_Checksum t) e))
         else apply_checked env c comps su t (Some old) (r, fs, d)) = ((r', fs', d'), res)"
        using eq Inr fresh by (simp only: option.case sum.case if_True if_False simp_thms)
      with a Inr show ?thesis by (auto simp: Let_def rejected_def split: if_splits)
    qed
  qed
qed

text \<open>
  The reconciler refines a durable register of one (generation, checksum) pair: a rejected
  snapshot leaves the register as it was, whatever failed; an applied one has a newer generation,
  or repairs the content of the same generation, and becomes the register's value; and the cache
  file always reads back as the register's value.
\<close>

lemma Reconciler_Apply_step:
  assumes "Reconciler_Apply env c comps su s (r, fs, d) = ((r', fs', d'), res)"
    and "durable env c r fs" "library_laws env" "surroundings_ok c su fs"
  shows "durable env c r' fs'
    \<and> register_step (ar_Status res) (ar_Generation res, ar_Checksum res) (register r) (register r')"
proof (cases "if ds_Checksum s = [] then WithChecksum (ne_go env) s else Inr s")
  case (Inl e)
  then show ?thesis using assms by (auto simp: Reconciler_Apply_def rejected_def)
next
  case (Inr t)
  have t: "ds_Checksum t \<noteq> []" using Inr assms(3) WithChecksum_nonempty [of env s t] by (auto split: if_splits)
  consider (unchanged) "r' = r" "fs' = fs" "ar_Status res = REJECTED"
    | (mismatch) e where "r' = degraded_with e r" "fs' = fs" "ar_Status res = REJECTED"
    | (checked) previous where "apply_checked env c comps su t previous (r, fs, d) = ((r', fs', d'), res)"
        "accepts (register r) (ds_Generation t, ds_Checksum t)"
    using Reconciler_Apply_cases [OF assms(1) Inr] by blast
  then show ?thesis
  proof cases
    case unchanged
    then show ?thesis using assms(2) by simp
  next
    case mismatch
    then show ?thesis using assms(2) durable_cong [of "degraded_with e r" r env c fs fs] by simp
  next
    case checked
    then show ?thesis using t by (intro apply_checked_refines [OF _ assms(2-4)])
  qed
qed
section \<open>Runs of a node\<close>

text \<open>
  The life of a node: snapshots from the controller, resyncs, connection changes, and restarts of
  the process, which forget everything but the file. \<open>d0\<close> is a data plane with nothing applied.
\<close>

inductive node_step ::
  "node_env \<Rightarrow> SnapshotCache \<Rightarrow> 'd components \<Rightarrow> 'd \<Rightarrow> Reconciler \<times> files \<times> 'd \<Rightarrow> Reconciler \<times> files \<times> 'd \<Rightarrow> bool"
  for env :: node_env and c :: SnapshotCache and comps :: "'d components" and d0 :: 'd where
  applies: "surroundings_ok c su fs \<Longrightarrow> node_step env c comps d0 (r, fs, d) (fst (Reconciler_Apply env c comps su s (r, fs, d)))"
| resyncs: "node_step env c comps d0 (r, fs, d) (fst (Resync env c comps su (r, fs, d)))"
| connects: "node_step env c comps d0 (r, fs, d) (MarkConnected clock now r, fs, d)"
| disconnects: "node_step env c comps d0 (r, fs, d) (MarkDisconnected clock now grace r, fs, d)"
| identifies: "node_step env c comps d0 (r, fs, d) (fst (SetNodeID nodeID now r), fs, d)"
| restarts: "node_step env c comps d0 (r, fs, d) (NewReconcilerWithReset env c None now fs, fs, d0)"

lemma Resync_keeps: "fst (Resync env c comps su (r, fs, d)) = (r', fs', d') \<Longrightarrow> register r' = register r \<and> fs' = fs"
  by (auto simp: Resync_def register_def rejected_def Let_def split: sum.splits option.splits prod.splits)

lemma Mark_keeps:
  "register (MarkConnected clock now r) = register r" "register (MarkDisconnected clock now grace r) = register r"
  "register (fst (SetNodeID nodeID now r)) = register r"
  by (simp_all add: register_def MarkConnected_def MarkDisconnected_def SetNodeID_def Let_def split: option.split)

lemma restart_recovers:
  "Cache_Read env c None fs = Inr s \<Longrightarrow> register (NewReconcilerWithReset env c None now fs) = (ds_Generation s, ds_Checksum s)"
  "Cache_Read env c None fs = Inl e \<Longrightarrow> register (NewReconcilerWithReset env c None now fs) = (0, [])"
  by (simp_all add: NewReconcilerWithReset_def Let_def register_def)

lemma restart_durable: "durable env c (NewReconcilerWithReset env c None now fs) fs"
  by (cases "Cache_Read env c None fs") (simp_all add: durable_def restart_recovers, simp add: NewReconcilerWithReset_def Let_def)

lemma restart_keeps:
  assumes "durable env c r fs" "rc_last r \<noteq> 0"
  shows "register (NewReconcilerWithReset env c None now fs) = register r"
  using assms restart_recovers(1) [of env c fs _ now] by (auto simp: durable_def)

lemma node_step_keeps:
  assumes "node_step env c comps d0 w w'" "library_laws env" "durable env c (fst w) (fst (snd w))"
  shows "durable env c (fst w') (fst (snd w')) \<and> rc_last (fst w) \<le> rc_last (fst w')"
  using assms
proof cases
  case (applies su fs r d s)
  obtain r' fs' d' res where e: "Reconciler_Apply env c comps su s (r, fs, d) = ((r', fs', d'), res)"
    by (metis prod.exhaust)
  have "durable env c r' fs' \<and> register_step (ar_Status res) (ar_Generation res, ar_Checksum res) (register r) (register r')"
    using Reconciler_Apply_step [OF e] assms(2,3) applies by simp
  then show ?thesis using applies e by (cases "ar_Status res") (auto simp: register_def)
next
  case (resyncs r fs d su)
  obtain r' fs' d' where e: "fst (Resync env c comps su (r, fs, d)) = (r', fs', d')" by (metis prod.exhaust)
  then show ?thesis using resyncs assms(3) Resync_keeps [OF e] durable_cong [of r' r env c fs fs]
    by (simp add: register_def)
next
  case (restarts r fs d now)
  then show ?thesis using assms(3) restart_durable restart_keeps [of env c r fs now]
    by (cases "rc_last r = 0") (auto simp: register_def)
qed (use assms(3) Mark_keeps in \<open>auto simp: register_def cong: durable_cong\<close>)



text \<open>
  C39. Replacing a file is atomic: on success it holds exactly the new content; on an error it
  holds what it held before, except when the last resort, renaming the backup back, fails too,
  and then the old content is still in the backup file.
\<close>

theorem AtomicWrite_atomic:
  assumes "AtomicWrite ans path bs fs = (fs', err)" "fresh_names ans path fs"
  shows "(err = None \<longrightarrow> fs' path = Some bs)
    \<and> (err \<noteq> None \<longrightarrow> fs' path = fs path
        \<or> (oa_RenameRestore ans \<noteq> None \<and> fs' path = None \<and> (\<exists>b. oa_reserve ans = Inr b \<and> fs' b = fs path)))"
  using assms by (rule AtomicWrite_replaces)

section \<open>A node that applies the sample snapshot\<close>

definition demo_snapshot :: DesiredSnapshot where
  "demo_snapshot = (sample_snapshot ''a1'' 8000)\<lparr>ds_Checksum :=
     (case ComputeChecksum plain_env (sample_snapshot ''a1'' 8000) of Inr k \<Rightarrow> k | Inl _ \<Rightarrow> [])\<rparr>"

definition demo_env :: node_env where
  "demo_env = \<lparr>ne_go = plain_env, ne_Error = (\<lambda>_. ''error''),
     ne_Marshal = (\<lambda>s. if s = demo_snapshot then Inr [7] else Inl (ErrStd ''json'')),
     ne_Unmarshal = (\<lambda>b. if b = [7] then Some demo_snapshot else None),
     ne_Seal = (\<lambda>key nonce p. replicate 16 0 @ p), ne_Open = (\<lambda>key nonce p. Some (drop 16 p))\<rparr>"

definition demo_os :: os_answers where
  "demo_os = \<lparr>oa_MkdirAll = None, oa_CreateTemp = Inr ''tmp'', oa_Chmod = None, oa_WriteFull = None, oa_opened = True, oa_partial = 0,
     oa_Sync = None, oa_Close = None, oa_RenameFirst = None, oa_Stat = None, oa_reserve = Inr ''backup'', oa_reserveClose = None,
     oa_reserveRemove = None, oa_RenameBackup = None, oa_RenamePublish = None, oa_RenameRestore = None, oa_removes = True\<rparr>"

definition demo_su :: surroundings where
  "demo_su = \<lparr>su_now = 1, su_read = None, su_nonce = Inr (replicate 12 0), su_os = demo_os\<rparr>"

definition demo_cache :: SnapshotCache where
  "demo_cache = \<lparr>sc_path = ''cache'', sc_key = replicate 32 0\<rparr>"

definition demo_components :: "unit components" where
  "demo_components = \<lparr>co_apply = (\<lambda>s p d. (d, None)), co_reset = None\<rparr>"

definition demo_start :: Reconciler where
  "demo_start = NewReconcilerWithReset demo_env demo_cache None 0 Map.empty"

lemmas demo_defs = demo_env_def demo_os_def demo_su_def demo_cache_def demo_components_def demo_start_def

lemma demo_valid:
  "DesiredSnapshot_Validate plain_env demo_snapshot = None" "ds_Checksum demo_snapshot \<noteq> []"
  "ds_Generation demo_snapshot = 5"
proof -
  obtain k where k: "ComputeChecksum plain_env (sample_snapshot ''a1'' 8000) = Inr k" using sample_checksum by blast
  have "(sample_snapshot ''a1'' 8000)\<lparr>ds_Checksum := []\<rparr> = sample_snapshot ''a1'' 8000" by (simp add: sample_snapshot_def)
  then show "DesiredSnapshot_Validate plain_env demo_snapshot = None"
    using Validate_Checksum [OF _ k] sample_valid k by (simp add: demo_snapshot_def)
  have "length k = 64" using k by (auto simp: ComputeChecksum_def length_hex_encode plain_env_sel)
  then show "ds_Checksum demo_snapshot \<noteq> []" using k by (auto simp: demo_snapshot_def)
  show "ds_Generation demo_snapshot = 5" by (simp add: demo_snapshot_def sample_snapshot_def)
qed

lemma demo_laws: "library_laws demo_env"
  by (simp add: library_laws_def gcm_laws_def json_laws_def demo_env_def plain_env_sel)

lemma demo_surroundings: "surroundings_ok demo_cache demo_su Map.empty"
  by (simp add: surroundings_ok_def fresh_names_def demo_defs)

lemma demo_start_empty: "demo_start = \<lparr>rc_last = 0, rc_lastChecksum = [], rc_state = empty_observed, rc_disconnectedAt = 0\<rparr>"
  by (simp add: demo_start_def NewReconcilerWithReset_def Cache_Read_def ErrNoSnapshot_def demo_cache_def)

lemma demo_apply:
  "\<exists>fs. Reconciler_Apply demo_env demo_cache demo_components demo_su demo_snapshot (demo_start, Map.empty, ())
     = ((applied_state demo_snapshot 1, fs, ()),
        \<lparr>ar_Generation = 5, ar_Checksum = ds_Checksum demo_snapshot, ar_Status = APPLIED, ar_Error = None\<rparr>)"
proof -
  have v: "DesiredSnapshot_Validate (ne_go demo_env) demo_snapshot = None" using demo_valid by (simp add: demo_env_def)
  have r: "Cache_Read demo_env demo_cache (su_read demo_su) Map.empty = Inl ErrNoSnapshot"
    by (simp add: Cache_Read_def demo_su_def)
  have "\<exists>fs. Cache_Write demo_env demo_cache (su_os demo_su) (su_nonce demo_su) demo_snapshot Map.empty = (fs, None)"
    using demo_valid(2) v by (simp add: Cache_Write_def encrypt_def aes_key_check_def AtomicWrite_def WriteTemp_def demo_defs)
  then show ?thesis
    using v r demo_valid
    by (auto simp: Reconciler_Apply_def demo_start_empty apply_checked_def empty_observed_def demo_components_def demo_su_def)
qed



theorem AtomicWrite_atomic_witness:
  "fst (AtomicWrite (demo_os\<lparr>oa_RenameFirst := Some (ErrStd ''rename''), oa_RenamePublish := Some (ErrStd ''rename'')\<rparr>) ''f'' [1] [''f'' \<mapsto> [0]]) ''f''
     = Some [0]"
proof -
  let ?a = "demo_os\<lparr>oa_RenameFirst := Some (ErrStd ''rename''), oa_RenamePublish := Some (ErrStd ''rename'')\<rparr>"
  obtain fs err where e: "AtomicWrite ?a ''f'' [1] [''f'' \<mapsto> [0]] = (fs, err)" by fastforce
  have "err \<noteq> None" using e by (auto simp: AtomicWrite_def WriteTemp_def reservePath_def demo_os_def Let_def)
  moreover have "fresh_names ?a ''f'' [''f'' \<mapsto> [0]]" by (simp add: fresh_names_def demo_os_def)
  ultimately show ?thesis using AtomicWrite_atomic [OF e] e by (simp add: demo_os_def)
qed

end
