(* ===== verification/Control_Wire.thy ===== *)
theory Control_Wire
  imports Afdp_Control Domain_Observed
begin

text \<open>
  \<^verbatim>\<open>internal/controlwire/protocol.go\<close> and \<^verbatim>\<open>internal/jsonutil/strict.go\<close>: how desired snapshots and observed
  states travel between controller and node, as JSON documents whose key fields are repeated in
  the protobuf message around them, and how messages are framed. \<^verbatim>\<open>encoding/json\<close>, the protobuf codec
  and the range check of protobuf time stamps are parameters.
\<close>

section \<open>Strict JSON\<close>

definition ErrTrailingJSON :: go_error where "ErrTrailingJSON = Sentinel ''trailing JSON''"

definition EOF :: go_error where "EOF = Sentinel ''EOF''"

text \<open>
  A decoder takes one value from the front of its input and leaves the rest; \<open>skip\<close> is the second
  \<^verbatim>\<open>Decode\<close>, which must meet the end.
\<close>

definition DecodeStrict :: "(bytes \<Rightarrow> ('a \<times> bytes) result) \<Rightarrow> (bytes \<Rightarrow> check) \<Rightarrow> bytes \<Rightarrow> 'a result" where
  "DecodeStrict decode skip data =
     bind_result (decode data) (\<lambda>(v, rest).
       case skip rest of
         None \<Rightarrow> Inl ErrTrailingJSON
       | Some err \<Rightarrow> if errors_is err ''EOF'' then Inr v else Inl err)"

record wire_env =
  we_go :: go_env
  we_MarshalSnapshot :: "DesiredSnapshot \<Rightarrow> bytes result"
  we_DecodeSnapshot :: "bytes \<Rightarrow> (DesiredSnapshot \<times> bytes) result"
  we_MarshalObserved :: "ObservedState \<Rightarrow> bytes result"
  we_DecodeObserved :: "bytes \<Rightarrow> (ObservedState \<times> bytes) result"
  we_skip :: "bytes \<Rightarrow> check"
  we_TimestampValid :: "time \<Rightarrow> bool"

text \<open>A document written by \<^verbatim>\<open>Marshal\<close> is read back whole, and nothing follows it.\<close>

definition json_travels :: "('a \<Rightarrow> bytes result) \<Rightarrow> (bytes \<Rightarrow> ('a \<times> bytes) result) \<Rightarrow> (bytes \<Rightarrow> check) \<Rightarrow> 'a \<Rightarrow> bool" where
  "json_travels marshal decode skip v \<longleftrightarrow>
     (\<forall>doc. marshal v = Inr doc \<longrightarrow> doc \<noteq> [] \<and> (\<exists>rest. decode doc = Inr (v, rest) \<and> skip rest = Some EOF))"

lemma DecodeStrict_travels:
  "json_travels marshal decode skip v \<Longrightarrow> marshal v = Inr doc \<Longrightarrow> DecodeStrict decode skip doc = Inr v \<and> doc \<noteq> []"
  by (auto simp: json_travels_def DecodeStrict_def EOF_def)

section \<open>Snapshots\<close>

abbreviation MaxControlMessageBytes :: nat where "MaxControlMessageBytes \<equiv> 16777216"

definition ErrUnknownSchema :: go_error where "ErrUnknownSchema = Sentinel ''unknown schema''"

record wire_snapshot =
  ws_SchemaVersion :: u32
  ws_NodeId :: string
  ws_Generation :: u64
  ws_Checksum :: string
  ws_DocumentJson :: bytes

definition SnapshotToProto :: "wire_env \<Rightarrow> DesiredSnapshot \<Rightarrow> wire_snapshot result" where
  "SnapshotToProto env s =
     check_then (DesiredSnapshot_Validate (we_go env) s)
     (let canonical = (Normalize s)\<lparr>ds_Checksum := []\<rparr> in
      bind_result (ComputeChecksum (we_go env) canonical) (\<lambda>checksum.
      if ds_Checksum s \<noteq> [] \<and> \<not> equal_fold (ds_Checksum s) checksum then
        Inl (apply_error ''checksum_mismatch'' ''checksum'' ''checksum mismatch'')
      else
        let canonical' = canonical\<lparr>ds_Checksum := checksum\<rparr> in
        (case we_MarshalSnapshot env canonical' of
           Inl err \<Rightarrow> Inl (ErrWrap ''marshal desired snapshot: '' err)
         | Inr document \<Rightarrow>
             if length document > MaxControlMessageBytes then
               Inl (apply_error ''message_too_large'' [] ''desired snapshot exceeds control message limit'')
             else Inr \<lparr>ws_SchemaVersion = ds_SchemaVersion canonical', ws_NodeId = ds_NodeID canonical',
               ws_Generation = ds_Generation canonical', ws_Checksum = ds_Checksum canonical', ws_DocumentJson = document\<rparr>)))"

definition SnapshotFromProto :: "wire_env \<Rightarrow> wire_snapshot option \<Rightarrow> DesiredSnapshot result" where
  "SnapshotFromProto env value =
     (case value of
        None \<Rightarrow> Inl (apply_error ''missing_snapshot'' [] ''desired snapshot is required'')
      | Some w \<Rightarrow>
          if ws_SchemaVersion w \<noteq> CurrentControlProtocolVersion then
            Inl (apply_error ''unknown_schema'' ''schema_version'' ''unknown schema'')
          else if ws_NodeId w = [] \<or> ws_Generation w = 0 \<or> ws_Checksum w = [] then
            Inl (apply_error ''invalid_snapshot_metadata'' [] ''node_id, generation and checksum are required'')
          else if length (ws_DocumentJson w) = 0 \<or> length (ws_DocumentJson w) > MaxControlMessageBytes then
            Inl (apply_error ''invalid_snapshot'' ''document_json'' ''snapshot document is empty or too large'')
          else case DecodeStrict (we_DecodeSnapshot env) (we_skip env) (ws_DocumentJson w) of
              Inl _ \<Rightarrow> Inl (apply_error ''invalid_snapshot'' ''document_json'' ''snapshot document is not valid JSON'')
            | Inr s \<Rightarrow>
                if ds_SchemaVersion s \<noteq> CurrentControlProtocolVersion \<or> ds_SchemaVersion s \<noteq> ws_SchemaVersion w
                    \<or> ds_NodeID s \<noteq> ws_NodeId w \<or> ds_Generation s \<noteq> ws_Generation w \<or> \<not> equal_fold (ds_Checksum s) (ws_Checksum w) then
                  Inl (apply_error ''snapshot_metadata_mismatch'' [] ''protobuf metadata does not match snapshot document'')
                else check_then (DesiredSnapshot_Validate (we_go env) s)
                  (case ComputeChecksum (we_go env) s of
                     Inl _ \<Rightarrow> Inl (apply_error ''checksum_mismatch'' ''checksum'' ''checksum mismatch'')
                   | Inr checksum \<Rightarrow>
                       if \<not> equal_fold checksum (ws_Checksum w) then
                         Inl (apply_error ''checksum_mismatch'' ''checksum'' ''checksum mismatch'')
                       else Inr s))"

section \<open>Observed states\<close>

record wire_observed =
  wo_SchemaVersion :: u32
  wo_NodeId :: string
  wo_AppliedGeneration :: u64
  wo_Healthy :: bool
  wo_Degraded :: bool
  wo_LastError :: "LastError option"
  wo_DocumentJson :: bytes
  wo_ObservedAt :: "time option"

definition ObservedToProto :: "wire_env \<Rightarrow> time \<Rightarrow> ObservedState \<Rightarrow> wire_observed result" where
  "ObservedToProto env now state0 =
     (let state1 = (if os_SchemaVersion state0 = 0 then state0\<lparr>os_SchemaVersion := CurrentControlProtocolVersion\<rparr> else state0) in
      if os_NodeID state1 = [] then Inl (ErrNew ''observed state node id is required'')
      else if os_SchemaVersion state1 \<noteq> CurrentControlProtocolVersion then Inl ErrUnknownSchema
      else let state = (if os_ObservedAt state1 = 0 then state1\<lparr>os_ObservedAt := now\<rparr> else state1) in
        check_then (ObservedState_Validate now state)
        (bind_result (we_MarshalObserved env state) (\<lambda>document.
         if length document > MaxControlMessageBytes then Inl (ErrNew ''observed state exceeds control message limit'')
         else Inr \<lparr>wo_SchemaVersion = os_SchemaVersion state, wo_NodeId = os_NodeID state,
           wo_AppliedGeneration = os_AppliedGeneration state, wo_Healthy = os_Healthy state, wo_Degraded = os_Degraded state,
           wo_LastError = os_LastError state, wo_DocumentJson = document, wo_ObservedAt = Some (os_ObservedAt state)\<rparr>)))"

definition observed_time_check :: "wire_env \<Rightarrow> wire_observed \<Rightarrow> ObservedState \<Rightarrow> ObservedState result" where
  "observed_time_check env w state =
     (case wo_ObservedAt w of
        None \<Rightarrow> Inr state
      | Some t \<Rightarrow>
          if \<not> we_TimestampValid env t then Inl (ErrNew ''observed timestamp is invalid'')
          else if os_ObservedAt state \<noteq> 0 \<and> os_ObservedAt state \<noteq> t then Inl (ErrNew ''observed timestamp metadata mismatch'')
          else Inr (state\<lparr>os_ObservedAt := t\<rparr>))"

definition ObservedFromProto :: "wire_env \<Rightarrow> time \<Rightarrow> wire_observed option \<Rightarrow> ObservedState result" where
  "ObservedFromProto env now value =
     (case value of
        None \<Rightarrow> Inl (ErrNew ''invalid observed state'')
      | Some w \<Rightarrow>
          if length (wo_DocumentJson w) = 0 \<or> length (wo_DocumentJson w) > MaxControlMessageBytes then
            Inl (ErrNew ''invalid observed state'')
          else if wo_SchemaVersion w \<noteq> CurrentControlProtocolVersion \<or> wo_NodeId w = [] then Inl ErrUnknownSchema
          else case DecodeStrict (we_DecodeObserved env) (we_skip env) (wo_DocumentJson w) of
              Inl err \<Rightarrow> Inl (ErrWrap ''decode observed state: '' err)
            | Inr state0 \<Rightarrow>
                if os_SchemaVersion state0 \<noteq> wo_SchemaVersion w \<or> os_NodeID state0 \<noteq> wo_NodeId w
                    \<or> os_AppliedGeneration state0 \<noteq> wo_AppliedGeneration w \<or> os_Healthy state0 \<noteq> wo_Healthy w
                    \<or> os_Degraded state0 \<noteq> wo_Degraded w then
                  Inl (ErrNew ''observed state metadata mismatch'')
                else bind_result (observed_time_check env w state0) (\<lambda>state.
                  if os_LastError state \<noteq> wo_LastError w then Inl (ErrNew ''observed state error metadata mismatch'')
                  else check_then (ObservedState_Validate now state) (Inr state)))"

section \<open>Framing\<close>

definition message_limit :: "int \<Rightarrow> int" where
  "message_limit mx = (if mx \<le> 0 \<or> mx > int MaxControlMessageBytes then int MaxControlMessageBytes else mx)"

definition WriteMessage :: "'w writer \<Rightarrow> ('m \<Rightarrow> bytes result) \<Rightarrow> 'w \<Rightarrow> 'm option \<Rightarrow> int \<Rightarrow> 'w \<times> check" where
  "WriteMessage write marshal w message mx =
     (case message of
        None \<Rightarrow> (w, Some (ErrNew ''control message is nil''))
      | Some m \<Rightarrow>
          (case marshal m of
             Inl err \<Rightarrow> (w, Some err)
           | Inr b \<Rightarrow>
               if int (length b) > message_limit mx then (w, Some (ErrNew ''control message exceeds the limit''))
               else case WriteFull write w (length_prefix b) of
                   (w', Some err) \<Rightarrow> (w', Some err)
                 | (w', None) \<Rightarrow> WriteFull write w' b))"

definition ReadMessage :: "(bytes \<Rightarrow> 'm result) \<Rightarrow> bytes \<Rightarrow> int \<Rightarrow> ('m \<times> bytes) result" where
  "ReadMessage unmarshal stream mx =
     bind_result (read_full 4 stream) (\<lambda>(header, rest).
       let size = unat (be_get header :: u32) in
       if size = 0 then Inl (ErrNew ''control message is empty'')
       else if int size > message_limit mx then Inl (ErrNew ''control message exceeds the limit'')
       else bind_result (read_full size rest) (\<lambda>(b, rest').
         case unmarshal b of
           Inl err \<Rightarrow> Inl (ErrWrap ''decode control message: '' err)
         | Inr m \<Rightarrow> Inr (m, rest')))"

section \<open>What is sent arrives\<close>

lemma Validate_header:
  assumes "DesiredSnapshot_Validate env s = None"
  shows "ds_SchemaVersion s = CurrentControlProtocolVersion" "ds_NodeID s \<noteq> []" "ds_Generation s \<noteq> 0"
  using assms by (auto simp: DesiredSnapshot_Validate_def snapshot_header_checks_def ValidateID_def fail_if_def split: if_splits)

text \<open>
  C6. A snapshot that \<^verbatim>\<open>WithChecksum\<close> prepared arrives as it was sent: the controller's encoding is accepted by
  the node with every check of its metadata, document and checksum, and decodes to the same snapshot.
\<close>

theorem snapshot_travels:
  assumes "WithChecksum (we_go env) s0 = Inr s" "SnapshotToProto env s = Inr w" "\<forall>b. sha256 (we_go env) b \<noteq> []"
    and "json_travels (we_MarshalSnapshot env) (we_DecodeSnapshot env) (we_skip env) s"
  shows "SnapshotFromProto env (Some w) = Inr s"
proof -
  have f: "DesiredSnapshot_Validate (we_go env) s = None" "ComputeChecksum (we_go env) s = Inr (ds_Checksum s)" "Normalize s = s"
    using WithChecksum_facts [OF assms(1)] by auto
  obtain b where "ds_Checksum s = hex_encode (sha256 (we_go env) b)" using f(2) by (auto simp: ComputeChecksum_def dest: sym)
  then have "length (ds_Checksum s) \<noteq> 0" using assms(3) by (simp add: length_hex_encode)
  then have ne: "ds_Checksum s \<noteq> []" by simp
  obtain doc where d: "we_MarshalSnapshot env s = Inr doc" "length doc \<le> MaxControlMessageBytes"
    and w: "w = \<lparr>ws_SchemaVersion = ds_SchemaVersion s, ws_NodeId = ds_NodeID s, ws_Generation = ds_Generation s, ws_Checksum = ds_Checksum s, ws_DocumentJson = doc\<rparr>"
    using assms(2) f by (auto simp: SnapshotToProto_def Let_def not_less split: if_splits sum.splits)
  from DecodeStrict_travels [OF assms(4) d(1)] f ne d(2) Validate_header [OF f(1)] show ?thesis
    by (simp add: SnapshotFromProto_def w)
qed

text \<open>
  The node accepts no snapshot that it would not accept from a file: what \<^verbatim>\<open>SnapshotFromProto\<close> returns
  validates, has the announced node, generation and checksum, and its content has that checksum.
\<close>

theorem snapshot_received_authentic:
  assumes "SnapshotFromProto env (Some w) = Inr s"
  shows "DesiredSnapshot_Validate (we_go env) s = None \<and> ds_NodeID s = ws_NodeId w \<and> ds_Generation s = ws_Generation w
    \<and> (\<exists>c. ComputeChecksum (we_go env) s = Inr c \<and> equal_fold c (ws_Checksum w))"
  using assms by (auto simp: SnapshotFromProto_def split: if_splits sum.splits)

text \<open>The state that is sent: schema version and time are filled in.\<close>

definition completed :: "time \<Rightarrow> ObservedState \<Rightarrow> ObservedState" where
  "completed now st =
     st\<lparr>os_SchemaVersion := (if os_SchemaVersion st = 0 then CurrentControlProtocolVersion else os_SchemaVersion st),
        os_ObservedAt := (if os_ObservedAt st = 0 then now else os_ObservedAt st)\<rparr>"

lemma completed_steps:
  "st1 = (if os_SchemaVersion st = 0 then st\<lparr>os_SchemaVersion := CurrentControlProtocolVersion\<rparr> else st) \<Longrightarrow>
   (if os_ObservedAt st1 = 0 then st1\<lparr>os_ObservedAt := now\<rparr> else st1) = completed now st"
  by (cases st) (auto simp: completed_def)

lemma completed_fields [simp]:
  "os_NodeID (completed now st) = os_NodeID st" "os_AppliedGeneration (completed now st) = os_AppliedGeneration st"
  "os_Healthy (completed now st) = os_Healthy st" "os_Degraded (completed now st) = os_Degraded st"
  "os_LastError (completed now st) = os_LastError st"
  by (simp_all add: completed_def)

lemma ObservedToProto_Inr:
  assumes "ObservedToProto env now st = Inr w"
  obtains doc where "we_MarshalObserved env (completed now st) = Inr doc" "length doc \<le> MaxControlMessageBytes"
    "os_NodeID st \<noteq> []" "os_SchemaVersion (completed now st) = CurrentControlProtocolVersion"
    "w = \<lparr>wo_SchemaVersion = os_SchemaVersion (completed now st), wo_NodeId = os_NodeID st,
       wo_AppliedGeneration = os_AppliedGeneration st, wo_Healthy = os_Healthy st, wo_Degraded = os_Degraded st,
       wo_LastError = os_LastError st, wo_DocumentJson = doc, wo_ObservedAt = Some (os_ObservedAt (completed now st))\<rparr>"
proof -
  define st1 where "st1 = (if os_SchemaVersion st = 0 then st\<lparr>os_SchemaVersion := CurrentControlProtocolVersion\<rparr> else st)"
  have f: "os_NodeID st1 = os_NodeID st" "os_SchemaVersion st1 = os_SchemaVersion (completed now st)"
    by (simp_all add: st1_def completed_def)
  show ?thesis
    using assms that
    unfolding ObservedToProto_def st1_def [symmetric] Let_def completed_steps [OF st1_def] f
    by (auto simp: not_less split: if_splits)
qed

text \<open>
  An observed state arrives as it was sent, with schema version and time filled in, if the receiver's
  clock lets it validate.
\<close>

theorem observed_travels:
  assumes "ObservedToProto env now st = Inr w" "we_TimestampValid env (os_ObservedAt (completed now st))"
    and "json_travels (we_MarshalObserved env) (we_DecodeObserved env) (we_skip env) (completed now st)"
    and "ObservedState_Validate now' (completed now st) = None"
  shows "ObservedFromProto env now' (Some w) = Inr (completed now st)"
proof -
  from assms(1) obtain doc where d: "we_MarshalObserved env (completed now st) = Inr doc" "length doc \<le> MaxControlMessageBytes"
    "os_NodeID st \<noteq> []" "os_SchemaVersion (completed now st) = CurrentControlProtocolVersion"
    and w: "w = \<lparr>wo_SchemaVersion = os_SchemaVersion (completed now st), wo_NodeId = os_NodeID st,
       wo_AppliedGeneration = os_AppliedGeneration st, wo_Healthy = os_Healthy st, wo_Degraded = os_Degraded st,
       wo_LastError = os_LastError st, wo_DocumentJson = doc, wo_ObservedAt = Some (os_ObservedAt (completed now st))\<rparr>"
    by (rule ObservedToProto_Inr)
  have "(completed now st)\<lparr>os_ObservedAt := os_ObservedAt (completed now st)\<rparr> = completed now st" by simp
  with DecodeStrict_travels [OF assms(3) d(1)] assms(2,4) d(2-4) show ?thesis
    by (simp add: ObservedFromProto_def observed_time_check_def w)
qed

text \<open>
  A framed control message travels: what \<^verbatim>\<open>WriteMessage\<close> wrote, in whatever pieces the writer took it,
  \<^verbatim>\<open>ReadMessage\<close> with the same limit returns, and leaves the bytes that follow.
\<close>

theorem message_travels:
  assumes "marshal m = Inr b" "b \<noteq> []" "int (length b) \<le> message_limit mx" "unmarshal b = Inr m" "appends write content"
  shows "\<exists>w' sent. WriteMessage write marshal w (Some m) mx = (w', None) \<and> content w' = content w @ sent
    \<and> ReadMessage unmarshal (sent @ rest) mx = Inr (m, rest)"
proof -
  obtain w1 where w1: "WriteFull write w (length_prefix b) = (w1, None)" "content w1 = content w @ length_prefix b"
    using WriteFull_appends [OF assms(5)] by blast
  obtain w2 where w2: "WriteFull write w1 b = (w2, None)" "content w2 = content w1 @ b"
    using WriteFull_appends [OF assms(5)] by blast
  have "length b < 2 ^ 32" using assms(3) by (auto simp: message_limit_def split: if_splits)
  then have "unat (be_get (length_prefix b) :: u32) = length b" "length (length_prefix b) = 4"
    by (simp_all add: length_prefix_def be_get_put unsigned_of_nat take_bit_nat_eq_self)
  then have "ReadMessage unmarshal ((length_prefix b @ b) @ rest) mx = Inr (m, rest)"
    using assms(2,3,4) by (simp add: ReadMessage_def read_full_def)
  with w1 w2 assms(1,3) show ?thesis by (intro exI [of _ w2] exI [of _ "length_prefix b @ b"]) (simp add: WriteMessage_def)
qed

section \<open>Samples\<close>

definition demo_state :: ObservedState where
  "demo_state = \<lparr>os_SchemaVersion = 0, os_NodeID = ''gw'', os_AppliedGeneration = 5, os_Healthy = True, os_Degraded = False,
     os_LastError = None, os_Sessions = [], os_Listeners = [], os_Metrics = zero_metrics, os_SystemInfo = None, os_ObservedAt = 0\<rparr>"

definition demo_wire :: "DesiredSnapshot \<Rightarrow> wire_env" where
  "demo_wire s = \<lparr>we_go = plain_env, we_MarshalSnapshot = (\<lambda>_. Inr [7]), we_DecodeSnapshot = (\<lambda>_. Inr (s, [])),
     we_MarshalObserved = (\<lambda>_. Inr [8]), we_DecodeObserved = (\<lambda>_. Inr (completed 9 demo_state, [])),
     we_skip = (\<lambda>_. Some EOF), we_TimestampValid = (\<lambda>t. 0 \<le> t)\<rparr>"

lemma demo_sent:
  obtains s w where "WithChecksum plain_env (sample_snapshot ''a1'' 8000) = Inr s" "SnapshotToProto (demo_wire s) s = Inr w"
proof -
  let ?s = "sample_snapshot ''a1'' 8000"
  have "Normalize ?s = ?s"
    by (simp add: Normalize_def normalize_gateway_def normalize_assignment_def sample_defs sort_egress_def)
  moreover have "?s\<lparr>ds_Checksum := []\<rparr> = ?s" by (simp add: sample_snapshot_def)
  ultimately obtain s where s: "WithChecksum plain_env ?s = Inr s"
    using sample_checksum [of "''a1''" 8000] sample_valid by (auto simp: WithChecksum_def)
  note f = WithChecksum_facts [OF s]
  have "\<exists>w. SnapshotToProto (demo_wire s) s = Inr w"
    using f by (simp add: SnapshotToProto_def demo_wire_def Let_def)
  with s that show ?thesis by blast
qed

lemma demo_json: "json_travels (we_MarshalSnapshot (demo_wire s)) (we_DecodeSnapshot (demo_wire s)) (we_skip (demo_wire s)) s"
  by (simp add: json_travels_def demo_wire_def)

theorem snapshot_travels_witness:
  "\<exists>s w. WithChecksum plain_env (sample_snapshot ''a1'' 8000) = Inr s \<and> SnapshotToProto (demo_wire s) s = Inr w
     \<and> SnapshotFromProto (demo_wire s) (Some w) = Inr s"
proof -
  obtain s w where s: "WithChecksum plain_env (sample_snapshot ''a1'' 8000) = Inr s" and w: "SnapshotToProto (demo_wire s) s = Inr w"
    by (rule demo_sent)
  have "we_go (demo_wire s) = plain_env" "\<forall>b. sha256 plain_env b \<noteq> []" by (simp_all add: demo_wire_def plain_env_sel)
  with snapshot_travels [OF _ w _ demo_json] s w show ?thesis by metis
qed

lemma demo_received:
  obtains s w where "SnapshotFromProto (demo_wire s) (Some w) = Inr s"
proof -
  obtain s w where s: "WithChecksum plain_env (sample_snapshot ''a1'' 8000) = Inr s" and w: "SnapshotToProto (demo_wire s) s = Inr w"
    by (rule demo_sent)
  note f = WithChecksum_facts [OF s]
  let ?w = "\<lparr>ws_SchemaVersion = ds_SchemaVersion s, ws_NodeId = ds_NodeID s, ws_Generation = ds_Generation s,
      ws_Checksum = ds_Checksum s, ws_DocumentJson = [7]\<rparr>"
  have "ds_Checksum s \<noteq> []"
    using s by (auto simp: WithChecksum_def Let_def ComputeChecksum_def plain_env_sel hex_encode_def hex_byte_def)
  then have "SnapshotFromProto (demo_wire s) (Some ?w) = Inr s"
    using f Validate_header [of plain_env s] by (simp add: SnapshotFromProto_def demo_wire_def DecodeStrict_def EOF_def)
  then show ?thesis by (rule that)
qed

theorem snapshot_received_authentic_witness:
  "\<exists>s w. SnapshotFromProto (demo_wire s) (Some w) = Inr s \<and> DesiredSnapshot_Validate plain_env s = None"
proof -
  obtain s w where r: "SnapshotFromProto (demo_wire s) (Some w) = Inr s" by (rule demo_received)
  from snapshot_received_authentic [OF r] r show ?thesis by (auto simp: demo_wire_def)
qed

lemma demo_state_valid: "ObservedState_Validate now (completed 9 demo_state) = None"
  by (simp add: ObservedState_Validate_def completed_def demo_state_def sample_ids SystemInfo_Validate_def)

lemma demo_observed_sent: "\<exists>w. ObservedToProto (demo_wire s) 9 demo_state = Inr w"
proof -
  define st1 where "st1 = (if os_SchemaVersion demo_state = 0 then demo_state\<lparr>os_SchemaVersion := CurrentControlProtocolVersion\<rparr> else demo_state)"
  have f: "os_NodeID st1 = ''gw''" "os_SchemaVersion st1 = CurrentControlProtocolVersion" by (simp_all add: st1_def demo_state_def)
  show ?thesis
    unfolding ObservedToProto_def st1_def [symmetric] Let_def completed_steps [OF st1_def] f
    by (simp add: demo_state_valid, simp add: demo_wire_def, rule exI, rule exI [of _ "[8]"], simp)
qed

theorem observed_travels_witness:
  "\<exists>w. ObservedToProto (demo_wire (sample_snapshot ''a1'' 8000)) 9 demo_state = Inr w
     \<and> ObservedFromProto (demo_wire (sample_snapshot ''a1'' 8000)) 10 (Some w) = Inr (completed 9 demo_state)"
proof -
  let ?e = "demo_wire (sample_snapshot ''a1'' 8000)"
  obtain w where w: "ObservedToProto ?e 9 demo_state = Inr w" using demo_observed_sent by blast
  have "we_TimestampValid ?e (os_ObservedAt (completed 9 demo_state))" by (simp add: demo_wire_def completed_def demo_state_def)
  moreover have "json_travels (we_MarshalObserved ?e) (we_DecodeObserved ?e) (we_skip ?e) (completed 9 demo_state)"
    by (simp add: json_travels_def demo_wire_def)
  ultimately have "ObservedFromProto ?e 10 (Some w) = Inr (completed 9 demo_state)"
    by (rule observed_travels [OF w _ _ demo_state_valid])
  with w show ?thesis by blast
qed

theorem message_travels_witness:
  "\<exists>w' sent. WriteMessage byte_writer (\<lambda>m. Inr m) [] (Some [1, 2, 3]) 0 = (w', None) \<and> w' = sent
     \<and> ReadMessage (\<lambda>b. Inr b) (sent @ [9]) 0 = Inr ([1, 2, 3], [9])"
  using message_travels [of "\<lambda>m. Inr m" "[1, 2, 3]" "[1, 2, 3]" 0 "\<lambda>b. Inr b", OF _ _ _ _ byte_writer_appends, of "[]" "[9]"]
  by (simp add: message_limit_def)

end
