(* ===== verification/Controller_Secrets.thy ===== *)
theory Controller_Secrets
  imports Node_Cache Control_Wire
begin

text \<open>
  The key handling of \<^verbatim>\<open>internal/controller/crypto.go\<close> and \<^verbatim>\<open>store_security.go\<close>: obfuscation keys are stored
  encrypted under the controller's master key and decrypted only in the document that is sent to a
  node. AES-GCM is a parameter, as in \<^verbatim>\<open>Node_Cache\<close>; \<open>rnd\<close> is what the random generator delivers.
\<close>

record controller_env =
  ce_go :: go_env
  ce_masterKey :: bytes
  ce_Seal :: "bytes \<Rightarrow> bytes \<Rightarrow> bytes \<Rightarrow> bytes"
  ce_Open :: "bytes \<Rightarrow> bytes \<Rightarrow> bytes \<Rightarrow> bytes option"
  ce_Marshal :: "DesiredSnapshot \<Rightarrow> bytes result"
  ce_Unmarshal :: "bytes \<Rightarrow> DesiredSnapshot result"

section \<open>Secrets\<close>

definition EncryptSecret :: "controller_env \<Rightarrow> bytes result \<Rightarrow> bytes \<Rightarrow> bytes result" where
  "EncryptSecret env rnd plaintext =
     (if length (ce_masterKey env) \<noteq> 32 then Inl (ErrNew ''master key must contain exactly 32 bytes'')
      else bind_result rnd (\<lambda>nonce. Inr (nonce @ ce_Seal env (ce_masterKey env) nonce plaintext)))"

definition DecryptSecret :: "controller_env \<Rightarrow> bytes \<Rightarrow> bytes result" where
  "DecryptSecret env ciphertext =
     (if length (ce_masterKey env) \<noteq> 32 then Inl (ErrNew ''master key must contain exactly 32 bytes'')
      else if length ciphertext < gcmNonceSize + gcmOverhead then Inl (ErrNew ''ciphertext is truncated'')
      else case ce_Open env (ce_masterKey env) (take gcmNonceSize ciphertext) (drop gcmNonceSize ciphertext) of
          None \<Rightarrow> Inl (ErrNew ''ciphertext authentication failed'')
        | Some p \<Rightarrow> Inr p)"

definition secret_laws :: "controller_env \<Rightarrow> bool" where
  "secret_laws env \<longleftrightarrow>
     (\<forall>k n p. ce_Open env k n (ce_Seal env k n p) = Some p) \<and> (\<forall>k n p. length (ce_Seal env k n p) = length p + gcmOverhead)
     \<and> (\<forall>b. sha256 (ce_go env) b \<noteq> [])"

lemma DecryptSecret_EncryptSecret:
  assumes "EncryptSecret env (Inr nonce) p = Inr c" "length nonce = gcmNonceSize" "secret_laws env"
  shows "DecryptSecret env c = Inr p" "c \<noteq> []"
  using assms by (auto simp: EncryptSecret_def DecryptSecret_def secret_laws_def split: if_splits)

section \<open>Policies at rest\<close>

definition clear_keys :: "ObfuscationPolicy \<Rightarrow> ObfuscationPolicy" where
  "clear_keys p = p\<lparr>ob_Key := [], ob_PreviousKey := [], ob_KeyCiphertext := [], ob_PreviousKeyCiphertext := []\<rparr>"

definition protect_current :: "controller_env \<Rightarrow> bytes result \<Rightarrow> ObfuscationPolicy \<Rightarrow> ObfuscationPolicy result" where
  "protect_current env rnd p =
     bind_result
       (if ob_Key p = [] then Inr p
        else if length (ob_Key p) \<noteq> 32 then Inl (ErrNew ''data-plane obfuscation key must contain exactly 32 bytes'')
        else case EncryptSecret env rnd (ob_Key p) of
            Inl err \<Rightarrow> Inl (ErrWrap ''encrypt obfuscation key: '' err)
          | Inr c \<Rightarrow> Inr (p\<lparr>ob_KeyCiphertext := c, ob_KeyID := ObfuscationKeyID (ce_go env) (ob_Key p), ob_Key := []\<rparr>))
       (\<lambda>p1.
         if ob_KeyCiphertext p1 = [] then Inl (ErrNew ''camouflage mode requires a protected current key'')
         else case DecryptSecret env (ob_KeyCiphertext p1) of
             Inl _ \<Rightarrow> Inl (ErrNew ''camouflage current key is not a valid Controller-encrypted 32-byte key'')
           | Inr current \<Rightarrow>
               if length current \<noteq> 32 then Inl (ErrNew ''camouflage current key is not a valid Controller-encrypted 32-byte key'')
               else if ob_KeyID p1 \<noteq> [] \<and> ob_KeyID p1 \<noteq> ObfuscationKeyID (ce_go env) current then
                 Inl (ErrNew ''obfuscation key id does not match the encrypted current key'')
               else Inr (p1\<lparr>ob_KeyID := ObfuscationKeyID (ce_go env) current\<rparr>))"

definition protect_previous :: "controller_env \<Rightarrow> bytes result \<Rightarrow> ObfuscationPolicy \<Rightarrow> ObfuscationPolicy result" where
  "protect_previous env rnd p =
     bind_result
       (if ob_PreviousKey p = [] then Inr p
        else if length (ob_PreviousKey p) \<noteq> 32 then Inl (ErrNew ''previous data-plane obfuscation key must contain exactly 32 bytes'')
        else case EncryptSecret env rnd (ob_PreviousKey p) of
            Inl err \<Rightarrow> Inl (ErrWrap ''encrypt previous obfuscation key: '' err)
          | Inr c \<Rightarrow> Inr (p\<lparr>ob_PreviousKeyCiphertext := c, ob_PreviousKeyID := ObfuscationKeyID (ce_go env) (ob_PreviousKey p),
              ob_PreviousKey := []\<rparr>))
       (\<lambda>p1.
         if ob_PreviousKeyCiphertext p1 = [] then Inr p1
         else case DecryptSecret env (ob_PreviousKeyCiphertext p1) of
             Inl _ \<Rightarrow> Inl (ErrNew ''previous obfuscation key is not a valid Controller-encrypted 32-byte key'')
           | Inr previous \<Rightarrow>
               if length previous \<noteq> 32 then Inl (ErrNew ''previous obfuscation key is not a valid Controller-encrypted 32-byte key'')
               else if ob_PreviousKeyID p1 \<noteq> [] \<and> ob_PreviousKeyID p1 \<noteq> ObfuscationKeyID (ce_go env) previous then
                 Inl (ErrNew ''obfuscation previous key id does not match the encrypted previous key'')
               else Inr (p1\<lparr>ob_PreviousKeyID := ObfuscationKeyID (ce_go env) previous\<rparr>))"

definition protectObfuscationPolicy :: "controller_env \<Rightarrow> bytes result \<times> bytes result \<Rightarrow> ObfuscationPolicy \<Rightarrow> ObfuscationPolicy result" where
  "protectObfuscationPolicy env rnds p =
     (if ob_Mode p = [] \<or> ob_Mode p = ''standard'' then Inr ((clear_keys p)\<lparr>ob_KeyID := [], ob_PreviousKeyID := []\<rparr>)
      else if ob_Mode p \<noteq> ''camouflage'' then
        Inl (apply_error ''invalid_obfuscation'' ''obfuscation.mode'' ''obfuscation mode must be standard or camouflage'')
      else bind_result (protect_current env (fst rnds) p) (\<lambda>p1.
           bind_result (protect_previous env (snd rnds) p1) (\<lambda>p2. Inr (p2\<lparr>ob_Key := [], ob_PreviousKey := []\<rparr>))))"

definition obfuscationRequestPolicy :: "ObfuscationPolicy \<Rightarrow> ObfuscationPolicy" where
  "obfuscationRequestPolicy p = clear_keys p"

section \<open>Policies on the wire\<close>

definition wire_current :: "controller_env \<Rightarrow> ObfuscationPolicy \<Rightarrow> ObfuscationPolicy result" where
  "wire_current env p =
     bind_result
       (if ob_Key p \<noteq> [] then Inr p
        else case DecryptSecret env (ob_KeyCiphertext p) of
            Inl _ \<Rightarrow> Inl (ErrNew ''current obfuscation key cannot be decrypted'')
          | Inr key \<Rightarrow> if length key \<noteq> 32 then Inl (ErrNew ''current obfuscation key cannot be decrypted'') else Inr (p\<lparr>ob_Key := key\<rparr>))
       (\<lambda>p1.
         if ob_KeyID p1 \<noteq> [] \<and> ob_KeyID p1 \<noteq> ObfuscationKeyID (ce_go env) (ob_Key p1) then
           Inl (ErrNew ''wire obfuscation key id does not match current key'')
         else Inr (p1\<lparr>ob_KeyID := ObfuscationKeyID (ce_go env) (ob_Key p1)\<rparr>))"

definition wire_previous :: "controller_env \<Rightarrow> ObfuscationPolicy \<Rightarrow> ObfuscationPolicy result" where
  "wire_previous env p =
     bind_result
       (if ob_PreviousKeyCiphertext p = [] \<or> ob_PreviousKey p \<noteq> [] then Inr p
        else case DecryptSecret env (ob_PreviousKeyCiphertext p) of
            Inl _ \<Rightarrow> Inl (ErrNew ''previous obfuscation key cannot be decrypted'')
          | Inr key \<Rightarrow> if length key \<noteq> 32 then Inl (ErrNew ''previous obfuscation key cannot be decrypted'') else Inr (p\<lparr>ob_PreviousKey := key\<rparr>))
       (\<lambda>p1.
         if length (ob_Key p1) \<noteq> 32 \<or> (ob_PreviousKey p1 \<noteq> [] \<and> length (ob_PreviousKey p1) \<noteq> 32) then
           Inl (ErrNew ''wire obfuscation key has an invalid length'')
         else if ob_PreviousKey p1 = [] then Inr p1
         else if ob_PreviousKeyID p1 \<noteq> [] \<and> ob_PreviousKeyID p1 \<noteq> ObfuscationKeyID (ce_go env) (ob_PreviousKey p1) then
           Inl (ErrNew ''wire obfuscation previous key id does not match previous key'')
         else Inr (p1\<lparr>ob_PreviousKeyID := ObfuscationKeyID (ce_go env) (ob_PreviousKey p1)\<rparr>))"

definition decryptObfuscationPolicyForWire :: "controller_env \<Rightarrow> ObfuscationPolicy \<Rightarrow> ObfuscationPolicy result" where
  "decryptObfuscationPolicyForWire env p =
     (if ob_Mode p = [] \<or> ob_Mode p = ''standard'' then Inr (clear_keys p)
      else bind_result (wire_current env p) (\<lambda>p1.
           bind_result (wire_previous env p1) (\<lambda>p2. Inr (p2\<lparr>ob_KeyCiphertext := [], ob_PreviousKeyCiphertext := []\<rparr>))))"

text \<open>
  A function on policies applied to every policy of a snapshot, as the loops over it do; the function
  knows the position of the policy (0 is the gateway's), since each encryption draws a nonce of its own.
\<close>

definition gateway_policy :: "(ObfuscationPolicy \<Rightarrow> ObfuscationPolicy result) \<Rightarrow> GatewaySpec option \<Rightarrow> GatewaySpec option result" where
  "gateway_policy f g =
     (case g of None \<Rightarrow> Inr None
      | Some v \<Rightarrow> bind_result (f (gw_Obfuscation v)) (\<lambda>ob. Inr (Some (v\<lparr>gw_Obfuscation := ob\<rparr>))))"

definition assignment_policy :: "(nat \<Rightarrow> ObfuscationPolicy \<Rightarrow> ObfuscationPolicy result) \<Rightarrow> nat \<times> Assignment \<Rightarrow> Assignment result" where
  "assignment_policy f ia =
     (case ia of (i, a) \<Rightarrow>
      case f i (as_Obfuscation a) of
        Inl err \<Rightarrow> Inl (ErrWrap (''assignment '' @ quoted (as_ID a) @ '' obfuscation: '') err)
      | Inr ob \<Rightarrow> Inr (a\<lparr>as_Obfuscation := ob\<rparr>))"

definition snapshot_policies :: "(nat \<Rightarrow> ObfuscationPolicy \<Rightarrow> ObfuscationPolicy result) \<Rightarrow> DesiredSnapshot \<Rightarrow> DesiredSnapshot result" where
  "snapshot_policies f s =
     bind_result (gateway_policy (f 0) (ds_Gateway s)) (\<lambda>g.
     bind_result (map_result (assignment_policy f) (enumerate 1 (ds_Assignments s))) (\<lambda>as.
     Inr (s\<lparr>ds_Gateway := g, ds_Assignments := as\<rparr>)))"

definition SnapshotDocumentForWire :: "controller_env \<Rightarrow> bytes \<Rightarrow> bytes result" where
  "SnapshotDocumentForWire env document =
     (case ce_Unmarshal env document of
        Inl err \<Rightarrow> Inl (ErrWrap ''decode snapshot for wire: '' err)
      | Inr s \<Rightarrow>
          bind_result (snapshot_policies (\<lambda>_. decryptObfuscationPolicyForWire env) s) (\<lambda>w.
          case DesiredSnapshot_Validate (ce_go env) w of
            Some err \<Rightarrow> Inl (ErrWrap ''snapshot for wire is invalid: '' err)
          | None \<Rightarrow> ce_Marshal env w))"

section \<open>Keys travel, ciphertexts stay\<close>

text \<open>
  What is stored is protected: no plaintext key, and a ciphertext that decrypts to the key its
  identifier names.
\<close>

definition protected_policy :: "controller_env \<Rightarrow> ObfuscationPolicy \<Rightarrow> bool" where
  "protected_policy env p \<longleftrightarrow> ob_Key p = [] \<and> ob_PreviousKey p = [] \<and>
     (ob_Mode p = ''camouflage'' \<longrightarrow>
        (\<exists>k. DecryptSecret env (ob_KeyCiphertext p) = Inr k \<and> length k = 32 \<and> ob_KeyCiphertext p \<noteq> [] \<and> ob_KeyID p = ObfuscationKeyID (ce_go env) k)
        \<and> (ob_PreviousKeyCiphertext p \<noteq> [] \<longrightarrow>
            (\<exists>k. DecryptSecret env (ob_PreviousKeyCiphertext p) = Inr k \<and> length k = 32 \<and> ob_PreviousKeyID p = ObfuscationKeyID (ce_go env) k)))"

lemma protect_current_ok:
  assumes "protect_current env rnd p = Inr q"
  shows "\<exists>k. DecryptSecret env (ob_KeyCiphertext q) = Inr k \<and> length k = 32 \<and> ob_KeyCiphertext q \<noteq> [] \<and> ob_KeyID q = ObfuscationKeyID (ce_go env) k"
    and "ob_Key q = []" "ob_PreviousKey q = ob_PreviousKey p" "ob_PreviousKeyCiphertext q = ob_PreviousKeyCiphertext p"
    "ob_PreviousKeyID q = ob_PreviousKeyID p" "ob_Mode q = ob_Mode p"
  using assms by (auto simp: protect_current_def split: if_splits sum.splits)

lemma protect_previous_ok:
  assumes "protect_previous env rnd p = Inr q"
  shows "ob_PreviousKeyCiphertext q \<noteq> [] \<longrightarrow>
      (\<exists>k. DecryptSecret env (ob_PreviousKeyCiphertext q) = Inr k \<and> length k = 32 \<and> ob_PreviousKeyID q = ObfuscationKeyID (ce_go env) k)"
    and "ob_PreviousKey q = []" "ob_Key q = ob_Key p" "ob_KeyCiphertext q = ob_KeyCiphertext p" "ob_KeyID q = ob_KeyID p" "ob_Mode q = ob_Mode p"
  using assms by (auto simp: protect_previous_def split: if_splits sum.splits)

lemma protect_protects:
  assumes "protectObfuscationPolicy env rnds p = Inr q"
  shows "protected_policy env q \<and> ob_Mode q = ob_Mode p"
proof (cases "ob_Mode p = ''camouflage''")
  case True
  then obtain p1 p2 where p: "protect_current env (fst rnds) p = Inr p1" "protect_previous env (snd rnds) p1 = Inr p2"
    "q = p2\<lparr>ob_Key := [], ob_PreviousKey := []\<rparr>"
    using assms by (auto simp: protectObfuscationPolicy_def)
  show ?thesis using protect_current_ok [OF p(1)] protect_previous_ok [OF p(2)] by (simp add: protected_policy_def p(3))
qed (use assms in \<open>auto simp: protectObfuscationPolicy_def protected_policy_def clear_keys_def split: if_splits\<close>)

text \<open>What the wire form keeps of a policy with a checksum.\<close>

lemma wire_current_form:
  assumes "wire_current env p = Inr q"
  shows "ob_Mode q = ob_Mode p" "ob_PreviousKeyID q = ob_PreviousKeyID p" "ob_PreviousKey q = ob_PreviousKey p"
    "ob_PreviousKeyCiphertext q = ob_PreviousKeyCiphertext p" "ob_MaxPaddingBytes q = ob_MaxPaddingBytes p" "ob_HandshakeShaping q = ob_HandshakeShaping p"
    "ob_KeyID p \<noteq> [] \<Longrightarrow> ob_KeyID q = ob_KeyID p"
  using assms by (auto simp: wire_current_def split: if_splits sum.splits)

lemma wire_previous_form:
  assumes "wire_previous env p = Inr q"
  shows "ob_Mode q = ob_Mode p" "ob_KeyID q = ob_KeyID p" "ob_MaxPaddingBytes q = ob_MaxPaddingBytes p" "ob_HandshakeShaping q = ob_HandshakeShaping p"
    "ob_PreviousKeyID q = (if ob_PreviousKey q = [] then ob_PreviousKeyID p else ObfuscationKeyID (ce_go env) (ob_PreviousKey q))"
    "length (ob_Key q) = 32"
    "ob_PreviousKey q \<noteq> [] \<Longrightarrow> (ob_PreviousKey p \<noteq> [] \<or> ob_PreviousKeyCiphertext p \<noteq> [])
       \<and> (ob_PreviousKeyID p = [] \<or> ob_PreviousKeyID p = ObfuscationKeyID (ce_go env) (ob_PreviousKey q))"
  using assms by (auto simp: wire_previous_def split: if_splits sum.splits)

lemma wire_keeps_checksum:
  assumes "decryptObfuscationPolicyForWire env p = Inr w" "checksumObfuscation p = Inr c"
  shows "checksumObfuscation w = Inr c \<and> ob_KeyCiphertext w = [] \<and> ob_PreviousKeyCiphertext w = []
    \<and> (ob_Mode w = ''camouflage'' \<longrightarrow> length (ob_Key w) = 32)"
proof (cases "ob_Mode p = ''camouflage''")
  case True
  then have ids: "ob_KeyID p \<noteq> []" "ob_PreviousKeyID p = [] \<longrightarrow> ob_PreviousKey p = [] \<and> ob_PreviousKeyCiphertext p = []"
    using assms(2) by (auto simp: checksumObfuscation_def Let_def split: if_splits)
  obtain p1 p2 where p: "wire_current env p = Inr p1" "wire_previous env p1 = Inr p2" "w = p2\<lparr>ob_KeyCiphertext := [], ob_PreviousKeyCiphertext := []\<rparr>"
    using assms(1) True by (auto simp: decryptObfuscationPolicyForWire_def)
  note f = wire_current_form [OF p(1)]
  note g = wire_previous_form [OF p(2)]
  have "ob_PreviousKeyID p2 = ob_PreviousKeyID p \<and> (ob_PreviousKeyID p2 = [] \<longrightarrow> ob_PreviousKey p2 = [])"
    using g(5,7) f(2-4) ids(2) by auto
  moreover have "c = \<lparr>co_Mode = ob_Mode p, co_KeyID = ob_KeyID p, co_PreviousKeyID = ob_PreviousKeyID p,
        co_MaxPaddingBytes = ob_MaxPaddingBytes p, co_HandshakeShaping = ob_HandshakeShaping p\<rparr>"
    using assms(2) by (auto simp: checksumObfuscation_def Let_def split: if_splits)
  ultimately show ?thesis using True ids(1) f(1,5-7) g(1-4,6) by (simp add: checksumObfuscation_def p(3))
next
  case False
  then have m: "ob_Mode p = [] \<or> ob_Mode p = ''standard''" using assms(2) by (auto simp: checksumObfuscation_def Let_def split: if_splits)
  then have "w = clear_keys p" using assms(1) by (auto simp: decryptObfuscationPolicyForWire_def)
  moreover have "checksumObfuscation (clear_keys p) = checksumObfuscation p" using m by (auto simp: checksumObfuscation_def clear_keys_def)
  ultimately show ?thesis using m assms(2) by (auto simp: clear_keys_def)
qed

text \<open>
  An obfuscation key reaches the node and nobody else: what \<^verbatim>\<open>protectObfuscationPolicy\<close> stores holds no
  plaintext key, and the document for the wire made of it holds the administrator's keys, no
  ciphertext, and the same key identifiers.
\<close>

theorem obfuscation_keys_travel:
  assumes "protectObfuscationPolicy env (Inr n1, Inr n2) p = Inr q" "length n1 = gcmNonceSize" "length n2 = gcmNonceSize" "secret_laws env"
    and "ob_Mode p = ''camouflage''" "ob_Key p \<noteq> []"
  shows "ob_Key q = [] \<and> ob_PreviousKey q = []
    \<and> (\<exists>w. decryptObfuscationPolicyForWire env q = Inr w \<and> ob_Key w = ob_Key p \<and> (ob_PreviousKey p \<noteq> [] \<longrightarrow> ob_PreviousKey w = ob_PreviousKey p)
        \<and> ob_KeyCiphertext w = [] \<and> ob_PreviousKeyCiphertext w = [] \<and> ob_KeyID w = ob_KeyID q \<and> ob_PreviousKeyID w = ob_PreviousKeyID q)"
proof -
  obtain p1 p2 where p: "protect_current env (Inr n1) p = Inr p1" "protect_previous env (Inr n2) p1 = Inr p2"
    and q: "q = p2\<lparr>ob_Key := [], ob_PreviousKey := []\<rparr>"
    using assms(1,5) by (auto simp: protectObfuscationPolicy_def)
  have cur: "DecryptSecret env (ob_KeyCiphertext p1) = Inr (ob_Key p)" "length (ob_Key p) = 32" "ob_KeyCiphertext p1 \<noteq> []"
    "ob_KeyID p1 = ObfuscationKeyID (ce_go env) (ob_Key p)"
    using p(1) assms(2,4,6) DecryptSecret_EncryptSecret [of env n1 "ob_Key p"]
    by (auto simp: protect_current_def split: if_splits sum.splits)
  note c = protect_current_ok(2-6) [OF p(1)]
  note v = protect_previous_ok(2-6) [OF p(2)]
  have prev: "DecryptSecret env (ob_PreviousKeyCiphertext p2) = Inr (ob_PreviousKey p)" "length (ob_PreviousKey p) = 32" "ob_PreviousKeyCiphertext p2 \<noteq> []"
    "ob_PreviousKeyID p2 = ObfuscationKeyID (ce_go env) (ob_PreviousKey p)" if "ob_PreviousKey p \<noteq> []"
    using p(2) that c assms(3,4) DecryptSecret_EncryptSecret [of env n2 "ob_PreviousKey p"]
    by (auto simp: protect_previous_def split: if_splits sum.splits)
  have q1: "ob_Mode q = ''camouflage''" "ob_Key q = []" "ob_PreviousKey q = []" "DecryptSecret env (ob_KeyCiphertext q) = Inr (ob_Key p)"
    "ob_KeyID q = ObfuscationKeyID (ce_go env) (ob_Key p)" "ob_PreviousKeyCiphertext q = ob_PreviousKeyCiphertext p2" "ob_PreviousKeyID q = ob_PreviousKeyID p2"
    using cur c(5) v assms(5) by (simp_all add: q)
  let ?q = "q\<lparr>ob_Key := ob_Key p\<rparr>"
  have w1: "wire_current env q = Inr ?q" using q1 cur(2) by (simp add: wire_current_def)
  obtain pk where pk: "wire_previous env ?q = Inr (?q\<lparr>ob_PreviousKey := pk\<rparr>)" "ob_PreviousKey p \<noteq> [] \<longrightarrow> pk = ob_PreviousKey p"
  proof (cases "ob_PreviousKeyCiphertext p2 = []")
    case True
    with prev have "ob_PreviousKey p = []" by blast
    moreover have "wire_previous env ?q = Inr (?q\<lparr>ob_PreviousKey := []\<rparr>)" using True q1 cur(2) by (simp add: wire_previous_def)
    ultimately show ?thesis using that by blast
  next
    case False
    then obtain k where k: "DecryptSecret env (ob_PreviousKeyCiphertext p2) = Inr k" "length k = 32" "ob_PreviousKeyID p2 = ObfuscationKeyID (ce_go env) k"
      using protect_previous_ok(1) [OF p(2)] by blast
    then have "k \<noteq> []" "ob_PreviousKey p \<noteq> [] \<longrightarrow> k = ob_PreviousKey p" using prev by auto
    moreover have "wire_previous env ?q = Inr (?q\<lparr>ob_PreviousKey := k\<rparr>)" using False k q1 cur(2) \<open>k \<noteq> []\<close> by (simp add: wire_previous_def)
    ultimately show ?thesis using that by blast
  qed
  from w1 pk q1 show ?thesis by (simp add: decryptObfuscationPolicyForWire_def)
qed

section \<open>The checksum survives\<close>

definition keeps_checksum :: "(ObfuscationPolicy \<Rightarrow> ObfuscationPolicy result) \<Rightarrow> bool" where
  "keeps_checksum f \<longleftrightarrow> (\<forall>v c w. checksumObfuscation v = Inr c \<longrightarrow> f v = Inr w \<longrightarrow> checksumObfuscation w = Inr c)"

lemma keeps_checksumD: "keeps_checksum f \<Longrightarrow> checksumObfuscation v = Inr c \<Longrightarrow> f v = Inr w \<Longrightarrow> checksumObfuscation w = Inr c"
  unfolding keeps_checksum_def by blast

text \<open>An assignment whose policy was replaced by one with the same checksum.\<close>

definition same_but_policy :: "Assignment \<Rightarrow> Assignment \<Rightarrow> bool" where
  "same_but_policy a b \<longleftrightarrow> (\<exists>ob. b = a\<lparr>as_Obfuscation := ob\<rparr> \<and> (\<forall>c. checksumObfuscation (as_Obfuscation a) = Inr c \<longrightarrow> checksumObfuscation ob = Inr c))"

lemma map_result_list_all2: "map_result f xs = Inr ys \<Longrightarrow> (\<And>x y. x \<in> set xs \<Longrightarrow> f x = Inr y \<Longrightarrow> R x y) \<Longrightarrow> list_all2 R xs ys"
  by (induction xs arbitrary: ys) fastforce+

lemma list_all2_insort_key:
  "list_all2 R xs ys \<Longrightarrow> R x y \<Longrightarrow> (\<And>x y. R x y \<Longrightarrow> k x = k y) \<Longrightarrow> list_all2 R (insort_key k x xs) (insort_key k y ys)"
  by (induction rule: list_all2_induct) auto

lemma list_all2_sort_key:
  "list_all2 R xs ys \<Longrightarrow> (\<And>x y. R x y \<Longrightarrow> k x = k y) \<Longrightarrow> list_all2 R (sort_key k xs) (sort_key k ys)"
  by (induction rule: list_all2_induct) (simp_all add: list_all2_insort_key)

lemma same_but_policy_checksum:
  "list_all2 same_but_policy as bs \<Longrightarrow> map_result checksum_assignment as = Inr cs \<Longrightarrow> map_result checksum_assignment bs = Inr cs"
  by (induction arbitrary: cs rule: list_all2_induct) (fastforce simp: same_but_policy_def checksum_assignment_def)+

lemma same_but_policy_normalize: "same_but_policy a b \<Longrightarrow> same_but_policy (normalize_assignment a) (normalize_assignment b)"
  by (cases a) (auto simp: same_but_policy_def normalize_assignment_def)

lemma assignment_policy_same: "assignment_policy f (i, a) = Inr b \<Longrightarrow> keeps_checksum (f i) \<Longrightarrow> same_but_policy a b"
proof -
  assume "assignment_policy f (i, a) = Inr b" "keeps_checksum (f i)"
  moreover from this(1) obtain ob where "f i (as_Obfuscation a) = Inr ob" "b = a\<lparr>as_Obfuscation := ob\<rparr>"
    by (auto simp: assignment_policy_def split: sum.splits)
  ultimately show ?thesis unfolding same_but_policy_def using keeps_checksumD by blast
qed

lemma enumerate_policies:
  assumes "map_result (assignment_policy f) (enumerate n as) = Inr bs" "\<forall>i. keeps_checksum (f i)"
  shows "list_all2 same_but_policy as bs"
  using assms(1)
proof (induction as arbitrary: n bs)
  case (Cons a as)
  obtain b bs' where "assignment_policy f (n, a) = Inr b" "map_result (assignment_policy f) (enumerate (Suc n) as) = Inr bs'" "bs = b # bs'"
    using Cons.prems by auto
  with Cons.IH assignment_policy_same assms(2) show ?case by auto
qed simp

lemma snapshot_policies_checksum:
  assumes "snapshot_policies f s = Inr w" "\<forall>i. keeps_checksum (f i)" "ComputeChecksum env s = Inr c"
  shows "ComputeChecksum env w = Inr c"
proof -
  obtain g as where g: "gateway_policy (f 0) (ds_Gateway s) = Inr g" and as: "map_result (assignment_policy f) (enumerate 1 (ds_Assignments s)) = Inr as"
    and w: "w = s\<lparr>ds_Gateway := g, ds_Assignments := as\<rparr>"
    using assms(1) by (auto simp: snapshot_policies_def)
  obtain d where d: "ChecksumDocument_of s = Inr d" using assms(3) by (auto simp: ComputeChecksum_def)
  have "list_all2 same_but_policy (ds_Assignments s) as" using as assms(2) by (rule enumerate_policies)
  then have "list_all2 same_but_policy (map normalize_assignment (ds_Assignments s)) (map normalize_assignment as)"
    by (simp add: list_all2_map1 list_all2_map2 list_all2_mono [OF _ same_but_policy_normalize])
  then have "list_all2 same_but_policy (ds_Assignments (Normalize s)) (ds_Assignments (Normalize w))"
    by (simp add: Normalize_def w) (rule list_all2_sort_key, auto simp: same_but_policy_def)
  note a = same_but_policy_checksum [OF this]
  have gw: "checksum_gateway_opt (ds_Gateway (Normalize w)) = Inr h" if h: "checksum_gateway_opt (ds_Gateway (Normalize s)) = Inr h" for h
  proof (cases "ds_Gateway s")
    case (Some v)
    then obtain ob where ob: "f 0 (gw_Obfuscation v) = Inr ob" "g = Some (v\<lparr>gw_Obfuscation := ob\<rparr>)" using g by (auto simp: gateway_policy_def)
    obtain c where c: "checksumObfuscation (gw_Obfuscation v) = Inr c"
      using h Some by (auto simp: Normalize_def checksum_gateway_opt_def checksum_gateway_def normalize_gateway_def)
    then have "checksumObfuscation ob = Inr c" using keeps_checksumD ob(1) assms(2) by blast
    with c h Some ob(2) show ?thesis
      by (simp add: w Normalize_def checksum_gateway_opt_def checksum_gateway_def normalize_gateway_def)
  qed (use h g in \<open>simp add: w Normalize_def gateway_policy_def\<close>)
  have "ChecksumDocument_of w = Inr d"
    using d a gw by (auto simp: ChecksumDocument_of_def Let_def w Normalize_def)
  with d assms(3) show ?thesis by (simp add: ComputeChecksum_def)
qed

lemma wire_policies: "\<forall>i::nat. keeps_checksum ((\<lambda>_. decryptObfuscationPolicyForWire env) i)"
  using wire_keeps_checksum by (simp add: keeps_checksum_def)

lemma snapshot_policies_fields:
  "snapshot_policies f s = Inr w \<Longrightarrow> ds_SchemaVersion w = ds_SchemaVersion s \<and> ds_NodeID w = ds_NodeID s \<and> ds_Generation w = ds_Generation s
     \<and> ds_Checksum w = ds_Checksum s \<and> ds_Services w = ds_Services s \<and> ds_Agent w = ds_Agent s"
  by (auto simp: snapshot_policies_def)

definition no_ciphertexts :: "DesiredSnapshot \<Rightarrow> bool" where
  "no_ciphertexts s \<longleftrightarrow> (\<forall>p\<in>gw_Obfuscation ` set_option (ds_Gateway s) \<union> as_Obfuscation ` set (ds_Assignments s).
     ob_KeyCiphertext p = [] \<and> ob_PreviousKeyCiphertext p = [])"

lemma wire_no_ciphertext: "decryptObfuscationPolicyForWire env p = Inr w \<Longrightarrow> ob_KeyCiphertext w = [] \<and> ob_PreviousKeyCiphertext w = []"
  by (auto simp: decryptObfuscationPolicyForWire_def clear_keys_def split: if_splits)

lemma wire_policies_no_ciphertexts:
  assumes "snapshot_policies (\<lambda>_. decryptObfuscationPolicyForWire env) s = Inr w"
  shows "no_ciphertexts w"
proof -
  obtain g as where g: "gateway_policy (decryptObfuscationPolicyForWire env) (ds_Gateway s) = Inr g"
    and as: "map_result (assignment_policy (\<lambda>_. decryptObfuscationPolicyForWire env)) (enumerate 1 (ds_Assignments s)) = Inr as"
    and w: "w = s\<lparr>ds_Gateway := g, ds_Assignments := as\<rparr>"
    using assms by (auto simp: snapshot_policies_def)
  have "list_all2 (\<lambda>ia b. ob_KeyCiphertext (as_Obfuscation b) = [] \<and> ob_PreviousKeyCiphertext (as_Obfuscation b) = []) (enumerate 1 (ds_Assignments s)) as"
    by (rule map_result_list_all2 [OF as]) (auto simp: assignment_policy_def dest: wire_no_ciphertext split: prod.splits sum.splits)
  then have "\<forall>b\<in>set as. ob_KeyCiphertext (as_Obfuscation b) = [] \<and> ob_PreviousKeyCiphertext (as_Obfuscation b) = []"
    by (auto simp: list_all2_conv_all_nth in_set_conv_nth)
  moreover have "\<forall>v\<in>set_option g. ob_KeyCiphertext (gw_Obfuscation v) = [] \<and> ob_PreviousKeyCiphertext (gw_Obfuscation v) = []"
    using g by (cases "ds_Gateway s") (auto simp: gateway_policy_def dest: wire_no_ciphertext)
  ultimately show ?thesis by (auto simp: no_ciphertexts_def w)
qed

text \<open>
  The document for the wire is the stored snapshot with its keys in the clear: it validates,
  has the same node, generation and checksum, its content has the checksum of the stored content,
  and no ciphertext is left in it.
\<close>

lemma wire_document:
  assumes "SnapshotDocumentForWire env doc = Inr doc'" "ce_Unmarshal env doc = Inr s" "ComputeChecksum (ce_go env) s = Inr c"
  shows "\<exists>w. ce_Marshal env w = Inr doc' \<and> DesiredSnapshot_Validate (ce_go env) w = None \<and> ComputeChecksum (ce_go env) w = Inr c
    \<and> ds_NodeID w = ds_NodeID s \<and> ds_Generation w = ds_Generation s \<and> ds_Checksum w = ds_Checksum s \<and> ds_SchemaVersion w = ds_SchemaVersion s
    \<and> no_ciphertexts w"
proof -
  obtain w where w: "snapshot_policies (\<lambda>_. decryptObfuscationPolicyForWire env) s = Inr w" "DesiredSnapshot_Validate (ce_go env) w = None" "ce_Marshal env w = Inr doc'"
    using assms(1,2) by (auto simp: SnapshotDocumentForWire_def split: option.splits)
  then show ?thesis
    using snapshot_policies_checksum [OF w(1) wire_policies assms(3)] snapshot_policies_fields [OF w(1)] wire_policies_no_ciphertexts [OF w(1)] by blast
qed

section \<open>A policy with two keys\<close>

definition demo_secrets :: controller_env where
  "demo_secrets = \<lparr>ce_go = plain_env, ce_masterKey = replicate 32 1, ce_Seal = (\<lambda>k n p. replicate 16 0 @ p), ce_Open = (\<lambda>k n p. Some (drop 16 p)),
     ce_Marshal = (\<lambda>s. Inr [7]), ce_Unmarshal = (\<lambda>b. Inl (ErrStd ''json''))\<rparr>"

definition demo_policy :: ObfuscationPolicy where
  "demo_policy = \<lparr>ob_Mode = ''camouflage'', ob_KeyCiphertext = [], ob_PreviousKeyCiphertext = [], ob_KeyID = [], ob_PreviousKeyID = [],
     ob_Key = replicate 32 5, ob_PreviousKey = replicate 32 4, ob_MaxPaddingBytes = 64, ob_HandshakeShaping = True\<rparr>"

lemma demo_secret_laws: "secret_laws demo_secrets"
  by (simp add: secret_laws_def demo_secrets_def plain_env_sel)

theorem obfuscation_keys_travel_witness:
  "\<exists>q w. protectObfuscationPolicy demo_secrets (Inr (replicate 12 0), Inr (replicate 12 1)) demo_policy = Inr q \<and> ob_Key q = []
     \<and> decryptObfuscationPolicyForWire demo_secrets q = Inr w \<and> ob_Key w = replicate 32 5 \<and> ob_PreviousKey w = replicate 32 4"
proof -
  obtain q where q: "protectObfuscationPolicy demo_secrets (Inr (replicate 12 0), Inr (replicate 12 1)) demo_policy = Inr q"
    by (simp add: protectObfuscationPolicy_def protect_current_def protect_previous_def EncryptSecret_def DecryptSecret_def demo_secrets_def demo_policy_def)
  from obfuscation_keys_travel [OF this _ _ demo_secret_laws] q show ?thesis by (auto simp: demo_policy_def)
qed

end
