(* ===== verification/Controller_Bus.thy ===== *)
theory Controller_Bus
  imports Controller_Limits
begin

text \<open>
  \<^verbatim>\<open>internal/controller/change_bus.go\<close>, \<^verbatim>\<open>changes.go\<close>, the bus parts of \<^verbatim>\<open>actions.go\<close>, \<^verbatim>\<open>snapshots.go\<close> and
  \<^verbatim>\<open>runtime_store_core.go\<close>: process-local subscriptions of control streams and background loops. A
  buffered Go channel is a record; sending on a closed channel and closing it twice panic, and a
  panic is the value \<open>None\<close>. Subscription identifiers are unbounded here (the code counts in 64 bits).
  A nested map from nodes to subscriptions is the list of its (node, identifier) pairs. The unsubscribe
  functions guard themselves with a flag that skips a second call; without it the second call finds
  the subscription gone and does nothing, so the flag is left out.
\<close>

section \<open>Channels and hubs\<close>

record 'a channel =
  ch_cap :: nat
  ch_buf :: "'a list"
  ch_closed :: bool

definition make_channel :: "nat \<Rightarrow> bool \<Rightarrow> 'a channel" where
  "make_channel n cl = \<lparr>ch_cap = n, ch_buf = [], ch_closed = cl\<rparr>"

text \<open>\<^verbatim>\<open>select\<close> with a send case and a default.\<close>

definition try_send :: "'a \<Rightarrow> 'a channel \<Rightarrow> ('a channel \<times> bool) option" where
  "try_send v c =
     (if ch_closed c then None
      else if length (ch_buf c) < ch_cap c then Some (c\<lparr>ch_buf := ch_buf c @ [v]\<rparr>, True)
      else Some (c, False))"

definition close_channel :: "'a channel \<Rightarrow> 'a channel option" where
  "close_channel c = (if ch_closed c then None else Some (c\<lparr>ch_closed := True\<rparr>))"

text \<open>A map of subscriptions, and every channel that was ever handed out.\<close>

record ('k, 'a) hub =
  hb_subs :: "('k \<times> nat) list"
  hb_chan :: "nat \<Rightarrow> 'a channel option"

definition empty_hub :: "('k, 'a) hub" where
  "empty_hub = \<lparr>hb_subs = [], hb_chan = (\<lambda>_. None)\<rparr>"

definition hub_subscribe :: "bool \<Rightarrow> nat \<Rightarrow> 'k \<Rightarrow> nat \<Rightarrow> ('k, 'a) hub \<Rightarrow> ('k, 'a) hub" where
  "hub_subscribe busClosed n k i h =
     (if busClosed then h\<lparr>hb_chan := (hb_chan h)(i \<mapsto> make_channel n True)\<rparr>
      else h\<lparr>hb_subs := hb_subs h @ [(k, i)], hb_chan := (hb_chan h)(i \<mapsto> make_channel n False)\<rparr>)"

definition on_channel :: "nat \<Rightarrow> ('a channel \<Rightarrow> 'a channel option) \<Rightarrow> ('k, 'a) hub \<Rightarrow> ('k, 'a) hub option" where
  "on_channel i f h =
     (case hb_chan h i of
        None \<Rightarrow> None
      | Some c \<Rightarrow> (case f c of None \<Rightarrow> None | Some c' \<Rightarrow> Some (h\<lparr>hb_chan := (hb_chan h)(i \<mapsto> c')\<rparr>)))"

fun on_channels :: "nat list \<Rightarrow> ('a channel \<Rightarrow> 'a channel option) \<Rightarrow> ('k, 'a) hub \<Rightarrow> ('k, 'a) hub option" where
  "on_channels [] f h = Some h"
| "on_channels (i # is) f h = (case on_channel i f h of None \<Rightarrow> None | Some h' \<Rightarrow> on_channels is f h')"

definition hub_unsubscribe :: "'k \<Rightarrow> nat \<Rightarrow> ('k, 'a) hub \<Rightarrow> ('k, 'a) hub option" where
  "hub_unsubscribe k i h =
     (if (k, i) \<in> set (hb_subs h)
      then map_option (\<lambda>h'. h'\<lparr>hb_subs := removeAll (k, i) (hb_subs h')\<rparr>) (on_channel i close_channel h)
      else Some h)"

definition subs_of :: "'k \<Rightarrow> ('k, 'a) hub \<Rightarrow> nat list" where
  "subs_of k h = map snd (filter (\<lambda>(k', i). k' = k) (hb_subs h))"

definition hub_send :: "'a \<Rightarrow> nat list \<Rightarrow> ('k, 'a) hub \<Rightarrow> ('k, 'a) hub option" where
  "hub_send v is = on_channels is (\<lambda>c. map_option fst (try_send v c))"

definition hub_room :: "nat list \<Rightarrow> ('k, 'a) hub \<Rightarrow> bool" where
  "hub_room is h \<longleftrightarrow> (\<exists>i\<in>set is. case hb_chan h i of None \<Rightarrow> False | Some c \<Rightarrow> length (ch_buf c) < ch_cap c)"

definition hub_close :: "('k, 'a) hub \<Rightarrow> ('k, 'a) hub option" where
  "hub_close h = map_option (\<lambda>h'. h'\<lparr>hb_subs := []\<rparr>) (on_channels (map snd (hb_subs h)) close_channel h)"

text \<open>A consumer takes the first value of its channel, if there is one.\<close>

definition hub_receive :: "nat \<Rightarrow> ('k, 'a) hub \<Rightarrow> ('k, 'a) hub" where
  "hub_receive i h =
     (case hb_chan h i of
        None \<Rightarrow> h
      | Some c \<Rightarrow> h\<lparr>hb_chan := (hb_chan h)(i \<mapsto> c\<lparr>ch_buf := tl (ch_buf c)\<rparr>)\<rparr>)"

section \<open>The bus\<close>

record ResourceChange =
  rch_NodeIDs :: "string list"
  rch_PendingServices :: bool

record RuntimeAction =
  ract_ID :: string
  ract_Name :: string
  ract_Payload :: bytes

record nodeCapability =
  nc_token :: u64
  nc_items :: "string list"

record ChangeBus =
  cb_actions :: "(string, RuntimeAction) hub"
  cb_snapshots :: "(string, unit) hub"
  cb_changes :: "(unit, ResourceChange) hub"
  cb_runtime :: "(unit, string) hub"
  cb_capabilities :: "(string \<times> nodeCapability) list"
  cb_nextCapability :: u64
  cb_closed :: bool
  cb_nextAction :: nat
  cb_nextResource :: nat
  cb_nextRuntime :: nat

definition newChangeBus :: ChangeBus where
  "newChangeBus = \<lparr>cb_actions = empty_hub, cb_snapshots = empty_hub, cb_changes = empty_hub, cb_runtime = empty_hub,
     cb_capabilities = [], cb_nextCapability = 0, cb_closed = False, cb_nextAction = 0, cb_nextResource = 0, cb_nextRuntime = 0\<rparr>"

definition Bus_Close :: "ChangeBus \<Rightarrow> ChangeBus option" where
  "Bus_Close b =
     (if cb_closed b then Some b
      else case (hub_close (cb_actions b), hub_close (cb_snapshots b), hub_close (cb_changes b), hub_close (cb_runtime b)) of
          (Some a, Some s, Some c, Some r) \<Rightarrow>
            Some (b\<lparr>cb_closed := True, cb_actions := a, cb_snapshots := s, cb_changes := c, cb_runtime := r, cb_capabilities := []\<rparr>)
        | _ \<Rightarrow> None)"

definition SetNodeCapabilities :: "string \<Rightarrow> string list \<Rightarrow> ChangeBus \<Rightarrow> ChangeBus \<times> u64" where
  "SetNodeCapabilities nodeID capabilities b =
     (let token = cb_nextCapability b + 1; b' = b\<lparr>cb_nextCapability := token\<rparr> in
      (if cb_closed b then b'
       else b'\<lparr>cb_capabilities := AList.update (trim_space nodeID) \<lparr>nc_token = token, nc_items = capabilities\<rparr> (cb_capabilities b)\<rparr>, token))"

definition ClearNodeCapabilities :: "string \<Rightarrow> u64 \<Rightarrow> ChangeBus \<Rightarrow> ChangeBus" where
  "ClearNodeCapabilities nodeID token b =
     (case map_of (cb_capabilities b) (trim_space nodeID) of
        None \<Rightarrow> b
      | Some current \<Rightarrow>
          if nc_token current = token then b\<lparr>cb_capabilities := AList.delete (trim_space nodeID) (cb_capabilities b)\<rparr> else b)"

definition NodeCapabilities :: "string \<Rightarrow> ChangeBus \<Rightarrow> string list" where
  "NodeCapabilities nodeID b =
     (case map_of (cb_capabilities b) (trim_space nodeID) of None \<Rightarrow> [] | Some current \<Rightarrow> nc_items current)"

subsection \<open>Runtime actions and snapshot notifications\<close>

definition SubscribeActions :: "string \<Rightarrow> ChangeBus \<Rightarrow> ChangeBus \<times> nat" where
  "SubscribeActions nodeID b =
     (let i = cb_nextAction b + 1 in
      (b\<lparr>cb_nextAction := i, cb_actions := hub_subscribe (cb_closed b) 16 (trim_space nodeID) i (cb_actions b)\<rparr>, i))"

definition UnsubscribeActions :: "string \<Rightarrow> nat \<Rightarrow> ChangeBus \<Rightarrow> ChangeBus option" where
  "UnsubscribeActions nodeID i b = map_option (\<lambda>h. b\<lparr>cb_actions := h\<rparr>) (hub_unsubscribe (trim_space nodeID) i (cb_actions b))"

definition actionCanDeliver :: "string \<Rightarrow> ChangeBus \<Rightarrow> bool" where
  "actionCanDeliver nodeID b = hub_room (subs_of nodeID (cb_actions b)) (cb_actions b)"

definition publishAction :: "string \<Rightarrow> RuntimeAction \<Rightarrow> ChangeBus \<Rightarrow> (ChangeBus \<times> bool) option" where
  "publishAction nodeID action b =
     (if cb_closed b then Some (b, False)
      else let is = subs_of nodeID (cb_actions b) in
        map_option (\<lambda>h. (b\<lparr>cb_actions := h\<rparr>, hub_room is (cb_actions b))) (hub_send action is (cb_actions b)))"

definition SubscribeSnapshotChanges :: "string \<Rightarrow> ChangeBus \<Rightarrow> ChangeBus \<times> nat" where
  "SubscribeSnapshotChanges nodeID b =
     (let i = cb_nextAction b + 1 in
      (b\<lparr>cb_nextAction := i, cb_snapshots := hub_subscribe (cb_closed b) 1 nodeID i (cb_snapshots b)\<rparr>, i))"

definition UnsubscribeSnapshotChanges :: "string \<Rightarrow> nat \<Rightarrow> ChangeBus \<Rightarrow> ChangeBus option" where
  "UnsubscribeSnapshotChanges nodeID i b = map_option (\<lambda>h. b\<lparr>cb_snapshots := h\<rparr>) (hub_unsubscribe nodeID i (cb_snapshots b))"

definition notifySnapshotChanges :: "string list \<Rightarrow> ChangeBus \<Rightarrow> ChangeBus option" where
  "notifySnapshotChanges nodeIDs b =
     (let targets = remdups (filter (\<lambda>nodeID. trim_space nodeID \<noteq> []) nodeIDs) in
      if cb_closed b then Some b
      else map_option (\<lambda>h. b\<lparr>cb_snapshots := h\<rparr>)
        (hub_send () (concat (map (\<lambda>nodeID. subs_of nodeID (cb_snapshots b)) targets)) (cb_snapshots b)))"

subsection \<open>Resource changes and runtime changes\<close>

definition SubscribeResourceChanges :: "ChangeBus \<Rightarrow> ChangeBus \<times> nat" where
  "SubscribeResourceChanges b =
     (let i = cb_nextResource b + 1 in
      (b\<lparr>cb_nextResource := i, cb_changes := hub_subscribe (cb_closed b) 1 () i (cb_changes b)\<rparr>, i))"

definition UnsubscribeResourceChanges :: "nat \<Rightarrow> ChangeBus \<Rightarrow> ChangeBus option" where
  "UnsubscribeResourceChanges i b = map_option (\<lambda>h. b\<lparr>cb_changes := h\<rparr>) (hub_unsubscribe () i (cb_changes b))"

fun merge_ids :: "string list \<Rightarrow> string list \<Rightarrow> string list" where
  "merge_ids seen [] = []"
| "merge_ids seen (k # ks) = (if k \<in> set seen then merge_ids seen ks else k # merge_ids (k # seen) ks)"

definition mergeResourceChanges :: "ResourceChange \<Rightarrow> ResourceChange \<Rightarrow> ResourceChange" where
  "mergeResourceChanges pending latest =
     \<lparr>rch_NodeIDs = merge_ids [] (rch_NodeIDs pending @ rch_NodeIDs latest),
      rch_PendingServices = (rch_PendingServices pending \<or> rch_PendingServices latest)\<rparr>"

text \<open>
  The select loop when no consumer interferes; on a closed channel the send panics. (The
  interleaving with the consumer is below.)
\<close>

function enqueueResourceChange :: "ResourceChange \<Rightarrow> ResourceChange channel \<Rightarrow> ResourceChange channel option" where
  "enqueueResourceChange change c =
     (if ch_closed c then None
      else if length (ch_buf c) < ch_cap c then Some (c\<lparr>ch_buf := ch_buf c @ [change]\<rparr>)
      else case ch_buf c of
          [] \<Rightarrow> None
        | pending # rest \<Rightarrow> enqueueResourceChange (mergeResourceChanges pending change) (c\<lparr>ch_buf := rest\<rparr>))"
  by pat_completeness auto
termination
  by (relation "measure (\<lambda>(change, c). length (ch_buf c))") auto

definition notifyResourceChangesWithOptions :: "bool \<Rightarrow> string list \<Rightarrow> ChangeBus \<Rightarrow> ChangeBus option" where
  "notifyResourceChangesWithOptions pendingServices nodeIDs b =
     (let ids = uniqueKeys [] nodeIDs in
      if ids = [] then Some b
      else if cb_closed b then Some b
      else map_option (\<lambda>h. b\<lparr>cb_changes := h\<rparr>)
        (on_channels (map snd (hb_subs (cb_changes b)))
          (enqueueResourceChange \<lparr>rch_NodeIDs = ids, rch_PendingServices = pendingServices\<rparr>) (cb_changes b)))"

definition notifyResourceChanges :: "string list \<Rightarrow> ChangeBus \<Rightarrow> ChangeBus option" where
  "notifyResourceChanges nodeIDs = notifyResourceChangesWithOptions False nodeIDs"

definition notifyPendingServiceChanges :: "string list \<Rightarrow> ChangeBus \<Rightarrow> ChangeBus option" where
  "notifyPendingServiceChanges nodeIDs = notifyResourceChangesWithOptions True nodeIDs"

definition SubscribeRuntimeChanges :: "ChangeBus \<Rightarrow> ChangeBus \<times> nat" where
  "SubscribeRuntimeChanges b =
     (let i = cb_nextRuntime b + 1 in
      (b\<lparr>cb_nextRuntime := i, cb_runtime := hub_subscribe (cb_closed b) 32 () i (cb_runtime b)\<rparr>, i))"

definition UnsubscribeRuntimeChanges :: "nat \<Rightarrow> ChangeBus \<Rightarrow> ChangeBus option" where
  "UnsubscribeRuntimeChanges i b = map_option (\<lambda>h. b\<lparr>cb_runtime := h\<rparr>) (hub_unsubscribe () i (cb_runtime b))"

definition notifyRuntimeChanges :: "string \<Rightarrow> ChangeBus \<Rightarrow> ChangeBus option" where
  "notifyRuntimeChanges nodeID b =
     (if cb_closed b then Some b
      else map_option (\<lambda>h. b\<lparr>cb_runtime := h\<rparr>) (hub_send nodeID (map snd (hb_subs (cb_runtime b))) (cb_runtime b)))"

declare enqueueResourceChange.simps [simp del]

section \<open>Hubs never panic\<close>

definition hub_ok :: "bool \<Rightarrow> nat \<Rightarrow> ('k, 'a) hub \<Rightarrow> bool" where
  "hub_ok busClosed n h \<longleftrightarrow>
     distinct (map snd (hb_subs h)) \<and> (\<forall>i\<in>snd ` set (hb_subs h). hb_chan h i \<noteq> None)
     \<and> (\<forall>i c. hb_chan h i = Some c \<longrightarrow> i \<le> n \<and> length (ch_buf c) \<le> ch_cap c \<and> 0 < ch_cap c \<and> (ch_closed c \<longleftrightarrow> i \<notin> snd ` set (hb_subs h)))
     \<and> (busClosed \<longrightarrow> hb_subs h = [])"

lemma hub_ok_empty: "hub_ok busClosed n empty_hub"
  by (simp add: hub_ok_def empty_hub_def)

lemma hub_ok_later: "hub_ok busClosed n h \<Longrightarrow> hub_ok busClosed (Suc n) h"
  by (auto simp: hub_ok_def intro: le_SucI)

lemma hub_subscribe_ok:
  assumes "hub_ok busClosed n h" "0 < m"
  shows "hub_ok busClosed (Suc n) (hub_subscribe busClosed m k (Suc n) h)"
proof -
  have no: "hb_chan h (Suc n) = None"
    using assms(1) unfolding hub_ok_def by (metis not_less_eq_eq order_refl option.exhaust)
  then have "Suc n \<notin> snd ` set (hb_subs h)" using assms(1) by (auto simp: hub_ok_def)
  then show ?thesis using assms by (auto simp: hub_ok_def hub_subscribe_def make_channel_def intro: le_SucI)
qed

lemma hub_ok_open:
  assumes "hub_ok busClosed n h" "i \<in> snd ` set (hb_subs h)"
  shows "\<exists>c. hb_chan h i = Some c \<and> \<not> ch_closed c \<and> length (ch_buf c) \<le> ch_cap c \<and> 0 < ch_cap c"
  using assms unfolding hub_ok_def by (metis option.exhaust)

text \<open>A function that keeps a channel open and within its capacity.\<close>

definition channel_op :: "('a channel \<Rightarrow> 'a channel option) \<Rightarrow> bool" where
  "channel_op f \<longleftrightarrow> (\<forall>c. \<not> ch_closed c \<longrightarrow> length (ch_buf c) \<le> ch_cap c \<longrightarrow> 0 < ch_cap c \<longrightarrow>
     (\<exists>c'. f c = Some c' \<and> \<not> ch_closed c' \<and> length (ch_buf c') \<le> ch_cap c' \<and> ch_cap c' = ch_cap c))"

lemma on_channel_ok:
  assumes "hub_ok busClosed n h" "channel_op f" "i \<in> snd ` set (hb_subs h)"
  shows "\<exists>h'. on_channel i f h = Some h' \<and> hub_ok busClosed n h' \<and> hb_subs h' = hb_subs h"
proof -
  obtain c where c: "hb_chan h i = Some c" "\<not> ch_closed c" "length (ch_buf c) \<le> ch_cap c" "0 < ch_cap c"
    using hub_ok_open [OF assms(1,3)] by blast
  then obtain c' where "f c = Some c'" "\<not> ch_closed c'" "length (ch_buf c') \<le> ch_cap c'" "ch_cap c' = ch_cap c"
    using assms(2) unfolding channel_op_def by blast
  then show ?thesis using assms(1,3) c by (auto simp: on_channel_def hub_ok_def)
qed

lemma on_channels_ok:
  assumes "channel_op f" "hub_ok busClosed n h" "set is \<subseteq> snd ` set (hb_subs h)"
  shows "\<exists>h'. on_channels is f h = Some h' \<and> hub_ok busClosed n h' \<and> hb_subs h' = hb_subs h"
  using assms(2,3)
proof (induction "is" arbitrary: h)
  case (Cons i "is")
  obtain h1 where "on_channel i f h = Some h1" "hub_ok busClosed n h1" "hb_subs h1 = hb_subs h"
    using on_channel_ok [OF Cons.prems(1) assms(1)] Cons.prems(2) by auto
  then show ?case using Cons.IH [of h1] Cons.prems(2) by auto
qed simp

lemma channel_op_send: "channel_op (\<lambda>c. map_option fst (try_send v c))"
  by (auto simp: channel_op_def try_send_def)

lemma enqueue_room:
  "\<not> ch_closed c \<Longrightarrow> length (ch_buf c) < ch_cap c \<Longrightarrow> enqueueResourceChange change c = Some (c\<lparr>ch_buf := ch_buf c @ [change]\<rparr>)"
  by (subst enqueueResourceChange.simps) simp

lemma enqueue_full:
  "\<not> ch_closed c \<Longrightarrow> ch_buf c = p # ps \<Longrightarrow> length (ch_buf c) = ch_cap c \<Longrightarrow>
   enqueueResourceChange change c = Some (c\<lparr>ch_buf := ps @ [mergeResourceChanges p change]\<rparr>)"
  by (subst enqueueResourceChange.simps) (simp add: enqueue_room)

lemma channel_op_enqueue: "channel_op (enqueueResourceChange change)"
  unfolding channel_op_def
proof (intro allI impI)
  fix c :: "ResourceChange channel"
  assume c: "\<not> ch_closed c" "length (ch_buf c) \<le> ch_cap c" "0 < ch_cap c"
  show "\<exists>c'. enqueueResourceChange change c = Some c' \<and> \<not> ch_closed c' \<and> length (ch_buf c') \<le> ch_cap c' \<and> ch_cap c' = ch_cap c"
  proof (cases "length (ch_buf c) < ch_cap c")
    case True
    then show ?thesis using c enqueue_room by simp
  next
    case False
    then obtain p ps where "ch_buf c = p # ps" using c by (cases "ch_buf c") auto
    then show ?thesis using False c enqueue_full [of c p ps] by simp
  qed
qed

lemma hub_send_ok:
  "hub_ok busClosed n h \<Longrightarrow> set is \<subseteq> snd ` set (hb_subs h) \<Longrightarrow>
   \<exists>h'. hub_send v is h = Some h' \<and> hub_ok busClosed n h'"
  using on_channels_ok [OF channel_op_send, of busClosed n h "is" v] by (auto simp: hub_send_def)

lemma set_subs_of: "set (subs_of k h) \<subseteq> snd ` set (hb_subs h)"
  by (auto simp: subs_of_def)

lemma hub_unsubscribe_ok:
  assumes "hub_ok busClosed n h"
  shows "\<exists>h'. hub_unsubscribe k i h = Some h' \<and> hub_ok busClosed n h'"
proof (cases "(k, i) \<in> set (hb_subs h)")
  case True
  then have i: "i \<in> snd ` set (hb_subs h)" by force
  then obtain c where c: "hb_chan h i = Some c" "\<not> ch_closed c" using hub_ok_open [OF assms] by blast
  have d: "distinct (map snd (hb_subs h))" using assms by (simp add: hub_ok_def)
  then have "a = k" if "(a, i) \<in> set (hb_subs h)" for a
    using that True inj_onD [of snd "set (hb_subs h)" "(a, i)" "(k, i)"] by (simp add: distinct_map)
  then have rest: "snd ` set (removeAll (k, i) (hb_subs h)) = snd ` set (hb_subs h) - {i}" by force
  have "distinct (map snd (removeAll (k, i) (hb_subs h)))" using d by (auto simp: distinct_map distinct_removeAll intro: inj_on_subset)
  then show ?thesis using assms True c rest
    by (simp add: hub_unsubscribe_def on_channel_def close_channel_def hub_ok_def)
qed (use assms in \<open>simp add: hub_unsubscribe_def\<close>)

lemma close_channels:
  assumes "distinct is" "\<forall>i\<in>set is. \<exists>c. hb_chan h i = Some c \<and> \<not> ch_closed c"
  shows "on_channels is close_channel h =
    Some (h\<lparr>hb_chan := (\<lambda>i. if i \<in> set is then map_option (\<lambda>c. c\<lparr>ch_closed := True\<rparr>) (hb_chan h i) else hb_chan h i)\<rparr>)"
  using assms
proof (induction "is" arbitrary: h)
  case (Cons i "is")
  obtain c where c: "hb_chan h i = Some c" "\<not> ch_closed c" using Cons.prems(2) by auto
  let ?h = "h\<lparr>hb_chan := (hb_chan h)(i \<mapsto> c\<lparr>ch_closed := True\<rparr>)\<rparr>"
  have "\<forall>j\<in>set is. \<exists>c. hb_chan ?h j = Some c \<and> \<not> ch_closed c" using Cons.prems by auto
  with Cons.IH [of ?h] Cons.prems(1) c show ?case
    by (auto simp: on_channel_def close_channel_def fun_eq_iff intro!: hub.equality)
qed simp

lemma hub_close_ok:
  assumes "hub_ok busClosed n h"
  shows "\<exists>h'. hub_close h = Some h' \<and> hub_ok True n h'"
proof -
  have "\<forall>i\<in>set (map snd (hb_subs h)). \<exists>c. hb_chan h i = Some c \<and> \<not> ch_closed c"
    using hub_ok_open [OF assms] by auto
  then show ?thesis using close_channels [of "map snd (hb_subs h)" h] assms
    by (auto simp: hub_close_def hub_ok_def split: if_splits)
qed

lemma hub_receive_ok: "hub_ok busClosed n h \<Longrightarrow> hub_ok busClosed n (hub_receive i h)"
  by (auto simp: hub_receive_def hub_ok_def intro: le_trans [OF diff_le_self] split: option.splits)

section \<open>The bus never panics\<close>

text \<open>A component whose operations keep an invariant and, under it, never panic.\<close>

locale panic_free =
  fixes run :: "'o \<Rightarrow> 's \<Rightarrow> 's option" and ok :: "'s \<Rightarrow> bool"
  assumes run_ok: "ok s \<Longrightarrow> \<exists>s'. run x s = Some s' \<and> ok s'"
begin

lemma runs_ok: "ok s \<Longrightarrow> \<exists>s'. foldl (\<lambda>w x. Option.bind w (run x)) (Some s) xs = Some s' \<and> ok s'"
proof (induction xs arbitrary: s)
  case (Cons x xs)
  from run_ok [OF Cons.prems, of x] Cons.IH show ?case by auto
qed simp

end

datatype bus_op =
    SubscribeA string | UnsubscribeA string nat | PublishA string RuntimeAction | ReceiveA nat
  | SubscribeS string | UnsubscribeS string nat | NotifyS "string list" | ReceiveS nat
  | SubscribeC | UnsubscribeC nat | NotifyC bool "string list" | ReceiveC nat
  | SubscribeR | UnsubscribeR nat | NotifyR string | ReceiveR nat
  | SetCaps string "string list" | ClearCaps string u64 | CloseBus

fun bus_run :: "bus_op \<Rightarrow> ChangeBus \<Rightarrow> ChangeBus option" where
  "bus_run (SubscribeA n) b = Some (fst (SubscribeActions n b))"
| "bus_run (UnsubscribeA n i) b = UnsubscribeActions n i b"
| "bus_run (PublishA n a) b = map_option fst (publishAction n a b)"
| "bus_run (ReceiveA i) b = Some (b\<lparr>cb_actions := hub_receive i (cb_actions b)\<rparr>)"
| "bus_run (SubscribeS n) b = Some (fst (SubscribeSnapshotChanges n b))"
| "bus_run (UnsubscribeS n i) b = UnsubscribeSnapshotChanges n i b"
| "bus_run (NotifyS ns) b = notifySnapshotChanges ns b"
| "bus_run (ReceiveS i) b = Some (b\<lparr>cb_snapshots := hub_receive i (cb_snapshots b)\<rparr>)"
| "bus_run SubscribeC b = Some (fst (SubscribeResourceChanges b))"
| "bus_run (UnsubscribeC i) b = UnsubscribeResourceChanges i b"
| "bus_run (NotifyC p ns) b = notifyResourceChangesWithOptions p ns b"
| "bus_run (ReceiveC i) b = Some (b\<lparr>cb_changes := hub_receive i (cb_changes b)\<rparr>)"
| "bus_run SubscribeR b = Some (fst (SubscribeRuntimeChanges b))"
| "bus_run (UnsubscribeR i) b = UnsubscribeRuntimeChanges i b"
| "bus_run (NotifyR n) b = notifyRuntimeChanges n b"
| "bus_run (ReceiveR i) b = Some (b\<lparr>cb_runtime := hub_receive i (cb_runtime b)\<rparr>)"
| "bus_run (SetCaps n cs) b = Some (fst (SetNodeCapabilities n cs b))"
| "bus_run (ClearCaps n t) b = Some (ClearNodeCapabilities n t b)"
| "bus_run CloseBus b = Bus_Close b"

definition bus_ok :: "ChangeBus \<Rightarrow> bool" where
  "bus_ok b \<longleftrightarrow> hub_ok (cb_closed b) (cb_nextAction b) (cb_actions b) \<and> hub_ok (cb_closed b) (cb_nextAction b) (cb_snapshots b)
     \<and> hub_ok (cb_closed b) (cb_nextResource b) (cb_changes b) \<and> hub_ok (cb_closed b) (cb_nextRuntime b) (cb_runtime b)"

lemma bus_close_ok: "bus_ok b \<Longrightarrow> \<exists>b'. Bus_Close b = Some b' \<and> bus_ok b' \<and> cb_closed b'"
  using hub_close_ok [of "cb_closed b" "cb_nextAction b" "cb_actions b"] hub_close_ok [of "cb_closed b" "cb_nextAction b" "cb_snapshots b"]
    hub_close_ok [of "cb_closed b" "cb_nextResource b" "cb_changes b"] hub_close_ok [of "cb_closed b" "cb_nextRuntime b" "cb_runtime b"]
  by (auto simp: Bus_Close_def bus_ok_def)

lemma bus_run_ok: "bus_ok b \<Longrightarrow> \<exists>b'. bus_run op b = Some b' \<and> bus_ok b'"
proof (induction op)
  case (UnsubscribeA n i)
  then show ?case using hub_unsubscribe_ok [of _ _ "cb_actions b" "trim_space n" i] by (fastforce simp: bus_ok_def UnsubscribeActions_def)
next
  case (PublishA n a)
  then show ?case using hub_send_ok [OF _ set_subs_of, of _ _ "cb_actions b" a n] by (fastforce simp: bus_ok_def publishAction_def Let_def)
next
  case (UnsubscribeS n i)
  then show ?case using hub_unsubscribe_ok [of _ _ "cb_snapshots b" n i] by (fastforce simp: bus_ok_def UnsubscribeSnapshotChanges_def)
next
  case (NotifyS ns)
  let ?is = "concat (map (\<lambda>nodeID. subs_of nodeID (cb_snapshots b)) (remdups (filter (\<lambda>nodeID. trim_space nodeID \<noteq> []) ns)))"
  have "set ?is \<subseteq> snd ` set (hb_subs (cb_snapshots b))" using set_subs_of by fastforce
  then show ?case using NotifyS hub_send_ok [of _ _ "cb_snapshots b" ?is "()"]
    by (fastforce simp: bus_ok_def notifySnapshotChanges_def Let_def)
next
  case (UnsubscribeC i)
  then show ?case using hub_unsubscribe_ok [of _ _ "cb_changes b" "()" i] by (fastforce simp: bus_ok_def UnsubscribeResourceChanges_def)
next
  case (NotifyC p ns)
  then show ?case using on_channels_ok [OF channel_op_enqueue, of "cb_closed b" "cb_nextResource b" "cb_changes b" "map snd (hb_subs (cb_changes b))"
      "\<lparr>rch_NodeIDs = uniqueKeys [] ns, rch_PendingServices = p\<rparr>"]
    by (fastforce simp: bus_ok_def notifyResourceChangesWithOptions_def Let_def)
next
  case (UnsubscribeR i)
  then show ?case using hub_unsubscribe_ok [of _ _ "cb_runtime b" "()" i] by (fastforce simp: bus_ok_def UnsubscribeRuntimeChanges_def)
next
  case (NotifyR n)
  then show ?case using hub_send_ok [of _ _ "cb_runtime b" "map snd (hb_subs (cb_runtime b))" n] by (fastforce simp: bus_ok_def notifyRuntimeChanges_def)
next
  case CloseBus
  then show ?case using bus_close_ok by auto
qed (auto simp: bus_ok_def Let_def SubscribeActions_def SubscribeSnapshotChanges_def SubscribeResourceChanges_def SubscribeRuntimeChanges_def
    SetNodeCapabilities_def ClearNodeCapabilities_def hub_subscribe_ok hub_ok_later hub_receive_ok split: option.splits)

interpretation bus: panic_free bus_run bus_ok
  by unfold_locales (rule bus_run_ok)

lemma bus_ok_new: "bus_ok newChangeBus"
  by (simp add: bus_ok_def newChangeBus_def hub_ok_empty)

text \<open>
  C35. Whatever streams subscribe, unsubscribe (also repeatedly or after the bus was closed), publish and
  receive, in any order, the bus never sends on a closed channel and never closes one twice, no buffer
  exceeds its capacity, and a channel is open exactly as long as its subscription is registered.
\<close>

theorem bus_never_panics:
  "\<exists>b. foldl (\<lambda>w op. Option.bind w (bus_run op)) (Some newChangeBus) ops = Some b \<and> bus_ok b
    \<and> (\<forall>i c. hb_chan (cb_actions b) i = Some c \<longrightarrow> length (ch_buf c) \<le> ch_cap c \<and> (ch_closed c \<longleftrightarrow> i \<notin> snd ` set (hb_subs (cb_actions b))))"
proof -
  obtain b where "foldl (\<lambda>w op. Option.bind w (bus_run op)) (Some newChangeBus) ops = Some b" "bus_ok b"
    using bus.runs_ok [OF bus_ok_new] by blast
  moreover from this(2) have "hub_ok (cb_closed b) (cb_nextAction b) (cb_actions b)" by (simp add: bus_ok_def)
  ultimately show ?thesis unfolding hub_ok_def by blast
qed

definition demo_action :: RuntimeAction where
  "demo_action = \<lparr>ract_ID = ''r1'', ract_Name = ''drain'', ract_Payload = []\<rparr>"

theorem bus_never_panics_witness:
  "\<exists>b. foldl (\<lambda>w op. Option.bind w (bus_run op)) (Some newChangeBus)
        [SubscribeA '' n1'', PublishA ''n1'' demo_action, UnsubscribeA ''n1'' 1, UnsubscribeA ''n1'' 1, CloseBus, PublishA ''n1'' demo_action, CloseBus] = Some b
     \<and> bus_ok b"
  using bus_never_panics [of "[SubscribeA '' n1'', PublishA ''n1'' demo_action, UnsubscribeA ''n1'' 1, UnsubscribeA ''n1'' 1, CloseBus,
      PublishA ''n1'' demo_action, CloseBus]"] by blast

section \<open>Publishing\<close>

lemma hub_send_effect:
  assumes "distinct is" "\<forall>i\<in>set is. \<exists>c. hb_chan h i = Some c \<and> \<not> ch_closed c"
  shows "hub_send v is h =
    Some (h\<lparr>hb_chan := (\<lambda>i. if i \<in> set is then map_option (\<lambda>c. if length (ch_buf c) < ch_cap c then c\<lparr>ch_buf := ch_buf c @ [v]\<rparr> else c) (hb_chan h i)
                          else hb_chan h i)\<rparr>)"
  using assms unfolding hub_send_def
proof (induction "is" arbitrary: h)
  case (Cons i "is")
  obtain c where c: "hb_chan h i = Some c" "\<not> ch_closed c" using Cons.prems(2) by auto
  let ?c = "if length (ch_buf c) < ch_cap c then c\<lparr>ch_buf := ch_buf c @ [v]\<rparr> else c"
  let ?h = "h\<lparr>hb_chan := (hb_chan h)(i \<mapsto> ?c)\<rparr>"
  have "\<forall>j\<in>set is. \<exists>c. hb_chan ?h j = Some c \<and> \<not> ch_closed c" using Cons.prems by auto
  with Cons.IH [of ?h] Cons.prems(1) c show ?case
    by (auto simp: on_channel_def try_send_def fun_eq_iff intro!: hub.equality)
qed simp

lemma distinct_subs_of: "distinct (map snd (hb_subs h)) \<Longrightarrow> distinct (subs_of k h)"
  by (simp add: subs_of_def distinct_map_filter)

text \<open>
  An action that is published on an open bus is the last element of the buffer of every stream of
  the node that had room, no other channel changes, and it is reported delivered exactly if there
  was such a stream.
\<close>

theorem publishAction_delivers:
  assumes "bus_ok b" "\<not> cb_closed b"
  shows "\<exists>b'. publishAction n a b = Some (b', actionCanDeliver n b)
    \<and> hb_chan (cb_actions b') = (\<lambda>i. if (n, i) \<in> set (hb_subs (cb_actions b))
        then map_option (\<lambda>c. if length (ch_buf c) < ch_cap c then c\<lparr>ch_buf := ch_buf c @ [a]\<rparr> else c) (hb_chan (cb_actions b) i)
        else hb_chan (cb_actions b) i)"
proof -
  let ?h = "cb_actions b"
  have h: "hub_ok (cb_closed b) (cb_nextAction b) ?h" using assms(1) by (simp add: bus_ok_def)
  have "\<forall>i\<in>set (subs_of n ?h). \<exists>c. hb_chan ?h i = Some c \<and> \<not> ch_closed c"
    using hub_ok_open [OF h] set_subs_of [of n ?h] by blast
  moreover have "distinct (map snd (hb_subs ?h))" using h by (simp add: hub_ok_def)
  then have "distinct (subs_of n ?h)" by (rule distinct_subs_of)
  ultimately have e: "hub_send a (subs_of n ?h) ?h =
    Some (?h\<lparr>hb_chan := (\<lambda>i. if i \<in> set (subs_of n ?h) then map_option (\<lambda>c. if length (ch_buf c) < ch_cap c then c\<lparr>ch_buf := ch_buf c @ [a]\<rparr> else c) (hb_chan ?h i)
                          else hb_chan ?h i)\<rparr>)" by (intro hub_send_effect)
  have m: "i \<in> set (subs_of n ?h) \<longleftrightarrow> (n, i) \<in> set (hb_subs ?h)" for i by (force simp: subs_of_def)
  show ?thesis using assms(2) e by (simp add: publishAction_def actionCanDeliver_def Let_def m)
qed

section \<open>Resource hints under interleaving\<close>

text \<open>
  One subscription of resource changes. A producer holds the bus lock and a change in its hand; each
  round of its \<^verbatim>\<open>select\<close> is one step; the consumer receives at any time.
\<close>

record hint_state =
  hs_chan :: "ResourceChange channel"
  hs_hand :: "ResourceChange option"
  hs_received :: "ResourceChange list"
  hs_notified :: "ResourceChange list"

inductive producer_step :: "hint_state \<Rightarrow> hint_state \<Rightarrow> bool" where
  send: "hs_hand s = Some change \<Longrightarrow> length (ch_buf (hs_chan s)) < ch_cap (hs_chan s) \<Longrightarrow>
    producer_step s (s\<lparr>hs_chan := (hs_chan s)\<lparr>ch_buf := ch_buf (hs_chan s) @ [change]\<rparr>, hs_hand := None\<rparr>)"
| take_back: "hs_hand s = Some change \<Longrightarrow> ch_buf (hs_chan s) = pending # rest \<Longrightarrow>
    producer_step s (s\<lparr>hs_chan := (hs_chan s)\<lparr>ch_buf := rest\<rparr>, hs_hand := Some (mergeResourceChanges pending change)\<rparr>)"

inductive hint_step :: "hint_state \<Rightarrow> hint_state \<Rightarrow> bool" where
  notify: "hs_hand s = None \<Longrightarrow> hint_step s (s\<lparr>hs_hand := Some change, hs_notified := hs_notified s @ [change]\<rparr>)"
| produce: "producer_step s s' \<Longrightarrow> hint_step s s'"
| consume: "ch_buf (hs_chan s) = pending # rest \<Longrightarrow>
    hint_step s (s\<lparr>hs_chan := (hs_chan s)\<lparr>ch_buf := rest\<rparr>, hs_received := hs_received s @ [pending]\<rparr>)"

inductive_cases producer_stepE: "producer_step s s'"
inductive_cases hint_stepE: "hint_step s s'"

definition start_hints :: hint_state where
  "start_hints = \<lparr>hs_chan = make_channel 1 False, hs_hand = None, hs_received = [], hs_notified = []\<rparr>"

definition in_flight :: "hint_state \<Rightarrow> ResourceChange list" where
  "in_flight s = hs_received s @ ch_buf (hs_chan s) @ (case hs_hand s of None \<Rightarrow> [] | Some c \<Rightarrow> [c])"

definition ids_of :: "ResourceChange list \<Rightarrow> string set" where
  "ids_of cs = (\<Union>c\<in>set cs. set (rch_NodeIDs c))"

definition asks_pending :: "ResourceChange list \<Rightarrow> bool" where
  "asks_pending cs \<longleftrightarrow> (\<exists>c\<in>set cs. rch_PendingServices c)"

lemma merge_ids_set: "set (merge_ids seen ks) = set ks - set seen"
  by (induction ks arbitrary: seen) auto

lemma merge_simps [simp]:
  "set (rch_NodeIDs (mergeResourceChanges p c)) = set (rch_NodeIDs p) \<union> set (rch_NodeIDs c)"
  "rch_PendingServices (mergeResourceChanges p c) = (rch_PendingServices p \<or> rch_PendingServices c)"
  by (simp_all add: mergeResourceChanges_def merge_ids_set)

definition hints_ok :: "hint_state \<Rightarrow> bool" where
  "hints_ok s \<longleftrightarrow> ids_of (in_flight s) = ids_of (hs_notified s) \<and> asks_pending (in_flight s) = asks_pending (hs_notified s)
     \<and> ch_cap (hs_chan s) = 1 \<and> length (ch_buf (hs_chan s)) \<le> 1"

lemma ids_of_simps [simp]: "ids_of [] = {}" "ids_of (c # cs) = set (rch_NodeIDs c) \<union> ids_of cs" "ids_of (cs @ ds) = ids_of cs \<union> ids_of ds"
  by (auto simp: ids_of_def)

lemma asks_pending_simps [simp]:
  "\<not> asks_pending []" "asks_pending (c # cs) \<longleftrightarrow> rch_PendingServices c \<or> asks_pending cs" "asks_pending (cs @ ds) \<longleftrightarrow> asks_pending cs \<or> asks_pending ds"
  by (auto simp: asks_pending_def)

lemma producer_step_ok: "producer_step s s' \<Longrightarrow> hints_ok s \<Longrightarrow> hints_ok s'"
  by (induction rule: producer_step.induct) (auto simp: hints_ok_def in_flight_def)

lemma hint_step_ok: "hint_step s s' \<Longrightarrow> hints_ok s \<Longrightarrow> hints_ok s'"
proof (induction rule: hint_step.induct)
  case (produce s s')
  then show ?case using producer_step_ok by blast
qed (auto simp: hints_ok_def in_flight_def)

lemma hint_steps_ok: "hint_step\<^sup>*\<^sup>* s s' \<Longrightarrow> hints_ok s \<Longrightarrow> hints_ok s'"
  by (induction rule: rtranclp_induct) (use hint_step_ok in blast)+

lemma producer_step_undisturbed:
  "producer_step s s' \<Longrightarrow> hs_hand s = None \<or> ch_buf (hs_chan s) = [] \<Longrightarrow> hs_notified s' = hs_notified s \<and> (hs_hand s' = None \<or> ch_buf (hs_chan s') = [])"
  by (induction rule: producer_step.induct) auto

lemma undisturbed:
  "hint_step\<^sup>*\<^sup>* s s' \<Longrightarrow> hs_hand s = None \<or> ch_buf (hs_chan s) = [] \<Longrightarrow>
   length (hs_notified s) \<le> length (hs_notified s')
   \<and> (length (hs_notified s') = length (hs_notified s) \<longrightarrow> hs_hand s' = None \<or> ch_buf (hs_chan s') = [])"
proof (induction rule: rtranclp_induct)
  case (step y z)
  from step.hyps(2) step.IH [OF step.prems] show ?case
  proof (induction rule: hint_step.induct)
    case (produce s s')
    have "hs_notified s' = hs_notified s" using produce.hyps by (induction rule: producer_step.induct) auto
    with produce producer_step_undisturbed show ?case by auto
  qed auto
qed simp

text \<open>
  C36. A resource hint is never lost. However the producers' select loops and the consumer interleave,
  the nodes (and the request to look at pending services) in what the consumer received, what waits
  in the channel and what a producer holds are exactly those that were notified; a producer is never
  blocked; and it needs at most one more round after it took a queued hint back.
\<close>

theorem hints_not_lost:
  assumes "hint_step\<^sup>*\<^sup>* start_hints s"
  shows "ids_of (in_flight s) = ids_of (hs_notified s) \<and> asks_pending (in_flight s) = asks_pending (hs_notified s)
    \<and> (hs_hand s \<noteq> None \<longrightarrow> (\<exists>s'. producer_step s s'))
    \<and> (\<forall>s1 s2 s3. producer_step s s1 \<and> hint_step\<^sup>*\<^sup>* s1 s2 \<and> hs_hand s1 \<noteq> None \<and> hs_notified s2 = hs_notified s1 \<and> producer_step s2 s3 \<longrightarrow> hs_hand s3 = None)"
proof -
  have ok: "hints_ok s" using hint_steps_ok [OF assms] by (simp add: hints_ok_def start_hints_def in_flight_def make_channel_def)
  have go: "\<exists>s'. producer_step s s'" if "hs_hand s \<noteq> None"
  proof -
    from that obtain change where c: "hs_hand s = Some change" by blast
    have "length (ch_buf (hs_chan s)) < ch_cap (hs_chan s) \<or> (\<exists>p r. ch_buf (hs_chan s) = p # r)"
      using ok by (cases "ch_buf (hs_chan s)") (simp_all add: hints_ok_def)
    then show ?thesis using producer_step.intros [OF c] by blast
  qed
  have "hs_hand s3 = None" if "producer_step s s1" "hint_step\<^sup>*\<^sup>* s1 s2" "hs_hand s1 \<noteq> None" "hs_notified s2 = hs_notified s1" "producer_step s2 s3" for s1 s2 s3
  proof -
    have "ch_buf (hs_chan s1) = []" using that(1,3) ok by (induction rule: producer_step.induct) (simp_all add: hints_ok_def)
    then have "hs_hand s2 = None \<or> ch_buf (hs_chan s2) = []" using undisturbed [OF that(2)] that(4) by simp
    with that(5) show ?thesis by (induction rule: producer_step.induct) auto
  qed
  with ok go show ?thesis by (auto simp: hints_ok_def)
qed

theorem hints_not_lost_witness:
  "\<exists>s. hint_step\<^sup>*\<^sup>* start_hints s \<and> hs_hand s \<noteq> None \<and> ids_of (in_flight s) = {''gw1''} \<and> (\<exists>s'. producer_step s s')"
proof -
  let ?c = "\<lparr>rch_NodeIDs = [''gw1''], rch_PendingServices = True\<rparr>"
  let ?s = "start_hints\<lparr>hs_hand := Some ?c, hs_notified := hs_notified start_hints @ [?c]\<rparr>"
  have r: "hint_step\<^sup>*\<^sup>* start_hints ?s" by (rule r_into_rtranclp, rule notify) (simp add: start_hints_def)
  have "ids_of (hs_notified ?s) = {''gw1''}" by (simp add: start_hints_def)
  moreover have "hs_hand ?s \<noteq> None" by simp
  ultimately show ?thesis using hints_not_lost [OF r] r by (intro exI [of _ ?s]) blast
qed

end
