(* ===== verification/Controller_Snapshots.thy ===== *)
theory Controller_Snapshots
  imports Controller_Secrets Controller_Reconcile Controller_Bus
begin

text \<open>
  \<^verbatim>\<open>internal/controller/snapshots.go\<close>, \<^verbatim>\<open>store_snapshots.go\<close> and \<^verbatim>\<open>grpc_snapshots.go\<close>: how the controller
  builds the desired snapshot of a node from its resources, stores it under a growing generation, and
  sends it. The table \<^verbatim>\<open>desired_snapshots\<close> is a map from nodes to rows; the answers of the other queries
  and the errors of single statements are arguments. Of a wrapped \<^verbatim>\<open>sql.ErrNoRows\<close> only what \<^verbatim>\<open>errors.Is\<close>
  sees is kept. Stored time stamps are times, not strings.
\<close>

section \<open>The table of desired snapshots\<close>

record snapshot_store =
  ss_rows :: "string \<Rightarrow> SnapshotRecord option"
  ss_nodes :: "string \<Rightarrow> bool"
  ss_bus :: "ChangeBus option"

abbreviation maxSnapshotDocument :: nat where "maxSnapshotDocument \<equiv> 16777216"
abbreviation MaxInt64 :: u64 where "MaxInt64 \<equiv> 9223372036854775807"

definition uint64ToRevision :: "u64 \<Rightarrow> int" where
  "uint64ToRevision v = (if v > MaxInt64 then 9223372036854775807 else uint v)"

definition wrap_rows :: "string \<Rightarrow> sched_error \<Rightarrow> sched_error" where
  "wrap_rows m e = (case e of Other g \<Rightarrow> Other (ErrWrap m g) | _ \<Rightarrow> e)"

definition metadata_matches :: "SnapshotRecord \<Rightarrow> DesiredSnapshot \<Rightarrow> bool" where
  "metadata_matches r s \<longleftrightarrow> ds_NodeID s = sr_NodeID r \<and> ds_Generation s = sr_Generation r \<and> equal_fold (ds_Checksum s) (sr_Checksum r)"

definition validateSnapshotRecord :: "controller_env \<Rightarrow> SnapshotRecord \<Rightarrow> check" where
  "validateSnapshotRecord env r =
     (if sr_NodeID r = [] \<or> sr_Generation r = 0 \<or> sr_Checksum r = [] \<or> sr_Document r = [] then
        Some (ErrNew ''stored snapshot metadata is incomplete'')
      else case ce_Unmarshal env (sr_Document r) of
          Inl err \<Rightarrow> Some (ErrWrap ''stored snapshot document is invalid: '' err)
        | Inr s \<Rightarrow>
            and_then (DesiredSnapshot_Validate (ce_go env) s)
            (if \<not> metadata_matches r s then
               Some (apply_error ''snapshot_metadata_mismatch'' [] ''stored snapshot metadata does not match its document'')
             else case ComputeChecksum (ce_go env) s of
                 Inl err \<Rightarrow> Some (ErrWrap ''compute stored snapshot checksum: '' err)
               | Inr computed \<Rightarrow>
                   if \<not> equal_fold computed (sr_Checksum r) then
                     Some (apply_error ''checksum_mismatch'' ''checksum'' ''stored snapshot checksum does not match its content'')
                   else None))"

text \<open>\<open>query\<close> is an error of the \<^verbatim>\<open>SELECT\<close> or of parsing the stored time.\<close>

definition Repo_LoadSnapshot :: "controller_env \<Rightarrow> check \<Rightarrow> string \<Rightarrow> snapshot_store \<Rightarrow> sched_error + SnapshotRecord" where
  "Repo_LoadSnapshot env query nodeID st =
     (case query of Some err \<Rightarrow> Inl (Other err) | None \<Rightarrow>
      case ss_rows st nodeID of
        None \<Rightarrow> Inl ErrNoRows
      | Some r \<Rightarrow> (case validateSnapshotRecord env r of Some err \<Rightarrow> Inl (Other err) | None \<Rightarrow> Inr r))"

definition GetSnapshot :: "controller_env \<Rightarrow> check \<Rightarrow> string \<Rightarrow> snapshot_store \<Rightarrow> sched_error + DesiredSnapshot" where
  "GetSnapshot env query nodeID st =
     (case Repo_LoadSnapshot env query nodeID st of
        Inl e \<Rightarrow> Inl e
      | Inr r \<Rightarrow>
          (case ce_Unmarshal env (sr_Document r) of
             Inl err \<Rightarrow> Inl (Other err)
           | Inr s \<Rightarrow>
               (case DesiredSnapshot_Validate (ce_go env) s of
                  Some err \<Rightarrow> Inl (Other err)
                | None \<Rightarrow>
                    if \<not> metadata_matches r s then
                      Inl (Other (apply_error ''snapshot_metadata_mismatch'' [] ''stored snapshot metadata does not match its document''))
                    else (case ComputeChecksum (ce_go env) s of
                        Inl err \<Rightarrow> Inl (Other (ErrWrap ''compute snapshot checksum: '' err))
                      | Inr computed \<Rightarrow>
                          if \<not> equal_fold computed (sr_Checksum r) then
                            Inl (Other (apply_error ''checksum_mismatch'' ''checksum'' ''stored snapshot checksum does not match its content''))
                          else Inr s))))"

text \<open>
  The answers of the database during one \<^verbatim>\<open>SaveSnapshot\<close>: errors of the statements, what another process
  makes of the row between the first \<^verbatim>\<open>SELECT\<close> and the upsert (which locks it), and whether the commit
  happens and what it reports, as in \<^verbatim>\<open>commitWriteTx\<close>.
\<close>

record save_answers =
  sva_rnd :: "nat \<Rightarrow> bytes result \<times> bytes result"
  sva_begin :: check
  sva_select :: check
  sva_exists :: check
  sva_exec :: check
  sva_rows :: check
  sva_reselect :: check
  sva_mid :: "SnapshotRecord option \<Rightarrow> SnapshotRecord option"
  sva_commit :: "bool \<times> check"

definition save_check :: "controller_env \<Rightarrow> save_answers \<Rightarrow> time \<Rightarrow> SnapshotRecord \<Rightarrow> SnapshotRecord result" where
  "save_check env ans now r =
     (if sr_NodeID r = [] \<or> sr_Generation r = 0 \<or> sr_Checksum r = [] \<or> sr_Document r = [] then
        Inl (ErrNew ''snapshot node, generation, checksum and document are required'')
      else if length (sr_Document r) > maxSnapshotDocument then Inl (ErrNew ''snapshot document is too large'')
      else if sr_Generation r > MaxInt64 then Inl (apply_error ''invalid_generation'' ''generation'' ''generation exceeds repository limit'')
      else case ce_Unmarshal env (sr_Document r) of
          Inl err \<Rightarrow> Inl (ErrWrap ''snapshot document is invalid: '' err)
        | Inr s0 \<Rightarrow>
            bind_result (snapshot_policies (\<lambda>i. protectObfuscationPolicy env (sva_rnd ans i)) s0) (\<lambda>s.
            case ce_Marshal env s of
              Inl err \<Rightarrow> Inl (ErrWrap ''encode protected snapshot: '' err)
            | Inr protected \<Rightarrow>
                if \<not> metadata_matches r s then Inl (ErrNew ''snapshot metadata does not match document'')
                else check_then (DesiredSnapshot_Validate (ce_go env) s)
                  (case ComputeChecksum (ce_go env) s of
                     Inl err \<Rightarrow> Inl (ErrWrap ''compute snapshot checksum: '' err)
                   | Inr computed \<Rightarrow>
                       if \<not> equal_fold computed (sr_Checksum r) then
                         Inl (apply_error ''checksum_mismatch'' ''checksum'' ''snapshot checksum does not match its content'')
                       else Inr (r\<lparr>sr_Document := protected, sr_CreatedAt := (if sr_CreatedAt r = 0 then now else sr_CreatedAt r)\<rparr>))))"

definition generation_conflict :: "u64 \<Rightarrow> SnapshotRecord \<Rightarrow> sched_error" where
  "generation_conflict current r =
     RevisionConflict ''desired_snapshot'' (uint64ToRevision (if current < MaxInt64 then current + 1 else current)) (uint64ToRevision (sr_Generation r))"

definition commit_only :: "save_answers \<Rightarrow> sched_error option" where
  "commit_only ans = map_option Other (snd (sva_commit ans))"

definition commitAndNotify :: "save_answers \<Rightarrow> SnapshotRecord \<Rightarrow> snapshot_store \<Rightarrow> snapshot_store \<times> sched_error option" where
  "commitAndNotify ans r st =
     (let st1 = (if fst (sva_commit ans) then st\<lparr>ss_rows := (ss_rows st)(sr_NodeID r \<mapsto> r)\<rparr> else st) in
      case snd (sva_commit ans) of
        Some err \<Rightarrow> (st1, Some (Other err))
      | None \<Rightarrow> (st1\<lparr>ss_bus := Option.bind (ss_bus st1) (notifySnapshotChanges [sr_NodeID r])\<rparr>, None))"

definition save_upsert :: "save_answers \<Rightarrow> SnapshotRecord \<Rightarrow> snapshot_store \<Rightarrow> snapshot_store \<times> sched_error option" where
  "save_upsert ans r st0 =
     (let row = sva_mid ans (ss_rows st0 (sr_NodeID r)); st = st0\<lparr>ss_rows := (ss_rows st0)(sr_NodeID r := row)\<rparr> in
      case sva_exec ans of Some err \<Rightarrow> (st, Some (Other err)) | None \<Rightarrow>
      case sva_rows ans of Some err \<Rightarrow> (st, Some (Other (ErrWrap ''save snapshot rows affected: '' err))) | None \<Rightarrow>
      case row of
        Some current \<Rightarrow>
          if sr_Generation r > sr_Generation current then commitAndNotify ans r st
          else (case sva_reselect ans of
              Some err \<Rightarrow> (st, Some (Other err))
            | None \<Rightarrow>
                if sr_Generation r = sr_Generation current \<and> equal_fold (sr_Checksum r) (sr_Checksum current) then (st, commit_only ans)
                else (st, Some (generation_conflict (sr_Generation current) r)))
      | None \<Rightarrow> commitAndNotify ans r st)"

definition SaveSnapshot :: "controller_env \<Rightarrow> save_answers \<Rightarrow> time \<Rightarrow> SnapshotRecord \<Rightarrow> snapshot_store \<Rightarrow> snapshot_store \<times> sched_error option" where
  "SaveSnapshot env ans now r0 st =
     (case save_check env ans now r0 of
        Inl err \<Rightarrow> (st, Some (Other err))
      | Inr r \<Rightarrow>
          (case sva_begin ans of Some err \<Rightarrow> (st, Some (Other err)) | None \<Rightarrow>
           case sva_select ans of Some err \<Rightarrow> (st, Some (Other err)) | None \<Rightarrow>
           case ss_rows st (sr_NodeID r) of
             None \<Rightarrow>
               (case sva_exists ans of
                  Some err \<Rightarrow> (st, Some (Other err))
                | None \<Rightarrow> if ss_nodes st (sr_NodeID r) then save_upsert ans r st else (st, Some ErrNoRows))
           | Some current \<Rightarrow>
               if sr_Generation r < sr_Generation current then (st, Some (generation_conflict (sr_Generation current) r))
               else if sr_Generation r = sr_Generation current then
                 if equal_fold (sr_Checksum r) (sr_Checksum current) then (st, commit_only ans)
                 else (st, Some (generation_conflict (sr_Generation current) r))
               else save_upsert ans r st))"

section \<open>Building a snapshot\<close>

record resource_reads =
  rr_GetNode :: "string \<Rightarrow> sched_error + Node"
  rr_GetNodeSpec :: "string \<Rightarrow> sched_error + NodeSpec"
  rr_ListAssignments :: "string \<Rightarrow> string \<Rightarrow> sched_error + Assignment list"
  rr_ListServices :: "string \<Rightarrow> sched_error + Service list"
  rr_GetService :: "string \<Rightarrow> sched_error + Service"

fun collect_services ::
  "resource_reads \<Rightarrow> (string \<times> string) list \<Rightarrow> (string \<times> Service) list \<Rightarrow> sched_error + (string \<times> Service) list" where
  "collect_services rd [] m = Inr m"
| "collect_services rd ((assignmentID, serviceID) # rest) m =
     (if map_of m serviceID \<noteq> None then collect_services rd rest m
      else case rr_GetService rd serviceID of
          Inl e \<Rightarrow> Inl (wrap_rows (''assignment '' @ quoted assignmentID @ '' service '' @ quoted serviceID @ '': '') e)
        | Inr service \<Rightarrow> collect_services rd rest (AList.update (sv_ID service) service m))"

definition sorted_services :: "(string \<times> Service) list \<Rightarrow> Service list" where
  "sorted_services m = map (\<lambda>i. the (map_of m i)) (sort (map fst m))"

definition snapshot_of :: "string \<Rightarrow> DesiredSnapshot" where
  "snapshot_of nodeID = \<lparr>ds_SchemaVersion = CurrentControlProtocolVersion, ds_NodeID = nodeID, ds_Generation = 0, ds_Checksum = [],
     ds_Gateway = None, ds_Agent = None, ds_Services = [], ds_Assignments = []\<rparr>"

text \<open>The behaviour, its assignments and its services.\<close>

definition gather_resources :: "resource_reads \<Rightarrow> Node \<Rightarrow> sched_error + DesiredSnapshot" where
  "gather_resources rd node =
     (case rr_GetNodeSpec rd (node_ID node) of
        Inl e \<Rightarrow> Inl e
      | Inr spec \<Rightarrow>
          if ns_Kind spec = NodeSpecGateway then
            (case rr_ListAssignments rd (node_ID node) [] of
               Inl e \<Rightarrow> Inl e
             | Inr as \<Rightarrow>
                 (case collect_services rd (concat (map (\<lambda>a. map (\<lambda>i. (as_ID a, i)) (as_ServiceIDs a)) as)) [] of
                    Inl e \<Rightarrow> Inl e
                  | Inr m \<Rightarrow> Inr ((snapshot_of (node_ID node))\<lparr>ds_Gateway := ns_Gateway spec, ds_Assignments := as, ds_Services := sorted_services m\<rparr>)))
          else if ns_Kind spec = NodeSpecAgent then
            (case rr_ListServices rd (node_ID node) of
               Inl e \<Rightarrow> Inl e
             | Inr services \<Rightarrow>
                 (case rr_ListAssignments rd [] (node_ID node) of
                    Inl e \<Rightarrow> Inl e
                  | Inr as \<Rightarrow> Inr ((snapshot_of (node_ID node))\<lparr>ds_Agent := ns_Agent spec, ds_Assignments := as,
                      ds_Services := sorted_services (fold (\<lambda>s m. AList.update (sv_ID s) s m) services [])\<rparr>)))
          else Inl (Other (apply_error ''invalid_spec_kind'' ''node_spec.kind'' ''node spec kind must be gateway or agent'')))"

definition highest_generation :: "Assignment list \<Rightarrow> u64" where
  "highest_generation as = fold (\<lambda>a g. if as_Generation a > g then as_Generation a else g) as 0"

definition lift_check :: "'a result \<Rightarrow> sched_error + 'a" where
  "lift_check r = (case r of Inl e \<Rightarrow> Inl (Other e) | Inr x \<Rightarrow> Inr x)"

definition number_snapshot ::
  "controller_env \<Rightarrow> DesiredSnapshot \<Rightarrow> sched_error + SnapshotRecord \<Rightarrow> sched_error + DesiredSnapshot" where
  "number_snapshot env s previous =
     (case previous of
        Inl ErrNoRows \<Rightarrow> lift_check (WithChecksum (ce_go env) (if ds_Generation s = 0 then s\<lparr>ds_Generation := 1\<rparr> else s))
      | Inl e \<Rightarrow> Inl e
      | Inr prev \<Rightarrow>
          let s1 = (if sr_Generation prev > ds_Generation s then s\<lparr>ds_Generation := sr_Generation prev\<rparr> else s) in
          (case WithChecksum (ce_go env) s1 of
             Inl e \<Rightarrow> Inl (Other e)
           | Inr candidate \<Rightarrow>
               if equal_fold (sr_Checksum prev) (ds_Checksum candidate) then Inr candidate
               else if sr_Generation prev \<ge> MaxInt64 then Inl (Other (ErrNew ''desired snapshot generation is exhausted''))
               else let next = sr_Generation prev + 1;
                        s2 = (if ds_Generation s1 < next then s1\<lparr>ds_Generation := next\<rparr> else s1)
                 in lift_check (WithChecksum (ce_go env) s2)))"

definition BuildDesiredSnapshot ::
  "controller_env \<Rightarrow> resource_reads \<Rightarrow> (nat \<Rightarrow> bytes result \<times> bytes result) \<Rightarrow> check \<Rightarrow> string \<Rightarrow> snapshot_store \<Rightarrow> sched_error + DesiredSnapshot" where
  "BuildDesiredSnapshot env rd rnd query nodeID st =
     (case rr_GetNode rd nodeID of
        Inl e \<Rightarrow> Inl e
      | Inr node \<Rightarrow>
          (case gather_resources rd node of
             Inl e \<Rightarrow> Inl e
           | Inr s0 \<Rightarrow>
               (case snapshot_policies (\<lambda>i. protectObfuscationPolicy env (rnd i)) (s0\<lparr>ds_Generation := highest_generation (ds_Assignments s0)\<rparr>) of
                  Inl e \<Rightarrow> Inl (Other e)
                | Inr s \<Rightarrow> number_snapshot env s (Repo_LoadSnapshot env query (node_ID node) st))))"

section \<open>Storing it\<close>

record ensure_answers =
  ea_rnd :: "nat \<Rightarrow> bytes result \<times> bytes result"
  ea_query :: check
  ea_loadExisting :: check
  ea_save :: save_answers
  ea_now :: time
  ea_reload :: check

definition save_and_load ::
  "controller_env \<Rightarrow> ensure_answers \<Rightarrow> string \<Rightarrow> DesiredSnapshot \<Rightarrow> snapshot_store \<Rightarrow> snapshot_store \<times> (sched_error + SnapshotRecord)" where
  "save_and_load env ans nodeID s st =
     (case ce_Marshal env s of
        Inl e \<Rightarrow> (st, Inl (Other e))
      | Inr data \<Rightarrow>
          (case SaveSnapshot env (ea_save ans) (ea_now ans)
                  \<lparr>sr_NodeID = ds_NodeID s, sr_Generation = ds_Generation s, sr_Checksum = ds_Checksum s, sr_Document = data, sr_CreatedAt = 0\<rparr> st of
             (st', Some e) \<Rightarrow> (st', Inl e)
           | (st', None) \<Rightarrow> (st', Repo_LoadSnapshot env (ea_reload ans) nodeID st')))"

definition Repo_EnsureDesiredSnapshot ::
  "controller_env \<Rightarrow> resource_reads \<Rightarrow> ensure_answers \<Rightarrow> string \<Rightarrow> snapshot_store \<Rightarrow> snapshot_store \<times> (sched_error + SnapshotRecord)" where
  "Repo_EnsureDesiredSnapshot env rd ans nodeID st =
     (case BuildDesiredSnapshot env rd (ea_rnd ans) (ea_query ans) nodeID st of
        Inr s \<Rightarrow> save_and_load env ans nodeID s st
      | Inl ErrNoRows \<Rightarrow>
          (case Repo_LoadSnapshot env (ea_loadExisting ans) nodeID st of
             Inl ErrNoRows \<Rightarrow> (st, Inl ErrNoRows)
           | Inl e \<Rightarrow> (st, Inl e)
           | Inr existing \<Rightarrow>
               (case ce_Unmarshal env (sr_Document existing) of
                  Inl e \<Rightarrow> (st, Inl (Other e))
                | Inr current \<Rightarrow>
                    if ds_Gateway current = None \<and> ds_Agent current = None then (st, Inr existing)
                    else if sr_Generation existing = MaxInt64 then (st, Inl (Other (ErrNew ''desired snapshot generation is exhausted'')))
                    else (case WithChecksum (ce_go env) ((snapshot_of nodeID)\<lparr>ds_Generation := sr_Generation existing + 1\<rparr>) of
                        Inl e \<Rightarrow> (st, Inl (Other e))
                      | Inr cleared \<Rightarrow> save_and_load env ans nodeID cleared st)))
      | Inl e \<Rightarrow> (st, Inl e))"

text \<open>The empty snapshot that a transaction deleting a node's behaviour writes.\<close>

definition clearDesiredSnapshotTx ::
  "controller_env \<Rightarrow> check \<Rightarrow> check \<Rightarrow> time \<Rightarrow> string \<Rightarrow> snapshot_store \<Rightarrow> snapshot_store \<times> check" where
  "clearDesiredSnapshotTx env query exec now nodeID st =
     (case query of Some e \<Rightarrow> (st, Some e) | None \<Rightarrow>
      case (case ss_rows st nodeID of
              None \<Rightarrow> Inr 1
            | Some r \<Rightarrow> if sr_Generation r \<ge> MaxInt64 then Inl (ErrNew ''desired snapshot generation is exhausted'') else Inr (sr_Generation r + 1)) of
        Inl e \<Rightarrow> (st, Some e)
      | Inr generation \<Rightarrow>
          (case WithChecksum (ce_go env) ((snapshot_of nodeID)\<lparr>ds_Generation := generation\<rparr>) of
             Inl e \<Rightarrow> (st, Some e)
           | Inr s \<Rightarrow>
               (case ce_Marshal env s of
                  Inl e \<Rightarrow> (st, Some e)
                | Inr document \<Rightarrow>
                    (case exec of Some e \<Rightarrow> (st, Some e) | None \<Rightarrow>
                     let r = \<lparr>sr_NodeID = nodeID, sr_Generation = ds_Generation s, sr_Checksum = ds_Checksum s, sr_Document = document, sr_CreatedAt = now\<rparr>
                     in (if (case ss_rows st nodeID of None \<Rightarrow> True | Some old \<Rightarrow> sr_Generation r > sr_Generation old)
                         then st\<lparr>ss_rows := (ss_rows st)(nodeID \<mapsto> r)\<rparr> else st, None)))))"

fun RebuildDesiredSnapshots ::
  "controller_env \<Rightarrow> (nat \<Rightarrow> resource_reads \<times> ensure_answers) \<Rightarrow> nat \<Rightarrow> Node list \<Rightarrow> snapshot_store \<Rightarrow> snapshot_store \<times> sched_error option" where
  "RebuildDesiredSnapshots env answers k [] st = (st, None)"
| "RebuildDesiredSnapshots env answers k (node # nodes) st =
     (case Repo_EnsureDesiredSnapshot env (fst (answers k)) (snd (answers k)) (node_ID node) st of
        (st', Inl ErrNoRows) \<Rightarrow> RebuildDesiredSnapshots env answers (Suc k) nodes st'
      | (st', Inl e) \<Rightarrow> (st', Some e)
      | (st', Inr _) \<Rightarrow> RebuildDesiredSnapshots env answers (Suc k) nodes st')"

section \<open>Sending it\<close>

definition wire_message :: "SnapshotRecord \<Rightarrow> bytes \<Rightarrow> wire_snapshot" where
  "wire_message r doc = \<lparr>ws_SchemaVersion = CurrentControlProtocolVersion, ws_NodeId = sr_NodeID r, ws_Generation = sr_Generation r,
     ws_Checksum = sr_Checksum r, ws_DocumentJson = doc\<rparr>"

abbreviation snapshotWireRetryLimit :: nat where "snapshotWireRetryLimit \<equiv> 5"
definition snapshotWireRetryStart :: duration where "snapshotWireRetryStart = 250000000"
definition snapshotWireRetryMax :: duration where "snapshotWireRetryMax = 5 * second"

text \<open>
  One element of \<open>envs\<close> per attempt: the environment it runs in, and whether the wait after it is
  cut short by the end of the stream. The result is the last generation sent, the outcome, whether
  the stream is cancelled, and the waits.
\<close>

fun sendSnapshotForWire ::
  "(controller_env \<times> check) list \<Rightarrow> nat \<Rightarrow> duration \<Rightarrow> SnapshotRecord \<Rightarrow> (wire_snapshot \<Rightarrow> check) \<Rightarrow> u64 \<Rightarrow> (u64 \<times> check \<times> bool \<times> duration list)" where
  "sendSnapshotForWire [] attempt delay r send lastSent = (lastSent, Some (ErrNew ''snapshot wire retry was interrupted''), False, [])"
| "sendSnapshotForWire ((env, interrupted) # envs) attempt delay r send lastSent =
     (case SnapshotDocumentForWire env (sr_Document r) of
        Inr doc \<Rightarrow>
          (case send (wire_message r doc) of
             Some err \<Rightarrow> (lastSent, Some err, False, [])
           | None \<Rightarrow> (sr_Generation r, None, False, []))
      | Inl err \<Rightarrow>
          if attempt \<ge> snapshotWireRetryLimit then (lastSent, Some err, True, [])
          else case interrupted of
              Some e \<Rightarrow> (lastSent, Some e, False, [delay])
            | None \<Rightarrow>
                (case sendSnapshotForWire envs (Suc attempt) (min snapshotWireRetryMax (2 * delay)) r send lastSent of
                   (sent, out, cancelled, waits) \<Rightarrow> (sent, out, cancelled, delay # waits)))"

text \<open>
  One event per notification on the stream's channel; the loop ends when the channel is closed (the
  end of the list), or when a snapshot cannot be sent. \<open>sends\<close> collects what was sent.
\<close>

record push_event =
  pe_reads :: resource_reads
  pe_ensure :: ensure_answers
  pe_attempts :: "(controller_env \<times> check) list"
  pe_send :: "wire_snapshot \<Rightarrow> check"

fun pushSnapshots ::
  "controller_env \<Rightarrow> string \<Rightarrow> push_event list \<Rightarrow> snapshot_store \<Rightarrow> u64 \<Rightarrow> SnapshotRecord list \<Rightarrow> snapshot_store \<times> u64 \<times> SnapshotRecord list" where
  "pushSnapshots env nodeID [] st lastSent sends = (st, lastSent, sends)"
| "pushSnapshots env nodeID (ev # evs) st lastSent sends =
     (case Repo_EnsureDesiredSnapshot env (pe_reads ev) (pe_ensure ev) nodeID st of
        (st', Inl e) \<Rightarrow> pushSnapshots env nodeID evs st' lastSent sends
      | (st', Inr r) \<Rightarrow>
          if sr_Generation r \<le> lastSent then pushSnapshots env nodeID evs st' lastSent sends
          else (case sendSnapshotForWire (pe_attempts ev) 1 snapshotWireRetryStart r (pe_send ev) lastSent of
              (sent, Some err, cancelled, waits) \<Rightarrow> (st', sent, sends)
            | (sent, None, cancelled, waits) \<Rightarrow> pushSnapshots env nodeID evs st' sent (sends @ [r])))"

lemma send_sets_generation:
  "sendSnapshotForWire envs k d r send lastSent = (sent, None, cancelled, waits) \<Longrightarrow> sent = sr_Generation r"
  by (induction envs k d r send lastSent arbitrary: cancelled waits rule: sendSnapshotForWire.induct)
    (auto split: sum.splits option.splits prod.splits if_splits)

text \<open>Every snapshot sent on a stream has a later generation than the ones before.\<close>

lemma pushed_generations_increase:
  assumes "pushSnapshots env n evs st lastSent sends = (st', sent, sends')"
    and "sorted_wrt (<) (map sr_Generation sends)" "\<forall>r\<in>set sends. sr_Generation r \<le> lastSent"
  shows "sorted_wrt (<) (map sr_Generation sends') \<and> (\<exists>new. sends' = sends @ new)"
  using assms
proof (induction evs arbitrary: st lastSent sends)
  case (Cons ev evs)
  obtain st1 res where e: "Repo_EnsureDesiredSnapshot env (pe_reads ev) (pe_ensure ev) n st = (st1, res)" by fastforce
  show ?case
  proof (cases "\<exists>r. res = Inr r \<and> lastSent < sr_Generation r")
    case False
    then have "pushSnapshots env n evs st1 lastSent sends = (st', sent, sends')" using Cons.prems(1) e by (cases res) (auto simp: not_less)
    then show ?thesis using Cons.IH Cons.prems(2,3) by blast
  next
    case True
    then obtain r where r: "res = Inr r" "\<not> sr_Generation r \<le> lastSent" by auto
    obtain s1 out c w where sd: "sendSnapshotForWire (pe_attempts ev) 1 snapshotWireRetryStart r (pe_send ev) lastSent = (s1, out, c, w)" by (metis prod.exhaust)
    show ?thesis
    proof (cases out)
      case None
      then have s1: "s1 = sr_Generation r" using send_sets_generation sd by blast
      have "\<forall>x\<in>set sends. sr_Generation x < sr_Generation r" using Cons.prems(3) r(2) by (meson not_le order_le_less_trans)
      then have s: "sorted_wrt (<) (map sr_Generation (sends @ [r]))" "\<forall>x\<in>set (sends @ [r]). sr_Generation x \<le> s1"
        using Cons.prems(2) s1 by (auto simp: sorted_wrt_append less_imp_le)
      have "pushSnapshots env n evs st1 s1 (sends @ [r]) = (st', sent, sends')"
        using Cons.prems(1) e r sd None by (simp del: One_nat_def)
      from Cons.IH [OF this s] show ?thesis by auto
    next
      case (Some err)
      then show ?thesis using Cons.prems(1,2) e r sd by (simp del: One_nat_def)
    qed
  qed
qed simp

section \<open>Generations identify content\<close>

text \<open>A row may only be replaced by one of a later generation, or of the same generation and checksum.\<close>

fun row_advances :: "SnapshotRecord option \<Rightarrow> SnapshotRecord option \<Rightarrow> bool" where
  "row_advances None b = True"
| "row_advances (Some r) None = False"
| "row_advances (Some r) (Some r') \<longleftrightarrow> sr_Generation r < sr_Generation r' \<or> (sr_Generation r = sr_Generation r' \<and> equal_fold (sr_Checksum r) (sr_Checksum r'))"

lemma row_advances_refl [simp]: "row_advances a a"
  by (cases a) auto

lemma row_advances_trans: "row_advances a b \<Longrightarrow> row_advances b c \<Longrightarrow> row_advances a c"
  by (cases a; cases b; cases c) (auto intro: equal_fold_trans)

text \<open>The same for every node, and other processes respect it too.\<close>

definition advances :: "snapshot_store \<Rightarrow> snapshot_store \<Rightarrow> bool" where
  "advances st st' \<longleftrightarrow> (\<forall>n. row_advances (ss_rows st n) (ss_rows st' n))"

definition others_advance :: "save_answers \<Rightarrow> bool" where
  "others_advance ans \<longleftrightarrow> (\<forall>row. row_advances row (sva_mid ans row))"

lemma advances_refl [simp]: "advances st st"
  by (simp add: advances_def)

lemma advances_trans: "advances a b \<Longrightarrow> advances b c \<Longrightarrow> advances a c"
  unfolding advances_def using row_advances_trans by blast

lemma commitAndNotify_advances:
  assumes "row_advances (ss_rows st (sr_NodeID r)) (Some r)"
  shows "advances st (fst (commitAndNotify ans r st))"
  using assms by (auto simp: commitAndNotify_def advances_def Let_def split: option.splits)

lemma save_upsert_advances:
  assumes "others_advance ans"
  shows "advances st (fst (save_upsert ans r st))"
proof -
  let ?row = "sva_mid ans (ss_rows st (sr_NodeID r))" and ?st = "st\<lparr>ss_rows := (ss_rows st)(sr_NodeID r := sva_mid ans (ss_rows st (sr_NodeID r)))\<rparr>"
  have a: "advances st ?st" using assms by (auto simp: advances_def others_advance_def)
  have c: "advances ?st (fst (commitAndNotify ans r ?st))" if "case ?row of None \<Rightarrow> True | Some c \<Rightarrow> sr_Generation c < sr_Generation r"
    using that by (intro commitAndNotify_advances) (auto split: option.splits)
  show ?thesis using a advances_trans [OF a c] by (auto simp: save_upsert_def Let_def split: option.splits)
qed

lemma SaveSnapshot_advances:
  assumes "others_advance ans"
  shows "advances st (fst (SaveSnapshot env ans now r st))"
  using save_upsert_advances [OF assms] by (auto simp: SaveSnapshot_def split: sum.splits option.splits)

lemma save_and_load_advances: "others_advance (ea_save ans) \<Longrightarrow> advances st (fst (save_and_load env ans n s st))"
  using SaveSnapshot_advances [of "ea_save ans" st env "ea_now ans"]
  by (auto simp: save_and_load_def split: sum.splits prod.splits option.splits) (metis fst_conv)+

lemma Ensure_advances: "others_advance (ea_save ans) \<Longrightarrow> advances st (fst (Repo_EnsureDesiredSnapshot env rd ans n st))"
  using save_and_load_advances [of ans st env n] by (auto simp: Repo_EnsureDesiredSnapshot_def split: sum.splits sched_error.splits)

lemma WithChecksum_fields:
  "WithChecksum env s = Inr t \<Longrightarrow> ds_Generation t = ds_Generation s \<and> ds_NodeID t = ds_NodeID s \<and> ds_SchemaVersion t = ds_SchemaVersion s
     \<and> ds_Gateway t = map_option normalize_gateway (ds_Gateway s) \<and> ds_Agent t = map_option normalize_agent (ds_Agent s)"
  by (auto simp: WithChecksum_def Let_def Normalize_def)

lemma clear_advances: "advances st (fst (clearDesiredSnapshotTx env query exec now n st))"
  by (auto simp: clearDesiredSnapshotTx_def advances_def Let_def split: option.splits sum.splits if_splits)

lemma Rebuild_advances:
  "\<forall>k. others_advance (ea_save (snd (answers k))) \<Longrightarrow> advances st (fst (RebuildDesiredSnapshots env answers k nodes st))"
proof (induction nodes arbitrary: k st)
  case (Cons node nodes)
  let ?e = "Repo_EnsureDesiredSnapshot env (fst (answers k)) (snd (answers k)) (node_ID node) st"
  have a: "advances st (fst ?e)" using Cons.prems by (intro Ensure_advances) simp
  have "advances (fst ?e) (fst (RebuildDesiredSnapshots env answers (Suc k) nodes (fst ?e)))" by (rule Cons.IH [OF Cons.prems])
  with a advances_trans show ?case by (auto split: prod.splits sum.splits sched_error.splits)
qed simp

text \<open>Any sequence of these writes.\<close>

inductive store_step :: "controller_env \<Rightarrow> snapshot_store \<Rightarrow> snapshot_store \<Rightarrow> bool" for env where
  ensure: "others_advance (ea_save ans) \<Longrightarrow> store_step env st (fst (Repo_EnsureDesiredSnapshot env rd ans n st))"
| save: "others_advance ans \<Longrightarrow> store_step env st (fst (SaveSnapshot env ans now r st))"
| clear: "store_step env st (fst (clearDesiredSnapshotTx env query exec now n st))"
| rebuild: "\<forall>k. others_advance (ea_save (snd (answers k))) \<Longrightarrow> store_step env st (fst (RebuildDesiredSnapshots env answers 0 nodes st))"

text \<open>
  C17. A generation identifies the content of a node's desired snapshot: whatever is built, stored,
  cleared or rebuilt, with whatever database errors and whatever other controller processes do under the
  same rule, a stored row is only ever replaced by one of a later generation, or of the same generation and
  checksum.
\<close>

theorem snapshot_generations_advance:
  assumes "(store_step env)\<^sup>*\<^sup>* st st'" "ss_rows st n = Some r"
  shows "\<exists>r'. ss_rows st' n = Some r' \<and> (sr_Generation r < sr_Generation r' \<or> (sr_Generation r = sr_Generation r' \<and> equal_fold (sr_Checksum r) (sr_Checksum r')))"
proof -
  have "advances st st'" using assms(1)
  proof (induction rule: rtranclp_induct)
    case (step y z)
    have "advances y z" using step.hyps(2)
      by (induction rule: store_step.induct) (simp_all add: Ensure_advances SaveSnapshot_advances clear_advances Rebuild_advances)
    with step.IH advances_trans show ?case by blast
  qed simp
  then have "row_advances (Some r) (ss_rows st' n)" using assms(2) unfolding advances_def by metis
  then show ?thesis by (cases "ss_rows st' n") auto
qed

section \<open>Unchanged resources keep their generation\<close>

definition no_plaintext :: "ObfuscationPolicy \<Rightarrow> bool" where
  "no_plaintext p \<longleftrightarrow> ob_Key p = [] \<and> ob_PreviousKey p = []"

definition keys_at_rest :: "DesiredSnapshot \<Rightarrow> bool" where
  "keys_at_rest s \<longleftrightarrow> (\<forall>g\<in>set_option (ds_Gateway s). no_plaintext (gw_Obfuscation g)) \<and> (\<forall>a\<in>set (ds_Assignments s). no_plaintext (as_Obfuscation a))"

lemma protect_at_rest:
  assumes "no_plaintext p"
  shows "protectObfuscationPolicy env rnd p = protectObfuscationPolicy env rnd' p"
proof -
  have c: "protect_current env r p = protect_current env r' p" for r r' using assms by (simp add: protect_current_def no_plaintext_def)
  have v: "protect_previous env r q = protect_previous env r' q" if "protect_current env (fst rnd') p = Inr q" for r r' q
    using protect_current_ok(3) [OF that] assms by (simp add: protect_previous_def no_plaintext_def)
  show ?thesis
    by (cases "protect_current env (fst rnd') p")
      (simp_all add: protectObfuscationPolicy_def c [of "fst rnd" "fst rnd'"] v [of _ "snd rnd" "snd rnd'"])
qed

lemma map_result_cong_on: "(\<And>x. x \<in> set xs \<Longrightarrow> f x = g x) \<Longrightarrow> map_result f xs = map_result g xs"
  by (induction xs) auto

lemma set_enumerate_snd: "x \<in> set (enumerate n xs) \<Longrightarrow> snd x \<in> set xs"
  by (induction xs arbitrary: n) auto

lemma policies_at_rest:
  assumes "keys_at_rest s"
  shows "snapshot_policies (\<lambda>i. protectObfuscationPolicy env (rnd i)) s = snapshot_policies (\<lambda>i. protectObfuscationPolicy env (rnd' i)) s"
proof -
  have "gateway_policy (protectObfuscationPolicy env (rnd 0)) (ds_Gateway s) = gateway_policy (protectObfuscationPolicy env (rnd' 0)) (ds_Gateway s)"
    using assms protect_at_rest [of _ env "rnd 0" "rnd' 0"] by (cases "ds_Gateway s") (simp_all add: gateway_policy_def keys_at_rest_def)
  moreover have "map_result (assignment_policy (\<lambda>i. protectObfuscationPolicy env (rnd i))) (enumerate 1 (ds_Assignments s))
      = map_result (assignment_policy (\<lambda>i. protectObfuscationPolicy env (rnd' i))) (enumerate 1 (ds_Assignments s))"
  proof (rule map_result_cong_on)
    fix x assume "x \<in> set (enumerate 1 (ds_Assignments s))"
    then have "snd x \<in> set (ds_Assignments s)" by (rule set_enumerate_snd)
    then have "no_plaintext (as_Obfuscation (snd x))" using assms by (simp add: keys_at_rest_def)
    moreover obtain i a where x: "x = (i, a)" by fastforce
    ultimately have "no_plaintext (as_Obfuscation a)" by simp
    from protect_at_rest [OF this, of env "rnd i" "rnd' i"]
    show "assignment_policy (\<lambda>i. protectObfuscationPolicy env (rnd i)) x = assignment_policy (\<lambda>i. protectObfuscationPolicy env (rnd' i)) x"
      by (simp add: assignment_policy_def x)
  qed
  ultimately show ?thesis by (simp add: snapshot_policies_def)
qed

lemma policies_protect:
  assumes "snapshot_policies (\<lambda>i. protectObfuscationPolicy env (rnd i)) s = Inr t"
  shows "keys_at_rest t"
proof -
  obtain g as where g: "gateway_policy (protectObfuscationPolicy env (rnd 0)) (ds_Gateway s) = Inr g"
    and as: "map_result (assignment_policy (\<lambda>i. protectObfuscationPolicy env (rnd i))) (enumerate 1 (ds_Assignments s)) = Inr as"
    and t: "t = s\<lparr>ds_Gateway := g, ds_Assignments := as\<rparr>"
    using assms by (auto simp: snapshot_policies_def)
  have p: "no_plaintext q" if "protectObfuscationPolicy env r p = Inr q" for r p q
    using protect_protects [OF that] by (simp add: protected_policy_def no_plaintext_def)
  have "list_all2 (\<lambda>ia b. no_plaintext (as_Obfuscation b)) (enumerate 1 (ds_Assignments s)) as"
    by (rule map_result_list_all2 [OF as]) (auto simp: assignment_policy_def dest: p split: prod.splits sum.splits)
  then have "\<forall>b\<in>set as. no_plaintext (as_Obfuscation b)" by (auto simp: list_all2_conv_all_nth in_set_conv_nth)
  moreover have "\<forall>v\<in>set_option g. no_plaintext (gw_Obfuscation v)" using g p [of "rnd 0"] by (cases "ds_Gateway s") (auto simp: gateway_policy_def)
  ultimately show ?thesis by (simp add: keys_at_rest_def t)
qed

lemma WithChecksum_at_rest: "WithChecksum env s = Inr t \<Longrightarrow> keys_at_rest s \<Longrightarrow> keys_at_rest t"
  by (auto simp: WithChecksum_def Let_def Normalize_def keys_at_rest_def normalize_gateway_def normalize_assignment_def)

lemma number_snapshot_form:
  assumes "number_snapshot env p previous = Inr t"
  shows "WithChecksum (ce_go env) (p\<lparr>ds_Generation := ds_Generation t\<rparr>) = Inr t \<and> ds_Generation p \<le> ds_Generation t"
proof -
  have form: ?thesis if "WithChecksum (ce_go env) s = Inr t" "s = p\<lparr>ds_Generation := ds_Generation s\<rparr>" "ds_Generation p \<le> ds_Generation s" for s
    using that WithChecksum_fields [OF that(1)] by metis
  have same: "p\<lparr>ds_Generation := ds_Generation p\<rparr> = p" by simp
  show ?thesis
  proof (cases previous)
    case (Inl e)
    then have "WithChecksum (ce_go env) (if ds_Generation p = 0 then p\<lparr>ds_Generation := 1\<rparr> else p) = Inr t"
      using assms by (cases e) (auto simp: number_snapshot_def lift_check_def split: sum.splits)
    then show ?thesis using form [of "p\<lparr>ds_Generation := 1\<rparr>"] form [of p] by (auto split: if_splits)
  next
    case (Inr prev)
    let ?s1 = "if sr_Generation prev > ds_Generation p then p\<lparr>ds_Generation := sr_Generation prev\<rparr> else p"
    let ?s2 = "if ds_Generation ?s1 < sr_Generation prev + 1 then ?s1\<lparr>ds_Generation := sr_Generation prev + 1\<rparr> else ?s1"
    have s1: "?s1 = p\<lparr>ds_Generation := ds_Generation ?s1\<rparr>" "ds_Generation p \<le> ds_Generation ?s1" by (simp_all add: less_imp_le)
    have s2: "?s2 = p\<lparr>ds_Generation := ds_Generation ?s2\<rparr>" "ds_Generation p \<le> ds_Generation ?s2" using s1(2) by auto
    have "WithChecksum (ce_go env) ?s1 = Inr t \<or> WithChecksum (ce_go env) ?s2 = Inr t"
      using assms Inr by (auto simp: number_snapshot_def lift_check_def Let_def split: sum.splits if_splits)
    then show ?thesis using form [OF _ s1] form [OF _ s2] by blast
  qed
qed

lemma number_snapshot_again:
  assumes "WithChecksum (ce_go env) (p\<lparr>ds_Generation := ds_Generation t\<rparr>) = Inr t" "ds_Generation p \<le> ds_Generation t"
    and "sr_Generation r = ds_Generation t" "equal_fold (sr_Checksum r) (ds_Checksum t)"
  shows "number_snapshot env p (Inr r) = Inr t"
proof -
  have "(if sr_Generation r > ds_Generation p then p\<lparr>ds_Generation := sr_Generation r\<rparr> else p) = p\<lparr>ds_Generation := ds_Generation t\<rparr>"
    using assms(2,3) by (cases p) auto
  then show ?thesis using assms(1,4) by (simp add: number_snapshot_def Let_def)
qed

text \<open>What the library promises: a document that was written is read back.\<close>

definition document_laws :: "controller_env \<Rightarrow> bool" where
  "document_laws env \<longleftrightarrow> (\<forall>s doc. ce_Marshal env s = Inr doc \<longrightarrow> ce_Unmarshal env doc = Inr s \<and> doc \<noteq> [])"

definition commit_reported :: "save_answers \<Rightarrow> bool" where
  "commit_reported ans \<longleftrightarrow> (snd (sva_commit ans) = None \<longrightarrow> fst (sva_commit ans))"

definition works :: "ensure_answers \<Rightarrow> bool" where
  "works ans \<longleftrightarrow> ea_query ans = None \<and> ea_loadExisting ans = None \<and> ea_reload ans = None \<and> sva_begin (ea_save ans) = None
     \<and> sva_select (ea_save ans) = None \<and> sva_exists (ea_save ans) = None \<and> sva_commit (ea_save ans) = (True, None)"

lemma save_check_elim:
  assumes "save_check env ans now r = Inr r'"
  obtains s0 s protected c where "sr_NodeID r \<noteq> []" "sr_Generation r \<noteq> 0" "sr_Checksum r \<noteq> []" "sr_Document r \<noteq> []"
    "length (sr_Document r) \<le> maxSnapshotDocument" "sr_Generation r \<le> MaxInt64" "ce_Unmarshal env (sr_Document r) = Inr s0"
    "snapshot_policies (\<lambda>i. protectObfuscationPolicy env (sva_rnd ans i)) s0 = Inr s" "ce_Marshal env s = Inr protected" "metadata_matches r s"
    "DesiredSnapshot_Validate (ce_go env) s = None" "ComputeChecksum (ce_go env) s = Inr c" "equal_fold c (sr_Checksum r)"
    "r' = r\<lparr>sr_Document := protected, sr_CreatedAt := (if sr_CreatedAt r = 0 then now else sr_CreatedAt r)\<rparr>"
proof -
  have h: "sr_NodeID r \<noteq> []" "sr_Generation r \<noteq> 0" "sr_Checksum r \<noteq> []" "sr_Document r \<noteq> []"
    "length (sr_Document r) \<le> maxSnapshotDocument" "sr_Generation r \<le> MaxInt64"
    using assms by (auto simp: save_check_def not_less split: if_splits)
  obtain s0 where s0: "ce_Unmarshal env (sr_Document r) = Inr s0" using assms h by (auto simp: save_check_def split: sum.splits if_splits)
  obtain s where s: "snapshot_policies (\<lambda>i. protectObfuscationPolicy env (sva_rnd ans i)) s0 = Inr s"
    using assms h s0 by (auto simp: save_check_def split: if_splits)
  obtain protected where p: "ce_Marshal env s = Inr protected" using assms h s0 s by (auto simp: save_check_def split: sum.splits if_splits)
  obtain c where c: "ComputeChecksum (ce_go env) s = Inr c" using assms h s0 s p by (auto simp: save_check_def split: sum.splits if_splits)
  show ?thesis using assms h s0 s p c by (intro that [OF h s0 s p _ _ c]) (auto simp: save_check_def split: if_splits)
qed

lemma save_check_fields:
  "save_check env ans now r = Inr r' \<Longrightarrow> sr_NodeID r' = sr_NodeID r \<and> sr_Generation r' = sr_Generation r \<and> sr_Checksum r' = sr_Checksum r"
  by (rule save_check_elim) auto

lemma save_check_again:
  assumes "save_check env ans now r = Inr r'" "ce_Unmarshal env (sr_Document r) = Inr t" "keys_at_rest t"
  shows "\<exists>r2. save_check env ans2 now2 r = Inr r2"
proof -
  from assms(1) obtain s protected c where f: "sr_NodeID r \<noteq> []" "sr_Generation r \<noteq> 0" "sr_Checksum r \<noteq> []" "sr_Document r \<noteq> []"
    "length (sr_Document r) \<le> maxSnapshotDocument" "sr_Generation r \<le> MaxInt64"
    "snapshot_policies (\<lambda>i. protectObfuscationPolicy env (sva_rnd ans i)) t = Inr s" "ce_Marshal env s = Inr protected" "metadata_matches r s"
    "DesiredSnapshot_Validate (ce_go env) s = None" "ComputeChecksum (ce_go env) s = Inr c" "equal_fold c (sr_Checksum r)"
    by (rule save_check_elim) (use assms(2) in auto)
  then show ?thesis using assms(2) policies_at_rest [OF assms(3), of env "sva_rnd ans" "sva_rnd ans2"]
    by (simp add: save_check_def not_less)
qed

lemma commitAndNotify_ok: "commitAndNotify ans r st = (st', None) \<Longrightarrow> commit_reported ans \<Longrightarrow> ss_rows st' (sr_NodeID r) = Some r"
  by (auto simp: commitAndNotify_def commit_reported_def Let_def split: option.splits)

lemma save_upsert_ok:
  assumes "save_upsert ans r st = (st', None)" "commit_reported ans"
  shows "\<exists>row. ss_rows st' (sr_NodeID r) = Some row \<and> sr_Generation row = sr_Generation r \<and> equal_fold (sr_Checksum r) (sr_Checksum row)"
  using assms commitAndNotify_ok [OF _ assms(2), of r _ st'] by (auto simp: save_upsert_def Let_def split: option.splits if_splits)

lemma SaveSnapshot_ok:
  assumes "SaveSnapshot env ans now r st = (st', None)" "commit_reported ans"
  shows "(\<exists>row. ss_rows st' (sr_NodeID r) = Some row \<and> sr_Generation row = sr_Generation r \<and> equal_fold (sr_Checksum r) (sr_Checksum row))
    \<and> (\<exists>r'. save_check env ans now r = Inr r')"
proof -
  obtain r' where c: "save_check env ans now r = Inr r'" using assms(1) by (auto simp: SaveSnapshot_def split: sum.splits)
  note f = save_check_fields [OF c]
  show ?thesis using assms c f save_upsert_ok [of ans r' st st']
    by (auto simp: SaveSnapshot_def split: option.splits if_splits)
qed

lemma SaveSnapshot_same:
  assumes "save_check env ans now r = Inr r'" "ss_rows st (sr_NodeID r) = Some row" "sr_Generation row = sr_Generation r"
    and "equal_fold (sr_Checksum r) (sr_Checksum row)" "sva_begin ans = None" "sva_select ans = None" "sva_commit ans = (True, None)"
  shows "SaveSnapshot env ans now r st = (st, None)"
  using assms save_check_fields [OF assms(1)] by (simp add: SaveSnapshot_def commit_only_def)

lemma gather_node: "gather_resources rd node = Inr s \<Longrightarrow> ds_NodeID s = node_ID node"
  by (auto simp: gather_resources_def snapshot_of_def split: sum.splits if_splits)

lemma Load_row: "Repo_LoadSnapshot env q n st = Inr r \<Longrightarrow> ss_rows st n = Some r \<and> Repo_LoadSnapshot env None n st = Inr r"
  by (auto simp: Repo_LoadSnapshot_def split: option.splits)

text \<open>
  C18. Refreshing is idempotent: when the resources of a node did not change since its desired snapshot was
  stored, refreshing it again writes nothing, creates no generation, and returns the same record. (The
  resources hold their obfuscation keys encrypted, as the repository stores them.)
\<close>

theorem ensure_idempotent:
  assumes "Repo_EnsureDesiredSnapshot env rd ans n st = (st1, Inr r)" "BuildDesiredSnapshot env rd (ea_rnd ans) (ea_query ans) n st = Inr t"
    and "rr_GetNode rd n = Inr node" "node_ID node = n" "gather_resources rd node = Inr s0" "keys_at_rest s0"
    and "document_laws env" "commit_reported (ea_save ans)" "works ans2"
  shows "Repo_EnsureDesiredSnapshot env rd ans2 n st1 = (st1, Inr r)"
proof -
  let ?s = "s0\<lparr>ds_Generation := highest_generation (ds_Assignments s0)\<rparr>"
  have rest: "keys_at_rest ?s" using assms(6) by (simp add: keys_at_rest_def)
  obtain p where p: "snapshot_policies (\<lambda>i. protectObfuscationPolicy env (ea_rnd ans i)) ?s = Inr p"
    and t: "number_snapshot env p (Repo_LoadSnapshot env (ea_query ans) n st) = Inr t"
    using assms(2-5) by (auto simp: BuildDesiredSnapshot_def split: sum.splits)
  have p2: "snapshot_policies (\<lambda>i. protectObfuscationPolicy env (ea_rnd ans2 i)) ?s = Inr p"
    using p policies_at_rest [OF rest, of env "ea_rnd ans" "ea_rnd ans2"] by simp
  note num = number_snapshot_form [OF t]
  note num1 = num [THEN conjunct1]
  have "ds_NodeID p = n" using snapshot_policies_fields [OF p] gather_node [OF assms(5)] assms(4) by simp
  then have tn: "ds_NodeID t = n" using WithChecksum_fields [OF num1] by simp
  have "keys_at_rest (p\<lparr>ds_Generation := ds_Generation t\<rparr>)" using policies_protect [OF p] by (simp add: keys_at_rest_def)
  note tf = tn WithChecksum_at_rest [OF num1 this]
  obtain doc where d: "ce_Marshal env t = Inr doc" using assms(1,2) by (auto simp: Repo_EnsureDesiredSnapshot_def save_and_load_def split: sum.splits)
  define rec where "rec = \<lparr>sr_NodeID = ds_NodeID t, sr_Generation = ds_Generation t, sr_Checksum = ds_Checksum t, sr_Document = doc, sr_CreatedAt = 0\<rparr>"
  have sv: "SaveSnapshot env (ea_save ans) (ea_now ans) rec st = (st1, None)" and ld: "Repo_LoadSnapshot env (ea_reload ans) n st1 = Inr r"
    using assms(1,2) d by (auto simp: Repo_EnsureDesiredSnapshot_def save_and_load_def rec_def split: prod.splits option.splits)
  have row: "ss_rows st1 n = Some r" "Repo_LoadSnapshot env None n st1 = Inr r" using Load_row [OF ld] by auto
  obtain row r' where ok: "ss_rows st1 n = Some row" "sr_Generation row = sr_Generation rec" "equal_fold (sr_Checksum rec) (sr_Checksum row)"
      "save_check env (ea_save ans) (ea_now ans) rec = Inr r'"
    using SaveSnapshot_ok [OF sv assms(8)] tf(1) by (auto simp: rec_def)
  have "ce_Unmarshal env (sr_Document rec) = Inr t" using d assms(7) by (simp add: rec_def document_laws_def)
  then obtain r2 where r2: "save_check env (ea_save ans2) (ea_now ans2) rec = Inr r2"
    using save_check_again [OF ok(4) _ tf(2)] by blast
  have "SaveSnapshot env (ea_save ans2) (ea_now ans2) rec st1 = (st1, None)"
    using SaveSnapshot_same [OF r2] ok tf(1) assms(9) by (simp add: works_def rec_def)
  moreover have "BuildDesiredSnapshot env rd (ea_rnd ans2) (ea_query ans2) n st1 = Inr t"
    using number_snapshot_again [OF num1 conjunct2 [OF num], of r] row ok assms(3-5,9) p2
    by (auto simp: BuildDesiredSnapshot_def works_def rec_def equal_fold_sym)
  ultimately show ?thesis using d row(2) assms(9) by (simp add: Repo_EnsureDesiredSnapshot_def save_and_load_def rec_def works_def)
qed

section \<open>What is stored reaches the node\<close>

text \<open>The node reads what the controller writes.\<close>

definition same_documents :: "controller_env \<Rightarrow> wire_env \<Rightarrow> bool" where
  "same_documents env wenv \<longleftrightarrow> we_go wenv = ce_go env
     \<and> (\<forall>s doc. ce_Marshal env s = Inr doc \<longrightarrow> length doc \<le> MaxControlMessageBytes \<longrightarrow> doc \<noteq> [] \<and> (\<exists>rest. we_DecodeSnapshot wenv doc = Inr (s, rest) \<and> we_skip wenv rest = Some EOF))"


text \<open>
  A service that disappears between the query for a gateway's assignments and the query for the service
  itself looks like a deleted behaviour: the error is \<^verbatim>\<open>sql.ErrNoRows\<close>, wrapped, and the refresh publishes the
  empty snapshot that retires the whole gateway.
\<close>

lemma missing_service_retires_gateway:
  assumes "rr_GetNode rd n = Inr node" "rr_GetNodeSpec rd (node_ID node) = Inr spec" "ns_Kind spec = NodeSpecGateway"
    and "rr_ListAssignments rd (node_ID node) [] = Inr [a]" "as_ServiceIDs a = [i]" "rr_GetService rd i = Inl ErrNoRows"
    and "Repo_LoadSnapshot env (ea_loadExisting ans) n st = Inr r" "ce_Unmarshal env (sr_Document r) = Inr current" "ds_Gateway current = Some g"
    and "sr_Generation r \<noteq> MaxInt64" "WithChecksum (ce_go env) ((snapshot_of n)\<lparr>ds_Generation := sr_Generation r + 1\<rparr>) = Inr cleared"
  shows "Repo_EnsureDesiredSnapshot env rd ans n st = save_and_load env ans n cleared st \<and> ds_Gateway cleared = None"
  using assms WithChecksum_fields [OF assms(11)]
  by (simp add: Repo_EnsureDesiredSnapshot_def BuildDesiredSnapshot_def gather_resources_def wrap_rows_def snapshot_of_def)

section \<open>A gateway without assignments\<close>

definition quiet_policy :: ObfuscationPolicy where
  "quiet_policy = \<lparr>ob_Mode = ''standard'', ob_KeyCiphertext = [], ob_PreviousKeyCiphertext = [], ob_KeyID = [], ob_PreviousKeyID = [],
     ob_Key = [], ob_PreviousKey = [], ob_MaxPaddingBytes = 0, ob_HandshakeShaping = False\<rparr>"

definition quiet_gateway :: GatewaySpec where
  "quiet_gateway = sample_gateway\<lparr>gw_Obfuscation := quiet_policy\<rparr>"

definition quiet_base :: DesiredSnapshot where
  "quiet_base = (snapshot_of ''gw'')\<lparr>ds_Gateway := Some quiet_gateway, ds_Generation := 1\<rparr>"

definition quiet :: DesiredSnapshot where
  "quiet = quiet_base\<lparr>ds_Checksum := (case ComputeChecksum plain_env quiet_base of Inr k \<Rightarrow> k | Inl _ \<Rightarrow> [])\<rparr>"

definition quiet_env :: controller_env where
  "quiet_env = \<lparr>ce_go = plain_env, ce_masterKey = replicate 32 1, ce_Seal = (\<lambda>k n p. replicate 16 0 @ p), ce_Open = (\<lambda>k n p. Some (drop 16 p)),
     ce_Marshal = (\<lambda>s. if s = quiet then Inr [7] else Inl (ErrStd ''json'')), ce_Unmarshal = (\<lambda>b. if b = [7] then Inr quiet else Inl (ErrStd ''json''))\<rparr>"

definition quiet_reads :: resource_reads where
  "quiet_reads = \<lparr>rr_GetNode = (\<lambda>i. Inr (sample_node i ''gateway'')),
     rr_GetNodeSpec = (\<lambda>i. Inr \<lparr>ns_NodeID = i, ns_Kind = ''gateway'', ns_Gateway = Some quiet_gateway, ns_Agent = None, ns_Revision = 1, ns_UpdatedAt = 1\<rparr>),
     rr_ListAssignments = (\<lambda>g a. Inr []), rr_ListServices = (\<lambda>a. Inr []), rr_GetService = (\<lambda>i. Inl ErrNoRows)\<rparr>"

definition quiet_save :: save_answers where
  "quiet_save = \<lparr>sva_rnd = (\<lambda>_. (Inr [], Inr [])), sva_begin = None, sva_select = None, sva_exists = None, sva_exec = None, sva_rows = None,
     sva_reselect = None, sva_mid = (\<lambda>x. x), sva_commit = (True, None)\<rparr>"

definition quiet_answers :: ensure_answers where
  "quiet_answers = \<lparr>ea_rnd = (\<lambda>_. (Inr [], Inr [])), ea_query = None, ea_loadExisting = None, ea_save = quiet_save, ea_now = 3, ea_reload = None\<rparr>"

definition quiet_store :: snapshot_store where
  "quiet_store = \<lparr>ss_rows = (\<lambda>_. None), ss_nodes = (\<lambda>_. True), ss_bus = Some newChangeBus\<rparr>"

definition quiet_record :: SnapshotRecord where
  "quiet_record = \<lparr>sr_NodeID = ''gw'', sr_Generation = 1, sr_Checksum = ds_Checksum quiet, sr_Document = [7], sr_CreatedAt = 3\<rparr>"

lemma quiet_fields: "ds_NodeID quiet = ''gw''" "ds_Generation quiet = 1" "ds_Gateway quiet = Some quiet_gateway" "ds_Assignments quiet = []"
  "ds_Agent quiet = None" "quiet\<lparr>ds_Gateway := Some quiet_gateway, ds_Assignments := []\<rparr> = quiet"
  by (simp_all add: quiet_def quiet_base_def snapshot_of_def)

lemma quiet_valid:
  "WithChecksum plain_env quiet_base = Inr quiet" "DesiredSnapshot_Validate plain_env quiet = None"
  "ComputeChecksum plain_env quiet = Inr (ds_Checksum quiet)" "ds_Checksum quiet \<noteq> []"
proof -
  have "GatewaySpec_Validate plain_env quiet_gateway = None"
  proof -
    have "validateEndpoint ''10.0.0.1:443'' = None"
      by (simp add: validateEndpoint_def sample_trims sample_hostports)
    moreover have "PortPool_Validate plain_env \<lparr>pool_TCP = [PortRange 8000 8010], pool_UDP = []\<rparr> = None"
      by (simp add: PortPool_Validate_def validate_ranges_def pool_ranges_def bad_range_def)
    moreover have "ObfuscationPolicy_Validate plain_env quiet_policy p = None" for p
      by (simp add: ObfuscationPolicy_Validate_def quiet_policy_def obf_key_check_def obf_id_check_def contains_any_def Let_def)
    ultimately show ?thesis
      by (simp add: GatewaySpec_Validate_def quiet_gateway_def sample_gateway_def sample_ids endpoint_check_def ok_check_def
          validateLabels_def listener_check_def validateListener_def sample_trims sample_hosts
          transport_checks_def containsControl_def sample_parts)
  qed
  then have v: "DesiredSnapshot_Validate plain_env quiet_base = None"
    by (simp add: DesiredSnapshot_Validate_def snapshot_header_checks_def quiet_base_def snapshot_of_def sample_ids
        CurrentControlProtocolVersion_def maxSnapshotServices_def maxSnapshotAssignments_def snapshot_services_check_def checksum_check_def)
      (simp add: quiet_gateway_def sample_gateway_def)
  have c: "\<exists>c. ComputeChecksum plain_env quiet_base = Inr c"
    by (simp add: ComputeChecksum_def ChecksumDocument_of_def Normalize_def normalize_gateway_def checksum_gateway_opt_def
        checksum_gateway_def checksumObfuscation_def quiet_base_def snapshot_of_def quiet_gateway_def quiet_policy_def)
  have n: "Normalize quiet_base = quiet_base" "quiet_base\<lparr>ds_Checksum := []\<rparr> = quiet_base"
    by (simp_all add: Normalize_def normalize_gateway_def quiet_base_def snapshot_of_def quiet_gateway_def sample_gateway_def sort_egress_def no_egress_def)
  show w: "WithChecksum plain_env quiet_base = Inr quiet" using v c n by (auto simp: WithChecksum_def quiet_def)
  from WithChecksum_facts [OF w] show "DesiredSnapshot_Validate plain_env quiet = None" "ComputeChecksum plain_env quiet = Inr (ds_Checksum quiet)" by auto
  then show "ds_Checksum quiet \<noteq> []" by (auto simp: ComputeChecksum_def plain_env_sel hex_encode_def hex_byte_def)
qed

lemma quiet_protect: "snapshot_policies (\<lambda>i. protectObfuscationPolicy quiet_env (rnd i)) t = Inr t" if "ds_Gateway t = Some quiet_gateway" "ds_Assignments t = []"
  using that by (cases t) (simp add: snapshot_policies_def gateway_policy_def protectObfuscationPolicy_def clear_keys_def quiet_gateway_def quiet_policy_def)

lemma quiet_gather: "gather_resources quiet_reads (sample_node ''gw'' ''gateway'') = Inr ((snapshot_of ''gw'')\<lparr>ds_Gateway := Some quiet_gateway\<rparr>)"
  by (simp add: gather_resources_def quiet_reads_def sample_node_def sorted_services_def snapshot_of_def)

lemma quiet_build: "BuildDesiredSnapshot quiet_env quiet_reads (ea_rnd quiet_answers) (ea_query quiet_answers) ''gw'' quiet_store = Inr quiet"
proof -
  let ?s = "(snapshot_of ''gw'')\<lparr>ds_Gateway := Some quiet_gateway\<rparr>"
  have "?s\<lparr>ds_Generation := highest_generation (ds_Assignments ?s)\<rparr> = ?s" by (simp add: highest_generation_def snapshot_of_def)
  moreover have "snapshot_policies (\<lambda>i. protectObfuscationPolicy quiet_env (ea_rnd quiet_answers i)) ?s = Inr ?s"
    by (rule quiet_protect) (simp_all add: snapshot_of_def)
  moreover have "number_snapshot quiet_env ?s (Inl ErrNoRows) = Inr quiet"
    using quiet_valid(1) by (simp add: number_snapshot_def lift_check_def snapshot_of_def quiet_env_def quiet_base_def)
  ultimately show ?thesis
    using quiet_gather by (simp add: BuildDesiredSnapshot_def quiet_reads_def Repo_LoadSnapshot_def quiet_store_def quiet_answers_def)
qed

lemma quiet_row_valid: "validateSnapshotRecord quiet_env quiet_record = None"
  using quiet_valid quiet_fields by (simp add: validateSnapshotRecord_def quiet_record_def quiet_env_def metadata_matches_def)

lemma quiet_first: "\<exists>st. Repo_EnsureDesiredSnapshot quiet_env quiet_reads quiet_answers ''gw'' quiet_store = (st, Inr quiet_record) \<and> ss_rows st ''gw'' = Some quiet_record"
proof -
  have e: "ce_Marshal quiet_env quiet = Inr [7]" "ce_Unmarshal quiet_env [7] = Inr quiet" "ce_go quiet_env = plain_env" by (simp_all add: quiet_env_def)
  have c: "save_check quiet_env quiet_save 3 (quiet_record\<lparr>sr_CreatedAt := 0\<rparr>) = Inr quiet_record"
    using quiet_protect [of quiet "sva_rnd quiet_save"] quiet_valid quiet_fields e
    by (simp add: save_check_def quiet_record_def metadata_matches_def)
  obtain st where st: "save_upsert quiet_save quiet_record quiet_store = (st, None)" "ss_rows st ''gw'' = Some quiet_record"
    by (simp add: save_upsert_def commitAndNotify_def quiet_save_def quiet_store_def quiet_record_def Let_def)
  have r: "sr_NodeID quiet_record = ''gw''" "ss_rows quiet_store ''gw'' = None" "ss_nodes quiet_store ''gw''"
    "\<lparr>sr_NodeID = ''gw'', sr_Generation = 1, sr_Checksum = ds_Checksum quiet, sr_Document = [7], sr_CreatedAt = 0\<rparr> = quiet_record\<lparr>sr_CreatedAt := 0\<rparr>"
    by (simp_all add: quiet_record_def quiet_store_def)
  have "SaveSnapshot quiet_env quiet_save 3 (quiet_record\<lparr>sr_CreatedAt := 0\<rparr>) quiet_store = (st, None)"
    using c st(1) r(1-3) by (simp add: SaveSnapshot_def) (simp add: quiet_save_def)
  then have "save_and_load quiet_env quiet_answers ''gw'' quiet quiet_store = (st, Inr quiet_record)"
    using e(1) r(4) st(2) quiet_row_valid quiet_fields(1,2) by (simp add: save_and_load_def quiet_answers_def Repo_LoadSnapshot_def)
  with quiet_build st(2) show ?thesis by (simp add: Repo_EnsureDesiredSnapshot_def)
qed

theorem ensure_idempotent_witness:
  "\<exists>st. Repo_EnsureDesiredSnapshot quiet_env quiet_reads quiet_answers ''gw'' quiet_store = (st, Inr quiet_record)
     \<and> Repo_EnsureDesiredSnapshot quiet_env quiet_reads quiet_answers ''gw'' st = (st, Inr quiet_record)"
proof -
  obtain st where st: "Repo_EnsureDesiredSnapshot quiet_env quiet_reads quiet_answers ''gw'' quiet_store = (st, Inr quiet_record)" using quiet_first by blast
  have "document_laws quiet_env" by (simp add: document_laws_def quiet_env_def)
  moreover have "commit_reported (ea_save quiet_answers)" "works quiet_answers" by (simp_all add: commit_reported_def works_def quiet_answers_def quiet_save_def)
  moreover have "keys_at_rest ((snapshot_of ''gw'')\<lparr>ds_Gateway := Some quiet_gateway\<rparr>)"
    by (simp add: keys_at_rest_def snapshot_of_def quiet_gateway_def quiet_policy_def no_plaintext_def)
  moreover have "rr_GetNode quiet_reads ''gw'' = Inr (sample_node ''gw'' ''gateway'')" "node_ID (sample_node ''gw'' ''gateway'') = ''gw''"
    by (simp_all add: quiet_reads_def sample_node_def)
  ultimately have "Repo_EnsureDesiredSnapshot quiet_env quiet_reads quiet_answers ''gw'' st = (st, Inr quiet_record)"
    by (intro ensure_idempotent [OF st quiet_build _ _ quiet_gather])
  with st show ?thesis by blast
qed

theorem snapshot_generations_advance_witness:
  "\<exists>st st'. ss_rows st ''gw'' = Some quiet_record \<and> (store_step quiet_env)\<^sup>*\<^sup>* st st'
     \<and> (\<exists>r'. ss_rows st' ''gw'' = Some r' \<and> (1 < sr_Generation r' \<or> (1 = sr_Generation r' \<and> equal_fold (sr_Checksum quiet_record) (sr_Checksum r'))))"
proof -
  obtain st :: snapshot_store where st: "ss_rows st ''gw'' = Some quiet_record" using quiet_first by blast
  let ?st = "fst (Repo_EnsureDesiredSnapshot quiet_env quiet_reads quiet_answers ''gw'' st)"
  have "store_step quiet_env st ?st" by (rule ensure) (simp add: others_advance_def quiet_answers_def quiet_save_def)
  then have "(store_step quiet_env)\<^sup>*\<^sup>* st ?st" by blast
  with snapshot_generations_advance [OF this st] st show ?thesis by (auto simp: quiet_record_def)
qed


end
