(* ===== verification/Controller_Actions.thy ===== *)
theory Controller_Actions
  imports Controller_Bus Controller_Store
begin

text \<open>
  The runtime actions of \<^verbatim>\<open>internal/controller/actions.go\<close> over the bus and the repository. The hash of a
  request, the encoding of a response, the JSON syntax check and the random identifier are parameters.
\<close>

section \<open>Tables\<close>

record action_db = store +
  ad_nodes :: "string \<Rightarrow> bool"

record action_request =
  arq_NodeID :: string
  arq_Name :: string
  arq_Payload :: string

record action_env =
  ax_requestHash :: "action_request \<Rightarrow> string result"
  ax_Marshal :: "string \<times> bool \<Rightarrow> bytes result"
  ax_Unmarshal :: "bytes \<Rightarrow> (string \<times> bool) result"
  ax_ValidJSON :: "string \<Rightarrow> bool"

section \<open>Actions\<close>

definition validateRuntimeAction :: "string \<Rightarrow> check" where
  "validateRuntimeAction name =
     (if name \<notin> {''drain'', ''reconnect'', ''resync'', ''decommission'', ''runtime_connection'', ''clear_runtime_controls'', ''node_upgrade''}
      then Some (ErrNew ''runtime action name is unsupported'') else None)"

definition action_checks :: "string \<Rightarrow> string \<Rightarrow> string \<Rightarrow> check" where
  "action_checks nodeID name payload =
     and_then (ValidateID nodeID ''node_id'')
     (and_then (validateRuntimeAction name)
     (if length payload > 1048576 \<or> CHR 0x00 \<in> set payload then Some (ErrNew ''runtime action payload is too large'') else None))"

definition string_bytes :: "string \<Rightarrow> bytes" where
  "string_bytes s = map (\<lambda>c. word_of_nat (of_char c)) s"

type_synonym action_world = "action_db \<times> ChangeBus option"

definition publish_on :: "string \<Rightarrow> RuntimeAction \<Rightarrow> ChangeBus option \<Rightarrow> ChangeBus option \<times> bool" where
  "publish_on nodeID action bus =
     (case Option.bind bus (publishAction nodeID action) of None \<Rightarrow> (None, False) | Some (b, delivered) \<Rightarrow> (Some b, delivered))"

definition PublishAction :: "check \<Rightarrow> string result \<Rightarrow> string \<Rightarrow> string \<Rightarrow> string \<Rightarrow> ChangeBus option \<Rightarrow> ChangeBus option \<times> bool result" where
  "PublishAction cancelled rnd nodeID0 name0 payload bus =
     (let nodeID = trim_space nodeID0; name = trim_space name0 in
      case cancelled of Some e \<Rightarrow> (bus, Inl e) | None \<Rightarrow>
      case action_checks nodeID name payload of Some e \<Rightarrow> (bus, Inl e) | None \<Rightarrow>
      case rnd of Inl e \<Rightarrow> (bus, Inl e) | Inr i \<Rightarrow>
        (case publish_on nodeID \<lparr>ract_ID = i, ract_Name = name, ract_Payload = string_bytes payload\<rparr> bus of (b, d) \<Rightarrow> (b, Inr d)))"

text \<open>The value of the transaction says, beside identifier and delivery hint, whether the action is new.\<close>

definition replay_response :: "action_env \<Rightarrow> faults \<Rightarrow> string \<Rightarrow> action_db \<Rightarrow> (action_db option \<times> string \<times> bool \<times> bool) result" where
  "replay_response env err key tx =
     bind_result (stored_response err key (ax_Unmarshal env) tx) (\<lambda>(i, d). Inr (Some tx, i, d, False))"

definition action_tx ::
  "action_env \<Rightarrow> faults \<Rightarrow> action_request \<Rightarrow> WriteOptions \<Rightarrow> string \<Rightarrow> bool \<Rightarrow> action_db \<Rightarrow> (action_db \<times> bytes result \<times> string \<times> bool \<times> bool) result" where
  "action_tx env err request options actionID hint tx =
     check_then (err ''select node'')
     (if \<not> ad_nodes tx (arq_NodeID request) then Inl sql_ErrNoRows
      else bind_result (insertAudit err (wo_Actor options) (''action:'' @ arq_Name request) ''node'' (arq_NodeID request) 0 [(''action_id'', actionID)] tx) (\<lambda>tx1.
        Inr (tx1, ax_Marshal env (actionID, hint), actionID, hint, True)))"

definition RequestNodeActionWithID ::
  "action_env \<Rightarrow> string result \<Rightarrow> tx_answers \<Rightarrow> string \<Rightarrow> string \<Rightarrow> string \<Rightarrow> WriteOptions \<Rightarrow> action_world \<Rightarrow> action_world \<times> (string \<times> bool) result" where
  "RequestNodeActionWithID env rnd ans nodeID0 name0 payload options w =
     (case w of (db, bus) \<Rightarrow>
      let nodeID = trim_space nodeID0; name = trim_space name0; key = wo_IdempotencyKey options;
          request = \<lparr>arq_NodeID = nodeID, arq_Name = name, arq_Payload = payload\<rparr>;
          hint = (case bus of None \<Rightarrow> False | Some b \<Rightarrow> actionCanDeliver nodeID b) in
      case action_checks nodeID name payload of Some e \<Rightarrow> (w, Inl e) | None \<Rightarrow>
      if payload \<noteq> [] \<and> \<not> ax_ValidJSON env payload then (w, Inl (ErrNew ''runtime action payload must be valid JSON''))
      else case rnd of Inl e \<Rightarrow> (w, Inl e) | Inr actionID \<Rightarrow>
        (case run_write id id ans (keyed_tx (tx_err ans) key (ax_requestHash env request)
             (replay_response env (tx_err ans) key) (action_tx env (tx_err ans) request options actionID hint)) db of
           (db', Inl e) \<Rightarrow> ((db', bus), Inl e)
         | (db', Inr (i, d, new)) \<Rightarrow>
             if \<not> new then ((db', bus), Inr (i, d))
             else (case publish_on nodeID \<lparr>ract_ID = actionID, ract_Name = name, ract_Payload = string_bytes payload\<rparr> bus of
                 (bus', delivered) \<Rightarrow> ((db', bus'), Inr (actionID, if trim_space key \<noteq> [] then hint else delivered)))))"

definition RequestNodeAction ::
  "action_env \<Rightarrow> string result \<Rightarrow> tx_answers \<Rightarrow> string \<Rightarrow> string \<Rightarrow> string \<Rightarrow> WriteOptions \<Rightarrow> action_world \<Rightarrow> action_world \<times> bool result" where
  "RequestNodeAction env rnd ans nodeID name payload options w =
     (case RequestNodeActionWithID env rnd ans nodeID name payload options w of
        (w', Inl e) \<Rightarrow> (w', Inl e) | (w', Inr (i, d)) \<Rightarrow> (w', Inr d))"

section \<open>A retry is silent, and nothing is sent before it is audited\<close>

definition response_laws :: "action_env \<Rightarrow> bool" where
  "response_laws env \<longleftrightarrow> (\<forall>r doc. ax_Marshal env r = Inr doc \<longrightarrow> ax_Unmarshal env doc = Inr r)"

definition no_errors :: "tx_answers \<Rightarrow> bool" where
  "no_errors ans \<longleftrightarrow> (\<forall>s. tx_err ans s = None) \<and> tx_commit ans = (True, None)"

abbreviation the_request :: "string \<Rightarrow> string \<Rightarrow> string \<Rightarrow> action_request" where
  "the_request n name p \<equiv> \<lparr>arq_NodeID = trim_space n, arq_Name = trim_space name, arq_Payload = p\<rparr>"

abbreviation the_hint :: "string \<Rightarrow> ChangeBus option \<Rightarrow> bool" where
  "the_hint n bus \<equiv> (case bus of None \<Rightarrow> False | Some b \<Rightarrow> actionCanDeliver (trim_space n) b)"

abbreviation the_body :: "action_env \<Rightarrow> tx_answers \<Rightarrow> string \<Rightarrow> string \<Rightarrow> string \<Rightarrow> WriteOptions \<Rightarrow> string \<Rightarrow> bool \<Rightarrow> action_db \<Rightarrow>
    (action_db option \<times> string \<times> bool \<times> bool) result" where
  "the_body env ans n name p o' i hint \<equiv> keyed_tx (tx_err ans) (wo_IdempotencyKey o') (ax_requestHash env (the_request n name p))
     (replay_response env (tx_err ans) (wo_IdempotencyKey o')) (action_tx env (tx_err ans) (the_request n name p) o' i hint)"

text \<open>A request that succeeds, or that changes the bus, has passed the checks and run its transaction.\<close>

lemma request_runs:
  assumes "RequestNodeActionWithID env rnd ans n name p o' (db, bus) = ((db1, bus1), r)" "bus1 \<noteq> bus \<or> \<not> isl r"
  obtains actionID j hint new where "action_checks (trim_space n) (trim_space name) p = None" "p = [] \<or> ax_ValidJSON env p" "rnd = Inr actionID"
    "run_write id id ans (the_body env ans n name p o' actionID (the_hint n bus)) db = (db1, Inr (j, hint, new))"
    "\<not> new \<Longrightarrow> bus1 = bus \<and> r = Inr (j, hint)"
    "new \<Longrightarrow> bus1 = fst (publish_on (trim_space n) \<lparr>ract_ID = actionID, ract_Name = trim_space name, ract_Payload = string_bytes p\<rparr> bus)"
    "new \<Longrightarrow> trim_space (wo_IdempotencyKey o') \<noteq> [] \<Longrightarrow> r = Inr (actionID, the_hint n bus)"
    "new \<Longrightarrow> \<exists>x. r = Inr (actionID, x)"
proof -
  note unf = assms(1) [unfolded RequestNodeActionWithID_def Let_def prod.case]
  have c: "action_checks (trim_space n) (trim_space name) p = None" using unf assms(2) by (cases "action_checks (trim_space n) (trim_space name) p") auto
  have j: "p = [] \<or> ax_ValidJSON env p" using unf assms(2) c by (cases "p = [] \<or> ax_ValidJSON env p") auto
  have g: "(p \<noteq> [] \<and> \<not> ax_ValidJSON env p) = False" using j by blast
  obtain actionID where a: "rnd = Inr actionID" using unf assms(2) c j by (cases rnd) auto
  obtain db' res where w: "run_write id id ans (the_body env ans n name p o' actionID (the_hint n bus)) db = (db', res)" by fastforce
  obtain k hint new where res: "res = Inr (k, hint, new)" using unf assms(2) c j a w by (cases res) auto
  obtain b' dv where pb: "publish_on (trim_space n) \<lparr>ract_ID = actionID, ract_Name = trim_space name, ract_Payload = string_bytes p\<rparr> bus = (b', dv)" by fastforce
  have s: "(if \<not> new then ((db', bus), Inr (k, hint))
      else ((db', b'), Inr (actionID, if trim_space (wo_IdempotencyKey o') \<noteq> [] then the_hint n bus else dv))) = ((db1, bus1), r)"
    using unf by (simp only: c a g w res pb option.case sum.case prod.case if_False)
  show ?thesis by (rule that [OF c j a, of k hint new]) (use s w res pb in \<open>auto split: if_splits\<close>)
qed

lemma action_tx_Inr:
  assumes "action_tx env err request o' i hint tx = Inr (tx1, response, v)"
  shows "response = ax_Marshal env (i, hint)" "v = (i, hint, True)"
    and "\<exists>row. st_audit tx1 = st_audit tx @ [row] \<and> au_ResourceID row = arq_NodeID request \<and> au_Action row = ''action:'' @ arq_Name request
      \<and> au_Attributes row = [(''action_id'', i)]"
  using assms by (auto simp: action_tx_def split: if_splits)

lemma same_but_keys_audit: "same_but_keys a b \<Longrightarrow> st_audit b = st_audit a"
  by (auto simp: same_but_keys_def)

text \<open>What a successful request leaves in the tables.\<close>

lemma request_stores:
  assumes "the_body env ans n name p o' i hint db = Inr (Some tx, j, d, new)" "trim_space (wo_IdempotencyKey o') \<noteq> []" "response_laws env"
  shows "validateIdempotencyKey (trim_space (wo_IdempotencyKey o')) = None \<and> (\<exists>h doc. ax_requestHash env (the_request n name p) = Inr h
     \<and> map_of (st_keys tx) (trim_space (wo_IdempotencyKey o')) = Some (h, doc) \<and> ax_Unmarshal env doc = Inr (j, d))"
  using assms(1)
proof (cases rule: keyed_tx_cases)
  case replayed
  obtain h doc where k: "ax_requestHash env (the_request n name p) = Inr h" "map_of (st_keys db) (trim_space (wo_IdempotencyKey o')) = Some (h, doc)"
    using hit_keeps(4) [OF replayed(1) assms(2)] by blast
  then have "ax_Unmarshal env doc = Inr (j, d)" "tx = db" using replayed(2) by (auto simp: replay_response_def stored_response_def)
  then show ?thesis using k hit_keeps(3) [OF replayed(1)] by blast
next
  case (fresh tx0 tx1 response tx2)
  have "response = ax_Marshal env (i, hint)" "(j, d) = (i, hint)" using action_tx_Inr(1,2) [OF fresh(2)] by auto
  then show ?thesis using hit_keeps(3) [OF fresh(1)] record_keeps(2) [OF fresh(3) assms(2)] fresh(4) assms(3)
    by (auto simp: response_laws_def)
qed

lemma body_value:
  assumes "the_body env ans n name p o' i hint db = Inr (ntx, j, d, new)"
  shows "ntx \<noteq> None" "new \<Longrightarrow> j = i \<and> d = hint"
  using assms by (cases rule: keyed_tx_cases; auto simp: replay_response_def dest: action_tx_Inr(2))+

definition demo_action_env :: action_env where
  "demo_action_env = \<lparr>ax_requestHash = (\<lambda>_. Inr ''h''),
     ax_Marshal = (\<lambda>r. if r = (''a1'', True) then Inr [1] else Inl (ErrNew ''unsupported'')),
     ax_Unmarshal = (\<lambda>d. if d = [1] then Inr (''a1'', True) else Inl (ErrNew ''syntax'')), ax_ValidJSON = (\<lambda>_. True)\<rparr>"

definition demo_answers :: tx_answers where
  "demo_answers = \<lparr>tx_err = (\<lambda>_. None), tx_commit = (True, None)\<rparr>"

definition demo_options :: "string \<Rightarrow> WriteOptions" where
  "demo_options key = \<lparr>wo_IfMatch = 0, wo_IdempotencyKey = key, wo_Actor = ''admin''\<rparr>"

definition demo_db :: action_db where
  "demo_db = \<lparr>st_keys = [], st_audit = [], ad_nodes = (\<lambda>n. n = ''n1'')\<rparr>"

definition demo_bus :: ChangeBus where
  "demo_bus = fst (SubscribeActions ''n1'' newChangeBus)"

lemmas demo_request_simps = demo_action_env_def demo_answers_def demo_options_def demo_db_def demo_bus_def

lemma first_request:
  "\<exists>db1 bus1. RequestNodeActionWithID demo_action_env (Inr ''a1'') demo_answers ''n1'' ''drain'' [] (demo_options ''k1'') (demo_db, Some demo_bus) = ((db1, bus1), Inr (''a1'', True))
     \<and> bus1 \<noteq> Some demo_bus"
proof -
  have t: "trim_space ''n1'' = ''n1''" "trim_space ''drain'' = ''drain''" "trim_space ''k1'' = ''k1''" by (simp_all add: trim_space_graphic char_class_defs)
  have "ValidateID ''n1'' p = None" for p by (simp add: ValidateID_def t id_char_def id_punct_def char_class_defs)
  then have c: "action_checks ''n1'' ''drain'' [] = None" by (simp add: action_checks_def validateRuntimeAction_def)
  have k: "validateIdempotencyKey ''k1'' = None" by (simp add: validateIdempotencyKey_def contains_any_def)
  note bus_simps = demo_bus_def SubscribeActions_def newChangeBus_def hub_subscribe_def empty_hub_def t subs_of_def make_channel_def
  have d: "actionCanDeliver ''n1'' demo_bus" by (simp add: actionCanDeliver_def hub_room_def bus_simps)
  let ?act = "\<lparr>ract_ID = ''a1'', ract_Name = ''drain'', ract_Payload = string_bytes []\<rparr>"
  let ?waiting = "map_option (\<lambda>b. map_option ch_buf (hb_chan (cb_actions b) 1))"
  have "?waiting (fst (publish_on ''n1'' ?act (Some demo_bus))) = Some (Some [?act])" "?waiting (Some demo_bus) = Some (Some [])"
    by (simp_all add: publish_on_def publishAction_def hub_send_def on_channel_def try_send_def bus_simps)
  then have "fst (publish_on ''n1'' ?act (Some demo_bus)) \<noteq> Some demo_bus" by fastforce
  then obtain b e where b: "publish_on ''n1'' ?act (Some demo_bus) = (b, e)" "b \<noteq> Some demo_bus" by (cases "publish_on ''n1'' ?act (Some demo_bus)") auto
  have e: "tx_err demo_answers s = None" "tx_commit demo_answers = (True, None)" "wo_IdempotencyKey (demo_options ''k1'') = ''k1''" for s
    by (simp_all add: demo_options_def demo_answers_def)
  obtain tx2 where a: "the_body demo_action_env demo_answers ''n1'' ''drain'' [] (demo_options ''k1'') ''a1'' True demo_db = Inr (Some tx2, ''a1'', True, True)"
    using t k by (auto simp: keyed_tx_def idempotencyHit_def action_tx_def recordIdempotency_def e demo_action_env_def demo_db_def Let_def)
  have w: "run_write id id demo_answers (the_body demo_action_env demo_answers ''n1'' ''drain'' [] (demo_options ''k1'') ''a1'' True) demo_db = (tx2, Inr (''a1'', True, True))"
    using a e by (intro run_write_good(1))
  show ?thesis using t c d b w e(3) by (simp add: RequestNodeActionWithID_def Let_def)
qed



text \<open>
  Nothing is sent before it is audited: a request that changes what waits on the streams has committed
  an audit row for exactly that node, action and identifier, and has not failed.
\<close>

theorem action_published_audited:
  assumes "RequestNodeActionWithID env rnd ans n name p o' (db, bus) = ((db1, bus1), r)" "bus1 \<noteq> bus" "commit_told ans"
  shows "\<exists>i row. st_audit db1 = st_audit db @ [row] \<and> au_ResourceID row = trim_space n \<and> au_Action row = ''action:'' @ trim_space name
    \<and> au_Attributes row = [(''action_id'', i)] \<and> bus1 = fst (publish_on (trim_space n) \<lparr>ract_ID = i, ract_Name = trim_space name, ract_Payload = string_bytes p\<rparr> bus)"
proof -
  obtain actionID j hint new where w: "run_write id id ans (the_body env ans n name p o' actionID (the_hint n bus)) db = (db1, Inr (j, hint, new))"
    and new: "\<not> new \<Longrightarrow> bus1 = bus"
      "new \<Longrightarrow> bus1 = fst (publish_on (trim_space n) \<lparr>ract_ID = actionID, ract_Name = trim_space name, ract_Payload = string_bytes p\<rparr> bus)"
    by (rule request_runs [OF assms(1)]) (use assms(2) in auto)
  have body: "the_body env ans n name p o' actionID (the_hint n bus) db = Inr (Some db1, j, hint, True)"
    using w assms(3) by (rule run_write_success) (use new(1) assms(2) in \<open>auto dest: body_value(1)\<close>)
  then show ?thesis
  proof (cases rule: keyed_tx_cases)
    case (fresh tx tx1 response tx2)
    then show ?thesis using action_tx_Inr(3) [OF fresh(2)] same_but_keys_audit [OF hit_keeps(1) [OF fresh(1)]]
      same_but_keys_audit [OF record_keeps(1) [OF fresh(3)]] new assms(2) by auto
  qed (auto simp: replay_response_def)
qed

theorem action_published_audited_witness:
  "\<exists>db1 bus1 r. RequestNodeActionWithID demo_action_env (Inr ''a1'') demo_answers ''n1'' ''drain'' [] (demo_options ''k1'') (demo_db, Some demo_bus) = ((db1, bus1), r)
     \<and> bus1 \<noteq> Some demo_bus \<and> length (st_audit db1) = 1"
proof -
  obtain db1 bus1 r where r: "RequestNodeActionWithID demo_action_env (Inr ''a1'') demo_answers ''n1'' ''drain'' [] (demo_options ''k1'') (demo_db, Some demo_bus) = ((db1, bus1), r)"
    and n: "bus1 \<noteq> Some demo_bus" using first_request by blast
  have "commit_told demo_answers" by (simp add: commit_told_def demo_answers_def)
  from action_published_audited [OF r n this] have "length (st_audit db1) = 1" by (auto simp: demo_db_def)
  with r n show ?thesis by blast
qed

end
