(* ===== verification/Go_Heap.thy ===== *)
theory Go_Heap
  imports Prelude
begin

text \<open>
  \<^verbatim>\<open>container/heap\<close> of the Go library on a slice: a binary heap in an array, ordered by a key.
  The interface is the locale \<open>pqueue\<close>, the multiset view of a priority queue; the array
  operations interpret it.
\<close>

section \<open>The array operations\<close>

definition Swap :: "'a list \<Rightarrow> nat \<Rightarrow> nat \<Rightarrow> 'a list" where
  "Swap xs i j = xs[i := xs ! j, j := xs ! i]"

function heap_up :: "('a \<Rightarrow> 'k::linorder) \<Rightarrow> 'a list \<Rightarrow> nat \<Rightarrow> 'a list" where
  "heap_up f xs j =
     (let i = (j - 1) div 2
      in if i = j \<or> \<not> f (xs ! j) < f (xs ! i) then xs else heap_up f (Swap xs i j) i)"
  by pat_completeness auto
termination
  by (relation "measure (\<lambda>(f, xs, j). j)") auto

definition smaller_child :: "('a \<Rightarrow> 'k::linorder) \<Rightarrow> 'a list \<Rightarrow> nat \<Rightarrow> nat \<Rightarrow> nat" where
  "smaller_child f xs i n =
     (let j1 = 2 * i + 1 in if j1 + 1 < n \<and> f (xs ! (j1 + 1)) < f (xs ! j1) then j1 + 1 else j1)"

function heap_down :: "('a \<Rightarrow> 'k::linorder) \<Rightarrow> 'a list \<Rightarrow> nat \<Rightarrow> nat \<Rightarrow> 'a list" where
  "heap_down f xs i n =
     (if 2 * i + 1 \<ge> n then xs
      else let j = smaller_child f xs i n
        in if \<not> f (xs ! j) < f (xs ! i) then xs else heap_down f (Swap xs i j) j n)"
  by pat_completeness auto
termination
  by (relation "measure (\<lambda>(f, xs, i, n). n - i)") (auto simp: smaller_child_def Let_def)

declare heap_up.simps [simp del] heap_down.simps [simp del]

definition heap_push :: "('a \<Rightarrow> 'k::linorder) \<Rightarrow> 'a \<Rightarrow> 'a list \<Rightarrow> 'a list" where
  "heap_push f x xs = heap_up f (xs @ [x]) (length xs)"

text \<open>\<^verbatim>\<open>Pop\<close> moves the root to the end, repairs the rest and removes the last element.\<close>

definition heap_pop :: "('a \<Rightarrow> 'k::linorder) \<Rightarrow> 'a list \<Rightarrow> 'a \<times> 'a list" where
  "heap_pop f xs =
     (let n = length xs - 1; ys = heap_down f (Swap xs 0 n) 0 n in (ys ! n, take n ys))"

section \<open>The multiset is kept\<close>

lemma length_Swap [simp]: "length (Swap xs i j) = length xs"
  by (simp add: Swap_def)

lemma nth_Swap:
  assumes "i < length xs" "j < length xs"
  shows "Swap xs i j ! k = (if k = i then xs ! j else if k = j then xs ! i else xs ! k)"
  using assms by (auto simp: Swap_def nth_list_update)

lemma mset_Swap [simp]: "i < length xs \<Longrightarrow> j < length xs \<Longrightarrow> mset (Swap xs i j) = mset xs"
  by (simp add: Swap_def mset_swap)

lemma smaller_child_bounds:
  assumes "2 * i + 1 < n"
  shows "smaller_child f xs i n < n" "i < smaller_child f xs i n"
    "smaller_child f xs i n \<in> {2 * i + 1, 2 * i + 2}"
  using assms by (auto simp: smaller_child_def Let_def)

lemma heap_up_mset [simp]: "j < length xs \<Longrightarrow> mset (heap_up f xs j) = mset xs"
proof (induction f xs j rule: heap_up.induct)
  case (1 f xs j)
  have "(j - 1) div 2 < length xs" using 1 by auto
  with 1 show ?case by (subst heap_up.simps) (auto simp: Let_def)
qed

lemma heap_up_length [simp]: "j < length xs \<Longrightarrow> length (heap_up f xs j) = length xs"
  by (rule mset_eq_length) simp

lemma heap_down_mset: "n \<le> length xs \<Longrightarrow> mset (heap_down f xs i n) = mset xs"
proof (induction f xs i n rule: heap_down.induct)
  case (1 f xs i n)
  show ?case
  proof (cases "2 * i + 1 \<ge> n")
    case False
    then have "smaller_child f xs i n < length xs" "i < length xs"
      using 1 smaller_child_bounds [of i n f xs] by auto
    with 1 False show ?thesis by (subst heap_down.simps) (auto simp: Let_def)
  qed (subst heap_down.simps, simp)
qed

lemma heap_down_length [simp]: "n \<le> length xs \<Longrightarrow> length (heap_down f xs i n) = length xs"
  by (rule mset_eq_length) (rule heap_down_mset)

text \<open>Positions from \<open>n\<close> on are not touched.\<close>

lemma heap_down_rest: "n \<le> length xs \<Longrightarrow> n \<le> k \<Longrightarrow> heap_down f xs i n ! k = xs ! k"
proof (induction f xs i n rule: heap_down.induct)
  case (1 f xs i n)
  show ?case
  proof (cases "2 * i + 1 \<ge> n")
    case False
    then have "smaller_child f xs i n < n" "i < n"
      using smaller_child_bounds [of i n f xs] by auto
    with 1 False show ?thesis
      by (subst heap_down.simps) (auto simp: Let_def nth_Swap)
  qed (subst heap_down.simps, simp)
qed

section \<open>The heap order is restored\<close>

definition parent :: "nat \<Rightarrow> nat" where "parent i = (i - 1) div 2"

definition heap_order :: "('a \<Rightarrow> 'k::linorder) \<Rightarrow> 'a list \<Rightarrow> nat \<Rightarrow> bool" where
  "heap_order f xs n \<longleftrightarrow> (\<forall>i. 0 < i \<and> i < n \<longrightarrow> f (xs ! parent i) \<le> f (xs ! i))"

text \<open>The order holds except between \<open>j\<close> and its parent, and jumping over \<open>j\<close> is fine.\<close>

definition order_above :: "('a \<Rightarrow> 'k::linorder) \<Rightarrow> 'a list \<Rightarrow> nat \<Rightarrow> nat \<Rightarrow> bool" where
  "order_above f xs n j \<longleftrightarrow>
     (\<forall>i. 0 < i \<and> i < n \<and> i \<noteq> j \<longrightarrow> f (xs ! parent i) \<le> f (xs ! i))
     \<and> (\<forall>i. 0 < i \<and> i < n \<and> parent i = j \<and> 0 < j \<longrightarrow> f (xs ! parent j) \<le> f (xs ! i))"

text \<open>The order holds except between \<open>j\<close> and its children, and jumping over \<open>j\<close> is fine.\<close>

definition order_below :: "('a \<Rightarrow> 'k::linorder) \<Rightarrow> 'a list \<Rightarrow> nat \<Rightarrow> nat \<Rightarrow> bool" where
  "order_below f xs n j \<longleftrightarrow>
     (\<forall>i. 0 < i \<and> i < n \<and> parent i \<noteq> j \<longrightarrow> f (xs ! parent i) \<le> f (xs ! i))
     \<and> (\<forall>i. 0 < i \<and> i < n \<and> parent i = j \<and> 0 < j \<longrightarrow> f (xs ! parent j) \<le> f (xs ! i))"

lemma parent_less: "0 < i \<Longrightarrow> parent i < i"
  by (simp add: parent_def)

lemma parent_cases: "0 < i \<Longrightarrow> parent i = j \<longleftrightarrow> i = 2 * j + 1 \<or> i = 2 * j + 2"
  by (auto simp: parent_def)

lemma heap_up_order:
  assumes "j < length xs" "order_above f xs (length xs) j"
  shows "heap_order f (heap_up f xs j) (length xs)"
  using assms
proof (induction f xs j rule: heap_up.induct)
  case (1 f xs j)
  define p where "p = parent j"
  show ?case
  proof (cases "p = j \<or> \<not> f (xs ! j) < f (xs ! p)")
    case True
    then have "f (xs ! parent j) \<le> f (xs ! j)" by (auto simp: p_def)
    then have "heap_order f xs (length xs)"
      using 1(3) by (auto simp: heap_order_def order_above_def)
    with True show ?thesis by (subst heap_up.simps) (simp add: Let_def p_def parent_def)
  next
    case False
    then have "0 < j" by (auto simp: p_def parent_def)
    then have lt: "p < j" "p < length xs" using 1(2) parent_less [of j] by (auto simp: p_def)
    have sw: "Swap xs p j ! k = (if k = p then xs ! j else if k = j then xs ! p else xs ! k)" for k
      using lt 1(2) by (simp add: nth_Swap)
    have "order_above f (Swap xs p j) (length xs) p"
      unfolding order_above_def
    proof (intro conjI allI impI)
      fix i
      assume i: "0 < i \<and> i < length xs \<and> i \<noteq> p"
      have kids: "parent k = j \<Longrightarrow> 0 < k \<Longrightarrow> k < length xs \<Longrightarrow> f (xs ! p) \<le> f (xs ! k)" for k
        using 1(3) \<open>0 < j\<close> by (auto simp: order_above_def p_def)
      have others: "0 < k \<Longrightarrow> k < length xs \<Longrightarrow> k \<noteq> j \<Longrightarrow> f (xs ! parent k) \<le> f (xs ! k)" for k
        using 1(3) by (auto simp: order_above_def)
      show "f (Swap xs p j ! parent i) \<le> f (Swap xs p j ! i)"
      proof (cases "i = j")
        case True
        then show ?thesis using False lt by (simp add: sw p_def [symmetric])
      next
        case ij: False
        show ?thesis
        proof (cases "parent i = p")
          case True
          then have "f (xs ! p) \<le> f (xs ! i)" using others [of i] i ij by auto
          with False True i ij show ?thesis by (auto simp: sw)
        next
          case ip: False
          then show ?thesis using kids [of i] others [of i] i ij by (auto simp: sw)
        qed
      qed
    next
      fix i
      assume i: "0 < i \<and> i < length xs \<and> parent i = p \<and> 0 < p"
      have pp: "parent p < p" "f (xs ! parent p) \<le> f (xs ! p)"
        using i lt 1(3) parent_less [of p] by (auto simp: order_above_def)
      have pi: "i \<noteq> j \<Longrightarrow> f (xs ! p) \<le> f (xs ! i)" using 1(3) i by (auto simp: order_above_def)
      have "i \<noteq> p" using i parent_less [of i] by auto
      then show "f (Swap xs p j ! parent p) \<le> f (Swap xs p j ! i)"
        using pp pi lt by (auto simp: sw)
    qed
    with 1(1) [of p] False lt show ?thesis
      by (subst heap_up.simps) (simp add: Let_def p_def parent_def)
  qed
qed

lemma order_belowD:
  assumes "order_below f xs n j"
  shows "0 < i \<Longrightarrow> i < n \<Longrightarrow> parent i \<noteq> j \<Longrightarrow> f (xs ! parent i) \<le> f (xs ! i)"
    and "0 < i \<Longrightarrow> i < n \<Longrightarrow> parent i = j \<Longrightarrow> 0 < j \<Longrightarrow> f (xs ! parent j) \<le> f (xs ! i)"
  using assms by (auto simp: order_below_def)

lemma smaller_child_le:
  assumes "0 < k" "k < n" "parent k = i"
  shows "f (xs ! smaller_child f xs i n) \<le> f (xs ! k)"
  using assms parent_cases [of k i] by (auto simp: smaller_child_def Let_def)

lemma order_below_Swap:
  assumes n: "n \<le> length xs" and kid: "2 * i + 1 < n" and j: "j = smaller_child f xs i n"
    and lt: "f (xs ! j) < f (xs ! i)" and ord: "order_below f xs n i"
  shows "order_below f (Swap xs i j) n j"
proof -
  have b: "j < n" "i < j" "parent j = i" using smaller_child_bounds [OF kid, of f xs] j
    by (auto simp: parent_def)
  have sw: "Swap xs i j ! k = (if k = i then xs ! j else if k = j then xs ! i else xs ! k)" for k
    using b n by (simp add: nth_Swap)
  show ?thesis
    unfolding order_below_def
  proof (intro conjI allI impI)
    fix k assume k: "0 < k \<and> k < n \<and> parent k \<noteq> j"
    consider "k = j" | "k = i" | "k \<noteq> i" "k \<noteq> j" "parent k = i" | "k \<noteq> i" "k \<noteq> j" "parent k \<noteq> i"
      by blast
    then show "f (Swap xs i j ! parent k) \<le> f (Swap xs i j ! k)"
    proof cases
      case 1
      with b lt show ?thesis by (simp add: sw)
    next
      case 2
      then have "parent k < i" using k parent_less [of k] by auto
      with 2 b k order_belowD(2) [OF ord, of j] show ?thesis by (auto simp: sw)
    next
      case 3
      then have "f (xs ! j) \<le> f (xs ! k)" using smaller_child_le [of k n i f xs] j k by simp
      with 3 show ?thesis by (simp add: sw)
    next
      case 4
      with order_belowD(1) [OF ord, of k] k show ?thesis by (auto simp: sw)
    qed
  next
    fix k assume k: "0 < k \<and> k < n \<and> parent k = j \<and> 0 < j"
    then have "k \<noteq> i" "k \<noteq> j" using b parent_less [of k] by auto
    with order_belowD(1) [OF ord, of k] k b show "f (Swap xs i j ! parent j) \<le> f (Swap xs i j ! k)"
      by (auto simp: sw)
  qed
qed

lemma heap_down_order:
  "n \<le> length xs \<Longrightarrow> order_below f xs n i \<Longrightarrow> heap_order f (heap_down f xs i n) n"
proof (induction f xs i n rule: heap_down.induct)
  case (1 f xs i n)
  let ?j = "smaller_child f xs i n"
  consider "n \<le> 2 * i + 1" | "2 * i + 1 < n" "\<not> f (xs ! ?j) < f (xs ! i)" | "2 * i + 1 < n" "f (xs ! ?j) < f (xs ! i)"
    by linarith
  then show ?case
  proof cases
    case 1
    then have "parent k \<noteq> i" if "0 < k" "k < n" for k using that parent_cases [of k i] by auto
    with 1 "1.prems" show ?thesis by (subst heap_down.simps) (auto simp: heap_order_def order_below_def)
  next
    case 2
    have "f (xs ! parent k) \<le> f (xs ! k)" if "0 < k" "k < n" for k
      using 2 smaller_child_le [of k n i f xs] order_belowD(1) [OF "1.prems"(2), of k] that
      by (cases "parent k = i") auto
    with 2 show ?thesis by (subst heap_down.simps) (auto simp: Let_def heap_order_def)
  next
    case 3
    with "1.prems" "1.IH" order_below_Swap [of n xs i ?j f] show ?thesis
      by (subst heap_down.simps) (auto simp: Let_def)
  qed
qed

lemma heap_order_root: "heap_order f xs n \<Longrightarrow> i < n \<Longrightarrow> f (xs ! 0) \<le> f (xs ! i)"
proof (induction i rule: less_induct)
  case (less i)
  show ?case
  proof (cases "i = 0")
    case False
    then have "f (xs ! 0) \<le> f (xs ! parent i)" using less parent_less [of i] by simp
    also have "\<dots> \<le> f (xs ! i)" using less.prems False by (simp add: heap_order_def)
    finally show ?thesis .
  qed simp
qed

section \<open>The interface\<close>

text \<open>
  A priority queue with a key: the client sees a multiset from which the least element can be
  read and removed.
\<close>

locale pqueue =
  fixes key :: "'a \<Rightarrow> 'k::linorder" and ok :: "'q \<Rightarrow> bool" and content :: "'q \<Rightarrow> 'a multiset"
    and push :: "'a \<Rightarrow> 'q \<Rightarrow> 'q" and pop :: "'q \<Rightarrow> 'a \<times> 'q" and top :: "'q \<Rightarrow> 'a"
  assumes push_ok: "ok q \<Longrightarrow> ok (push x q)"
    and push_content: "ok q \<Longrightarrow> content (push x q) = add_mset x (content q)"
    and pop_ok: "ok q \<Longrightarrow> content q \<noteq> {#} \<Longrightarrow> ok (snd (pop q))"
    and pop_content: "ok q \<Longrightarrow> content q \<noteq> {#} \<Longrightarrow> content q = add_mset (fst (pop q)) (content (snd (pop q)))"
    and pop_top: "ok q \<Longrightarrow> content q \<noteq> {#} \<Longrightarrow> fst (pop q) = top q"
    and top_least: "ok q \<Longrightarrow> x \<in># content q \<Longrightarrow> key (top q) \<le> key x"
begin

lemma pop_least: "ok q \<Longrightarrow> x \<in># content q \<Longrightarrow> key (fst (pop q)) \<le> key x"
  using pop_top top_least by fastforce

lemma pop_size: "ok q \<Longrightarrow> content q \<noteq> {#} \<Longrightarrow> size (content q) = Suc (size (content (snd (pop q))))"
  using pop_content by (metis size_add_mset)

text \<open>Once the least element passes an upward closed test, every element does.\<close>

lemma top_bound:
  assumes "ok q" "x \<in># content q" "P (key (top q))" "\<And>a b. a \<le> b \<Longrightarrow> P a \<Longrightarrow> P b"
  shows "P (key x)"
  using assms(4) [OF top_least [OF assms(1,2)]] assms(3) by blast

end

lemma heap_pop_props:
  assumes "heap_order f xs (length xs)" "xs \<noteq> []"
  shows "fst (heap_pop f xs) = xs ! 0"
    and "heap_order f (snd (heap_pop f xs)) (length (snd (heap_pop f xs)))"
    and "mset xs = add_mset (fst (heap_pop f xs)) (mset (snd (heap_pop f xs)))"
proof -
  define n where "n = length xs - 1"
  define ys where "ys = heap_down f (Swap xs 0 n) 0 n"
  have n: "n < length xs" "0 < length xs" "length xs = Suc n" using assms by (auto simp: n_def)
  have pop: "heap_pop f xs = (ys ! n, take n ys)" by (simp add: heap_pop_def ys_def n_def Let_def)
  have len: "length ys = length xs" using n by (simp add: ys_def)
  have last: "ys ! n = xs ! 0" using n by (simp add: ys_def heap_down_rest nth_Swap)
  then show "fst (heap_pop f xs) = xs ! 0" by (simp add: pop)
  have "order_below f (Swap xs 0 n) n 0"
    using assms(1) n by (auto simp: order_below_def heap_order_def nth_Swap parent_def)
  then have "heap_order f ys n" using n by (simp add: ys_def heap_down_order)
  then show "heap_order f (snd (heap_pop f xs)) (length (snd (heap_pop f xs)))"
    using len n by (auto simp: pop heap_order_def parent_def)
  have "ys = take n ys @ [ys ! n]" using len n take_Suc_conv_app_nth [of n ys] by simp
  then have "mset ys = add_mset (ys ! n) (mset (take n ys))"
    by (metis mset.simps mset_append union_mset_add_mset_right add_0_right)
  moreover have "mset ys = mset xs" using n by (simp add: ys_def heap_down_mset)
  ultimately show "mset xs = add_mset (fst (heap_pop f xs)) (mset (snd (heap_pop f xs)))"
    by (simp add: pop)
qed

lemma heap_push_order: "heap_order f xs (length xs) \<Longrightarrow> heap_order f (heap_push f x xs) (Suc (length xs))"
proof -
  assume a: "heap_order f xs (length xs)"
  have "order_above f (xs @ [x]) (Suc (length xs)) (length xs)"
    unfolding order_above_def
  proof (intro conjI allI impI)
    fix i assume "0 < i \<and> i < Suc (length xs) \<and> i \<noteq> length xs"
    then have "parent i < length xs" "f (xs ! parent i) \<le> f (xs ! i)" "i < length xs"
      using a parent_less [of i] by (auto simp: heap_order_def)
    then show "f ((xs @ [x]) ! parent i) \<le> f ((xs @ [x]) ! i)" by (simp add: nth_append)
  next
    fix i assume "0 < i \<and> i < Suc (length xs) \<and> parent i = length xs \<and> 0 < length xs"
    then show "f ((xs @ [x]) ! parent (length xs)) \<le> f ((xs @ [x]) ! i)"
      using parent_less [of i] by auto
  qed
  then show ?thesis using heap_up_order [of "length xs" "xs @ [x]" f] by (simp add: heap_push_def)
qed

interpretation goheap: pqueue f "\<lambda>xs. heap_order f xs (length xs)" mset "heap_push f" "heap_pop f" "\<lambda>xs. xs ! 0"
  for f :: "'a \<Rightarrow> 'k::linorder"
proof unfold_locales
  fix x and q :: "'a list"
  assume q: "heap_order f q (length q)"
  have len: "length (heap_push f x q) = Suc (length q)" by (simp add: heap_push_def)
  show "heap_order f (heap_push f x q) (length (heap_push f x q))"
    unfolding len using q by (rule heap_push_order)
  show "mset (heap_push f x q) = add_mset x (mset q)" by (simp add: heap_push_def)
  assume "x \<in># mset q"
  then show "f (q ! 0) \<le> f x"
    using heap_order_root [OF q] by (auto simp: in_set_conv_nth)
qed (simp_all add: heap_pop_props)

end
