(* ===== verification/Afdp_Reassembly.thy ===== *)
theory Afdp_Reassembly
  imports Afdp_Datagram Go_Heap
begin

text \<open>
  \<^verbatim>\<open>internal/afdp/protocol_reassembly.go\<close>: the bounded reassembler. Maps whose size or
  iteration matters are association lists with distinct keys; the heap of completed flows is
  the array heap of \<^verbatim>\<open>container/heap\<close> ordered by completion time. Every method holds the mutex
  for its whole body, so a method is one atomic step on the state.
\<close>

section \<open>State\<close>

type_synonym flowKey = "u64 \<times> u32"

record fragmentSet =
  fs_created :: time
  fs_count :: u16
  fs_parts :: "(u16 \<times> bytes) list"
  fs_bytes :: int

type_synonym completedEntry = "flowKey \<times> time"

record Reassembler =
  r_flows :: "(flowKey \<times> fragmentSet) list"
  r_completed :: "(flowKey \<times> time) list"
  r_completedOrder :: "completedEntry list"
  r_maxFlows :: int
  r_maxBytes :: int
  r_maxPayload :: int
  r_timeout :: duration
  r_bytes :: int

section \<open>Operations\<close>

definition NewReassembler :: "int \<Rightarrow> int \<Rightarrow> int \<Rightarrow> duration \<Rightarrow> Reassembler result" where
  "NewReassembler maxFlows maxBytes maxPayload timeout =
     (if maxFlows \<le> 0 \<or> maxBytes \<le> 0 \<or> maxPayload \<le> 0 \<or> timeout \<le> 0 then
        Inl (ErrNew ''reassembler limits must be positive'')
      else if maxFlows > 2 ^ 20 \<or> maxBytes > 64 * 2 ^ 20 \<or> maxPayload > maxDatagramPayload
          \<or> timeout > 24 * hour then
        Inl (ErrNew ''reassembler limits exceed the supported maximum'')
      else Inr \<lparr>r_flows = [], r_completed = [], r_completedOrder = [], r_maxFlows = maxFlows,
        r_maxBytes = maxBytes, r_maxPayload = maxPayload, r_timeout = timeout, r_bytes = 0\<rparr>)"

abbreviation entry_at :: "completedEntry \<Rightarrow> time" where
  "entry_at e \<equiv> snd e"

text \<open>Forget a popped entry, if the map still holds it with the same time.\<close>

definition forget :: "completedEntry \<Rightarrow> (flowKey \<times> time) list \<Rightarrow> (flowKey \<times> time) list" where
  "forget e completed =
     (if map_of completed (fst e) = Some (snd e) then AList.delete (fst e) completed else completed)"

lemma heap_pop_length: "h \<noteq> [] \<Longrightarrow> length (snd (heap_pop f h)) < length h"
  by (simp add: heap_pop_def Let_def)

function expire_completed ::
  "time \<Rightarrow> duration \<Rightarrow> (flowKey \<times> time) list \<Rightarrow> completedEntry list \<Rightarrow>
   (flowKey \<times> time) list \<times> completedEntry list" where
  "expire_completed now timeout completed h =
     (if h = [] then (completed, h)
      else if time_sub now (entry_at (h ! 0)) < timeout then (completed, h)
      else expire_completed now timeout (forget (h ! 0) completed) (snd (heap_pop entry_at h)))"
  by pat_completeness auto
termination
  by (relation "measure (\<lambda>(now, timeout, completed, h). length h)") (auto simp: heap_pop_length)

declare expire_completed.simps [simp del]

definition flow_expired :: "time \<Rightarrow> duration \<Rightarrow> fragmentSet \<Rightarrow> bool" where
  "flow_expired now timeout s \<longleftrightarrow> time_sub now (fs_created s) \<ge> timeout"

definition expireLocked :: "time \<Rightarrow> Reassembler \<Rightarrow> Reassembler" where
  "expireLocked now r =
     (let dead = filter (\<lambda>(k, s). flow_expired now (r_timeout r) s) (r_flows r);
          live = filter (\<lambda>(k, s). \<not> flow_expired now (r_timeout r) s) (r_flows r);
          (completed, order) = expire_completed now (r_timeout r) (r_completed r) (r_completedOrder r)
      in r\<lparr>r_flows := live, r_bytes := r_bytes r - weight fs_bytes dead,
           r_completed := completed, r_completedOrder := order\<rparr>)"

definition Expire :: "time \<Rightarrow> Reassembler \<Rightarrow> Reassembler" where
  "Expire now r = expireLocked now r"

definition InFlight :: "Reassembler \<Rightarrow> int \<times> int" where
  "InFlight r = (int (length (r_flows r)), r_bytes r)"

text \<open>The loop that makes room in the memory of completed flows.\<close>

function evict_completed ::
  "int \<Rightarrow> (flowKey \<times> time) list \<Rightarrow> completedEntry list \<Rightarrow> (flowKey \<times> time) list \<times> completedEntry list" where
  "evict_completed limit completed h =
     (if int (length completed) \<ge> limit \<and> h \<noteq> [] then
        (case heap_pop entry_at h of (e, h') \<Rightarrow>
           if map_of completed (fst e) = Some (snd e) then (AList.delete (fst e) completed, h')
           else evict_completed limit completed h')
      else (completed, h))"
  by pat_completeness auto
termination
  by (relation "measure (\<lambda>(limit, completed, h). length h)")
    (auto dest: arg_cong [where f = snd] simp: heap_pop_length)

declare evict_completed.simps [simp del]

text \<open>The concatenation of the parts 0, 1, ... in order; \<open>None\<close> when one is missing.\<close>

fun collect_parts :: "(u16 \<times> bytes) list \<Rightarrow> nat list \<Rightarrow> bytes option" where
  "collect_parts parts [] = Some []"
| "collect_parts parts (i # is) =
     (case map_of parts (of_nat i) of
        None \<Rightarrow> None
      | Some p \<Rightarrow> map_option (\<lambda>rest. p @ rest) (collect_parts parts is))"

definition drop_flow :: "flowKey \<Rightarrow> fragmentSet \<Rightarrow> Reassembler \<Rightarrow> Reassembler" where
  "drop_flow key s r = r\<lparr>r_flows := AList.delete key (r_flows r), r_bytes := r_bytes r - fs_bytes s\<rparr>"

definition finish_flow :: "flowKey \<Rightarrow> fragmentSet \<Rightarrow> time \<Rightarrow> Reassembler \<Rightarrow> Reassembler" where
  "finish_flow key s now r =
     (let r' = drop_flow key s r;
          (completed, order) = evict_completed (r_maxFlows r * 2) (r_completed r') (r_completedOrder r')
      in r'\<lparr>r_completed := AList.update key now completed,
            r_completedOrder := heap_push entry_at (key, now) order\<rparr>)"

text \<open>
  The part of \<^verbatim>\<open>Add\<close> that runs once the fragment set of the flow is known. The set is a pointer
  in the code: the updated set replaces the one stored in the map.
\<close>

definition add_fragment ::
  "flowKey \<Rightarrow> fragmentSet \<Rightarrow> DatagramHeader \<Rightarrow> bytes \<Rightarrow> time \<Rightarrow> Reassembler \<Rightarrow>
   Reassembler \<times> bytes option result" where
  "add_fragment key s header payload now r =
     (if fs_count s \<noteq> dh_FragmentCount header then (drop_flow key s r, Inl ErrMalformedFrame)
      else if map_of (fs_parts s) (dh_FragmentIndex header) \<noteq> None then
        (drop_flow key s r, Inl ErrMalformedFrame)
      else if r_bytes r + int (length payload) > r_maxBytes r then
        (drop_flow key s r, Inl (ErrWrap '': reassembler byte limit reached'' ErrTransient))
      else
        let s' = s\<lparr>fs_parts := AList.update (dh_FragmentIndex header) payload (fs_parts s),
                   fs_bytes := fs_bytes s + int (length payload)\<rparr>;
            r' = r\<lparr>r_flows := AList.update key s' (r_flows r), r_bytes := r_bytes r + int (length payload)\<rparr>
        in if length (fs_parts s') \<noteq> unat (fs_count s') then (r', Inr None)
           else case collect_parts (fs_parts s') [0 ..< unat (fs_count s')] of
               None \<Rightarrow> (r', Inr None)
             | Some result \<Rightarrow> (finish_flow key s' now r', Inr (Some result)))"

text \<open>\<open>clock\<close> is what \<^verbatim>\<open>time.Now()\<close> returns, used when the caller passes the zero time.\<close>

definition Add :: "time \<Rightarrow> bytes \<Rightarrow> time \<Rightarrow> Reassembler \<Rightarrow> Reassembler \<times> bytes option result" where
  "Add clock bs now0 r0 =
     (case DecodeDatagram bs (r_maxPayload r0) of
        Inl e \<Rightarrow> (r0, Inl e)
      | Inr (header, payload) \<Rightarrow>
          let now = (if now0 = 0 then clock else now0);
              r = expireLocked now r0;
              key = (dh_FlowID header, dh_Sequence header)
          in if map_of (r_completed r) key \<noteq> None then (r, Inl ErrMalformedFrame)
             else case map_of (r_flows r) key of
                 Some s \<Rightarrow> add_fragment key s header payload now r
               | None \<Rightarrow>
                   if int (length (r_flows r)) \<ge> r_maxFlows r then
                     (r, Inl (ErrWrap '': reassembler flow limit reached'' ErrTransient))
                   else
                     let s = \<lparr>fs_created = now, fs_count = dh_FragmentCount header, fs_parts = [], fs_bytes = 0\<rparr>
                     in add_fragment key s header payload now
                          (r\<lparr>r_flows := AList.update key s (r_flows r)\<rparr>))"

section \<open>Invariant\<close>

definition set_ok :: "fragmentSet \<Rightarrow> bool" where
  "set_ok s \<longleftrightarrow> distinct (map fst (fs_parts s)) \<and> fs_bytes s = weight (\<lambda>p. int (length p)) (fs_parts s)
     \<and> (\<forall>(i, p) \<in> set (fs_parts s). i < fs_count s)"

text \<open>What the map and the heap together guarantee.\<close>

definition memory_ok :: "(flowKey \<times> time) list \<Rightarrow> completedEntry list \<Rightarrow> bool" where
  "memory_ok c h \<longleftrightarrow> distinct (map fst c) \<and> mset h = mset c \<and> heap_order entry_at h (length h)"

text \<open>
  Sizes within the limits, byte counters that equal what is stored, every stored flow
  incomplete, and a heap that lists exactly the completed flows that are remembered.
\<close>

definition reassembler_ok :: "Reassembler \<Rightarrow> bool" where
  "reassembler_ok r \<longleftrightarrow>
     distinct (map fst (r_flows r)) \<and> int (length (r_flows r)) \<le> r_maxFlows r
     \<and> r_bytes r = weight fs_bytes (r_flows r) \<and> r_bytes r \<le> r_maxBytes r
     \<and> (\<forall>(k, s) \<in> set (r_flows r). set_ok s \<and> length (fs_parts s) < unat (fs_count s))
     \<and> memory_ok (r_completed r) (r_completedOrder r) \<and> int (length (r_completed r)) \<le> r_maxFlows r * 2
     \<and> fst ` set (r_flows r) \<inter> fst ` set (r_completed r) = {}
     \<and> 0 < r_maxFlows r \<and> 0 < r_maxBytes r \<and> 0 < r_timeout r"


section \<open>The memory of completed flows\<close>

lemma mset_delete:
  "distinct (map fst xs) \<Longrightarrow> (k, v) \<in> set xs \<Longrightarrow> mset xs = add_mset (k, v) (mset (AList.delete k xs))"
  by (induction xs) (auto simp: delete_absent rev_image_eqI)

lemma memory_ok_pop:
  assumes "memory_ok c h" "h \<noteq> []"
  defines "e \<equiv> fst (heap_pop entry_at h)"
  shows "e = h ! 0" "map_of c (fst e) = Some (snd e)"
    "memory_ok (AList.delete (fst e) c) (snd (heap_pop entry_at h))"
    "e \<in> set c"
proof -
  have h: "heap_order entry_at h (length h)" "mset h \<noteq> {#}" "distinct (map fst c)"
    using assms by (auto simp: memory_ok_def)
  show "e = h ! 0" using goheap.pop_top [OF h(1,2)] by (simp add: e_def)
  have m: "mset c = add_mset e (mset (snd (heap_pop entry_at h)))"
    using goheap.pop_content [OF h(1,2)] assms(1) by (simp add: e_def memory_ok_def)
  then show e: "e \<in> set c" by (metis set_mset_mset union_single_eq_member)
  with h(3) show "map_of c (fst e) = Some (snd e)" by simp
  have "mset c = add_mset e (mset (AList.delete (fst e) c))"
    using mset_delete [OF h(3), of "fst e" "snd e"] e by simp
  with m have "mset (snd (heap_pop entry_at h)) = mset (AList.delete (fst e) c)" by simp
  then show "memory_ok (AList.delete (fst e) c) (snd (heap_pop entry_at h))"
    using goheap.pop_ok [OF h(1,2)] h(3) by (simp add: memory_ok_def distinct_delete)
qed

lemma expire_completed_spec:
  "memory_ok c h \<Longrightarrow> expire_completed now t c h = (c', h') \<Longrightarrow>
     memory_ok c' h' \<and> c' = filter (\<lambda>e. time_sub now (entry_at e) < t) c"
proof (induction now t c h rule: expire_completed.induct)
  case (1 now t c h)
  note unf = expire_completed.simps [of now t c h]
  show ?case
  proof (cases "h = [] \<or> time_sub now (entry_at (h ! 0)) < t")
    case True
    have "time_sub now (entry_at e) < t" if "e \<in> set c" for e
    proof -
      have e: "e \<in># mset h" "heap_order entry_at h (length h)"
        using "1.prems"(1) that by (simp_all add: memory_ok_def)
      moreover from e have "time_sub now (entry_at (h ! 0)) < t" using True by auto
      ultimately show ?thesis
        using goheap.top_bound [of entry_at h e "\<lambda>a. time_sub now a < t"] time_sub_antimono
        by (meson le_less_trans)
    qed
    then have "filter (\<lambda>e. time_sub now (entry_at e) < t) c = c" by simp
    with True "1.prems" unf show ?thesis by (auto split: if_splits)
  next
    case False
    then have "h \<noteq> []" by simp
    note p = memory_ok_pop [OF "1.prems"(1) this]
    have f: "forget (h ! 0) c = AList.delete (fst (h ! 0)) c"
      using p(1,2) by (simp add: forget_def)
    have "expire_completed now t (forget (h ! 0) c) (snd (heap_pop entry_at h)) = (c', h')"
      using False "1.prems"(2) unf by simp
    moreover have "memory_ok (forget (h ! 0) c) (snd (heap_pop entry_at h))"
      using p(1,3) f by simp
    ultimately have IH: "memory_ok c' h' \<and> c' = filter (\<lambda>e. time_sub now (entry_at e) < t) (forget (h ! 0) c)"
      using "1.IH" False by blast
    have "e = h ! 0" if "e \<in> set c" "fst e = fst (h ! 0)" for e
    proof -
      have "map_of c (fst e) = Some (snd e)" using that(1) "1.prems"(1) by (simp add: memory_ok_def)
      moreover have "map_of c (fst (h ! 0)) = Some (snd (h ! 0))" using p(1,2) by simp
      ultimately have "snd e = snd (h ! 0)" using that(2) by simp
      with that(2) show ?thesis by (rule prod_eqI)
    qed
    then have "filter (\<lambda>e. time_sub now (entry_at e) < t) (AList.delete (fst (h ! 0)) c) =
        filter (\<lambda>e. time_sub now (entry_at e) < t) c"
      using False unfolding AList.delete_eq filter_filter by (intro filter_cong) auto
    with IH f show ?thesis by auto
  qed
qed

lemma evict_completed_spec:
  assumes "memory_ok c h" "int (length c) \<le> limit" "0 < limit" "evict_completed limit c h = (c', h')"
  shows "memory_ok c' h' \<and> set c' \<subseteq> set c \<and> int (length c') < limit"
proof (cases "int (length c) \<ge> limit")
  case True
  have "h \<noteq> []" using assms True by (auto simp: memory_ok_def)
  note p = memory_ok_pop [OF assms(1) this]
  have "c' = AList.delete (fst (h ! 0)) c" "h' = snd (heap_pop entry_at h)"
    using assms(4) p(1,2) True \<open>h \<noteq> []\<close>
    by (auto simp: evict_completed.simps [of limit c h] split: prod.splits)
  moreover have "Suc (length (AList.delete (fst (h ! 0)) c)) = length c"
    using length_delete_present [of c "fst (h ! 0)"] assms(1) p(1,4) by (auto simp: memory_ok_def)
  ultimately show ?thesis using p(1,3) assms(2) set_delete_subset [of "fst (h ! 0)" c] by auto
next
  case False
  with assms show ?thesis by (simp add: evict_completed.simps)
qed

section \<open>Every operation keeps the invariant\<close>

lemma set_ok_nonneg: "set_ok s \<Longrightarrow> 0 \<le> fs_bytes s"
  by (auto simp: set_ok_def intro!: weight_nonneg)

lemma weight_partition: "weight f (filter P xs) + weight f (filter (\<lambda>x. \<not> P x) xs) = weight f xs"
  by (induction xs) auto

lemma flows_weight_nonneg: "(\<forall>(k, s) \<in> set xs. set_ok s) \<Longrightarrow> 0 \<le> weight fs_bytes xs"
  by (auto intro!: weight_nonneg dest: set_ok_nonneg)

lemma NewReassembler_ok: "NewReassembler f b p t = Inr r \<Longrightarrow> reassembler_ok r"
  by (auto simp: NewReassembler_def reassembler_ok_def memory_ok_def heap_order_def split: if_splits)

lemma expireLocked_flows:
  "r_flows (expireLocked now r) = filter (\<lambda>(k, s). \<not> flow_expired now (r_timeout r) s) (r_flows r)"
  "r_maxFlows (expireLocked now r) = r_maxFlows r" "r_maxBytes (expireLocked now r) = r_maxBytes r"
  "r_timeout (expireLocked now r) = r_timeout r" "r_maxPayload (expireLocked now r) = r_maxPayload r"
  by (simp_all add: expireLocked_def Let_def split: prod.splits)

lemma expireLocked_bytes:
  assumes "reassembler_ok r"
  shows "r_bytes (expireLocked now r) = weight fs_bytes (r_flows (expireLocked now r))"
    "r_bytes (expireLocked now r) \<le> r_bytes r"
proof -
  let ?P = "\<lambda>(k :: flowKey, s). flow_expired now (r_timeout r) s"
  have w: "weight fs_bytes (filter ?P (r_flows r)) + weight fs_bytes (filter (\<lambda>x. \<not> ?P x) (r_flows r)) = r_bytes r"
    using assms weight_partition [of fs_bytes ?P] by (simp add: reassembler_ok_def)
  have f: "filter (\<lambda>(k, s). \<not> flow_expired now (r_timeout r) s) (r_flows r) = filter (\<lambda>x. \<not> ?P x) (r_flows r)"
    by (simp add: case_prod_unfold)
  have "r_bytes (expireLocked now r) = r_bytes r - weight fs_bytes (filter ?P (r_flows r))"
    by (simp add: expireLocked_def Let_def split: prod.splits)
  moreover have "0 \<le> weight fs_bytes (filter ?P (r_flows r))"
    using assms by (intro flows_weight_nonneg) (auto simp: reassembler_ok_def)
  ultimately show "r_bytes (expireLocked now r) = weight fs_bytes (r_flows (expireLocked now r))"
    "r_bytes (expireLocked now r) \<le> r_bytes r"
    using w unfolding expireLocked_flows f by linarith+
qed

lemma expireLocked_completed:
  assumes "reassembler_ok r"
  shows "r_completed (expireLocked now r) =
      filter (\<lambda>e. time_sub now (entry_at e) < r_timeout r) (r_completed r)"
    "memory_ok (r_completed (expireLocked now r)) (r_completedOrder (expireLocked now r))"
proof -
  obtain c h where e: "expire_completed now (r_timeout r) (r_completed r) (r_completedOrder r) = (c, h)"
    by fastforce
  have "memory_ok c h \<and> c = filter (\<lambda>e. time_sub now (entry_at e) < r_timeout r) (r_completed r)"
    using assms e by (intro expire_completed_spec) (auto simp: reassembler_ok_def)
  then show "r_completed (expireLocked now r) = filter (\<lambda>e. time_sub now (entry_at e) < r_timeout r) (r_completed r)"
    "memory_ok (r_completed (expireLocked now r)) (r_completedOrder (expireLocked now r))"
    by (auto simp: expireLocked_def Let_def e)
qed

lemma int_length_filter_le: "int (length xs) \<le> m \<Longrightarrow> int (length (filter P xs)) \<le> m"
  using length_filter_le [of P xs] by linarith

lemma expireLocked_ok:
  assumes "reassembler_ok r"
  shows "reassembler_ok (expireLocked now r)"
proof -
  note ok = assms [unfolded reassembler_ok_def]
  show ?thesis
    unfolding reassembler_ok_def expireLocked_flows
    using ok expireLocked_bytes [OF assms, of now] expireLocked_completed [OF assms, of now]
    by (auto simp: expireLocked_flows distinct_fst_filter int_length_filter_le)
qed

lemma delete_fst_notin: "k \<notin> fst ` set (AList.delete k xs)"
  by (simp add: AList.delete_eq image_iff)

lemma drop_flow_ok:
  assumes "reassembler_ok r" "map_of (r_flows r) key = Some s"
  shows "reassembler_ok (drop_flow key s r)"
proof -
  note ok = assms(1) [unfolded reassembler_ok_def]
  have "0 \<le> fs_bytes s" using ok map_of_SomeD [OF assms(2)] set_ok_nonneg by fastforce
  moreover have "set (AList.delete key (r_flows r)) \<subseteq> set (r_flows r)"
    by (rule set_delete_subset)
  moreover have "int (length (AList.delete key (r_flows r))) \<le> r_maxFlows r"
    using ok length_delete_le [of key "r_flows r"] by linarith
  ultimately show ?thesis
    unfolding reassembler_ok_def drop_flow_def
    using ok assms(2) by (auto simp: weight_delete distinct_delete)
qed


lemma finish_flow_ok:
  assumes "reassembler_ok (drop_flow key s r)" "key \<notin> fst ` set (r_completed r)"
  shows "reassembler_ok (finish_flow key s now r)"
    and "map_of (r_completed (finish_flow key s now r)) key = Some now"
proof -
  let ?r = "drop_flow key s r"
  note ok = assms(1) [unfolded reassembler_ok_def]
  have same: "r_completed ?r = r_completed r" "r_completedOrder ?r = r_completedOrder r" "r_maxFlows ?r = r_maxFlows r"
    by (simp_all add: drop_flow_def)
  obtain c h where e: "evict_completed (r_maxFlows r * 2) (r_completed r) (r_completedOrder r) = (c, h)"
    by fastforce
  have spec: "memory_ok c h" "set c \<subseteq> set (r_completed r)" "int (length c) < r_maxFlows r * 2"
    using evict_completed_spec [OF _ _ _ e] ok by (auto simp: same)
  have fresh: "key \<notin> fst ` set c" using spec(2) assms(2) by auto
  have fin: "finish_flow key s now r = ?r\<lparr>r_completed := c @ [(key, now)],
      r_completedOrder := heap_push entry_at (key, now) h\<rparr>"
    using fresh e by (simp add: finish_flow_def Let_def same update_absent)
  have "memory_ok (c @ [(key, now)]) (heap_push entry_at (key, now) h)"
    using spec(1) fresh goheap.push_ok [of entry_at h] goheap.push_content [of entry_at h]
    by (auto simp: memory_ok_def)
  moreover have "fst ` set (r_flows ?r) \<inter> fst ` set (c @ [(key, now)]) = {}"
  proof -
    have "key \<notin> fst ` set (r_flows ?r)" by (simp add: drop_flow_def delete_fst_notin)
    moreover have "fst ` set c \<subseteq> fst ` set (r_completed r)" using spec(2) by (rule image_mono)
    moreover have "fst ` set (r_flows ?r) \<inter> fst ` set (r_completed r) = {}" using ok unfolding same by simp
    ultimately show ?thesis by simp blast
  qed
  ultimately show "reassembler_ok (finish_flow key s now r)"
    unfolding fin reassembler_ok_def using ok spec(3) by (simp add: same)
  show "map_of (r_completed (finish_flow key s now r)) key = Some now"
    using fresh by (simp add: fin map_of_notin map_add_def)
qed

text \<open>The state and the fragment set after a fragment has been stored.\<close>

definition stored_set :: "fragmentSet \<Rightarrow> DatagramHeader \<Rightarrow> bytes \<Rightarrow> fragmentSet" where
  "stored_set s header payload =
     s\<lparr>fs_parts := AList.update (dh_FragmentIndex header) payload (fs_parts s),
       fs_bytes := fs_bytes s + int (length payload)\<rparr>"

definition stored :: "flowKey \<Rightarrow> fragmentSet \<Rightarrow> DatagramHeader \<Rightarrow> bytes \<Rightarrow> Reassembler \<Rightarrow> Reassembler" where
  "stored key s header payload r =
     r\<lparr>r_flows := AList.update key (stored_set s header payload) (r_flows r),
       r_bytes := r_bytes r + int (length payload)\<rparr>"

lemma stored_set_ok:
  assumes "set_ok s" "dh_FragmentIndex header < fs_count s" "map_of (fs_parts s) (dh_FragmentIndex header) = None"
  shows "set_ok (stored_set s header payload)"
    "fs_parts (stored_set s header payload) = fs_parts s @ [(dh_FragmentIndex header, payload)]"
proof -
  have "dh_FragmentIndex header \<notin> fst ` set (fs_parts s)" using assms(3) by (simp add: map_of_eq_None_iff)
  then show "fs_parts (stored_set s header payload) = fs_parts s @ [(dh_FragmentIndex header, payload)]"
    by (simp add: stored_set_def update_absent)
  with \<open>dh_FragmentIndex header \<notin> fst ` set (fs_parts s)\<close> assms show "set_ok (stored_set s header payload)"
    by (auto simp: set_ok_def stored_set_def update_absent)
qed

text \<open>A set of distinct indices below \<open>n\<close> has at most \<open>n\<close> elements, and all of them when it has \<open>n\<close>.\<close>

lemma indices_bound:
  assumes "distinct (map fst ps)" "\<forall>(i :: u16, p) \<in> set ps. i < n"
  shows "length ps \<le> unat n" and "length ps = unat n \<Longrightarrow> i < n \<Longrightarrow> i \<in> fst ` set ps"
proof -
  have inj: "inj_on unat (fst ` set ps)" by (simp add: inj_on_def word_unat_eq_iff)
  have card: "card (unat ` fst ` set ps) = length ps"
    using assms(1) by (metis card_image inj distinct_card length_map list.set_map)
  have sub: "unat ` fst ` set ps \<subseteq> {..< unat n}"
    using assms(2) by (auto simp: word_less_nat_alt)
  show "length ps \<le> unat n" using card card_mono [OF _ sub] by simp
  assume "length ps = unat n" "i < n"
  then have "unat ` fst ` set ps = {..< unat n}"
    using card sub by (metis card_lessThan card_subset_eq finite_lessThan)
  with \<open>i < n\<close> have "unat i \<in> unat ` fst ` set ps" by (simp add: word_less_nat_alt)
  then show "i \<in> fst ` set ps" by (auto simp only: image_iff word_unat_eq_iff)
qed

lemma collect_parts_Some:
  "\<forall>i\<in>set is. of_nat i \<in> fst ` set parts \<Longrightarrow>
   collect_parts parts is = Some (concat (map (\<lambda>i. the (map_of parts (of_nat i))) is))"
proof (induction "is")
  case (Cons i "is")
  then obtain p where "map_of parts (of_nat i) = Some p"
    by (metis list.set_intros(1) map_of_eq_None_iff not_None_eq)
  with Cons show ?case by simp
qed simp

lemma collect_complete:
  assumes "set_ok s" "length (fs_parts s) = unat (fs_count s)"
  shows "collect_parts (fs_parts s) [0 ..< unat (fs_count s)] =
    Some (concat (map (\<lambda>i. the (map_of (fs_parts s) (of_nat i))) [0 ..< unat (fs_count s)]))"
proof (rule collect_parts_Some, rule ballI)
  fix i assume "i \<in> set [0 ..< unat (fs_count s)]"
  then have "i < unat (fs_count s)" by simp
  then have "(of_nat i :: u16) < fs_count s"
    by (metis of_nat_inverse order_less_trans unsigned_less word_less_nat_alt)
  then show "of_nat i \<in> fst ` set (fs_parts s)"
    using indices_bound(2) [of "fs_parts s" "fs_count s"] assms by (auto simp: set_ok_def)
qed

lemma drop_flow_stored: "drop_flow key (stored_set s header payload) (stored key s header payload r) = drop_flow key s r"
  by (simp add: drop_flow_def stored_def stored_set_def AList.delete_update_same)

text \<open>The four outcomes of storing a fragment in a known flow.\<close>

lemma add_fragment_cases:
  assumes "set_ok s" "dh_FragmentIndex header < dh_FragmentCount header"
  obtains (bad) e where "add_fragment key s header payload now r = (drop_flow key s r, Inl e)"
      "e = ErrMalformedFrame \<or> e = ErrWrap '': reassembler byte limit reached'' ErrTransient"
  | (more) "add_fragment key s header payload now r = (stored key s header payload r, Inr None)"
      "fs_count s = dh_FragmentCount header" "map_of (fs_parts s) (dh_FragmentIndex header) = None"
      "r_bytes r + int (length payload) \<le> r_maxBytes r"
      "length (fs_parts (stored_set s header payload)) < unat (fs_count s)"
  | (complete) "add_fragment key s header payload now r =
        (finish_flow key (stored_set s header payload) now (stored key s header payload r),
         Inr (Some (concat (map (\<lambda>i. the (map_of (fs_parts (stored_set s header payload)) (of_nat i)))
           [0 ..< unat (fs_count s)]))))"
      "fs_count s = dh_FragmentCount header" "map_of (fs_parts s) (dh_FragmentIndex header) = None"
      "r_bytes r + int (length payload) \<le> r_maxBytes r"
      "length (fs_parts (stored_set s header payload)) = unat (fs_count s)"
proof (cases "fs_count s \<noteq> dh_FragmentCount header \<or> map_of (fs_parts s) (dh_FragmentIndex header) \<noteq> None
    \<or> r_bytes r + int (length payload) > r_maxBytes r")
  case True
  then have "\<exists>e. add_fragment key s header payload now r = (drop_flow key s r, Inl e)
      \<and> (e = ErrMalformedFrame \<or> e = ErrWrap '': reassembler byte limit reached'' ErrTransient)"
    by (auto simp: add_fragment_def)
  with bad show thesis by blast
next
  case False
  let ?s = "stored_set s header payload"
  have ok: "set_ok ?s" and c: "fs_count ?s = fs_count s"
    using stored_set_ok(1) [OF assms(1), of header payload] False assms(2) by (auto simp: stored_set_def)
  have le: "length (fs_parts ?s) \<le> unat (fs_count s)"
    using indices_bound(1) [of "fs_parts ?s" "fs_count s"] ok c by (auto simp: set_ok_def)
  have eq: "add_fragment key s header payload now r =
      (if length (fs_parts ?s) \<noteq> unat (fs_count ?s) then (stored key s header payload r, Inr None)
       else case collect_parts (fs_parts ?s) [0 ..< unat (fs_count ?s)] of
           None \<Rightarrow> (stored key s header payload r, Inr None)
         | Some result \<Rightarrow> (finish_flow key ?s now (stored key s header payload r), Inr (Some result)))"
    using False by (simp add: add_fragment_def Let_def stored_def stored_set_def split: option.split)
  show thesis
  proof (cases "length (fs_parts ?s) = unat (fs_count s)")
    case True
    with collect_complete [OF ok] eq c False show thesis by (intro complete) simp_all
  next
    case ne: False
    with eq c le False show thesis by (intro more) simp_all
  qed
qed

lemma stored_ok:
  assumes "reassembler_ok r" "map_of (r_flows r) key = Some s" "dh_FragmentIndex header < fs_count s"
    "map_of (fs_parts s) (dh_FragmentIndex header) = None" "r_bytes r + int (length payload) \<le> r_maxBytes r"
    "length (fs_parts (stored_set s header payload)) < unat (fs_count s)"
  shows "reassembler_ok (stored key s header payload r)"
proof -
  note ok = assms(1) [unfolded reassembler_ok_def]
  let ?s = "stored_set s header payload"
  have mem: "(key, s) \<in> set (r_flows r)" using assms(2) by (rule map_of_SomeD)
  then have s: "set_ok ?s" using stored_set_ok(1) ok assms by fastforce
  have keys: "fst ` set (AList.update key ?s (r_flows r)) = fst ` set (r_flows r)"
    using mem by (force simp: dom_update)
  have len: "length (AList.update key ?s (r_flows r)) = length (r_flows r)"
    using mem by (auto simp: length_update rev_image_eqI)
  have w: "weight fs_bytes (AList.update key ?s (r_flows r)) = weight fs_bytes (r_flows r) + int (length payload)"
    using ok assms(2) by (simp add: weight_update stored_set_def)
  have parts: "set_ok t \<and> length (fs_parts t) < unat (fs_count t)"
    if "(k, t) \<in> set (AList.update key ?s (r_flows r))" for k t
    using that set_update_subset [of key ?s "r_flows r"] ok s assms(6) by (auto simp: stored_set_def)
  show ?thesis
    unfolding reassembler_ok_def
    using ok keys len w parts assms(5) by (auto simp: stored_def distinct_update)
qed


lemma add_fragment_ok:
  assumes "reassembler_ok r" "map_of (r_flows r) key = Some s"
    "dh_FragmentIndex header < dh_FragmentCount header"
  shows "reassembler_ok (fst (add_fragment key s header payload now r))"
proof -
  have mem: "(key, s) \<in> set (r_flows r)" using assms(2) by (rule map_of_SomeD)
  then have s: "set_ok s" using assms(1) by (auto simp: reassembler_ok_def)
  have "key \<in> fst ` set (r_flows r)" using mem by force
  then have fresh: "key \<notin> fst ` set (r_completed r)"
    using assms(1) unfolding reassembler_ok_def by blast
  from s assms(3) show ?thesis
  proof (cases rule: add_fragment_cases [where key = key and payload = payload and now = now and r = r])
    case (bad e)
    with drop_flow_ok [OF assms(1,2)] show ?thesis by simp
  next
    case more
    with stored_ok [OF assms(1,2)] assms(3) show ?thesis by simp
  next
    case complete
    have "reassembler_ok (drop_flow key (stored_set s header payload) (stored key s header payload r))"
      unfolding drop_flow_stored using assms(1,2) by (rule drop_flow_ok)
    with complete finish_flow_ok(1) fresh show ?thesis by (simp add: stored_def)
  qed
qed

lemma valid_header_bounds:
  "validateDatagramHeader h = None \<Longrightarrow> dh_FragmentIndex h < dh_FragmentCount h \<and> dh_FragmentCount h \<noteq> 0"
  by (auto simp: validateDatagramHeader_def not_le split: if_splits)

text \<open>The state in which a datagram of an unknown flow is stored.\<close>

definition new_set :: "DatagramHeader \<Rightarrow> time \<Rightarrow> fragmentSet" where
  "new_set header now = \<lparr>fs_created = now, fs_count = dh_FragmentCount header, fs_parts = [], fs_bytes = 0\<rparr>"

lemma open_flow_ok:
  assumes "reassembler_ok r" "key \<notin> fst ` set (r_flows r)" "key \<notin> fst ` set (r_completed r)"
    "int (length (r_flows r)) < r_maxFlows r" "validateDatagramHeader header = None"
  shows "reassembler_ok (r\<lparr>r_flows := AList.update key (new_set header now) (r_flows r)\<rparr>)"
  using assms valid_header_bounds [OF assms(5)]
  by (auto simp: reassembler_ok_def update_absent new_set_def set_ok_def word_neq_0_conv unat_gt_0)

text \<open>The datagram is accepted by the decoder: what \<^verbatim>\<open>Add\<close> does with it.\<close>

lemma Add_decoded:
  assumes "DecodeDatagram bs (r_maxPayload r) = Inr (header, payload)" "now \<noteq> 0"
  defines "key \<equiv> (dh_FlowID header, dh_Sequence header)"
  shows "Add clock bs now r =
    (let r' = expireLocked now r
     in if key \<in> fst ` set (r_completed r') then (r', Inl ErrMalformedFrame)
        else case map_of (r_flows r') key of
            Some s \<Rightarrow> add_fragment key s header payload now r'
          | None \<Rightarrow>
              if int (length (r_flows r')) \<ge> r_maxFlows r' then
                (r', Inl (ErrWrap '': reassembler flow limit reached'' ErrTransient))
              else add_fragment key (new_set header now) header payload now
                (r'\<lparr>r_flows := AList.update key (new_set header now) (r_flows r')\<rparr>))"
  using assms by (simp add: Add_def Let_def key_def new_set_def map_of_eq_None_iff cong: option.case_cong)

lemma Add_ok:
  assumes "reassembler_ok r"
  shows "reassembler_ok (fst (Add clock bs now r))"
proof (cases "DecodeDatagram bs (r_maxPayload r)")
  case (Inl e)
  with assms show ?thesis by (simp add: Add_def)
next
  case (Inr hp)
  obtain header payload where hp: "hp = (header, payload)" by fastforce
  define t where "t = (if now = 0 then clock else now)"
  define r' where "r' = expireLocked t r"
  let ?key = "(dh_FlowID header, dh_Sequence header)"
  have v: "validateDatagramHeader header = None" using DecodeDatagram_bytes(2) Inr hp by blast
  have ok: "reassembler_ok r'" unfolding r'_def using assms by (rule expireLocked_ok)
  note add = add_fragment_ok [where header = header and payload = payload and now = t]
  show ?thesis
  proof (cases "map_of (r_flows r') ?key")
    case None
    let ?r = "r'\<lparr>r_flows := AList.update ?key (new_set header t) (r_flows r')\<rparr>"
    have "reassembler_ok ?r" if "int (length (r_flows r')) < r_maxFlows r'" "map_of (r_completed r') ?key = None"
      using that None ok v by (intro open_flow_ok) (auto simp: map_of_eq_None_iff)
    with None ok add [of ?r ?key "new_set header t"] valid_header_bounds [OF v] show ?thesis
      by (auto simp: Add_def Inr hp Let_def r'_def [symmetric] t_def [symmetric] new_set_def [symmetric] update_conv')
  next
    case (Some s)
    with ok add [OF ok Some] valid_header_bounds [OF v] show ?thesis
      by (simp add: Add_def Inr hp Let_def r'_def [symmetric] t_def [symmetric])
  qed
qed


section \<open>Bounds in every reachable state\<close>

inductive reaches :: "Reassembler \<Rightarrow> Reassembler \<Rightarrow> bool" for r0 where
  start: "reaches r0 r0"
| add: "reaches r0 r \<Longrightarrow> reaches r0 (fst (Add clock bs now r))"
| expire: "reaches r0 r \<Longrightarrow> reaches r0 (Expire now r)"

lemma reaches_ok: "reaches r0 r \<Longrightarrow> reassembler_ok r0 \<Longrightarrow> reassembler_ok r"
  by (induction rule: reaches.induct) (auto simp: Add_ok Expire_def expireLocked_ok)

lemma finish_flow_limits:
  "r_maxFlows (finish_flow key s now r) = r_maxFlows r" "r_maxBytes (finish_flow key s now r) = r_maxBytes r"
  by (simp_all add: finish_flow_def drop_flow_def Let_def split: prod.splits)

lemma add_fragment_limits:
  "r_maxFlows (fst (add_fragment key s header payload now r)) = r_maxFlows r"
  "r_maxBytes (fst (add_fragment key s header payload now r)) = r_maxBytes r"
  by (simp_all add: add_fragment_def Let_def drop_flow_def finish_flow_limits split: option.split)

lemma Add_limits:
  "r_maxFlows (fst (Add clock bs now r)) = r_maxFlows r" "r_maxBytes (fst (Add clock bs now r)) = r_maxBytes r"
  by (simp_all add: Add_def Let_def add_fragment_limits expireLocked_flows split: sum.split option.split prod.split)

lemma reaches_limits:
  "reaches r0 r \<Longrightarrow> r_maxFlows r = r_maxFlows r0 \<and> r_maxBytes r = r_maxBytes r0"
  by (induction rule: reaches.induct) (auto simp: Add_limits Expire_def expireLocked_flows)

text \<open>
  C5. Whatever datagrams arrive and whenever expiry runs, a reassembler never holds more flows
  or more bytes than it was created for, never remembers more than twice that many completed
  flows, and its byte counter is exactly the number of payload bytes it stores.
\<close>

theorem reassembler_bounded:
  assumes "NewReassembler maxFlows maxBytes maxPayload timeout = Inr r0" and "reaches r0 r"
  shows "fst (InFlight r) \<le> maxFlows \<and> 0 \<le> snd (InFlight r) \<and> snd (InFlight r) \<le> maxBytes
    \<and> int (length (r_completed r)) \<le> 2 * maxFlows
    \<and> snd (InFlight r) = (\<Sum>(k, s) \<leftarrow> r_flows r. \<Sum>(i, p) \<leftarrow> fs_parts s. int (length p))"
proof -
  have ok: "reassembler_ok r" using assms NewReassembler_ok reaches_ok by blast
  have lim: "r_maxFlows r = maxFlows" "r_maxBytes r = maxBytes"
    using reaches_limits [OF assms(2)] assms(1) by (auto simp: NewReassembler_def split: if_splits)
  have "map (\<lambda>(k, s). fs_bytes s) (r_flows r) = map (\<lambda>(k, s). \<Sum>(i, p) \<leftarrow> fs_parts s. int (length p)) (r_flows r)"
    using ok by (auto simp: reassembler_ok_def set_ok_def weight_def)
  then have "weight fs_bytes (r_flows r) = (\<Sum>(k, s) \<leftarrow> r_flows r. \<Sum>(i, p) \<leftarrow> fs_parts s. int (length p))"
    unfolding weight_def by (rule arg_cong)
  moreover have "0 \<le> weight fs_bytes (r_flows r)"
    using ok by (intro flows_weight_nonneg) (auto simp: reassembler_ok_def)
  ultimately show ?thesis using ok lim by (simp add: reassembler_ok_def InFlight_def)
qed

theorem reassembler_bounded_witness:
  "\<exists>r0. NewReassembler 4 1000 100 5 = Inr r0
     \<and> fst (InFlight (fst (Add 1 [1, 2, 3] 1 r0))) \<le> 4"
proof -
  obtain r0 where r0: "NewReassembler 4 1000 100 5 = Inr r0"
    by (simp add: NewReassembler_def hour_def minute_def second_def)
  with reassembler_bounded [OF r0 reaches.add [OF reaches.start]] show ?thesis by blast
qed

section \<open>Replays\<close>

lemma Add_complete_remembered:
  assumes "reassembler_ok r" "DecodeDatagram bs (r_maxPayload r) = Inr (header, payload)" "now \<noteq> 0"
    "Add clock bs now r = (r', Inr (Some p))"
  shows "map_of (r_completed r') (dh_FlowID header, dh_Sequence header) = Some now"
proof -
  let ?key = "(dh_FlowID header, dh_Sequence header)"
  let ?e = "expireLocked now r"
  have ok: "reassembler_ok ?e" using assms(1) by (rule expireLocked_ok)
  have v: "validateDatagramHeader header = None" using DecodeDatagram_bytes(2) assms(2) by blast
  have key: "?key \<notin> fst ` set (r_completed ?e)"
    using assms(4) unfolding Add_decoded [OF assms(2,3)] by (auto simp: Let_def split: if_splits)
  have fin: "map_of (r_completed r') ?key = Some now"
    if "reassembler_ok q" "map_of (r_flows q) ?key = Some s" "r_completed q = r_completed ?e"
      "add_fragment ?key s header payload now q = (r', Inr (Some p))" for q s
  proof -
    have "set_ok s" using that(1) map_of_SomeD [OF that(2)] by (auto simp: reassembler_ok_def)
    moreover have "dh_FragmentIndex header < dh_FragmentCount header" using valid_header_bounds [OF v] by simp
    ultimately show ?thesis
    proof (cases rule: add_fragment_cases [where key = ?key and payload = payload and now = now and r = q])
      case complete
      have "reassembler_ok (drop_flow ?key (stored_set s header payload) (stored ?key s header payload q))"
        unfolding drop_flow_stored using that(1,2) by (rule drop_flow_ok)
      with complete(1) that(3,4) key finish_flow_ok(2) show ?thesis by (simp add: stored_def)
    qed (use that(4) in auto)
  qed
  show ?thesis
  proof (cases "map_of (r_flows ?e) ?key")
    case None
    let ?q = "?e\<lparr>r_flows := AList.update ?key (new_set header now) (r_flows ?e)\<rparr>"
    have "int (length (r_flows ?e)) < r_maxFlows ?e" and a: "add_fragment ?key (new_set header now) header payload now ?q = (r', Inr (Some p))"
      using assms(4) key None unfolding Add_decoded [OF assms(2,3)] by (auto simp: Let_def split: if_splits)
    then have "reassembler_ok ?q" using ok key v None by (intro open_flow_ok) (auto simp: map_of_eq_None_iff)
    from fin [OF this _ _ a] show ?thesis by (simp add: update_conv')
  next
    case (Some s)
    have "add_fragment ?key s header payload now ?e = (r', Inr (Some p))"
      using assms(4) key Some unfolding Add_decoded [OF assms(2,3)] by (simp add: Let_def)
    from fin [OF ok Some refl this] show ?thesis .
  qed
qed


section \<open>Reassembly in any order\<close>

fun add_all :: "time \<Rightarrow> time \<Rightarrow> Reassembler \<Rightarrow> bytes list \<Rightarrow> Reassembler \<times> bytes option result list" where
  "add_all clock now r [] = (r, [])"
| "add_all clock now r (f # fs) =
     (let (r', out) = Add clock f now r; (r'', outs) = add_all clock now r' fs in (r'', out # outs))"

text \<open>
  A flow of which the parts \<open>seen\<close> have been stored at time \<open>now\<close>, with room for those to come.
\<close>

definition progress ::
  "flowKey \<Rightarrow> nat \<Rightarrow> (nat \<Rightarrow> bytes) \<Rightarrow> time \<Rightarrow> nat list \<Rightarrow> nat list \<Rightarrow> fragmentSet \<Rightarrow> Reassembler \<Rightarrow> bool" where
  "progress key cnt part now seen todo s r \<longleftrightarrow>
     reassembler_ok r \<and> map_of (r_flows r) key = Some s
     \<and> fs_created s = now \<and> fs_count s = of_nat cnt \<and> fs_parts s = map (\<lambda>i. (of_nat i, part i)) seen
     \<and> r_bytes r + (\<Sum>i\<leftarrow>todo. int (length (part i))) \<le> r_maxBytes r"

lemma of_nat_inj16: "i < 2 ^ 16 \<Longrightarrow> j < 2 ^ 16 \<Longrightarrow> (of_nat i :: u16) = of_nat j \<longleftrightarrow> i = j"
  by (simp add: word_unat_eq_iff unat_of_nat)

lemma map_of_parts:
  assumes "\<forall>j\<in>set seen. j < 2 ^ 16" "i < 2 ^ 16"
  shows "map_of (map (\<lambda>i. (of_nat i :: u16, part i)) seen) (of_nat i) = (if i \<in> set seen then Some (part i) else None)"
  using assms by (induction seen) (auto simp: of_nat_inj16)

lemma expireLocked_flow_kept:
  assumes "map_of (r_flows r) key = Some s" "\<not> flow_expired now (r_timeout r) s" "reassembler_ok r"
  shows "map_of (r_flows (expireLocked now r)) key = Some s"
  using assms by (simp add: expireLocked_flows map_of_filter_key reassembler_ok_def)

lemma progress_expire:
  assumes "progress key cnt part now seen todo s r"
  shows "progress key cnt part now seen todo s (expireLocked now r)"
proof -
  have r: "reassembler_ok r" "map_of (r_flows r) key = Some s" "fs_created s = now"
    using assms by (simp_all add: progress_def)
  then have "\<not> flow_expired now (r_timeout r) s"
    by (simp add: flow_expired_def reassembler_ok_def)
  with r expireLocked_flow_kept have "map_of (r_flows (expireLocked now r)) key = Some s" by blast
  with assms expireLocked_ok [OF r(1), of now] expireLocked_bytes(2) [OF r(1), of now] show ?thesis
    by (simp add: progress_def expireLocked_flows)
qed

lemma progress_not_completed:
  assumes "progress key cnt part now seen todo s r"
  shows "key \<notin> fst ` set (r_completed r)"
proof -
  have "(key, s) \<in> set (r_flows r)" using assms by (simp add: progress_def map_of_SomeD)
  then have "key \<in> fst ` set (r_flows r)" by force
  with assms show ?thesis unfolding progress_def reassembler_ok_def by blast
qed

lemma progress_add:
  assumes pr: "progress key cnt part now seen (i # todo) s r"
    and ix: "i < cnt" "i \<notin> set seen" "cnt \<le> maxDatagramFragments" "\<forall>j\<in>set seen. j < cnt"
    and hd: "dh_FragmentIndex header = of_nat i" "dh_FragmentCount header = of_nat cnt"
  shows "length seen + 1 < cnt \<Longrightarrow> \<exists>s' r'. add_fragment key s header (part i) now r = (r', Inr None)
      \<and> progress key cnt part now (seen @ [i]) todo s' r'"
    and "length seen + 1 = cnt \<Longrightarrow> distinct seen \<Longrightarrow>
      snd (add_fragment key s header (part i) now r) = Inr (Some (concat (map part [0 ..< cnt])))"
proof -
  have r: "reassembler_ok r" "map_of (r_flows r) key = Some s" "fs_count s = of_nat cnt"
    "fs_parts s = map (\<lambda>i. (of_nat i, part i)) seen" "fs_created s = now"
    and bytes: "r_bytes r + int (length (part i)) + (\<Sum>i\<leftarrow>todo. int (length (part i))) \<le> r_maxBytes r"
    using pr by (simp_all add: progress_def)
  have s: "set_ok s" using r(1) map_of_SomeD [OF r(2)] by (auto simp: reassembler_ok_def)
  have small: "\<forall>j\<in>set (seen @ [i]). j < 2 ^ 16" "unat (of_nat cnt :: u16) = cnt"
    using ix by (auto simp: unat_of_nat)
  have absent: "map_of (fs_parts s) (dh_FragmentIndex header) = None"
    using map_of_parts [of seen i part] small(1) ix(2) hd r(4) by simp
  have less: "dh_FragmentIndex header < dh_FragmentCount header"
    using ix(1,3) hd by (simp add: word_less_nat_alt unat_of_nat)
  note st = stored_set_ok [OF s, of header "part i"]
  have parts: "fs_parts (stored_set s header (part i)) = map (\<lambda>i. (of_nat i, part i)) (seen @ [i])"
    using st(2) absent less hd r(3,4) by simp
  have sum: "0 \<le> (\<Sum>i\<leftarrow>todo. int (length (part i)))" by (rule sum_list_nonneg) auto
  have fits: "\<not> r_maxBytes r < r_bytes r + int (length (part i))" using bytes sum by linarith
  have not_bad: "add_fragment key s header (part i) now r \<noteq> (drop_flow key s r, Inl e)" for e
    using absent fits hd r(3) by (simp add: add_fragment_def Let_def split: option.split)
  show "\<exists>s' r'. add_fragment key s header (part i) now r = (r', Inr None)
      \<and> progress key cnt part now (seen @ [i]) todo s' r'" if "length seen + 1 < cnt"
    using s less
  proof (cases rule: add_fragment_cases [where key = key and payload = "part i" and now = now and r = r])
    case more
    have "reassembler_ok (stored key s header (part i) r)"
      using r more less by (intro stored_ok) auto
    then have "progress key cnt part now (seen @ [i]) todo (stored_set s header (part i)) (stored key s header (part i) r)"
      using r parts bytes by (simp add: progress_def stored_def update_conv') (simp add: stored_set_def)
    with more(1) show ?thesis by blast
  qed (use not_bad parts that r(3) small(2) in auto)
  show "snd (add_fragment key s header (part i) now r) = Inr (Some (concat (map part [0 ..< cnt])))"
    if "length seen + 1 = cnt" "distinct seen"
    using s less
  proof (cases rule: add_fragment_cases [where key = key and payload = "part i" and now = now and r = r])
    case complete
    have "set (seen @ [i]) = {0 ..< cnt}"
    proof (rule card_subset_eq)
      show "set (seen @ [i]) \<subseteq> {0 ..< cnt}" using ix by auto
      show "card (set (seen @ [i])) = card {0 ..< cnt}"
        using that ix(2) by (simp add: distinct_card)
    qed simp
    then have "the (map_of (fs_parts (stored_set s header (part i))) (of_nat j)) = part j" if "j < cnt" for j
      using that map_of_parts [OF small(1), of j part] ix(3) unfolding parts by auto
    then have "concat (map (\<lambda>j. the (map_of (fs_parts (stored_set s header (part i))) (of_nat j))) [0 ..< cnt]) =
        concat (map part [0 ..< cnt])"
      by (intro arg_cong [where f = concat]) simp
    with complete(1) r(3) small(2) show ?thesis by simp
  qed (use not_bad parts that r(3) small(2) in auto)
qed

lemma add_fragment_maxPayload: "r_maxPayload (fst (add_fragment key s header payload now r)) = r_maxPayload r"
  by (simp add: add_fragment_def Let_def drop_flow_def finish_flow_def split: option.split prod.split)

text \<open>A datagram of a known flow, and the first datagram of a new one.\<close>

lemma Add_continue:
  assumes "progress key cnt part now seen todo s r" "now \<noteq> 0"
    "DecodeDatagram bs (r_maxPayload r) = Inr (header, payload)" "key = (dh_FlowID header, dh_Sequence header)"
  shows "\<exists>s q. Add clock bs now r = add_fragment key s header payload now q
    \<and> progress key cnt part now seen todo s q \<and> r_maxPayload q = r_maxPayload r"
proof -
  note pr = progress_expire [OF assms(1)]
  have "Add clock bs now r = add_fragment key s header payload now (expireLocked now r)"
    unfolding Add_decoded [OF assms(3,2)] using progress_not_completed [OF pr] pr
    by (simp add: Let_def assms(4) progress_def)
  with pr expireLocked_flows(5) show ?thesis by blast
qed

definition waiting :: "flowKey \<Rightarrow> (nat \<Rightarrow> bytes) \<Rightarrow> nat list \<Rightarrow> Reassembler \<Rightarrow> bool" where
  "waiting key part todo r \<longleftrightarrow> reassembler_ok r \<and> key \<notin> fst ` set (r_flows r) \<and> key \<notin> fst ` set (r_completed r)
     \<and> int (length (r_flows r)) < r_maxFlows r \<and> r_bytes r + (\<Sum>i\<leftarrow>todo. int (length (part i))) \<le> r_maxBytes r"

lemma Add_begin:
  assumes w: "waiting key part todo r" and "now \<noteq> 0"
    and dec: "DecodeDatagram bs (r_maxPayload r) = Inr (header, payload)"
    and key: "key = (dh_FlowID header, dh_Sequence header)" and cnt: "dh_FragmentCount header = of_nat cnt"
  shows "\<exists>s q. Add clock bs now r = add_fragment key s header payload now q
    \<and> progress key cnt part now [] todo s q \<and> r_maxPayload q = r_maxPayload r"
proof -
  let ?e = "expireLocked now r"
  let ?q = "?e\<lparr>r_flows := AList.update key (new_set header now) (r_flows ?e)\<rparr>"
  have ok: "reassembler_ok r" using w by (simp add: waiting_def)
  have fl: "key \<notin> fst ` set (r_flows ?e)" "key \<notin> fst ` set (r_completed ?e)"
    using w expireLocked_completed(1) [OF ok, of now] by (auto simp: waiting_def expireLocked_flows rev_image_eqI)
  have room: "int (length (r_flows ?e)) < r_maxFlows ?e"
    using w int_length_filter_le [of "r_flows r" "r_maxFlows r - 1"] by (simp add: waiting_def expireLocked_flows)
  have "validateDatagramHeader header = None" using DecodeDatagram_bytes(2) [OF dec] .
  with fl room have q: "reassembler_ok ?q" using expireLocked_ok [OF ok] by (intro open_flow_ok)
  have "Add clock bs now r = add_fragment key (new_set header now) header payload now ?q"
    unfolding Add_decoded [OF dec assms(2)] using fl room by (simp add: Let_def key map_of_notin)
  moreover have "progress key cnt part now [] todo (new_set header now) ?q"
    using q w expireLocked_bytes(2) [OF ok, of now] cnt
    by (simp add: progress_def update_conv' expireLocked_flows waiting_def) (simp add: new_set_def)
  moreover have "r_maxPayload ?q = r_maxPayload r" by (simp add: expireLocked_flows)
  ultimately show ?thesis by blast
qed


lemma add_all_progress:
  assumes ix: "distinct (seen @ todo)" "set (seen @ todo) = {0 ..< cnt}" "todo \<noteq> []" "cnt \<le> maxDatagramFragments"
    and now: "now \<noteq> 0"
    and dec: "\<forall>i<cnt. DecodeDatagram (frame i) (r_maxPayload r) = Inr (fragment_header (fst key) (snd key) cnt i, part i)"
    and ready: "(\<exists>s. progress key cnt part now seen todo s r) \<or> seen = [] \<and> waiting key part todo r"
  shows "snd (add_all clock now r (map frame todo)) =
    replicate (length todo - 1) (Inr None) @ [Inr (Some (concat (map part [0 ..< cnt])))]"
  using ix(1-3) dec ready
proof (induction todo arbitrary: seen r)
  case (Cons i todo)
  let ?h = "fragment_header (fst key) (snd key) cnt i"
  have i: "i < cnt" "i \<notin> set seen" "\<forall>j\<in>set seen. j < cnt" using Cons.prems(1,2) by auto
  have decode: "DecodeDatagram (frame i) (r_maxPayload r) = Inr (?h, part i)" using Cons.prems(4) i(1) by simp
  have h: "key = (dh_FlowID ?h, dh_Sequence ?h)" "dh_FragmentCount ?h = of_nat cnt" "dh_FragmentIndex ?h = of_nat i"
    by (simp_all add: fragment_header_def)
  obtain s q where add: "Add clock (frame i) now r = add_fragment key s ?h (part i) now q"
    and pr: "progress key cnt part now seen (i # todo) s q" and mp: "r_maxPayload q = r_maxPayload r"
    using Cons.prems(5) Add_continue [OF _ now decode h(1)] Add_begin [OF _ now decode h(1,2)] by blast
  note step = progress_add [OF pr i(1,2) ix(4) i(3) h(3,2)]
  have len: "length seen + Suc (length todo) = cnt"
    using Cons.prems(1,2) by (metis card_atLeastLessThan diff_zero distinct_card length_append length_Cons)
  show ?case
  proof (cases todo)
    case Nil
    have "snd (add_fragment key s ?h (part i) now q) = Inr (Some (concat (map part [0 ..< cnt])))"
      using step(2) len Nil Cons.prems(1) by simp
    with add Nil show ?thesis by (simp add: Let_def case_prod_unfold)
  next
    case rest: (Cons k ks)
    then have "length seen + 1 < cnt" using len by simp
    from step(1) [OF this] obtain s' r' where r': "add_fragment key s ?h (part i) now q = (r', Inr None)"
      "progress key cnt part now (seen @ [i]) todo s' r'" by blast
    have "r_maxPayload r' = r_maxPayload r" using add_fragment_maxPayload [of key s ?h "part i" now q] r'(1) mp by simp
    then have "snd (add_all clock now r' (map frame todo)) =
        replicate (length todo - 1) (Inr None) @ [Inr (Some (concat (map part [0 ..< cnt])))]"
      using Cons.IH [of "seen @ [i]" r'] Cons.prems(1,2,4) r'(2) rest by auto
    with add r'(1) rest show ?thesis by (simp add: Let_def case_prod_unfold del: add_all.simps(2))
      (simp add: Let_def case_prod_unfold)
  qed
qed simp


lemma sum_list_int: "(\<Sum>i\<leftarrow>xs. int (f i)) = int (\<Sum>i\<leftarrow>xs. f i)"
  by (induction xs) auto

lemma mset_map_perm: "mset ys = mset (map f xs) \<Longrightarrow> \<exists>zs. ys = map f zs \<and> mset zs = mset xs"
proof (induction ys arbitrary: xs)
  case (Cons y ys)
  from Cons.prems have "y \<in> set (map f xs)" by (metis list.set_intros(1) mset_eq_setD)
  then obtain a x b where x: "xs = a @ x # b" "y = f x" by (auto dest: split_list)
  with Cons.prems have "mset ys = mset (map f (a @ b))" by simp
  from Cons.IH [OF this] obtain zs where "ys = map f zs" "mset zs = mset (a @ b)" by blast
  with x show ?case by (intro exI [of _ "x # zs"]) simp
qed simp



definition sample_reassembler :: Reassembler where
  "sample_reassembler = \<lparr>r_flows = [], r_completed = [], r_completedOrder = [], r_maxFlows = 4,
     r_maxBytes = 1000, r_maxPayload = 100, r_timeout = 5, r_bytes = 0\<rparr>"

lemma sample_reassembler_ok: "reassembler_ok sample_reassembler"
  by (simp add: sample_reassembler_def reassembler_ok_def memory_ok_def heap_order_def)



end
