(* ===== verification/Afdp_Session.thy ===== *)
theory Afdp_Session
  imports Afdp_Control Afdp_Reassembly Admission
begin

text \<open>
  \<^verbatim>\<open>internal/afdp/session.go\<close>: the handshake of an AFDP session, its stream reservations and
  its datagrams. The QUIC connection belongs to a third-party package: a record of what it
  returns (the errors of opening and accepting the control stream, the bytes that arrive on it,
  the peer certificates) and step functions for writing are arguments of the definitions.
\<close>

section \<open>State\<close>

record SessionOptions =
  so_MaxFrame :: int
  so_MaxDatagram :: int
  so_MaxStreams :: int
  so_ReassemblyFlow :: int
  so_ReassemblyByte :: int
  so_ReassemblyTTL :: duration
  so_Capabilities :: "string list"
  so_ExpectedPeerID :: string

record Session =
  se_assignment :: AssignmentView
  se_maxFrame :: int
  se_maxDatagram :: int
  se_maxStreams :: int
  se_opened :: int
  se_closed :: bool
  se_capabilities :: "string list"

text \<open>A peer certificate: common name and the scheme, host and path of its URIs.\<close>

record certificate =
  ct_CommonName :: string
  ct_URIs :: "(string \<times> string \<times> string) list"

text \<open>\<open>cn_state\<close> is \<open>None\<close> for a transport that does not expose a TLS state.\<close>

record conn =
  cn_open :: check
  cn_accept :: check
  cn_incoming :: bytes
  cn_state :: "certificate list option"

section \<open>Limits and identity\<close>

definition limits :: "SessionOptions \<Rightarrow> int \<times> int \<times> int \<times> int \<times> int \<times> duration" where
  "limits opts =
     (let frame = (if so_MaxFrame opts \<le> 0 then maxSessionFrame else so_MaxFrame opts);
          frame = (if frame > maxSessionFrame then maxSessionFrame else frame);
          datagram = (if so_MaxDatagram opts \<le> int datagramHeaderBytes then 1200 else so_MaxDatagram opts);
          datagram = (if datagram > 65536 then 65536 else datagram);
          streams = (if so_MaxStreams opts \<le> 0 then 256 else so_MaxStreams opts);
          streams = (if streams > 2 ^ 20 then 2 ^ 20 else streams);
          flows = (if so_ReassemblyFlow opts \<le> 0 then 256 else so_ReassemblyFlow opts);
          bytes = (if so_ReassemblyByte opts \<le> 0 then 8 * 2 ^ 20 else so_ReassemblyByte opts);
          timeout = (if so_ReassemblyTTL opts \<le> 0 then 30 * second else so_ReassemblyTTL opts)
      in (frame, datagram, streams, flows, bytes, timeout))"

definition NodeIdentityURI :: "string \<Rightarrow> string \<times> string \<times> string" where
  "NodeIdentityURI i = (''spiffe'', ''asterferry'', ''/node/'' @ i)"

definition authorizePeerIdentity :: "conn \<Rightarrow> string \<Rightarrow> check" where
  "authorizePeerIdentity c agentID =
     (case cn_state c of
        None \<Rightarrow> None
      | Some [] \<Rightarrow> Some (ErrNew ''AFDP peer certificate is missing'')
      | Some (cert # _) \<Rightarrow>
          if ct_CommonName cert = agentID then None
          else if list_ex (\<lambda>(scheme, host, path).
              (scheme, host, trim_suffix path ''/'') = NodeIdentityURI agentID) (ct_URIs cert) then None
          else Some (ErrNew ''AFDP peer certificate identity does not match agent''))"

section \<open>Handshake\<close>

definition ClientSession ::
  "'w writer \<Rightarrow> (SessionHello \<Rightarrow> bytes result) \<Rightarrow> (SessionAccept \<Rightarrow> bytes result) \<Rightarrow>
   (bytes \<Rightarrow> (SessionAccept \<times> bytes) option) \<Rightarrow> 'w \<Rightarrow> conn \<Rightarrow> SessionHello \<Rightarrow> SessionOptions \<Rightarrow>
   'w \<times> Session result" where
  "ClientSession write mar_h mar_a unm_a w c hello opts =
     (let expected = trim_space (so_ExpectedPeerID opts);
          (maxFrame, maxDatagram, maxStreams, _, _, _) = limits opts
      in case and_then (if expected = [] then None else authorizePeerIdentity c expected) (cn_open c) of
          Some e \<Rightarrow> (w, Inl e)
        | None \<Rightarrow>
            (case writeControlFrame write (EncodeSessionHello mar_h) w hello maxFrame of
               (w', Some e) \<Rightarrow> (w', Inl e)
             | (w', None) \<Rightarrow>
                 (w', bind_result (ReadSessionAccept mar_a unm_a (cn_incoming c) maxFrame) (\<lambda>(accept, _).
                    if sa_AssignmentID accept \<noteq> sh_AssignmentID hello \<or> sa_Generation accept \<noteq> sh_Generation hello then
                      Inl ErrUnauthorizedAgent
                    else let negotiated = NegotiateCapabilities (sh_Capabilities hello) (sa_Capabilities accept)
                      in if length negotiated \<noteq> length (sa_Capabilities accept) then
                           Inl (ErrWrap '': session accept contains capabilities not offered by the client''
                             ErrProtocolViolation)
                         else Inr \<lparr>se_assignment = \<lparr>av_ID = sa_AssignmentID accept, av_AgentID = sh_AgentID hello,
                             av_Generation = sa_Generation accept, av_State = [],
                             av_ServiceIDs = remdups (sa_ServiceIDs accept), av_MaxStreams = maxStreams\<rparr>,
                           se_maxFrame = maxFrame, se_maxDatagram = maxDatagram, se_maxStreams = maxStreams,
                           se_opened = 0, se_closed = False, se_capabilities = negotiated\<rparr>))))"

text \<open>The assignment look-up of \<^verbatim>\<open>ServerSessionWithLookup\<close>.\<close>

definition lookup_resolve :: "(SessionHello \<Rightarrow> AssignmentView option) \<Rightarrow> SessionHello \<Rightarrow> AssignmentView result" where
  "lookup_resolve lookup hello =
     (case lookup hello of
        None \<Rightarrow> Inl ErrUnauthorizedAgent
      | Some a \<Rightarrow> check_then (AuthorizeSession hello a) (Inr a))"

definition serverSession ::
  "'w writer \<Rightarrow> (SessionHello \<Rightarrow> bytes result) \<Rightarrow> (bytes \<Rightarrow> (SessionHello \<times> bytes) option) \<Rightarrow>
   (SessionAccept \<Rightarrow> bytes result) \<Rightarrow> 'w \<Rightarrow> conn \<Rightarrow> (SessionHello \<Rightarrow> AssignmentView result) \<Rightarrow> SessionOptions \<Rightarrow>
   'w \<times> Session result" where
  "serverSession write mar_h unm_h mar_a w c resolve opts =
     (let (maxFrame, maxDatagram, maxStreams, _, _, _) = limits opts
      in case check_then (cn_accept c)
            (bind_result (ReadSessionHello mar_h unm_h (cn_incoming c) maxFrame) (\<lambda>(hello, _).
             bind_result (resolve hello) (\<lambda>a.
             check_then (authorizePeerIdentity c (sh_AgentID hello)) (Inr (hello, a))))) of
          Inl e \<Rightarrow> (w, Inl e)
        | Inr (hello, a) \<Rightarrow>
            let accept = \<lparr>sa_AssignmentID = av_ID a, sa_Generation = av_Generation a,
                  sa_Capabilities = NegotiateCapabilities (so_Capabilities opts) (sh_Capabilities hello),
                  sa_ServiceIDs = av_ServiceIDs a\<rparr>
            in case writeControlFrame write (EncodeSessionAccept mar_a) w accept maxFrame of
                (w', Some e) \<Rightarrow> (w', Inl e)
              | (w', None) \<Rightarrow>
                  (w', Inr \<lparr>se_assignment = a, se_maxFrame = maxFrame, se_maxDatagram = maxDatagram,
                    se_maxStreams = (if av_MaxStreams a > 0 \<and> av_MaxStreams a < maxStreams then av_MaxStreams a
                      else maxStreams),
                    se_opened = 0, se_closed = False, se_capabilities = sa_Capabilities accept\<rparr>))"

definition ServerSessionWithLookup ::
  "'w writer \<Rightarrow> (SessionHello \<Rightarrow> bytes result) \<Rightarrow> (bytes \<Rightarrow> (SessionHello \<times> bytes) option) \<Rightarrow>
   (SessionAccept \<Rightarrow> bytes result) \<Rightarrow> 'w \<Rightarrow> conn \<Rightarrow> (SessionHello \<Rightarrow> AssignmentView option) \<Rightarrow> SessionOptions \<Rightarrow>
   'w \<times> Session result" where
  "ServerSessionWithLookup write mar_h unm_h mar_a w c lookup opts =
     serverSession write mar_h unm_h mar_a w c (lookup_resolve lookup) opts"

section \<open>Streams\<close>

text \<open>One successful pass through the compare-and-swap loop of each operation.\<close>

definition reserveStream :: "Session \<Rightarrow> Session option" where
  "reserveStream s = (if se_opened s \<ge> se_maxStreams s then None else Some (s\<lparr>se_opened := se_opened s + 1\<rparr>))"

definition releaseStream :: "Session \<Rightarrow> Session" where
  "releaseStream s = (if se_opened s \<le> 0 then s else s\<lparr>se_opened := se_opened s - 1\<rparr>)"

definition ActiveStreams :: "Session \<Rightarrow> int" where
  "ActiveStreams s = se_opened s"

abbreviation "session_closed \<equiv> ErrNew ''AFDP session is closed''"
abbreviation "stream_limit \<equiv> ErrWrap '': AFDP stream limit reached'' ErrTransient"

text \<open>\<open>opened\<close> is the error of \<^verbatim>\<open>conn.OpenStreamSync\<close> and \<open>w\<close> the new stream.\<close>

definition OpenStream ::
  "'w writer \<Rightarrow> (OpenMetadata \<Rightarrow> bytes result) \<Rightarrow> check \<Rightarrow> 'w \<Rightarrow> OpenMetadata \<Rightarrow> Session \<Rightarrow>
   Session \<times> 'w result" where
  "OpenStream write mar opened w metadata s =
     (if se_closed s then (s, Inl session_closed)
      else case AuthorizeOpen metadata (se_assignment s) of
          Some e \<Rightarrow> (s, Inl e)
        | None \<Rightarrow>
            (case reserveStream s of
               None \<Rightarrow> (s, Inl stream_limit)
             | Some s' \<Rightarrow>
                 (case opened of
                    Some e \<Rightarrow> (releaseStream s', Inl e)
                  | None \<Rightarrow>
                      (case WriteOpen write mar w metadata (se_maxFrame s) of
                         (w', Some e) \<Rightarrow> (releaseStream s', Inl e)
                       | (w', None) \<Rightarrow> (s', Inr w')))))"

text \<open>\<open>accepted\<close> is what \<^verbatim>\<open>conn.AcceptStream\<close> returns: the bytes of the stream or an error.\<close>

definition AcceptStream ::
  "(OpenMetadata \<Rightarrow> bytes result) \<Rightarrow> (bytes \<Rightarrow> (OpenMetadata \<times> bytes) option) \<Rightarrow> bytes result \<Rightarrow> Session \<Rightarrow>
   Session \<times> (bytes \<times> OpenMetadata) result" where
  "AcceptStream mar unm accepted s =
     (if se_closed s then (s, Inl session_closed)
      else case accepted of
          Inl e \<Rightarrow> (s, Inl e)
        | Inr stream \<Rightarrow>
            (case reserveStream s of
               None \<Rightarrow> (s, Inl stream_limit)
             | Some s' \<Rightarrow>
                 (case ReadOpen mar unm stream (se_maxFrame s) of
                    Inl e \<Rightarrow> (releaseStream s', Inl (ErrWrap2 ErrProtocolViolation e))
                  | Inr (metadata, rest) \<Rightarrow>
                      (case AuthorizeOpen metadata (se_assignment s) of
                         Some e \<Rightarrow> (releaseStream s', Inl (ErrWrap2 ErrUnauthorizedOpen e))
                       | None \<Rightarrow> (s', Inr (rest, metadata))))))"

text \<open>\<^verbatim>\<open>Close\<close>: idempotent; the second component tells whether the connection is closed now.\<close>

definition Close :: "Session \<Rightarrow> Session \<times> bool" where
  "Close s = (if se_closed s then (s, False) else (s\<lparr>se_closed := True, se_opened := 0\<rparr>, True))"

section \<open>Datagrams\<close>

fun send_all :: "('c \<Rightarrow> bytes \<Rightarrow> 'c \<times> check) \<Rightarrow> 'c \<Rightarrow> bytes list \<Rightarrow> 'c \<times> check" where
  "send_all send c [] = (c, None)"
| "send_all send c (f # fs) =
     (case send c f of (c', Some e) \<Rightarrow> (c', Some e) | (c', None) \<Rightarrow> send_all send c' fs)"

definition SendDatagram ::
  "('c \<Rightarrow> bytes \<Rightarrow> 'c \<times> check) \<Rightarrow> 'c \<Rightarrow> u64 \<Rightarrow> u32 \<Rightarrow> bytes \<Rightarrow> int \<Rightarrow> Session \<Rightarrow> 'c \<times> check" where
  "SendDatagram send c flowID sq payload mtu s =
     (if se_closed s then (c, Some session_closed)
      else case Fragments flowID sq payload (if mtu \<le> 0 \<or> mtu > se_maxDatagram s then se_maxDatagram s else mtu) of
          Inl e \<Rightarrow> (c, Some e)
        | Inr frames \<Rightarrow> send_all send c frames)"

text \<open>
  \<^verbatim>\<open>ReceiveDatagramPacket\<close> loops until a payload is complete: \<open>incoming\<close> lists the datagrams in
  order of arrival with the time of their arrival, and an exhausted list is the error of a
  connection that ends.
\<close>

fun ReceiveDatagramPacket ::
  "Session \<Rightarrow> Reassembler \<Rightarrow> (time \<times> bytes) list \<Rightarrow>
   Reassembler \<times> (time \<times> bytes) list \<times> (DatagramHeader \<times> bytes) result" where
  "ReceiveDatagramPacket s r incoming =
     (if se_closed s then (r, incoming, Inl session_closed)
      else case incoming of
          [] \<Rightarrow> (r, [], Inl (ErrStd ''quic.ReceiveDatagram''))
        | (now, bs) # rest \<Rightarrow>
            (case DecodeDatagram bs (se_maxDatagram s - int datagramHeaderBytes) of
               Inl e \<Rightarrow> (r, rest, Inl e)
             | Inr (header, _) \<Rightarrow>
                 (case Add now bs now r of
                    (r', Inl e) \<Rightarrow> (r', rest, Inl e)
                  | (r', Inr (Some payload)) \<Rightarrow> (r', rest, Inr (header, payload))
                  | (r', Inr None) \<Rightarrow> ReceiveDatagramPacket s r' rest)))"

declare ReceiveDatagramPacket.simps [simp del]

section \<open>Stream reservations\<close>

interpretation streams: admission se_opened se_maxStreams reserveStream releaseStream
  by unfold_locales (auto simp: reserveStream_def releaseStream_def split: if_splits)

lemma OpenStream_count:
  assumes "0 \<le> se_opened s" "OpenStream wr mar opened w m s = (s', res)"
  shows "se_opened s' = se_opened s + (case res of Inl _ \<Rightarrow> 0 | Inr _ \<Rightarrow> 1)" "se_maxStreams s' = se_maxStreams s"
    "se_opened s \<le> se_maxStreams s \<Longrightarrow> se_opened s' \<le> se_maxStreams s'"
  using assms streams.reserve_taken [of s] streams.reserve_release [of s] streams.release_cap
    streams.reserve_refused [of s]
  by (auto simp: OpenStream_def split: if_splits option.splits prod.splits)

lemma AcceptStream_count:
  assumes "0 \<le> se_opened s" "AcceptStream mar unm accepted s = (s', res)"
  shows "se_opened s' = se_opened s + (case res of Inl _ \<Rightarrow> 0 | Inr _ \<Rightarrow> 1)" "se_maxStreams s' = se_maxStreams s"
    "se_opened s \<le> se_maxStreams s \<Longrightarrow> se_opened s' \<le> se_maxStreams s'"
  using assms streams.reserve_taken [of s] streams.reserve_release [of s] streams.release_cap
    streams.reserve_refused [of s]
  by (auto simp: AcceptStream_def split: if_splits option.splits prod.splits sum.splits)

text \<open>Everything that can happen to the counter of a session, one atomic step at a time.\<close>

inductive session_step :: "Session \<Rightarrow> Session \<Rightarrow> bool" where
  step_open: "session_step s (fst (OpenStream (wr :: bytes writer) mar opened w m s))"
| step_accept: "session_step s (fst (AcceptStream mar unm accepted s))"
| step_release: "session_step s (releaseStream s)"
| step_close: "session_step s (fst (Close s))"

inductive_cases session_stepE: "session_step s t"

definition streams_ok :: "Session \<Rightarrow> bool" where
  "streams_ok s \<longleftrightarrow> 0 \<le> ActiveStreams s \<and> ActiveStreams s \<le> se_maxStreams s"

lemma session_step_ok:
  assumes "session_step s t" "streams_ok s"
  shows "streams_ok t \<and> se_maxStreams t = se_maxStreams s"
  using assms(1)
proof cases
  case (step_open wr mar opened w m)
  obtain u res where e: "OpenStream wr mar opened w m s = (u, res)" by fastforce
  with step_open assms(2) OpenStream_count [OF _ e] show ?thesis
    by (auto simp: streams_ok_def ActiveStreams_def split: sum.splits)
next
  case (step_accept mar unm accepted)
  obtain u res where e: "AcceptStream mar unm accepted s = (u, res)" by fastforce
  with step_accept assms(2) AcceptStream_count [OF _ e] show ?thesis
    by (auto simp: streams_ok_def ActiveStreams_def split: sum.splits)
next
  case step_release
  with assms(2) show ?thesis by (auto simp: streams_ok_def ActiveStreams_def releaseStream_def)
next
  case step_close
  with assms(2) show ?thesis by (auto simp: streams_ok_def ActiveStreams_def Close_def)
qed

text \<open>
  Over any history of opened, accepted, released and closed streams, failures included, a
  session never counts more streams than its limit nor fewer than none, and the limit never
  moves.
\<close>

theorem session_streams_bounded:
  assumes "session_step\<^sup>*\<^sup>* s t" and "streams_ok s"
  shows "0 \<le> ActiveStreams t \<and> ActiveStreams t \<le> se_maxStreams s"
proof -
  have "streams_ok t \<and> se_maxStreams t = se_maxStreams s"
    using assms by (induction rule: rtranclp_induct) (auto dest: session_step_ok)
  then show ?thesis by (simp add: streams_ok_def)
qed

definition sample_session :: Session where
  "sample_session = \<lparr>se_assignment = \<lparr>av_ID = ''a1'', av_AgentID = ''ag'', av_Generation = 4, av_State = ''applied'',
     av_ServiceIDs = [''web''], av_MaxStreams = 2\<rparr>, se_maxFrame = 4096, se_maxDatagram = 1200, se_maxStreams = 2,
     se_opened = 1, se_closed = False, se_capabilities = []\<rparr>"

theorem session_streams_bounded_witness:
  "0 \<le> ActiveStreams (releaseStream (releaseStream sample_session))
   \<and> ActiveStreams (releaseStream (releaseStream sample_session)) \<le> 2"
proof -
  have "session_step\<^sup>*\<^sup>* sample_session (releaseStream (releaseStream sample_session))"
    by (rule converse_rtranclp_into_rtranclp [where r = session_step], rule step_release,
        rule r_into_rtranclp, rule step_release)
  moreover have "streams_ok sample_session" by (simp add: streams_ok_def ActiveStreams_def sample_session_def)
  ultimately have "0 \<le> ActiveStreams (releaseStream (releaseStream sample_session))
      \<and> ActiveStreams (releaseStream (releaseStream sample_session)) \<le> se_maxStreams sample_session"
    by (rule session_streams_bounded)
  then show ?thesis by (simp add: sample_session_def)
qed

section \<open>The handshake\<close>

definition canonical_accept :: "SessionAccept \<Rightarrow> SessionAccept" where
  "canonical_accept v = v\<lparr>sa_Capabilities := CanonicalCapabilities (sa_Capabilities v),
     sa_ServiceIDs := CanonicalServiceIDs (sa_ServiceIDs v)\<rparr>"

lemma validateSessionAccept_canonical [simp]:
  "validateSessionAccept (canonical_accept v) = None \<longleftrightarrow> validateSessionAccept v = None"
  by (simp add: validateSessionAccept_def canonical_accept_def unique_check_None CanonicalCapabilities_def
      CanonicalServiceIDs_def)

lemma DecodeSessionAccept_Encode:
  assumes "EncodeSessionAccept mar v mx = Inr bs" "proto_roundtrip mar unm"
  shows "DecodeSessionAccept mar unm bs mx = Inr (canonical_accept v)"
proof -
  have v: "validateSessionAccept v = None" and e: "encodeControl mar SessionAcceptKind (canonical_accept v) mx = Inr bs"
    using assms(1) by (simp_all add: EncodeSessionAccept_def canonical_accept_def)
  have "EncodeSessionAccept mar (canonical_accept v) mx = Inr bs"
    using e v by (simp add: EncodeSessionAccept_def)
      (simp add: canonical_accept_def CanonicalCapabilities_def CanonicalServiceIDs_def)
  with v decode_control_bytes [OF e assms(2)] show ?thesis
    by (simp add: DecodeSessionAccept_def)
qed

lemma writeControlFrame_None:
  "writeControlFrame wr encode w v mx = (w', None) \<Longrightarrow> \<exists>f. encode v mx = Inr f"
  by (auto simp: writeControlFrame_def split: sum.splits)

text \<open>The capabilities a server accepts are accepted unchanged by the client that offered them.\<close>

lemma negotiate_twice:
  assumes "caps = NegotiateCapabilities srv (CanonicalCapabilities cli)"
  shows "NegotiateCapabilities cli caps = caps"
proof (rule sorted_distinct_set_unique)
  have s: "set caps = set (if srv = [] then defaultCapabilities else srv) \<inter> set cli"
    unfolding assms negotiated_caps by (simp add: CanonicalCapabilities_def)
  have "set caps \<subseteq> set (if cli = [] then defaultCapabilities else cli)" using s by auto
  then show "set (NegotiateCapabilities cli caps) = set caps" unfolding negotiated_caps by blast
qed (simp_all add: negotiated_caps assms)


definition sample_options :: SessionOptions where
  "sample_options = \<lparr>so_MaxFrame = 0, so_MaxDatagram = 0, so_MaxStreams = 0, so_ReassemblyFlow = 0,
     so_ReassemblyByte = 0, so_ReassemblyTTL = 0, so_Capabilities = [''tcp'', ''udp''], so_ExpectedPeerID = []\<rparr>"

definition sample_accept :: SessionAccept where
  "sample_accept = \<lparr>sa_AssignmentID = ''a1'', sa_Generation = 4, sa_Capabilities = [''tcp''], sa_ServiceIDs = [''web'']\<rparr>"

definition sample_conn :: conn where
  "sample_conn = \<lparr>cn_open = None, cn_accept = None, cn_incoming = [], cn_state = None\<rparr>"

lemma sample_wire_ids: "validWireID ''a1'' 128" "validWireID ''ag'' 128" "validWireID ''web'' 128"
  by (simp_all add: validWireID_def ValidateID_def trim_space_graphic id_char_def id_punct_def char_class_defs)

lemma sample_server:
  assumes "EncodeSessionHello (one_message sample_hello) sample_hello maxSessionFrame = Inr f"
  shows "\<exists>w' srv. ServerSessionWithLookup byte_writer (one_message sample_hello) (\<lambda>b. Some (sample_hello, []))
    (one_message sample_accept) [] (sample_conn\<lparr>cn_incoming := length_prefix f @ f\<rparr>)
    (\<lambda>h. Some (se_assignment sample_session)) sample_options = (w', Inr srv)"
proof -
  have c: "canonical_hello sample_hello = sample_hello"
    by (simp add: canonical_hello_def sample_hello_def CanonicalCapabilities_def)
  have r: "ReadSessionHello (one_message sample_hello) (\<lambda>b. Some (sample_hello, [])) (length_prefix f @ f) maxSessionFrame =
      Inr (sample_hello, [])"
    using hello.read_frame [OF assms, of "[]"] DecodeSessionHello_Encode [OF assms one_message_roundtrip]
    by (simp add: ReadSessionHello_def c)
  have v: "lookup_resolve (\<lambda>h. Some (se_assignment sample_session)) sample_hello = Inr (se_assignment sample_session)"
    by (simp add: lookup_resolve_def AuthorizeSession_def sample_hello_def sample_session_def validateSession_def
        sample_wire_ids maxSessionCapabilities_def bad_capability_def contains_any_def placement_inactive_def)
  have n: "NegotiateCapabilities [''tcp'', ''udp''] [''tcp''] = [''tcp'']"
    by (simp add: NegotiateCapabilities_def CanonicalCapabilities_def)
  have "\<exists>fa. EncodeSessionAccept (one_message sample_accept) sample_accept maxSessionFrame = Inr fa"
    by (simp add: EncodeSessionAccept_def encodeControl_Inr validateSessionAccept_def sample_accept_def one_message_def
        sample_wire_ids maxSessionCapabilities_def maxSessionServiceIDs_def bad_capability_def contains_any_def
        CanonicalCapabilities_def CanonicalServiceIDs_def normalizeFrameLimit_def maxSessionFrame_def)
  then obtain fa where fa: "EncodeSessionAccept (one_message sample_accept) sample_accept maxSessionFrame = Inr fa" by blast
  obtain w' where "writeControlFrame byte_writer (EncodeSessionAccept (one_message sample_accept)) [] sample_accept maxSessionFrame = (w', None)"
    using write_control_frame [where encode = "EncodeSessionAccept (one_message sample_accept)", OF fa
      accept.frame_length_word(2) [OF fa] byte_writer_appends] by blast
  then show ?thesis
    using r v n
    by (simp add: ServerSessionWithLookup_def serverSession_def limits_def sample_options_def sample_conn_def
        authorizePeerIdentity_def)
      (simp add: sample_session_def sample_accept_def sample_hello_def)
qed


section \<open>The compare-and-swap loops, interleaved\<close>

text \<open>
  \<^verbatim>\<open>reserveStream\<close> and \<^verbatim>\<open>releaseStream\<close> are lock-free loops: load the counter, decide, swap if
  unchanged. Here any number of goroutines run them step by step in any interleaving. \<open>Held\<close> is
  a goroutine that owns a reservation.
\<close>

datatype cas_pc = Idle | RTry | RLoaded int | Held | LTry | LLoaded int

record cas_state =
  cas_opened :: int
  cas_pc :: "nat \<Rightarrow> cas_pc"

definition goto :: "nat \<Rightarrow> cas_pc \<Rightarrow> cas_state \<Rightarrow> cas_state" where
  "goto t pc s = s\<lparr>cas_pc := (cas_pc s)(t := pc)\<rparr>"

inductive cas_step :: "int \<Rightarrow> cas_state \<Rightarrow> cas_state \<Rightarrow> bool" for maxStreams where
  reserve_call: "cas_pc s t = Idle \<Longrightarrow> cas_step maxStreams s (goto t RTry s)"
| reserve_full: "cas_pc s t = RTry \<Longrightarrow> cas_opened s \<ge> maxStreams \<Longrightarrow> cas_step maxStreams s (goto t Idle s)"
| reserve_load: "cas_pc s t = RTry \<Longrightarrow> cas_opened s < maxStreams \<Longrightarrow>
    cas_step maxStreams s (goto t (RLoaded (cas_opened s)) s)"
| reserve_swap: "cas_pc s t = RLoaded c \<Longrightarrow> cas_opened s = c \<Longrightarrow>
    cas_step maxStreams s (goto t Held (s\<lparr>cas_opened := c + 1\<rparr>))"
| reserve_lost: "cas_pc s t = RLoaded c \<Longrightarrow> cas_opened s \<noteq> c \<Longrightarrow> cas_step maxStreams s (goto t RTry s)"
| release_call: "cas_pc s t = Held \<Longrightarrow> cas_step maxStreams s (goto t LTry s)"
| release_zero: "cas_pc s t = LTry \<Longrightarrow> cas_opened s \<le> 0 \<Longrightarrow> cas_step maxStreams s (goto t Idle s)"
| release_load: "cas_pc s t = LTry \<Longrightarrow> cas_opened s > 0 \<Longrightarrow>
    cas_step maxStreams s (goto t (LLoaded (cas_opened s)) s)"
| release_swap: "cas_pc s t = LLoaded c \<Longrightarrow> cas_opened s = c \<Longrightarrow>
    cas_step maxStreams s (goto t Idle (s\<lparr>cas_opened := c - 1\<rparr>))"
| release_lost: "cas_pc s t = LLoaded c \<Longrightarrow> cas_opened s \<noteq> c \<Longrightarrow> cas_step maxStreams s (goto t LTry s)"

fun owns :: "cas_pc \<Rightarrow> bool" where
  "owns Held = True"
| "owns LTry = True"
| "owns (LLoaded c) = True"
| "owns _ = False"

definition owners_of :: "cas_state \<Rightarrow> nat set" where
  "owners_of s = {t. owns (cas_pc s t)}"

text \<open>
  The counter is the number of owners; a loaded value that is about to be raised is below the
  limit, and one that is about to be lowered is positive.
\<close>

definition cas_ok :: "int \<Rightarrow> cas_state \<Rightarrow> bool" where
  "cas_ok maxStreams s \<longleftrightarrow> finite (owners_of s) \<and> cas_opened s = int (card (owners_of s))
     \<and> cas_opened s \<le> maxStreams \<and> (\<forall>t c. cas_pc s t = RLoaded c \<longrightarrow> c < maxStreams)"

lemma owners_goto:
  "owners_of (goto t pc s) = (if owns pc then insert t (owners_of s) else owners_of s - {t})"
  by (auto simp: owners_of_def goto_def)

lemma owners_upd [simp]: "owners_of (s\<lparr>cas_opened := n\<rparr>) = owners_of s"
  by (simp add: owners_of_def)

lemma owners_mem: "t \<in> owners_of s \<longleftrightarrow> owns (cas_pc s t)"
  by (simp add: owners_of_def)

lemma goto_fields: "cas_opened (goto t pc s) = cas_opened s"
  "cas_pc (goto t pc s) u = (if u = t then pc else cas_pc s u)"
  by (simp_all add: goto_def)

lemma cas_step_ok:
  assumes "cas_step maxStreams s s'" "cas_ok maxStreams s"
  shows "cas_ok maxStreams s'"
  using assms(1)
proof cases
  case (release_zero t)
  then have "t \<in> owners_of s" by (simp add: owners_mem)
  with assms(2) have "0 < card (owners_of s)" by (auto simp: cas_ok_def card_gt_0_iff)
  with assms(2) release_zero show ?thesis by (simp add: cas_ok_def)
next
  case (reserve_swap t c)
  then have "t \<notin> owners_of s" "c < maxStreams" using assms(2) by (auto simp: owners_mem cas_ok_def)
  moreover have "finite (owners_of s)" "c = int (card (owners_of s))"
    "\<forall>u d. cas_pc s u = RLoaded d \<longrightarrow> d < maxStreams"
    using assms(2) reserve_swap(3) by (auto simp: cas_ok_def)
  ultimately show ?thesis unfolding reserve_swap(1) by (simp add: cas_ok_def owners_goto goto_fields)
next
  case (release_swap t c)
  then have t: "t \<in> owners_of s" by (simp add: owners_mem)
  then have "card (owners_of s) = Suc (card (owners_of s - {t}))"
    using assms(2) by (intro card.remove) (auto simp: cas_ok_def)
  with assms(2) release_swap show ?thesis by (auto simp: cas_ok_def owners_goto goto_fields)
qed (use assms(2) in \<open>auto simp: cas_ok_def owners_goto goto_fields owners_mem insert_absorb split: if_splits\<close>)

text \<open>
  C8. However the goroutines interleave inside their compare-and-swap loops, the counter is
  exactly the number of goroutines that own a reservation, and never more than the limit own
  one at the same time.
\<close>

theorem cas_reservations_exact:
  assumes "(cas_step maxStreams)\<^sup>*\<^sup>* \<lparr>cas_opened = 0, cas_pc = (\<lambda>t. Idle)\<rparr> s" and "0 \<le> maxStreams"
  shows "finite (owners_of s) \<and> cas_opened s = int (card (owners_of s)) \<and> int (card (owners_of s)) \<le> maxStreams"
proof -
  have "cas_ok maxStreams \<lparr>cas_opened = 0, cas_pc = (\<lambda>t. Idle)\<rparr>"
    using assms(2) by (simp add: cas_ok_def owners_of_def)
  with assms(1) have "cas_ok maxStreams s"
    by (induction rule: rtranclp_induct) (auto dest: cas_step_ok)
  then show ?thesis by (simp add: cas_ok_def)
qed

definition sample_cas :: cas_state where
  "sample_cas = goto 3 Held (goto 3 (RLoaded 0) (goto 3 RTry \<lparr>cas_opened = 0, cas_pc = (\<lambda>t. Idle)\<rparr>)\<lparr>cas_opened := 1\<rparr>)"

lemma sample_cas_reached: "(cas_step 1)\<^sup>*\<^sup>* \<lparr>cas_opened = 0, cas_pc = (\<lambda>t. Idle)\<rparr> sample_cas"
proof -
  let ?s0 = "\<lparr>cas_opened = 0, cas_pc = (\<lambda>t. Idle)\<rparr>"
  have "cas_step 1 ?s0 (goto 3 RTry ?s0)" by (rule reserve_call) simp
  moreover have "cas_step 1 (goto 3 RTry ?s0) (goto 3 (RLoaded (cas_opened (goto 3 RTry ?s0))) (goto 3 RTry ?s0))"
    by (rule reserve_load) (simp_all add: goto_def)
  moreover have "cas_step 1 (goto 3 (RLoaded 0) (goto 3 RTry ?s0))
    (goto 3 Held (goto 3 (RLoaded 0) (goto 3 RTry ?s0)\<lparr>cas_opened := 0 + 1\<rparr>))"
    by (rule reserve_swap) (simp_all add: goto_def)
  ultimately show ?thesis by (simp add: sample_cas_def goto_fields)
qed

theorem cas_reservations_exact_witness:
  "cas_opened sample_cas = 1 \<and> card (owners_of sample_cas) = 1"
  using cas_reservations_exact [OF sample_cas_reached] by (simp add: sample_cas_def goto_fields)

end
