(* ===== verification/Uniform_Random.thy ===== *)
theory Uniform_Random
  imports Prelude
begin

text \<open>
  \<^verbatim>\<open>internal/random/random.go\<close>: a uniform value below a bound by rejection sampling. The operating
  system's generator is a parameter: call number \<open>k\<close> of \<^verbatim>\<open>rand.Read\<close> either fails or fills the
  whole buffer with the bytes \<open>f 0\<close>, \<open>f 1\<close>, ... The sampling loop has no bound in the code, so it
  is a partial function: \<open>None\<close> is a loop that never ends.
\<close>

type_synonym os_rand = "nat \<Rightarrow> (nat \<Rightarrow> byte) result"

definition sample16 :: "(nat \<Rightarrow> byte) \<Rightarrow> u32" where
  "sample16 f = ucast (be_get [f 0, f 1] :: u16)"

definition sample_limit :: "u32 \<Rightarrow> u32" where
  "sample_limit n = 65536 - (65536 mod n)"

partial_function (option) sample_loop :: "os_rand \<Rightarrow> u32 \<Rightarrow> nat \<Rightarrow> (u32 result \<times> nat) option" where
  "sample_loop sys n k =
     (case sys k of
        Inl e \<Rightarrow> Some (Inl e, k + 1)
      | Inr f \<Rightarrow> if sample16 f < sample_limit n then Some (Inr (sample16 f mod n), k + 1)
                else sample_loop sys n (k + 1))"

definition Uint16n :: "os_rand \<Rightarrow> u32 \<Rightarrow> nat \<Rightarrow> (u32 result \<times> nat) option" where
  "Uint16n sys n k =
     (if n = 0 \<or> n > 65536 then Some (Inl (ErrNew ''random range is out of bounds''), k)
      else sample_loop sys n k)"

section \<open>The loop returns\<close>

text \<open>The \<open>j\<close>-th answer ends the loop: the call fails or its sample lies below the limit.\<close>

definition answer_ends :: "os_rand \<Rightarrow> u32 \<Rightarrow> nat \<Rightarrow> bool" where
  "answer_ends sys n j \<longleftrightarrow> (\<forall>f. sys j = Inr f \<longrightarrow> sample16 f < sample_limit n)"

lemma sample_loop_returns:
  assumes "answer_ends sys n (k + d)"
  shows "\<exists>r k'. sample_loop sys n k = Some (r, k')"
  using assms
proof (induction d arbitrary: k)
  case 0
  then show ?case by (subst sample_loop.simps) (auto simp: answer_ends_def split: sum.split)
next
  case (Suc d)
  then have "\<exists>r k'. sample_loop sys n (k + 1) = Some (r, k')" by simp
  then show ?case by (subst sample_loop.simps) (auto split: sum.split)
qed

lemma sample_loop_result:
  assumes "sample_loop sys n k = Some y" and "0 < n"
  shows "k < snd y \<and> (\<forall>v. fst y = Inr v \<longrightarrow> v < n)"
proof -
  have "0 < n \<longrightarrow> k < snd y \<and> (\<forall>v. fst y = Inr v \<longrightarrow> v < n)"
  proof (rule sample_loop.raw_induct [where P = "\<lambda>sys n k y. 0 < n \<longrightarrow> k < snd y \<and> (\<forall>v. fst y = Inr v \<longrightarrow> v < n)",
        OF _ assms(1)])
    fix loop :: "os_rand \<Rightarrow> u32 \<Rightarrow> nat \<Rightarrow> (u32 result \<times> nat) option" and sys n k y
    assume IH: "\<And>sys n k y. loop sys n k = Some y \<Longrightarrow> 0 < n \<longrightarrow> k < snd y \<and> (\<forall>v. fst y = Inr v \<longrightarrow> v < n)"
      and body: "(case sys k of Inl e \<Rightarrow> Some (Inl e, k + 1)
        | Inr f \<Rightarrow> if sample16 f < sample_limit n then Some (Inr (sample16 f mod n), k + 1)
                  else loop sys n (k + 1)) = Some y"
    show "0 < n \<longrightarrow> k < snd y \<and> (\<forall>v. fst y = Inr v \<longrightarrow> v < n)"
    proof (cases "sys k")
      case (Inr f)
      with body IH [of sys n "k + 1" y] show ?thesis
        by (cases "sample16 f < sample_limit n") (auto simp: word_mod_less_divisor)
    qed (use body in auto)
  qed
  with assms(2) show ?thesis by simp
qed

section \<open>No modulo bias\<close>

lemma card_residues: "(v :: nat) < n \<Longrightarrow> card {x. x < q * n \<and> x mod n = v} = q"
proof -
  assume v: "v < n"
  have "{x. x < q * n \<and> x mod n = v} = (\<lambda>i. i * n + v) ` {..<q}"
  proof (intro equalityI subsetI)
    fix x
    assume "x \<in> {x. x < q * n \<and> x mod n = v}"
    then have "x = x div n * n + v" "x div n < q"
      by (auto simp: less_mult_imp_div_less)
    then show "x \<in> (\<lambda>i. i * n + v) ` {..<q}" by blast
  next
    fix x
    assume "x \<in> (\<lambda>i. i * n + v) ` {..<q}"
    then obtain i where i: "i < q" "x = i * n + v" by auto
    have "i * n + v < i * n + n" using v by simp
    also have "\<dots> \<le> q * n" using i(1) mult_le_mono1 [of "Suc i" q n] by simp
    finally show "x \<in> {x. x < q * n \<and> x mod n = v}" using i v by simp
  qed
  moreover have "inj_on (\<lambda>i. i * n + v) {..<q}" using v by (auto simp: inj_on_def)
  ultimately show ?thesis by (simp add: card_image)
qed

lemma unat_sample_limit:
  assumes "0 < n" "n \<le> 65536"
  shows "unat (sample_limit n) = 65536 div unat n * unat n"
proof -
  have "65536 mod n \<le> (65536 :: u32)" by (simp add: word_le_nat_alt unat_mod)
  then have "unat (sample_limit n) = 65536 - 65536 mod unat n"
    by (simp add: sample_limit_def unat_sub unat_mod)
  then show ?thesis by (simp add: minus_mod_eq_div_mult)
qed

lemma accepted_samples:
  assumes "0 < n" "n \<le> 65536" "v < n"
  shows "card {w :: u16. ucast w < sample_limit n \<and> ucast w mod n = v} = 65536 div unat n"
proof -
  let ?S = "{w :: u16. ucast w < sample_limit n \<and> ucast w mod n = v}"
  let ?T = "{x. x < 65536 div unat n * unat n \<and> x mod unat n = unat v}"
  have u: "unat (ucast w :: u32) = unat w" for w :: u16
    by (simp add: unsigned_ucast_eq take_bit_nat_eq_self_iff order_less_le_trans [OF unsigned_less])
  have mem: "w \<in> ?S \<longleftrightarrow> unat w \<in> ?T" for w :: u16
    using assms by (simp add: word_less_nat_alt word_unat_eq_iff unat_mod u unat_sample_limit)
  have "unat ` ?S = ?T"
  proof (intro equalityI subsetI)
    fix x assume x: "x \<in> ?T"
    have "65536 div unat n * unat n \<le> 65536" by (simp add: div_times_less_eq_dividend)
    with x have "x < 65536" by (auto intro: order_less_le_trans)
    then have w: "x = unat (of_nat x :: u16)" by (simp add: unat_of_nat)
    moreover have "(of_nat x :: u16) \<in> ?S" unfolding mem w [symmetric] by (rule x)
    ultimately show "x \<in> unat ` ?S" by (rule image_eqI)
  qed (use mem in blast)
  moreover have "inj_on unat ?S" by (simp add: inj_on_def word_unat_eq_iff)
  ultimately have "card ?S = card ?T" using card_image [of unat ?S] by argo
  then show ?thesis using assms(3) card_residues [of "unat v" "unat n"] by (simp add: word_less_nat_alt)
qed


definition counting_rand :: os_rand where
  "counting_rand k = Inr (\<lambda>i. of_nat (k + i))"


end
