(* ===== verification/Afdp_Obfuscation.thy ===== *)
theory Afdp_Obfuscation
  imports Afdp_Datagram Go_Strings Uniform_Random
begin

text \<open>
  \<^verbatim>\<open>internal/afdp/obfuscation_*.go\<close>: the packet camouflage below QUIC. A packet is sealed as salt,
  masked body and tag; long-header packets are cut into padded fragments, which the receiver
  reassembles under per-source and global limits. BLAKE2b and SHA-256 are parameters of the
  model (functions from bytes to bytes), as are the operating system's generator and the UDP
  socket. Scratch buffers and pools hold no state between calls and are not modelled;
  \<^verbatim>\<open>stateMu\<close> is held for the whole of \<^verbatim>\<open>acceptFragment\<close>, which is one step on the state.
\<close>

section \<open>Limits and state\<close>

abbreviation obfuscationVersion :: byte where "obfuscationVersion \<equiv> Version"
abbreviation obfuscationData :: byte where "obfuscationData \<equiv> 0"
abbreviation obfuscationFragment :: byte where "obfuscationFragment \<equiv> 1"
abbreviation obfuscationSaltBytes :: nat where "obfuscationSaltBytes \<equiv> 16"
abbreviation obfuscationTagBytes :: nat where "obfuscationTagBytes \<equiv> 8"
abbreviation fragmentHeaderBytes :: nat where "fragmentHeaderBytes \<equiv> 10"
abbreviation dataHeaderBytes :: nat where "dataHeaderBytes \<equiv> 2"
abbreviation maxFragmentCount :: nat where "maxFragmentCount \<equiv> 8"
abbreviation maxReassemblyEntries :: int where "maxReassemblyEntries \<equiv> 128"
abbreviation maxReassemblyPerSource :: int where "maxReassemblyPerSource \<equiv> 16"
abbreviation maxReassemblyBytes :: int where "maxReassemblyBytes \<equiv> 1048576"
abbreviation reassemblyTTL :: duration where "reassemblyTTL \<equiv> second"
abbreviation randomBufferSize :: nat where "randomBufferSize \<equiv> 32768"
abbreviation maxObfuscationDatagram :: int where "maxObfuscationDatagram \<equiv> 65536"

definition obfuscationMaskDomain :: bytes where
  "obfuscationMaskDomain = map of_char ''asterferry-data/1/mask/''"

definition obfuscationTagDomain :: bytes where
  "obfuscationTagDomain = map of_char ''asterferry-data/1/tag/''"

record ObfuscationOptions =
  oo_Mode :: string
  oo_CurrentKey :: bytes
  oo_PreviousKey :: bytes
  oo_HandshakeShaping :: bool
  oo_MinFragmentBytes :: int
  oo_MaxFragmentBytes :: int
  oo_MaxHandshakeFragmentWireBytes :: int

text \<open>The calls made on the metrics sink, when there is one.\<close>

datatype obf_event = PacketAccepted bool | PacketRejected | FragmentDropped

type_synonym fragmentKey = "string \<times> u16"

record fragmentAssembly =
  fa_total :: byte
  fa_parts :: "bytes option list"
  fa_bytes :: int
  fa_deadline :: time

record obfuscationPacketConn =
  ob_keys :: "bytes list"
  ob_opts :: ObfuscationOptions
  ob_metrics :: "obf_event list option"
  ob_parts :: "(fragmentKey \<times> fragmentAssembly) list"
  ob_sources :: "string \<Rightarrow> int"
  ob_bytes :: int
  ob_randomBuf :: bytes
  ob_randomPos :: nat
  ob_entropy :: nat

definition emit :: "obf_event \<Rightarrow> obfuscationPacketConn \<Rightarrow> obfuscationPacketConn" where
  "emit e c = c\<lparr>ob_metrics := map_option (\<lambda>es. es @ [e]) (ob_metrics c)\<rparr>"

section \<open>Construction\<close>

definition default_limits :: "ObfuscationOptions \<Rightarrow> ObfuscationOptions" where
  "default_limits opts = opts\<lparr>
     oo_Mode := (if oo_Mode opts = [] then ''standard'' else oo_Mode opts),
     oo_MinFragmentBytes := (if oo_MinFragmentBytes opts = 0 then 512 else oo_MinFragmentBytes opts),
     oo_MaxFragmentBytes := (if oo_MaxFragmentBytes opts = 0 then 1200 else oo_MaxFragmentBytes opts),
     oo_MaxHandshakeFragmentWireBytes :=
       (if oo_MaxHandshakeFragmentWireBytes opts = 0 then 1280 else oo_MaxHandshakeFragmentWireBytes opts)\<rparr>"

text \<open>\<open>Inr None\<close> is the socket itself, returned unchanged in standard mode.\<close>

definition NewObfuscatingPacketConn ::
  "(bytes \<Rightarrow> bytes) \<Rightarrow> ObfuscationOptions \<Rightarrow> bool \<Rightarrow> obfuscationPacketConn option result" where
  "NewObfuscatingPacketConn sha256 opts0 sink =
     (let opts = default_limits opts0 in
      if oo_MinFragmentBytes opts < int (fragmentHeaderBytes + obfuscationSaltBytes + obfuscationTagBytes)
         \<or> oo_MaxFragmentBytes opts < oo_MinFragmentBytes opts
         \<or> oo_MaxHandshakeFragmentWireBytes opts < oo_MaxFragmentBytes opts
         \<or> oo_MaxHandshakeFragmentWireBytes opts > maxObfuscationDatagram then
        Inl (ErrNew ''invalid AFDP obfuscation packet limits'')
      else if oo_Mode opts = ''standard'' then Inr None
      else if oo_Mode opts \<noteq> ''camouflage'' then Inl (ErrNew ''unsupported transport obfuscation mode'')
      else let keys = map sha256 (filter (\<lambda>raw. raw \<noteq> []) [oo_CurrentKey opts, oo_PreviousKey opts])
        in if keys = [] then Inl (ErrNew ''camouflage mode requires a transport obfuscation key'')
           else Inr (Some \<lparr>ob_keys = keys, ob_opts = opts, ob_metrics = (if sink then Some [] else None),
             ob_parts = [], ob_sources = (\<lambda>s. 0), ob_bytes = 0,
             ob_randomBuf = [], ob_randomPos = 0, ob_entropy = 0\<rparr>))"

section \<open>Masking and authentication\<close>

text \<open>
  \<^verbatim>\<open>mask\<close> XORs in place; block \<open>n\<close> of the key stream is the hash of domain, key, salt and the
  32-bit counter. The array the code fills is exactly the concatenation.
\<close>

function mask_from :: "(bytes \<Rightarrow> bytes) \<Rightarrow> bytes \<Rightarrow> u32 \<Rightarrow> bytes \<Rightarrow> bytes" where
  "mask_from H prefix counter data =
     (if data = [] then []
      else map2 (XOR) (take 32 data) (H (prefix @ be_put 4 counter)) @ mask_from H prefix (counter + 1) (drop 32 data))"
  by pat_completeness auto
termination
  by (relation "measure (\<lambda>(H, prefix, counter, data). length data)") auto

declare mask_from.simps [simp del]

definition mask_bytes :: "(bytes \<Rightarrow> bytes) \<Rightarrow> bytes \<Rightarrow> bytes \<Rightarrow> bytes \<Rightarrow> bytes" where
  "mask_bytes H data salt key = mask_from H (obfuscationMaskDomain @ key @ salt) 0 data"

text \<open>The streaming hash has no failing call: \<^verbatim>\<open>New256(nil)\<close> and \<^verbatim>\<open>Write\<close> never return an error.\<close>

definition tag :: "(bytes \<Rightarrow> bytes) \<Rightarrow> bytes \<Rightarrow> bytes \<Rightarrow> bytes \<Rightarrow> bytes" where
  "tag H salt masked key = take obfuscationTagBytes (H (obfuscationTagDomain @ key @ salt @ masked))"

section \<open>Random bytes\<close>

text \<open>
  The buffered generator: refill when the buffer is used up, copy what is there. A failed
  refill leaves the (possibly fresh) buffer and the position as they are.
\<close>

definition refill :: "os_rand \<Rightarrow> obfuscationPacketConn \<Rightarrow> obfuscationPacketConn \<times> check" where
  "refill sys c =
     (if ob_randomPos c \<ge> length (ob_randomBuf c) then
        let c' = c\<lparr>ob_entropy := ob_entropy c + 1,
                   ob_randomBuf := (if length (ob_randomBuf c) < randomBufferSize then replicate randomBufferSize 0
                                    else take randomBufferSize (ob_randomBuf c))\<rparr>
        in case sys (ob_entropy c) of
             Inl e \<Rightarrow> (c', Some e)
           | Inr f \<Rightarrow> (c'\<lparr>ob_randomBuf := map f [0 ..< randomBufferSize], ob_randomPos := 0\<rparr>, None)
      else (c, None))"

lemma refill_available:
  "refill sys c = (c', None) \<Longrightarrow> ob_randomPos c' < length (ob_randomBuf c')"
  by (auto simp: refill_def Let_def split: if_splits sum.splits)

function randomBytes :: "os_rand \<Rightarrow> nat \<Rightarrow> obfuscationPacketConn \<Rightarrow> obfuscationPacketConn \<times> bytes result" where
  "randomBytes sys n c =
     (if n = 0 then (c, Inr [])
      else case refill sys c of
        (c', Some e) \<Rightarrow> (c', Inl e)
      | (c', None) \<Rightarrow>
          let chunk = take n (drop (ob_randomPos c') (ob_randomBuf c'))
          in case randomBytes sys (n - length chunk) (c'\<lparr>ob_randomPos := ob_randomPos c' + length chunk\<rparr>) of
               (c'', r) \<Rightarrow> (c'', bind_result r (\<lambda>rest. Inr (chunk @ rest))))"
  by pat_completeness auto
termination
  by (relation "measure (\<lambda>(sys, n, c). n)") (auto dest!: refill_available [OF sym])

declare randomBytes.simps [simp del]

section \<open>Writing\<close>

type_synonym hash = "bytes \<Rightarrow> bytes"

definition seal :: "hash \<Rightarrow> os_rand \<Rightarrow> bytes \<Rightarrow> obfuscationPacketConn \<Rightarrow> obfuscationPacketConn \<times> bytes result" where
  "seal H sys body c =
     (case randomBytes sys obfuscationSaltBytes c of
        (c', Inl e) \<Rightarrow> (c', Inl e)
      | (c', Inr salt) \<Rightarrow>
          let masked = mask_bytes H body salt (ob_keys c ! 0)
          in (c', Inr (salt @ masked @ tag H salt masked (ob_keys c ! 0))))"

definition encodeData :: "hash \<Rightarrow> os_rand \<Rightarrow> bytes \<Rightarrow> obfuscationPacketConn \<Rightarrow> obfuscationPacketConn \<times> bytes result" where
  "encodeData H sys payload c =
     (case seal H sys ([obfuscationVersion, obfuscationData] @ payload) c of
        (c', Inl e) \<Rightarrow> (c', Inl e)
      | (c', Inr wire) \<Rightarrow>
          if int (length wire) > maxObfuscationDatagram then
            (c', Inl (ErrNew ''camouflage data datagram is too large''))
          else (c', Inr wire))"

text \<open>The UDP socket: what one \<^verbatim>\<open>WriteTo\<close> to the peer does to it.\<close>

type_synonym 'w socket = "'w \<Rightarrow> bytes \<Rightarrow> 'w \<times> check"

definition writeData ::
  "hash \<Rightarrow> os_rand \<Rightarrow> 'w socket \<Rightarrow> bytes \<Rightarrow> obfuscationPacketConn \<Rightarrow> 'w \<Rightarrow> obfuscationPacketConn \<times> 'w \<times> check" where
  "writeData H sys send payload c w =
     (case encodeData H sys payload c of
        (c', Inl e) \<Rightarrow> (c', w, Some e)
      | (c', Inr wire) \<Rightarrow> (c', send w wire))"

definition fragment_body_bytes :: "u16 \<Rightarrow> byte \<Rightarrow> byte \<Rightarrow> bytes \<Rightarrow> bytes \<Rightarrow> bytes" where
  "fragment_body_bytes fid index tot payload padding =
     [obfuscationVersion, obfuscationFragment] @ be_put 2 fid @ [index, tot]
     @ be_put 2 (of_nat (length payload) :: u16) @ be_put 2 (of_nat (length padding) :: u16) @ payload @ padding"

text \<open>How many padding bytes: at least what reaches the minimum, a random amount more.\<close>

definition choose_padding ::
  "os_rand \<Rightarrow> int \<Rightarrow> obfuscationPacketConn \<Rightarrow> (obfuscationPacketConn \<times> nat result) option" where
  "choose_padding sys base c =
     (let minPadding = max 0 (oo_MinFragmentBytes (ob_opts c) - base);
          maxPadding = max 0 (oo_MaxFragmentBytes (ob_opts c) - base)
      in if maxPadding > minPadding then
           (case Uint16n sys (of_int (maxPadding - minPadding + 1)) (ob_entropy c) of
              None \<Rightarrow> None
            | Some (Inl e, k) \<Rightarrow> Some (c\<lparr>ob_entropy := k\<rparr>, Inl e)
            | Some (Inr v, k) \<Rightarrow> Some (c\<lparr>ob_entropy := k\<rparr>, Inr (nat minPadding + unat v)))
         else Some (c, Inr (nat minPadding)))"

definition fragmentBody ::
  "os_rand \<Rightarrow> u16 \<Rightarrow> byte \<Rightarrow> byte \<Rightarrow> bytes \<Rightarrow> obfuscationPacketConn \<Rightarrow> (obfuscationPacketConn \<times> bytes result) option" where
  "fragmentBody sys fid index tot payload c =
     (let base = int (fragmentHeaderBytes + obfuscationSaltBytes + obfuscationTagBytes + length payload)
      in if base > oo_MaxFragmentBytes (ob_opts c) then
           Some (c, Inl (ErrNew ''camouflage fragment payload exceeds configured size''))
         else case choose_padding sys base c of
             None \<Rightarrow> None
           | Some (c', Inl e) \<Rightarrow> Some (c', Inl e)
           | Some (c', Inr n) \<Rightarrow>
               (case randomBytes sys n c' of
                  (c'', Inl e) \<Rightarrow> Some (c'', Inl e)
                | (c'', Inr padding) \<Rightarrow> Some (c'', Inr (fragment_body_bytes fid index tot payload padding))))"

text \<open>The loop over the chunks: body, seal, size check, send.\<close>

fun write_chunks ::
  "hash \<Rightarrow> os_rand \<Rightarrow> 'w socket \<Rightarrow> u16 \<Rightarrow> nat \<Rightarrow> nat \<Rightarrow> bytes list \<Rightarrow> obfuscationPacketConn \<Rightarrow> 'w \<Rightarrow>
   (obfuscationPacketConn \<times> 'w \<times> check) option" where
  "write_chunks H sys send fid tot index [] c w = Some (c, w, None)"
| "write_chunks H sys send fid tot index (chunk # chunks) c w =
     (case fragmentBody sys fid (of_nat index) (of_nat tot) chunk c of
        None \<Rightarrow> None
      | Some (c', Inl e) \<Rightarrow> Some (c', w, Some e)
      | Some (c', Inr body) \<Rightarrow>
          (case seal H sys body c' of
             (c'', Inl e) \<Rightarrow> Some (c'', w, Some e)
           | (c'', Inr wire) \<Rightarrow>
               if int (length wire) > oo_MaxHandshakeFragmentWireBytes (ob_opts c'') then
                 Some (c'', w, Some (ErrNew ''camouflage handshake fragment exceeds max wire packet size''))
               else (case send w wire of
                   (w', Some e) \<Rightarrow> Some (c'', w', Some e)
                 | (w', None) \<Rightarrow> write_chunks H sys send fid tot (index + 1) chunks c'' w')))"

function chunks_of :: "nat \<Rightarrow> bytes \<Rightarrow> bytes list" where
  "chunks_of sz packet =
     (if packet = [] \<or> sz = 0 then [] else take sz packet # chunks_of sz (drop sz packet))"
  by pat_completeness auto
termination
  by (relation "measure (\<lambda>(sz, packet). length packet)") auto

declare chunks_of.simps [simp del]

definition writeFragments ::
  "hash \<Rightarrow> os_rand \<Rightarrow> 'w socket \<Rightarrow> bytes \<Rightarrow> obfuscationPacketConn \<Rightarrow> 'w \<Rightarrow>
   (obfuscationPacketConn \<times> 'w \<times> check) option" where
  "writeFragments H sys send packet c w =
     (let maxWire = oo_MaxFragmentBytes (ob_opts c);
          overhead = int (fragmentHeaderBytes + obfuscationSaltBytes + obfuscationTagBytes)
      in if maxWire \<le> overhead then
           Some (c, w, Some (ErrNew ''transport obfuscation fragment size is too small''))
         else let chunkSize = nat (maxWire - overhead);
                  tot = (length packet + chunkSize - 1) div chunkSize
           in if tot < 2 then Some (writeData H sys send packet c w)
              else if tot > maxFragmentCount then
                Some (c, w, Some (ErrNew ''QUIC datagram requires too many camouflage fragments''))
              else case randomBytes sys 2 c of
                  (c', Inl e) \<Rightarrow> Some (c', w, Some e)
                | (c', Inr idBytes) \<Rightarrow>
                    write_chunks H sys send (be_get idBytes) tot 0 (chunks_of chunkSize packet) c' w)"

definition WriteTo ::
  "hash \<Rightarrow> os_rand \<Rightarrow> 'w socket \<Rightarrow> bytes \<Rightarrow> obfuscationPacketConn \<Rightarrow> 'w \<Rightarrow>
   (obfuscationPacketConn \<times> 'w \<times> nat result) option" where
  "WriteTo H sys send p c w =
     map_option (\<lambda>(c', w', err). (c', w', case err of None \<Rightarrow> Inr (length p) | Some e \<Rightarrow> Inl e))
     (if p \<noteq> [] \<and> oo_HandshakeShaping (ob_opts c) \<and> p ! 0 AND 0x80 \<noteq> 0 then writeFragments H sys send p c w
      else Some (writeData H sys send p c w))"

section \<open>Reading\<close>

definition evict_assembly :: "fragmentKey \<times> fragmentAssembly \<Rightarrow> obfuscationPacketConn \<Rightarrow> obfuscationPacketConn" where
  "evict_assembly ka c = c\<lparr>ob_parts := AList.delete (fst ka) (ob_parts c),
     ob_sources := (ob_sources c)(fst (fst ka) := ob_sources c (fst (fst ka)) - 1),
     ob_bytes := ob_bytes c - fa_bytes (snd ka)\<rparr>"

definition evictFragmentsLocked :: "time \<Rightarrow> obfuscationPacketConn \<Rightarrow> obfuscationPacketConn" where
  "evictFragmentsLocked now c =
     fold evict_assembly (filter (\<lambda>(k, a). \<not> now < fa_deadline a) (ob_parts c)) c"

text \<open>The fields of a fragment body.\<close>

definition frag_id :: "bytes \<Rightarrow> u16" where "frag_id body = be_get (sub_slice body 2 4)"
definition frag_payloadLen :: "bytes \<Rightarrow> nat" where
  "frag_payloadLen body = unat (be_get (sub_slice body 6 8) :: u16)"
definition frag_paddingLen :: "bytes \<Rightarrow> nat" where
  "frag_paddingLen body = unat (be_get (sub_slice body 8 10) :: u16)"

definition bad_fragment :: "ObfuscationOptions \<Rightarrow> bytes \<Rightarrow> bool" where
  "bad_fragment opts body \<longleftrightarrow>
     body ! 5 < 2 \<or> body ! 5 > of_nat maxFragmentCount \<or> body ! 4 \<ge> body ! 5 \<or> frag_payloadLen body = 0
     \<or> fragmentHeaderBytes + frag_payloadLen body + frag_paddingLen body \<noteq> length body
     \<or> int (length body + obfuscationSaltBytes + obfuscationTagBytes) > oo_MaxHandshakeFragmentWireBytes opts"

text \<open>
  Storing one part in an assembly that is in the map; with the last part the packet is
  complete and the assembly leaves the map.
\<close>

definition store_part ::
  "fragmentKey \<Rightarrow> fragmentAssembly \<Rightarrow> nat \<Rightarrow> bytes \<Rightarrow> obfuscationPacketConn \<Rightarrow> obfuscationPacketConn \<times> bytes option" where
  "store_part key a index payload c =
     (let a' = a\<lparr>fa_parts := (fa_parts a)[index := Some payload], fa_bytes := fa_bytes a + int (length payload)\<rparr>;
          c' = c\<lparr>ob_parts := AList.update key a' (ob_parts c), ob_bytes := ob_bytes c + int (length payload)\<rparr>
      in if None \<in> set (fa_parts a') then (c', None)
         else let packet = concat (map the (fa_parts a')); c'' = evict_assembly (key, a') c'
           in if packet = [] then (emit FragmentDropped c'', None) else (c'', Some packet))"

definition acceptFragment ::
  "bytes \<Rightarrow> string \<Rightarrow> time \<Rightarrow> obfuscationPacketConn \<Rightarrow> obfuscationPacketConn \<times> bytes option" where
  "acceptFragment body source now c0 =
     (if length body < fragmentHeaderBytes \<or> bad_fragment (ob_opts c0) body then (emit FragmentDropped c0, None)
      else
        let index = body ! 4; tot = body ! 5; payloadLen = frag_payloadLen body;
            c = evictFragmentsLocked now c0;
            key = (source, frag_id body);
            payload = sub_slice body fragmentHeaderBytes (fragmentHeaderBytes + payloadLen)
        in case map_of (ob_parts c) key of
             None \<Rightarrow>
               if ob_sources c source \<ge> maxReassemblyPerSource \<or> int (length (ob_parts c)) \<ge> maxReassemblyEntries
                  \<or> ob_bytes c + int payloadLen > maxReassemblyBytes then (emit FragmentDropped c, None)
               else
                 let a = \<lparr>fa_total = tot, fa_parts = replicate (unat tot) None, fa_bytes = 0,
                          fa_deadline = now + reassemblyTTL\<rparr>
                 in store_part key a (unat index) payload (c\<lparr>ob_parts := AList.update key a (ob_parts c),
                      ob_sources := (ob_sources c)(source := ob_sources c source + 1)\<rparr>)
           | Some a \<Rightarrow>
               if fa_total a \<noteq> tot \<or> fa_parts a ! unat index \<noteq> None then (emit FragmentDropped c, None)
               else store_part key a (unat index) payload c)"

text \<open>
  What one datagram from the socket gives. \<open>dst\<close> is the length of the caller's buffer; an
  accepted payload is copied to its front.
\<close>

definition open_body ::
  "bytes \<Rightarrow> string \<Rightarrow> time \<Rightarrow> nat \<Rightarrow> obfuscationPacketConn \<Rightarrow> obfuscationPacketConn \<times> bytes option" where
  "open_body body source now dst c =
     (if length body < dataHeaderBytes \<or> body ! 0 \<noteq> obfuscationVersion then (emit FragmentDropped c, None)
      else if body ! 1 = obfuscationData then
        (if length (drop dataHeaderBytes body) > dst then (emit FragmentDropped c, None)
         else (c, Some (drop dataHeaderBytes body)))
      else if body ! 1 = obfuscationFragment then acceptFragment body source now c
      else (emit FragmentDropped c, None))"

fun decode_with ::
  "hash \<Rightarrow> bytes \<Rightarrow> bytes \<Rightarrow> bytes \<Rightarrow> string \<Rightarrow> time \<Rightarrow> nat \<Rightarrow> bytes list \<Rightarrow> obfuscationPacketConn \<Rightarrow>
   obfuscationPacketConn \<times> bytes option" where
  "decode_with H salt masked gotTag source now dst [] c = (emit PacketRejected c, None)"
| "decode_with H salt masked gotTag source now dst (key # keys) c =
     (if tag H salt masked key \<noteq> gotTag then decode_with H salt masked gotTag source now dst keys c
      else open_body (mask_bytes H masked salt key) source now dst (emit (PacketAccepted (key \<noteq> ob_keys c ! 0)) c))"

definition decode ::
  "hash \<Rightarrow> bytes \<Rightarrow> string \<Rightarrow> time \<Rightarrow> nat \<Rightarrow> obfuscationPacketConn \<Rightarrow> obfuscationPacketConn \<times> bytes option" where
  "decode H wire source now dst c =
     (if length wire < obfuscationSaltBytes + obfuscationTagBytes + dataHeaderBytes
         \<or> int (length wire) > maxObfuscationDatagram then (c, None)
      else decode_with H (take obfuscationSaltBytes wire)
        (sub_slice wire obfuscationSaltBytes (length wire - obfuscationTagBytes))
        (drop (length wire - obfuscationTagBytes) wire) source now dst (ob_keys c) c)"

text \<open>
  \<^verbatim>\<open>ReadFrom\<close> loops over the datagrams the socket delivers (with their sources and arrival times)
  until one gives a packet; \<open>Inl\<close> is the socket's read error.
\<close>

fun ReadFrom ::
  "hash \<Rightarrow> nat \<Rightarrow> (go_error + bytes \<times> string \<times> time) list \<Rightarrow> obfuscationPacketConn \<Rightarrow>
   obfuscationPacketConn \<times> (bytes \<times> string) result option" where
  "ReadFrom H dst [] c = (c, None)"
| "ReadFrom H dst (Inl e # ds) c = (c, Some (Inl e))"
| "ReadFrom H dst (Inr (wire, source, now) # ds) c =
     (case decode H wire source now dst c of
        (c', None) \<Rightarrow> ReadFrom H dst ds c'
      | (c', Some packet) \<Rightarrow>
          if length packet > dst then ReadFrom H dst ds c' else (c', Some (Inr (packet, source))))"

section \<open>Opening what was sealed\<close>

text \<open>What the code relies on of BLAKE2b-256: every digest has 32 bytes.\<close>

definition digest32 :: "hash \<Rightarrow> bool" where
  "digest32 H \<longleftrightarrow> (\<forall>x. length (H x) = 32)"

lemma digest32D: "digest32 H \<Longrightarrow> length (H x) = 32"
  by (simp add: digest32_def)

lemma length_mask_from: "digest32 H \<Longrightarrow> length (mask_from H p n data) = length data"
proof (induction H p n data rule: mask_from.induct)
  case (1 H p n data)
  then show ?case by (subst mask_from.simps) (auto simp: digest32D)
qed

lemma xor_involution:
  "length as \<le> length bs \<Longrightarrow> map2 (XOR) (map2 (XOR) as bs) bs = (as :: byte list)"
  by (rule nth_equalityI) (simp_all add: xor.assoc)

lemma block_split:
  assumes "length x = min 32 (length data)" "length rest = length data - 32"
  shows "take 32 (x @ rest) = x" "drop 32 (x @ rest) = rest"
  using assms by (cases "32 \<le> length data"; simp)+

lemma mask_from_involution: "digest32 H \<Longrightarrow> mask_from H p n (mask_from H p n data) = data"
proof (induction H p n data rule: mask_from.induct)
  case (1 H p n data)
  let ?b = "H (p @ be_put 4 n)"
  let ?x = "map2 (XOR) (take 32 data) ?b" and ?rest = "mask_from H p (n + 1) (drop 32 data)"
  show ?case
  proof (cases "data = []")
    case False
    then have m: "mask_from H p n data = ?x @ ?rest" by (subst mask_from.simps) simp
    have l: "length ?x = min 32 (length data)" using 1(2) by (simp add: digest32D)
    have "length ?rest = length data - 32" using 1(2) by (simp add: length_mask_from)
    note t = block_split [OF l this]
    have "length ?x \<noteq> 0" unfolding l using False by simp
    then have ne: "?x @ ?rest \<noteq> []" by blast
    have "mask_from H p n (?x @ ?rest) = map2 (XOR) ?x ?b @ mask_from H p (n + 1) ?rest"
      by (subst mask_from.simps) (simp only: ne if_False t)
    also have "map2 (XOR) ?x ?b = take 32 data"
      using 1(2) by (intro xor_involution) (simp add: digest32D)
    also have "mask_from H p (n + 1) ?rest = drop 32 data" using 1(1) False 1(2) by simp
    finally show ?thesis by (simp add: m)
  qed (simp add: mask_from.simps)
qed

lemma length_mask: "digest32 H \<Longrightarrow> length (mask_bytes H data salt key) = length data"
  by (simp add: mask_bytes_def length_mask_from)

lemma mask_involution: "digest32 H \<Longrightarrow> mask_bytes H (mask_bytes H data salt key) salt key = data"
  by (simp add: mask_bytes_def mask_from_involution)

lemma length_tag: "digest32 H \<Longrightarrow> length (tag H salt masked key) = obfuscationTagBytes"
  by (simp add: tag_def digest32D)

text \<open>The generator changes nothing but its own buffer, and gives as many bytes as asked.\<close>

definition same_but_random :: "obfuscationPacketConn \<Rightarrow> obfuscationPacketConn \<Rightarrow> bool" where
  "same_but_random c c' \<longleftrightarrow> ob_keys c' = ob_keys c \<and> ob_opts c' = ob_opts c \<and> ob_metrics c' = ob_metrics c
     \<and> ob_parts c' = ob_parts c \<and> ob_sources c' = ob_sources c \<and> ob_bytes c' = ob_bytes c"

lemma same_but_random_refl [simp]: "same_but_random c c"
  by (simp add: same_but_random_def)

lemma same_but_random_trans: "same_but_random a b \<Longrightarrow> same_but_random b c \<Longrightarrow> same_but_random a c"
  by (simp add: same_but_random_def)

lemma refill_same: "refill sys c = (c', r) \<Longrightarrow> same_but_random c c'"
  by (auto simp: refill_def Let_def same_but_random_def split: if_splits sum.splits)

lemma randomBytes_spec:
  "randomBytes sys n c = (c', r) \<Longrightarrow> same_but_random c c' \<and> (\<forall>bs. r = Inr bs \<longrightarrow> length bs = n)"
proof (induction sys n c arbitrary: c' r rule: randomBytes.induct)
  case (1 sys n c)
  show ?case
  proof (cases "n = 0")
    case True
    with 1(2) show ?thesis by (auto simp: randomBytes.simps)
  next
    case n: False
    obtain d e where d: "refill sys c = (d, e)" by fastforce
    show ?thesis
    proof (cases e)
      case (Some err)
      with 1(2) n d refill_same [OF d] show ?thesis by (auto simp: randomBytes.simps [of sys n])
    next
      case None
      let ?chunk = "take n (drop (ob_randomPos d) (ob_randomBuf d))"
      let ?d = "d\<lparr>ob_randomPos := ob_randomPos d + length ?chunk\<rparr>"
      obtain d' r' where r': "randomBytes sys (n - length ?chunk) ?d = (d', r')" by fastforce
      have "same_but_random ?d d' \<and> (\<forall>bs. r' = Inr bs \<longrightarrow> length bs = n - length ?chunk)"
        by (rule 1(1)) (use d n None r' in auto)
      moreover have "c' = d'" "r = bind_result r' (\<lambda>rest. Inr (?chunk @ rest))"
        using 1(2) n d None r' by (simp_all add: randomBytes.simps [of sys n])
      moreover have "same_but_random c ?d" using refill_same [OF d] by (simp add: same_but_random_def)
      ultimately show ?thesis by (cases r') (auto intro: same_but_random_trans)
    qed
  qed
qed

lemma seal_Inr:
  assumes "seal H sys body c = (c', Inr wire)"
  obtains salt where "length salt = obfuscationSaltBytes" "same_but_random c c'"
    "wire = salt @ mask_bytes H body salt (ob_keys c ! 0) @ tag H salt (mask_bytes H body salt (ob_keys c ! 0)) (ob_keys c ! 0)"
  using assms randomBytes_spec [of sys obfuscationSaltBytes c]
  by (auto simp: seal_def Let_def split: prod.splits sum.splits)

lemma decode_with_skip:
  "\<forall>k\<in>set pre. tag H salt masked k \<noteq> t \<Longrightarrow>
   decode_with H salt masked t source now dst (pre @ keys) c = decode_with H salt masked t source now dst keys c"
  by (induction pre) auto

lemma wire_parts:
  assumes "length salt = 16" "length t = 8"
  shows "take 16 (salt @ m @ t) = salt" "sub_slice (salt @ m @ t) 16 (length (salt @ m @ t) - 8) = m"
    "drop (length (salt @ m @ t) - 8) (salt @ m @ t) = t"
  using assms by (simp_all add: sub_slice_def)

lemma decode_seal:
  assumes "digest32 H" and "seal H sys body c = (c', Inr wire)"
    and "2 \<le> length body" and "int (length wire) \<le> maxObfuscationDatagram"
    and "ob_keys r = pre @ ob_keys c ! 0 # post"
    and "\<forall>k\<in>set pre. tag H (take 16 wire) (sub_slice wire 16 (length wire - 8)) k \<noteq> drop (length wire - 8) wire"
  shows "decode H wire source now dst r =
    open_body body source now dst (emit (PacketAccepted (ob_keys c ! 0 \<noteq> ob_keys r ! 0)) r)"
proof -
  obtain salt where s: "length salt = 16"
    "wire = salt @ mask_bytes H body salt (ob_keys c ! 0) @ tag H salt (mask_bytes H body salt (ob_keys c ! 0)) (ob_keys c ! 0)"
    using seal_Inr [OF assms(2)] by metis
  let ?m = "mask_bytes H body salt (ob_keys c ! 0)"
  let ?t = "tag H salt ?m (ob_keys c ! 0)"
  have p: "take 16 wire = salt" "sub_slice wire 16 (length wire - 8) = ?m" "drop (length wire - 8) wire = ?t"
    unfolding s(2) using wire_parts [OF s(1) length_tag [OF assms(1)]] by simp_all
  have "length wire = 24 + length body" using s assms(1) by (simp add: length_mask length_tag)
  with assms(3,4) have "\<not> (length wire < 26 \<or> maxObfuscationDatagram < int (length wire))" by simp
  then have "decode H wire source now dst r =
      decode_with H salt ?m ?t source now dst (ob_keys r) r"
    by (simp only: decode_def p if_False) simp
  also have "\<dots> = decode_with H salt ?m ?t source now dst (ob_keys c ! 0 # post) r"
    using assms(6) unfolding assms(5) p by (rule decode_with_skip)
  also have "\<dots> = open_body body source now dst (emit (PacketAccepted (ob_keys c ! 0 \<noteq> ob_keys r ! 0)) r)"
    by (simp add: mask_involution [OF assms(1)])
  finally show ?thesis .
qed

text \<open>
  A data packet that one side encodes is returned unchanged by the other side, also while
  keys rotate: the receiver's key list need only contain the sender's current key, and no key
  before it may produce the same tag. The receiver's reassembly state is not touched.
\<close>

theorem obfuscated_data_travels:
  assumes "digest32 H" and "encodeData H sys payload c = (c', Inr wire)"
    and "ob_keys r = pre @ ob_keys c ! 0 # post"
    and "\<forall>k\<in>set pre. tag H (take 16 wire) (sub_slice wire 16 (length wire - 8)) k \<noteq> drop (length wire - 8) wire"
    and "length payload \<le> dst"
  shows "decode H wire source now dst r =
    (emit (PacketAccepted (ob_keys c ! 0 \<noteq> ob_keys r ! 0)) r, Some payload)"
proof -
  let ?body = "[obfuscationVersion, obfuscationData] @ payload"
  have "seal H sys ?body c = (c', Inr wire)" "int (length wire) \<le> maxObfuscationDatagram"
    using assms(2) by (auto simp: encodeData_def split: prod.splits sum.splits if_splits)
  from decode_seal [OF assms(1) this(1) _ this(2) assms(3,4)] assms(5) show ?thesis
    by (simp add: open_body_def)
qed

lemma decode_with_none:
  "\<forall>k\<in>set keys. tag H salt masked k \<noteq> t \<Longrightarrow>
   decode_with H salt masked t source now dst keys c = (emit PacketRejected c, None)"
  by (induction keys) auto

text \<open>
  A datagram whose tag fits none of the keys gives no packet and leaves the reassembly state
  alone: only authenticated datagrams can create, complete or evict an assembly.
\<close>

theorem unauthenticated_datagram_dropped:
  assumes "\<forall>k\<in>set (ob_keys c). tag H (take 16 wire) (sub_slice wire 16 (length wire - 8)) k \<noteq> drop (length wire - 8) wire"
  shows "decode H wire source now dst c = (c, None) \<or> decode H wire source now dst c = (emit PacketRejected c, None)"
  using decode_with_none [OF assms] by (simp add: decode_def)

section \<open>The reassembly state stays bounded\<close>

fun part_bytes :: "bytes option list \<Rightarrow> int" where
  "part_bytes [] = 0"
| "part_bytes (None # ps) = part_bytes ps"
| "part_bytes (Some p # ps) = int (length p) + part_bytes ps"

lemma part_bytes_update:
  "i < length ps \<Longrightarrow> ps ! i = None \<Longrightarrow> part_bytes (ps[i := Some p]) = part_bytes ps + int (length p)"
proof (induction ps arbitrary: i)
  case (Cons q ps)
  then show ?case by (cases q; cases i) auto
qed simp

lemma part_bytes_replicate [simp]: "part_bytes (replicate n None) = 0"
  by (induction n) auto

lemma part_bytes_nonneg: "0 \<le> part_bytes ps"
  by (induction ps rule: part_bytes.induct) auto

lemma part_bytes_le:
  "\<forall>p. Some p \<in> set ps \<longrightarrow> int (length p) \<le> m \<Longrightarrow> 0 \<le> m \<Longrightarrow> part_bytes ps \<le> int (length ps) * m"
  by (induction ps rule: part_bytes.induct) (auto simp: algebra_simps)

lemma part_bytes_incomplete:
  "None \<in> set ps \<Longrightarrow> \<forall>p. Some p \<in> set ps \<longrightarrow> int (length p) \<le> m \<Longrightarrow> 0 \<le> m \<Longrightarrow>
   part_bytes ps \<le> (int (length ps) - 1) * m"
proof (induction ps rule: part_bytes.induct)
  case (2 ps)
  then show ?case using part_bytes_le [of ps m] by simp
next
  case (3 p ps)
  then show ?case by (auto simp: algebra_simps)
qed simp

text \<open>
  An assembly in the map is incomplete, has between two and eight slots, and its byte count is
  the size of what it holds; no part is longer than a fragment on the wire allows.
\<close>

definition assembly_ok :: "ObfuscationOptions \<Rightarrow> fragmentAssembly \<Rightarrow> bool" where
  "assembly_ok opts a \<longleftrightarrow> length (fa_parts a) = unat (fa_total a) \<and> 2 \<le> fa_total a \<and> fa_total a \<le> 8
     \<and> fa_bytes a = part_bytes (fa_parts a)
     \<and> (\<forall>p. Some p \<in> set (fa_parts a) \<longrightarrow> int (length p) + 34 \<le> oo_MaxHandshakeFragmentWireBytes opts)"

definition source_count :: "string \<Rightarrow> fragmentKey list \<Rightarrow> int" where
  "source_count s ks = int (length (filter (\<lambda>k. fst k = s) ks))"

lemma source_count_snoc: "source_count s (ks @ [k]) = source_count s ks + (if fst k = s then 1 else 0)"
  by (simp add: source_count_def)

lemma source_count_remove:
  "distinct ks \<Longrightarrow> k \<in> set ks \<Longrightarrow>
   source_count s (removeAll k ks) = source_count s ks - (if fst k = s then 1 else 0)"
  by (induction ks) (auto simp: source_count_def)

text \<open>
  The counters only; an assembly just completed may still be in the map when it is taken out.
\<close>

definition counters_ok :: "obfuscationPacketConn \<Rightarrow> bool" where
  "counters_ok c \<longleftrightarrow> distinct (map fst (ob_parts c)) \<and> int (length (ob_parts c)) \<le> maxReassemblyEntries
     \<and> ob_bytes c = weight fa_bytes (ob_parts c)
     \<and> (\<forall>s. ob_sources c s = source_count s (map fst (ob_parts c)) \<and> ob_sources c s \<le> maxReassemblyPerSource)"

definition assemblies_ok :: "obfuscationPacketConn \<Rightarrow> fragmentKey set \<Rightarrow> bool" where
  "assemblies_ok c K \<longleftrightarrow> (\<forall>(k, a)\<in>set (ob_parts c). k \<notin> K \<longrightarrow> assembly_ok (ob_opts c) a \<and> None \<in> set (fa_parts a))"

definition obf_ok :: "obfuscationPacketConn \<Rightarrow> bool" where
  "obf_ok c \<longleftrightarrow> counters_ok c \<and> assemblies_ok c {}"

lemma countersD:
  assumes "counters_ok c"
  shows "distinct (map fst (ob_parts c))" "int (length (ob_parts c)) \<le> maxReassemblyEntries"
    "ob_bytes c = weight fa_bytes (ob_parts c)"
    "ob_sources c s = source_count s (map fst (ob_parts c))"
    "source_count s (map fst (ob_parts c)) \<le> maxReassemblyPerSource"
  using assms unfolding counters_ok_def by metis+

lemma evict_counters:
  assumes "counters_ok c" "(k, a) \<in> set (ob_parts c)"
  shows "counters_ok (evict_assembly (k, a) c)"
proof -
  note c = countersD [OF assms(1)]
  have k: "k \<in> set (map fst (ob_parts c))" using assms(2) by force
  have "map_of (ob_parts c) k = Some a" using c(1) assms(2) by simp
  then have "weight fa_bytes (AList.delete k (ob_parts c)) = ob_bytes c - fa_bytes a"
    by (simp add: weight_delete [OF c(1)] c(3))
  moreover have "int (length (AList.delete k (ob_parts c))) \<le> maxReassemblyEntries"
    using length_delete_le [of k "ob_parts c"] c(2) by simp
  ultimately show ?thesis
    using c(1,5) order_trans [OF c(5) [of "fst k"], of 17] unfolding counters_ok_def evict_assembly_def
    by (auto simp: delete_keys distinct_removeAll source_count_remove [OF c(1) k] c(4))
qed

lemma evict_assemblies: "assemblies_ok c (insert k K) \<Longrightarrow> assemblies_ok (evict_assembly (k, a) c) K"
  by (auto simp: assemblies_ok_def evict_assembly_def AList.delete_eq)

lemma assemblies_mono: "assemblies_ok c K \<Longrightarrow> K \<subseteq> K' \<Longrightarrow> assemblies_ok c K'"
  by (auto simp: assemblies_ok_def)

lemma evict_fold_ok:
  "obf_ok c \<Longrightarrow> distinct (map fst xs) \<Longrightarrow> set xs \<subseteq> set (ob_parts c) \<Longrightarrow>
   obf_ok (fold evict_assembly xs c) \<and> ob_opts (fold evict_assembly xs c) = ob_opts c"
proof (induction xs arbitrary: c)
  case (Cons x xs)
  obtain k a where x: "x = (k, a)" by fastforce
  let ?c = "evict_assembly (k, a) c"
  have "assemblies_ok c (insert k {})" using Cons.prems(1) by (auto simp: obf_ok_def intro: assemblies_mono)
  then have "obf_ok ?c" using Cons.prems x by (simp add: obf_ok_def evict_counters evict_assemblies)
  moreover have "set xs \<subseteq> set (ob_parts ?c)"
    using Cons.prems(2,3) x by (auto simp: evict_assembly_def AList.delete_eq rev_image_eqI)
  ultimately show ?case using Cons.IH [of ?c] Cons.prems(2) x by (simp add: evict_assembly_def)
qed simp

lemma evictFragmentsLocked_ok:
  assumes "obf_ok c"
  shows "obf_ok (evictFragmentsLocked now c)" "ob_opts (evictFragmentsLocked now c) = ob_opts c"
proof -
  have "distinct (map fst (filter (\<lambda>(k, a). \<not> now < fa_deadline a) (ob_parts c)))"
    using assms by (intro distinct_fst_filter) (simp add: obf_ok_def countersD)
  from evict_fold_ok [OF assms this] show "obf_ok (evictFragmentsLocked now c)"
    "ob_opts (evictFragmentsLocked now c) = ob_opts c"
    by (simp_all add: evictFragmentsLocked_def)
qed

lemma emit_ok [simp]: "obf_ok (emit e c) \<longleftrightarrow> obf_ok c" "ob_opts (emit e c) = ob_opts c"
  by (simp_all add: emit_def obf_ok_def counters_ok_def assemblies_ok_def)

definition add_part :: "fragmentKey \<Rightarrow> fragmentAssembly \<Rightarrow> nat \<Rightarrow> bytes \<Rightarrow> obfuscationPacketConn \<Rightarrow> obfuscationPacketConn" where
  "add_part key a i p c = c\<lparr>ob_parts := AList.update key
     (a\<lparr>fa_parts := (fa_parts a)[i := Some p], fa_bytes := fa_bytes a + int (length p)\<rparr>) (ob_parts c),
     ob_bytes := ob_bytes c + int (length p)\<rparr>"

lemma store_part_alt:
  "store_part key a i p c =
     (let a' = a\<lparr>fa_parts := (fa_parts a)[i := Some p], fa_bytes := fa_bytes a + int (length p)\<rparr>;
          c' = add_part key a i p c
      in if None \<in> set (fa_parts a') then (c', None)
         else let packet = concat (map the (fa_parts a')); c'' = evict_assembly (key, a') c'
           in if packet = [] then (emit FragmentDropped c'', None) else (c'', Some packet))"
  by (simp add: store_part_def add_part_def Let_def)

lemma add_part_counters:
  assumes "counters_ok c" "map_of (ob_parts c) key = Some a"
  shows "counters_ok (add_part key a i p c)"
proof -
  note c = countersD [OF assms(1)]
  have "key \<in> fst ` set (ob_parts c)" using assms(2) by (metis map_of_notin option.distinct(1))
  then show ?thesis
    using c(1,2,5) assms(2) unfolding counters_ok_def add_part_def
    by (simp add: update_keys length_update weight_update [OF c(1)] c(3,4))
qed

lemma set_update_distinct:
  assumes "distinct (map fst xs)"
  shows "(j, b) \<in> set (AList.update k v xs) \<longleftrightarrow> (if j = k then b = v else (j, b) \<in> set xs)"
proof -
  have "(j, b) \<in> set (AList.update k v xs) \<longleftrightarrow> map_of (AList.update k v xs) j = Some b"
    using distinct_update [OF assms] by simp
  also have "\<dots> \<longleftrightarrow> (if j = k then b = v else map_of xs j = Some b)" by (auto simp: update_conv')
  finally show ?thesis using assms by simp
qed

lemma add_part_assemblies:
  assumes "counters_ok c" "assemblies_ok c {}"
  shows "assemblies_ok (add_part key a i p c) {key}"
  using assms(2)
  by (auto simp: assemblies_ok_def add_part_def set_update_distinct [OF countersD(1) [OF assms(1)]])

lemma set_list_update_Some: "Some q \<in> set (ps[i := Some p]) \<Longrightarrow> q = p \<or> Some q \<in> set ps"
  using set_update_subset_insert [of ps i "Some p"] by auto

lemma store_part_ok:
  assumes "obf_ok c" "map_of (ob_parts c) key = Some a" "i < length (fa_parts a)" "fa_parts a ! i = None"
    and "int (length p) + 34 \<le> oo_MaxHandshakeFragmentWireBytes (ob_opts c)"
  shows "obf_ok (fst (store_part key a i p c)) \<and> ob_opts (fst (store_part key a i p c)) = ob_opts c"
proof -
  let ?a = "a\<lparr>fa_parts := (fa_parts a)[i := Some p], fa_bytes := fa_bytes a + int (length p)\<rparr>"
  let ?c = "add_part key a i p c"
  have c: "counters_ok c" "assemblies_ok c {}" using assms(1) by (simp_all add: obf_ok_def)
  have a: "assembly_ok (ob_opts c) a"
    using c(2) map_of_SomeD [OF assms(2)] by (auto simp: assemblies_ok_def)
  then have a': "assembly_ok (ob_opts c) ?a"
    using assms(3,4,5) by (auto simp: assembly_ok_def part_bytes_update dest: set_list_update_Some)
  have d: "counters_ok ?c" "assemblies_ok ?c {key}"
    using c assms(2) add_part_counters add_part_assemblies by blast+
  have opts: "ob_opts ?c = ob_opts c" by (simp add: add_part_def)
  have mem: "(key, ?a) \<in> set (ob_parts ?c)"
    by (simp add: add_part_def set_update_distinct [OF countersD(1) [OF c(1)]])
  show ?thesis
  proof (cases "None \<in> set (fa_parts ?a)")
    case True
    have "assemblies_ok ?c {}"
      using d(2) a' True
      by (auto simp: assemblies_ok_def add_part_def set_update_distinct [OF countersD(1) [OF c(1)]] split: if_splits)
    with True d(1) opts show ?thesis by (simp add: store_part_alt obf_ok_def)
  next
    case False
    have "counters_ok (evict_assembly (key, ?a) ?c)" using evict_counters [OF d(1) mem] .
    moreover have "assemblies_ok (evict_assembly (key, ?a) ?c) {}" using evict_assemblies d(2) by blast
    ultimately have "obf_ok (evict_assembly (key, ?a) ?c)" by (simp add: obf_ok_def)
    moreover have "ob_opts (evict_assembly (key, ?a) ?c) = ob_opts c" by (simp add: evict_assembly_def opts)
    ultimately show ?thesis using False by (simp add: store_part_alt Let_def)
  qed
qed


lemma good_fragment:
  assumes "\<not> bad_fragment opts body" "10 \<le> length body"
  shows "2 \<le> body ! 5" "body ! 5 \<le> 8" "unat (body ! 4) < unat (body ! 5)" "0 < frag_payloadLen body"
    "length (sub_slice body 10 (10 + frag_payloadLen body)) = frag_payloadLen body"
    "int (frag_payloadLen body) + 34 \<le> oo_MaxHandshakeFragmentWireBytes opts"
  using assms unfolding bad_fragment_def by (auto simp: not_less not_le word_less_nat_alt word_le_nat_alt sub_slice_def)

lemma new_assembly_ok:
  assumes "obf_ok c" "map_of (ob_parts c) key = None" "ob_sources c (fst key) < maxReassemblyPerSource"
    "int (length (ob_parts c)) < maxReassemblyEntries" "2 \<le> tot" "tot \<le> 8"
  shows "obf_ok (c\<lparr>ob_parts := AList.update key \<lparr>fa_total = tot, fa_parts = replicate (unat tot) None,
      fa_bytes = 0, fa_deadline = t\<rparr> (ob_parts c), ob_sources := (ob_sources c)(fst key := ob_sources c (fst key) + 1)\<rparr>)"
proof -
  let ?a = "\<lparr>fa_total = tot, fa_parts = replicate (unat tot) None, fa_bytes = 0, fa_deadline = t\<rparr>"
  have c: "counters_ok c" "assemblies_ok c {}" using assms(1) by (simp_all add: obf_ok_def)
  note d = countersD [OF c(1)]
  have key: "key \<notin> fst ` set (ob_parts c)" using assms(2) by (simp add: map_of_eq_None_iff)
  have "None \<in> set (fa_parts ?a)" using assms(5) by (simp add: word_le_nat_alt)
  then have "assembly_ok (ob_opts c) ?a \<and> None \<in> set (fa_parts ?a)"
    using assms(5,6) by (auto simp: assembly_ok_def)
  then have "assemblies_ok (c\<lparr>ob_parts := AList.update key ?a (ob_parts c)\<rparr>) {}"
    using c(2) unfolding assemblies_ok_def
    by (auto simp: set_update_distinct [OF d(1)] split: if_splits)
  moreover have "counters_ok (c\<lparr>ob_parts := AList.update key ?a (ob_parts c),
      ob_sources := (ob_sources c)(fst key := ob_sources c (fst key) + 1)\<rparr>)"
    using d(1,2,5) assms(3,4) key unfolding counters_ok_def
    by (auto simp: update_absent source_count_snoc d(3,4))
  ultimately show ?thesis by (simp add: obf_ok_def assemblies_ok_def)
qed

lemma acceptFragment_ok:
  assumes "obf_ok c0"
  shows "obf_ok (fst (acceptFragment body source now c0))
    \<and> ob_opts (fst (acceptFragment body source now c0)) = ob_opts c0"
proof (cases "length body < 10 \<or> bad_fragment (ob_opts c0) body")
  case True
  then show ?thesis using assms by (simp only: acceptFragment_def if_True) simp
next
  case False
  then have g: "\<not> bad_fragment (ob_opts c0) body" "10 \<le> length body" by auto
  let ?c = "evictFragmentsLocked now c0" and ?key = "(source, frag_id body)"
  let ?p = "sub_slice body 10 (10 + frag_payloadLen body)"
  note c = evictFragmentsLocked_ok [OF assms, of now] and g = good_fragment [OF g]
  show ?thesis
  proof (cases "map_of (ob_parts ?c) ?key")
    case None
    show ?thesis
    proof (cases "ob_sources ?c source \<ge> maxReassemblyPerSource \<or> int (length (ob_parts ?c)) \<ge> maxReassemblyEntries
        \<or> ob_bytes ?c + int (frag_payloadLen body) > maxReassemblyBytes")
      case True
      with False None c show ?thesis by (simp only: acceptFragment_def Let_def if_True if_False option.case) simp
    next
      case room: False
      let ?a = "\<lparr>fa_total = body ! 5, fa_parts = replicate (unat (body ! 5)) None, fa_bytes = 0,
        fa_deadline = now + reassemblyTTL\<rparr>"
      let ?d = "?c\<lparr>ob_parts := AList.update ?key ?a (ob_parts ?c),
        ob_sources := (ob_sources ?c)(source := ob_sources ?c source + 1)\<rparr>"
      have "obf_ok ?d"
        using new_assembly_ok [OF c(1) None _ _ g(1,2), of "now + reassemblyTTL"] room by simp
      then have "obf_ok (fst (store_part ?key ?a (unat (body ! 4)) ?p ?d))
          \<and> ob_opts (fst (store_part ?key ?a (unat (body ! 4)) ?p ?d)) = ob_opts ?d"
        using g c(2) by (intro store_part_ok) (simp_all add: update_conv')
      with False None room c show ?thesis
        by (simp add: acceptFragment_def Let_def)
    qed
  next
    case (Some a)
    have a: "length (fa_parts a) = unat (fa_total a)"
      using c(1) map_of_SomeD [OF Some] by (auto simp: obf_ok_def assemblies_ok_def assembly_ok_def)
    show ?thesis
    proof (cases "fa_total a \<noteq> body ! 5 \<or> fa_parts a ! unat (body ! 4) \<noteq> None")
      case True
      with False Some c show ?thesis by (simp only: acceptFragment_def Let_def if_True if_False option.case) simp
    next
      case fits: False
      have "obf_ok (fst (store_part ?key a (unat (body ! 4)) ?p ?c))
          \<and> ob_opts (fst (store_part ?key a (unat (body ! 4)) ?p ?c)) = ob_opts ?c"
        using g c(2) fits a by (intro store_part_ok c(1) Some) simp_all
      with False Some fits c show ?thesis
        by (simp only: acceptFragment_def Let_def if_False option.case)
    qed
  qed
qed


lemma open_body_ok:
  assumes "obf_ok c"
  shows "obf_ok (fst (open_body body source now dst c)) \<and> ob_opts (fst (open_body body source now dst c)) = ob_opts c"
  using assms acceptFragment_ok [OF assms] by (simp add: open_body_def)

lemma decode_with_ok:
  "obf_ok c \<Longrightarrow> obf_ok (fst (decode_with H salt masked t source now dst keys c))
     \<and> ob_opts (fst (decode_with H salt masked t source now dst keys c)) = ob_opts c"
proof (induction keys)
  case (Cons k keys)
  then show ?case using open_body_ok [of "emit (PacketAccepted (k \<noteq> ob_keys c ! 0)) c"] by simp
qed simp

lemma decode_ok:
  "obf_ok c \<Longrightarrow> obf_ok (fst (decode H wire source now dst c)) \<and> ob_opts (fst (decode H wire source now dst c)) = ob_opts c"
  using decode_with_ok by (simp add: decode_def)

text \<open>Writing uses only the keys, the options and the generator.\<close>

lemma seal_same: "seal H sys body c = (c', r) \<Longrightarrow> same_but_random c c'"
  using randomBytes_spec [of sys 16 c] by (auto simp: seal_def Let_def split: prod.splits sum.splits)

lemma writeData_same: "writeData H sys send p c w = (c', w', r) \<Longrightarrow> same_but_random c c'"
  using seal_same by (fastforce simp: writeData_def encodeData_def split: prod.splits sum.splits if_splits)

lemma choose_padding_same: "choose_padding sys base c = Some (c', r) \<Longrightarrow> same_but_random c c'"
  by (auto simp: choose_padding_def Let_def same_but_random_def split: if_splits option.splits prod.splits sum.splits)

lemma fragmentBody_same: "fragmentBody sys fid i n p c = Some (c', r) \<Longrightarrow> same_but_random c c'"
  using choose_padding_same randomBytes_spec
  by (fastforce simp: fragmentBody_def Let_def split: if_splits option.splits prod.splits sum.splits
      intro: same_but_random_trans)

lemma write_chunks_same:
  "write_chunks H sys send fid n i chunks c w = Some (c', w', r) \<Longrightarrow> same_but_random c c'"
proof (induction chunks arbitrary: i c w)
  case (Cons chunk chunks)
  obtain d x where d: "fragmentBody sys fid (of_nat i) (of_nat n) chunk c = Some (d, x)"
    using Cons.prems by (auto split: option.splits)
  note same = fragmentBody_same [OF d]
  show ?case
  proof (cases x)
    case (Inr body)
    obtain d' y where d': "seal H sys body d = (d', y)" by fastforce
    with same seal_same have same': "same_but_random c d'" by (blast intro: same_but_random_trans)
    show ?thesis
      using Cons.prems d d' Inr same' Cons.IH
      by (auto split: sum.splits if_splits prod.splits option.splits intro: same_but_random_trans)
  qed (use Cons.prems d same in auto)
qed simp

lemma WriteTo_same: "WriteTo H sys send p c w = Some (c', w', r) \<Longrightarrow> same_but_random c c'"
  using writeData_same write_chunks_same randomBytes_spec
  by (fastforce simp: WriteTo_def writeFragments_def Let_def split: if_splits prod.splits sum.splits
      intro: same_but_random_trans)

lemma same_but_random_ok: "same_but_random c c' \<Longrightarrow> obf_ok c' = obf_ok c \<and> ob_opts c' = ob_opts c"
  by (simp add: same_but_random_def obf_ok_def counters_ok_def assemblies_ok_def)

inductive obf_reaches :: "hash \<Rightarrow> obfuscationPacketConn \<Rightarrow> obfuscationPacketConn \<Rightarrow> bool" for H c where
  start: "obf_reaches H c c"
| receive: "obf_reaches H c d \<Longrightarrow> obf_reaches H c (fst (decode H wire source now dst d))"
| transmit: "obf_reaches H c d \<Longrightarrow> WriteTo H sys send p d (w :: bytes list) = Some (d', w', r) \<Longrightarrow> obf_reaches H c d'"

lemma obf_reaches_ok: "obf_reaches H c d \<Longrightarrow> obf_ok c \<Longrightarrow> obf_ok d \<and> ob_opts d = ob_opts c"
proof (induction rule: obf_reaches.induct)
  case (receive d wire source now dst)
  then show ?case using decode_ok [of d] by simp
next
  case (transmit d sys send p w d' w' r)
  then show ?case using same_but_random_ok [OF WriteTo_same] by metis
qed simp

lemma NewObfuscatingPacketConn_ok:
  assumes "NewObfuscatingPacketConn sha256 opts sink = Inr (Some c)"
  shows "obf_ok c" "ob_opts c = default_limits opts" "34 \<le> oo_MaxHandshakeFragmentWireBytes (ob_opts c)"
  using assms
  by (auto simp: NewObfuscatingPacketConn_def Let_def obf_ok_def counters_ok_def assemblies_ok_def source_count_def
      split: if_splits)

lemma weight_le:
  "(\<And>k v. (k, v) \<in> set xs \<Longrightarrow> f v \<le> m) \<Longrightarrow> weight f xs \<le> int (length xs) * m"
proof (induction xs)
  case (Cons x xs)
  obtain k v where x: "x = (k, v)" by fastforce
  have "f v \<le> m" using Cons.prems x by auto
  moreover have "weight f xs \<le> int (length xs) * m" using Cons by auto
  ultimately show ?case using x by (simp add: algebra_simps)
qed simp

text \<open>
  C28. Whatever datagrams arrive and whatever is written, the fragment store holds at most 128
  assemblies, at most 16 of one source, the per-source counters and the byte counter are
  exact, and the buffered bytes are at most those of 128 assemblies that each miss one of
  eight fragments.
\<close>

theorem obfuscation_state_bounded:
  assumes "NewObfuscatingPacketConn sha256 opts sink = Inr (Some c0)" and "obf_reaches H c0 c"
  shows "length (ob_parts c) \<le> 128
    \<and> (\<forall>s. ob_sources c s = int (length (filter (\<lambda>k. fst k = s) (map fst (ob_parts c)))) \<and> ob_sources c s \<le> 16)
    \<and> ob_bytes c = weight fa_bytes (ob_parts c)
    \<and> ob_bytes c \<le> 128 * (7 * (oo_MaxHandshakeFragmentWireBytes (default_limits opts) - 34))"
proof -
  note n = NewObfuscatingPacketConn_ok [OF assms(1)]
  have ok: "obf_ok c" and opts: "ob_opts c = default_limits opts"
    using obf_reaches_ok [OF assms(2) n(1)] n(2) by simp_all
  then have d: "counters_ok c" "assemblies_ok c {}" by (simp_all add: obf_ok_def)
  let ?m = "oo_MaxHandshakeFragmentWireBytes (default_limits opts) - 34"
  have m: "0 \<le> ?m" using n(2,3) by simp
  have "fa_bytes a \<le> 7 * ?m" if "(k, a) \<in> set (ob_parts c)" for k a
  proof -
    have a: "assembly_ok (default_limits opts) a" "None \<in> set (fa_parts a)"
      using d(2) that by (auto simp: assemblies_ok_def opts)
    have l: "length (fa_parts a) \<le> 8" using a(1) by (simp add: assembly_ok_def word_le_nat_alt)
    have "fa_bytes a = part_bytes (fa_parts a)" using a(1) by (simp add: assembly_ok_def)
    also have "\<dots> \<le> (int (length (fa_parts a)) - 1) * ?m"
      using a m by (intro part_bytes_incomplete) (auto simp: assembly_ok_def algebra_simps)
    also have "\<dots> \<le> 7 * ?m" using l m by (intro mult_right_mono) linarith+
    finally show ?thesis .
  qed
  then have "weight fa_bytes (ob_parts c) \<le> int (length (ob_parts c)) * (7 * ?m)" by (rule weight_le)
  also have "\<dots> \<le> 128 * (7 * ?m)" using countersD(2) [OF d(1)] m by (intro mult_right_mono) simp_all
  finally show ?thesis using countersD [OF d(1)] by (simp add: source_count_def)
qed

definition sample_obf_options :: ObfuscationOptions where
  "sample_obf_options = \<lparr>oo_Mode = ''camouflage'', oo_CurrentKey = [1, 2, 3], oo_PreviousKey = [],
     oo_HandshakeShaping = True, oo_MinFragmentBytes = 36, oo_MaxFragmentBytes = 36,
     oo_MaxHandshakeFragmentWireBytes = 40\<rparr>"

definition sample_obf :: obfuscationPacketConn where
  "sample_obf = \<lparr>ob_keys = [[1, 2, 3]], ob_opts = sample_obf_options, ob_metrics = Some [],
     ob_parts = [], ob_sources = (\<lambda>s. 0), ob_bytes = 0, ob_randomBuf = replicate 64 7, ob_randomPos = 0, ob_entropy = 0\<rparr>"

lemma sample_obf_new:
  "NewObfuscatingPacketConn (\<lambda>x. x) sample_obf_options True = Inr (Some (sample_obf\<lparr>ob_randomBuf := []\<rparr>))"
  by (simp add: NewObfuscatingPacketConn_def default_limits_def sample_obf_options_def sample_obf_def)

text \<open>A 32-byte digest to evaluate on: it depends on the whole input only through its length.\<close>

definition toy_digest :: hash where
  "toy_digest x = replicate 32 (of_nat (length x))"

lemma toy_digest32: "digest32 toy_digest"
  by (simp add: digest32_def toy_digest_def)

theorem obfuscation_state_bounded_witness:
  "ob_bytes (fst (decode toy_digest (replicate 40 0) ''peer'' 5 100 (sample_obf\<lparr>ob_randomBuf := []\<rparr>))) \<le> 128 * (7 * (40 - 34))"
proof -
  have l: "oo_MaxHandshakeFragmentWireBytes (default_limits sample_obf_options) = 40"
    by (simp add: default_limits_def sample_obf_options_def)
  from obfuscation_state_bounded [OF sample_obf_new obf_reaches.receive [OF obf_reaches.start]]
  show ?thesis unfolding l by blast
qed

lemma sample_salt: "randomBytes sys 16 sample_obf = (sample_obf\<lparr>ob_randomPos := 16\<rparr>, Inr (replicate 16 7))"
  by (simp add: randomBytes.simps [of sys 16] randomBytes.simps [of sys 0] refill_def sample_obf_def take_replicate)

lemma sample_encode:
  "\<exists>wire. encodeData toy_digest sys [9, 8] sample_obf = (sample_obf\<lparr>ob_randomPos := 16\<rparr>, Inr wire)"
  using length_mask [OF toy_digest32] length_tag [OF toy_digest32]
  by (simp add: encodeData_def seal_def sample_salt Let_def)

theorem obfuscated_data_travels_witness:
  "\<exists>c' wire. encodeData toy_digest (\<lambda>k. Inl (ErrNew [])) [9, 8] sample_obf = (c', Inr wire)
     \<and> snd (decode toy_digest wire ''peer'' 5 100 sample_obf) = Some [9, 8]"
proof -
  obtain wire where w: "encodeData toy_digest (\<lambda>k. Inl (ErrNew [])) [9, 8] sample_obf = (sample_obf\<lparr>ob_randomPos := 16\<rparr>, Inr wire)"
    using sample_encode by blast
  have "decode toy_digest wire ''peer'' 5 100 sample_obf =
      (emit (PacketAccepted (ob_keys sample_obf ! 0 \<noteq> ob_keys sample_obf ! 0)) sample_obf, Some [9, 8])"
    by (rule obfuscated_data_travels [OF toy_digest32 w, of _ "[]" "[]"]) (simp_all add: sample_obf_def)
  with w show ?thesis by auto
qed

theorem unauthenticated_datagram_dropped_witness:
  "snd (decode toy_digest (replicate 40 0) ''peer'' 5 100 sample_obf) = None"
proof -
  have "\<forall>k\<in>set (ob_keys sample_obf). tag toy_digest (take 16 (replicate 40 0))
      (sub_slice (replicate 40 0) 16 (length (replicate 40 (0 :: byte)) - 8)) k
    \<noteq> drop (length (replicate 40 (0 :: byte)) - 8) (replicate 40 0)"
    by (simp add: sample_obf_def tag_def toy_digest_def sub_slice_def obfuscationTagDomain_def)
  from unauthenticated_datagram_dropped [OF this, of "''peer''" 5 100] show ?thesis by auto
qed

section \<open>Fragmented packets\<close>

lemma concat_chunks_of: "0 < n \<Longrightarrow> concat (chunks_of n p) = p"
proof (induction n p rule: chunks_of.induct)
  case (1 n p)
  then show ?case by (cases "p = []") (simp_all add: chunks_of.simps [of n p] chunks_of.simps [of n "[]"])
qed

lemma chunks_of_bounds: "q \<in> set (chunks_of n p) \<Longrightarrow> q \<noteq> [] \<and> length q \<le> n"
proof (induction n p rule: chunks_of.induct)
  case (1 n p)
  then show ?case by (cases "p = [] \<or> n = 0") (auto simp: chunks_of.simps [of n p])
qed

lemma length_chunks_of: "0 < n \<Longrightarrow> length (chunks_of n p) = (length p + n - 1) div n"
proof (induction n p rule: chunks_of.induct)
  case (1 n p)
  show ?case
  proof (cases "p = []")
    case False
    have "length (chunks_of n p) = Suc ((length p - n + n - 1) div n)"
      using 1 False by (simp add: chunks_of.simps [of n p])
    also have "(length p - n + n - 1) div n = (length p - 1) div n"
      using False 1(2) by (cases "n \<le> length p") (simp_all add: div_eq_0_iff not_le)
    also have "Suc ((length p - 1) div n) = (length p - 1 + n) div n"
      using 1(2) by (simp add: div_add_self2)
    also have "length p - 1 + n = length p + n - 1" using False by (cases p) simp_all
    finally show ?thesis .
  qed (simp add: chunks_of.simps 1(2))
qed

text \<open>The fields of a fragment body read back.\<close>

lemma fragment_body_fields:
  assumes "length p < 65536" "length pad < 65536"
    and body_def: "body = fragment_body_bytes fid i n p pad"
  shows "length body = 10 + length p + length pad" "body ! 0 = obfuscationVersion" "body ! 1 = obfuscationFragment"
    "frag_id body = fid" "body ! 4 = i" "body ! 5 = n" "frag_payloadLen body = length p"
    "frag_paddingLen body = length pad" "sub_slice body 10 (10 + length p) = p"
proof -
  let ?l = "be_put 2 (of_nat (length p) :: u16)" and ?m = "be_put 2 (of_nat (length pad) :: u16)"
  let ?h = "[obfuscationVersion, obfuscationFragment] :: bytes"
  have b: "body = ?h @ be_put 2 fid @ [i, n] @ ?l @ ?m @ p @ pad"
    by (simp add: body_def fragment_body_bytes_def)
  have s1: "sub_slice body 2 4 = be_put 2 fid"
    unfolding b by (rule slice_append) (simp_all del: be_put.simps)
  have s2: "sub_slice body 6 8 = ?l"
    unfolding b using slice_append [of "?h @ be_put 2 fid @ [i, n]" 6 8 ?l "?m @ p @ pad"] by (simp del: be_put.simps)
  have s3: "sub_slice body 8 10 = ?m"
    unfolding b using slice_append [of "?h @ be_put 2 fid @ [i, n] @ ?l" 8 10 ?m "p @ pad"] by (simp del: be_put.simps)
  have s4: "sub_slice body 10 (10 + length p) = p"
    unfolding b using slice_append [of "?h @ be_put 2 fid @ [i, n] @ ?l @ ?m" 10 "10 + length p" p pad] by (simp del: be_put.simps)
  show "length body = 10 + length p + length pad" unfolding b by (simp del: be_put.simps)
  show "body ! 0 = obfuscationVersion" "body ! 1 = obfuscationFragment" unfolding b by simp_all
  show "body ! 4 = i" "body ! 5 = n" unfolding b by (simp_all add: nth_append del: be_put.simps)
  show "frag_id body = fid" "frag_payloadLen body = length p" "frag_paddingLen body = length pad"
    using assms(1,2) by (simp_all add: frag_id_def frag_payloadLen_def frag_paddingLen_def s1 s2 s3
        u16be.get_put unat_of_nat del: be_put.simps)
  show "sub_slice body 10 (10 + length p) = p" by (rule s4)
qed

text \<open>The padding keeps every fragment between the configured sizes.\<close>

definition limits_ok :: "ObfuscationOptions \<Rightarrow> bool" where
  "limits_ok opts \<longleftrightarrow> 34 \<le> oo_MinFragmentBytes opts \<and> oo_MinFragmentBytes opts \<le> oo_MaxFragmentBytes opts
     \<and> oo_MaxFragmentBytes opts \<le> oo_MaxHandshakeFragmentWireBytes opts
     \<and> oo_MaxHandshakeFragmentWireBytes opts \<le> maxObfuscationDatagram"

lemma Uint16n_less: "Uint16n sys n k = Some (Inr v, k') \<Longrightarrow> v < n"
  using sample_loop_result [of sys n k "(Inr v, k')"]
  by (auto simp: Uint16n_def word_neq_0_conv split: if_splits)

lemma choose_padding_bounds:
  assumes "limits_ok (ob_opts c)" "34 \<le> base" "base \<le> oo_MaxFragmentBytes (ob_opts c)"
    and "choose_padding sys base c = Some (c', Inr n)"
  shows "oo_MinFragmentBytes (ob_opts c) \<le> base + int n \<and> base + int n \<le> oo_MaxFragmentBytes (ob_opts c)"
proof -
  define lo where "lo = max 0 (oo_MinFragmentBytes (ob_opts c) - base)"
  define hi where "hi = max 0 (oo_MaxFragmentBytes (ob_opts c) - base)"
  have b: "0 \<le> lo" "lo \<le> hi" "hi \<le> 65502" "hi + base = oo_MaxFragmentBytes (ob_opts c)"
    "oo_MinFragmentBytes (ob_opts c) \<le> base + lo"
    using assms(1-3) by (auto simp: limits_ok_def lo_def hi_def)
  have "lo \<le> int n \<and> int n \<le> hi"
  proof (cases "lo < hi")
    case True
    let ?w = "of_int (hi - lo + 1) :: u32"
    have "?w = of_nat (nat (hi - lo + 1))" using b by simp
    then have w: "unat ?w = nat (hi - lo + 1)" using b by (simp only: unat_of_nat) simp
    obtain v k where v: "Uint16n sys ?w (ob_entropy c) = Some (Inr v, k)" "n = nat lo + unat v"
      using assms(4) True by (auto simp: choose_padding_def lo_def [symmetric] hi_def [symmetric] Let_def
          split: option.splits prod.splits sum.splits)
    have "unat v < unat ?w" using Uint16n_less [OF v(1)] by (simp only: word_less_nat_alt)
    with w b have "int (unat v) \<le> hi - lo" by linarith
    with v(2) b show ?thesis by (simp del: of_nat_unat)
  next
    case False
    then show ?thesis
      using assms(4) b by (auto simp: choose_padding_def lo_def [symmetric] hi_def [symmetric] Let_def)
  qed
  with b show ?thesis by linarith
qed

lemma fragmentBody_Inr:
  assumes "limits_ok (ob_opts c)" "fragmentBody sys fid i n p c = Some (c', Inr body)"
  obtains pad where "body = fragment_body_bytes fid i n p pad" "length p < 65536" "length pad < 65536"
    "oo_MinFragmentBytes (ob_opts c) \<le> 34 + int (length p + length pad)"
    "34 + int (length p + length pad) \<le> oo_MaxFragmentBytes (ob_opts c)"
proof -
  let ?base = "34 + int (length p)"
  obtain d m where b: "?base \<le> oo_MaxFragmentBytes (ob_opts c)" and d: "choose_padding sys ?base c = Some (d, Inr m)"
    and r: "\<exists>pad. randomBytes sys m d = (c', Inr pad) \<and> body = fragment_body_bytes fid i n p pad"
    using assms(2) by (auto simp: fragmentBody_def Let_def split: if_splits option.splits prod.splits sum.splits)
  from r obtain pad where pad: "randomBytes sys m d = (c', Inr pad)" "body = fragment_body_bytes fid i n p pad" by blast
  have "length pad = m" using randomBytes_spec [OF pad(1)] by simp
  with choose_padding_bounds [OF assms(1) _ b d] assms(1) show ?thesis
    by (intro that [OF pad(2)]) (auto simp: limits_ok_def)
qed

text \<open>The socket that records what is written to it.\<close>

definition collect :: "bytes list socket" where
  "collect w wire = (w @ [wire], None)"

text \<open>\<open>wire\<close> is a sealed fragment number \<open>i\<close> of \<open>n\<close> with payload \<open>p\<close>.\<close>

definition sealed_fragment ::
  "hash \<Rightarrow> obfuscationPacketConn \<Rightarrow> u16 \<Rightarrow> nat \<Rightarrow> nat \<Rightarrow> bytes \<Rightarrow> bytes \<Rightarrow> bool" where
  "sealed_fragment H c fid i n p wire \<longleftrightarrow> (\<exists>sys d d' pad. ob_keys d = ob_keys c
     \<and> seal H sys (fragment_body_bytes fid (of_nat i) (of_nat n) p pad) d = (d', Inr wire)
     \<and> length p < 65536 \<and> length pad < 65536
     \<and> oo_MinFragmentBytes (ob_opts c) \<le> int (34 + length p + length pad)
     \<and> int (34 + length p + length pad) \<le> oo_MaxFragmentBytes (ob_opts c))"

lemma sealed_fragment_same: "same_but_random c d \<Longrightarrow> sealed_fragment H d fid i n p wire = sealed_fragment H c fid i n p wire"
  by (simp add: sealed_fragment_def same_but_random_def)

lemma write_chunks_sealed:
  "limits_ok (ob_opts c) \<Longrightarrow> write_chunks H sys collect fid n i chunks c w = Some (c', w', None) \<Longrightarrow>
   \<exists>ws. w' = w @ ws \<and> length ws = length chunks
     \<and> (\<forall>j < length chunks. sealed_fragment H c fid (i + j) n (chunks ! j) (ws ! j))"
proof (induction chunks arbitrary: i c w)
  case (Cons p chunks)
  obtain d body where d: "fragmentBody sys fid (of_nat i) (of_nat n) p c = Some (d, Inr body)"
    using Cons.prems(2) by (auto split: option.splits sum.splits)
  obtain d' wire where s: "seal H sys body d = (d', Inr wire)"
    using Cons.prems(2) d by (auto split: prod.splits sum.splits)
  have rest: "write_chunks H sys collect fid n (i + 1) chunks d' (w @ [wire]) = Some (c', w', None)"
    using Cons.prems(2) d s by (auto simp: collect_def [of w] split: if_splits)
  have same: "same_but_random c d'"
    using fragmentBody_same [OF d] seal_same [OF s] by (rule same_but_random_trans)
  then have "limits_ok (ob_opts d')" using Cons.prems(1) by (simp add: same_but_random_def)
  from Cons.IH [OF this rest] obtain ws where ws: "w' = (w @ [wire]) @ ws" "length ws = length chunks"
    "\<forall>j < length chunks. sealed_fragment H c fid (i + 1 + j) n (chunks ! j) (ws ! j)"
    by (auto simp: sealed_fragment_same [OF same])
  obtain pad where pad: "body = fragment_body_bytes fid (of_nat i) (of_nat n) p pad" "length p < 65536" "length pad < 65536"
    "oo_MinFragmentBytes (ob_opts c) \<le> 34 + int (length p + length pad)"
    "34 + int (length p + length pad) \<le> oo_MaxFragmentBytes (ob_opts c)"
    by (rule fragmentBody_Inr [OF Cons.prems(1) d])
  have "ob_keys d = ob_keys c" using fragmentBody_same [OF d] by (simp add: same_but_random_def)
  with s pad have "sealed_fragment H c fid i n p wire"
    unfolding sealed_fragment_def by (intro exI [of _ sys] exI [of _ d] exI [of _ d'] exI [of _ pad]) simp
  with ws have "w' = w @ wire # ws \<and> length (wire # ws) = length (p # chunks)
      \<and> (\<forall>j < length (p # chunks). sealed_fragment H c fid (i + j) n ((p # chunks) ! j) ((wire # ws) ! j))"
    by (auto simp: nth_Cons split: nat.splits)
  then show ?case by blast
qed simp

lemma length_seal: "digest32 H \<Longrightarrow> seal H sys body c = (c', Inr wire) \<Longrightarrow> length wire = length body + 24"
  by (erule seal_Inr) (simp add: length_mask length_tag)

lemma decode_sealed_fragment:
  assumes "digest32 H" "sealed_fragment H c fid i n p wire" "limits_ok (ob_opts c)"
    and "ob_keys r \<noteq> []" "ob_keys r ! 0 = ob_keys c ! 0"
  obtains pad where "length p < 65536" "length pad < 65536"
    "int (34 + length p + length pad) \<le> oo_MaxFragmentBytes (ob_opts c)"
    "decode H wire source now dst r =
      acceptFragment (fragment_body_bytes fid (of_nat i) (of_nat n) p pad) source now (emit (PacketAccepted False) r)"
proof -
  obtain sys d d' pad where k: "ob_keys d = ob_keys c"
    and s: "seal H sys (fragment_body_bytes fid (of_nat i) (of_nat n) p pad) d = (d', Inr wire)"
    and l: "length p < 65536" "length pad < 65536"
      "int (34 + length p + length pad) \<le> oo_MaxFragmentBytes (ob_opts c)"
    using assms(2) unfolding sealed_fragment_def by blast
  let ?body = "fragment_body_bytes fid (of_nat i) (of_nat n) p pad"
  note f = fragment_body_fields [OF l(1,2) refl, of fid "of_nat i" "of_nat n"]
  have wire: "int (length wire) \<le> maxObfuscationDatagram"
    using length_seal [OF assms(1) s] f(1) l(3) assms(3) by (simp add: limits_ok_def)
  have keys: "ob_keys r = [] @ ob_keys d ! 0 # tl (ob_keys r)"
    using assms(4,5) k by (cases "ob_keys r") auto
  have "decode H wire source now dst r = open_body ?body source now dst (emit (PacketAccepted False) r)"
    using decode_seal [OF assms(1) s _ wire keys] f(1) assms(5) k by simp
  also have "\<dots> = acceptFragment ?body source now (emit (PacketAccepted False) r)"
    using f(1-3) by (simp add: open_body_def)
  finally show ?thesis using that l by blast
qed


fun decode_all :: "hash \<Rightarrow> string \<Rightarrow> time \<Rightarrow> nat \<Rightarrow> obfuscationPacketConn \<Rightarrow> bytes list \<Rightarrow> bytes option list" where
  "decode_all H source now dst r [] = []"
| "decode_all H source now dst r (wire # wires) =
     (case decode H wire source now dst r of (r', x) \<Rightarrow> x # decode_all H source now dst r' wires)"

text \<open>The receiver holds exactly the fragments \<open>I\<close> of the packet under \<open>key\<close>, and nothing has expired.\<close>

definition holding_parts :: "bytes list \<Rightarrow> nat set \<Rightarrow> bytes option list" where
  "holding_parts chunks I = map (\<lambda>i. if i \<in> I then Some (chunks ! i) else None) [0 ..< length chunks]"

definition holding :: "fragmentKey \<Rightarrow> bytes list \<Rightarrow> nat set \<Rightarrow> time \<Rightarrow> obfuscationPacketConn \<Rightarrow> fragmentAssembly \<Rightarrow> bool" where
  "holding key chunks I now r a \<longleftrightarrow> distinct (map fst (ob_parts r)) \<and> map_of (ob_parts r) key = Some a
     \<and> fa_total a = of_nat (length chunks) \<and> fa_parts a = holding_parts chunks I
     \<and> (\<forall>(k, b)\<in>set (ob_parts r). now < fa_deadline b)"

lemma holding_parts_update: "(holding_parts chunks I)[i := Some (chunks ! i)] = holding_parts chunks (insert i I)"
  by (rule nth_equalityI; cases "i < length chunks") (auto simp: holding_parts_def nth_list_update list_update_beyond)

lemma holding_parts_None: "None \<in> set (holding_parts chunks I) \<longleftrightarrow> \<not> {..<length chunks} \<subseteq> I"
  by (auto simp: holding_parts_def)

lemma holding_parts_concat:
  "{..<length chunks} \<subseteq> I \<Longrightarrow> concat (map the (holding_parts chunks I)) = concat chunks"
proof -
  assume "{..<length chunks} \<subseteq> I"
  then have "map the (holding_parts chunks I) = chunks"
    by (intro nth_equalityI) (auto simp: holding_parts_def subset_iff)
  then show ?thesis by simp
qed

lemma store_part_holding:
  assumes "holding key chunks I now r a" "concat chunks \<noteq> []" "chunks ! i = p"
  shows "if {..<length chunks} \<subseteq> insert i I then snd (store_part key a i p r) = Some (concat chunks)
    else snd (store_part key a i p r) = None
      \<and> (\<exists>a'. holding key chunks (insert i I) now (fst (store_part key a i p r)) a')
      \<and> ob_keys (fst (store_part key a i p r)) = ob_keys r \<and> ob_opts (fst (store_part key a i p r)) = ob_opts r"
proof -
  let ?a = "a\<lparr>fa_parts := (fa_parts a)[i := Some p], fa_bytes := fa_bytes a + int (length p)\<rparr>"
  have parts: "fa_parts ?a = holding_parts chunks (insert i I)"
    using assms(1,3) by (auto simp: holding_def holding_parts_update)
  show ?thesis
  proof (cases "{..<length chunks} \<subseteq> insert i I")
    case True
    then have "None \<notin> set (fa_parts ?a)" "concat (map the (fa_parts ?a)) = concat chunks"
      unfolding parts by (simp_all only: holding_parts_None holding_parts_concat not_not)
    with True assms(2) show ?thesis by (simp add: store_part_alt Let_def)
  next
    case False
    then have N: "None \<in> set (fa_parts ?a)" unfolding parts by (simp add: holding_parts_None)
    have d: "distinct (map fst (ob_parts r))" using assms(1) by (simp add: holding_def)
    have "now < fa_deadline a" using assms(1) map_of_SomeD [of "ob_parts r" key a] by (auto simp: holding_def)
    then have "holding key chunks (insert i I) now (add_part key a i p r) ?a"
      using assms(1) parts set_update_distinct [OF d, of _ _ key ?a]
      by (auto simp: holding_def add_part_def distinct_update update_conv' split: if_splits)
    with False N show ?thesis by (auto simp: store_part_alt Let_def add_part_def)
  qed
qed

lemma evict_nothing: "\<forall>(k, a)\<in>set (ob_parts r). now < fa_deadline a \<Longrightarrow> evictFragmentsLocked now r = r"
proof -
  assume "\<forall>(k, a)\<in>set (ob_parts r). now < fa_deadline a"
  then have "filter (\<lambda>(k, a). \<not> now < fa_deadline a) (ob_parts r) = []" by (auto simp: filter_empty_conv)
  then show ?thesis by (simp add: evictFragmentsLocked_def)
qed

lemma body_accepted:
  assumes "length p < 65536" "length pad < 65536" "p \<noteq> []" "2 \<le> n" "n \<le> 8" "i < n"
    and "int (34 + length p + length pad) \<le> oo_MaxHandshakeFragmentWireBytes opts"
  shows "\<not> (length (fragment_body_bytes fid (of_nat i) (of_nat n) p pad) < fragmentHeaderBytes
    \<or> bad_fragment opts (fragment_body_bytes fid (of_nat i) (of_nat n) p pad))"
  using assms fragment_body_fields [OF assms(1,2) refl, of fid "of_nat i" "of_nat n"]
  by (simp add: bad_fragment_def word_less_nat_alt word_le_nat_alt unat_of_nat)

lemma acceptFragment_holding:
  assumes "holding (source, fid) chunks I now r a" "i < length chunks" "i \<notin> I"
    and "length p < 65536" "length pad < 65536" "p \<noteq> []" "2 \<le> length chunks" "length chunks \<le> 8"
    and "int (34 + length p + length pad) \<le> oo_MaxHandshakeFragmentWireBytes (ob_opts r)"
  shows "acceptFragment (fragment_body_bytes fid (of_nat i) (of_nat (length chunks)) p pad) source now r =
    store_part (source, fid) a i p r"
proof -
  note ok = body_accepted [OF assms(4-8,2,9), of fid]
  note f = fragment_body_fields [OF assms(4,5) refl, of fid "of_nat i" "of_nat (length chunks)"]
  have e: "evictFragmentsLocked now r = r" using assms(1) by (intro evict_nothing) (simp add: holding_def)
  have i: "unat (of_nat i :: byte) = i" using assms(2,8) by (simp add: unat_of_nat)
  have "map_of (ob_parts r) (source, fid) = Some a" "fa_total a = of_nat (length chunks)" "fa_parts a ! i = None"
    using assms(1,2,3) by (auto simp: holding_def holding_parts_def)
  then show ?thesis
    using ok unfolding acceptFragment_def Let_def e f i by simp
qed


lemma holding_emit [simp]: "holding key chunks I now (emit e r) a = holding key chunks I now r a"
  by (simp add: holding_def emit_def)

lemma emit_keys [simp]: "ob_keys (emit e r) = ob_keys r" "ob_parts (emit e r) = ob_parts r"
  "ob_sources (emit e r) = ob_sources r" "ob_bytes (emit e r) = ob_bytes r"
  by (simp_all add: emit_def)

text \<open>What the two sides agree on for one packet, cut into \<open>chunks\<close> and sealed as \<open>wires\<close>.\<close>

definition packet_sent :: "hash \<Rightarrow> obfuscationPacketConn \<Rightarrow> u16 \<Rightarrow> bytes list \<Rightarrow> bytes list \<Rightarrow> bool" where
  "packet_sent H c fid chunks wires \<longleftrightarrow> digest32 H \<and> limits_ok (ob_opts c) \<and> length wires = length chunks
     \<and> 2 \<le> length chunks \<and> length chunks \<le> 8 \<and> [] \<notin> set chunks
     \<and> (\<forall>j < length chunks. sealed_fragment H c fid j (length chunks) (chunks ! j) (wires ! j))"

definition peers :: "obfuscationPacketConn \<Rightarrow> obfuscationPacketConn \<Rightarrow> bool" where
  "peers c r \<longleftrightarrow> ob_keys r \<noteq> [] \<and> ob_keys r ! 0 = ob_keys c ! 0
     \<and> oo_MaxFragmentBytes (ob_opts c) \<le> oo_MaxHandshakeFragmentWireBytes (ob_opts r)"

lemma decode_holding:
  assumes "packet_sent H c fid chunks wires" "peers c r" "holding (source, fid) chunks I now r a"
    and "j < length chunks" "j \<notin> I"
  shows "\<exists>r'. decode H (wires ! j) source now dst r = store_part (source, fid) a j (chunks ! j) r'
    \<and> holding (source, fid) chunks I now r' a \<and> peers c r'"
proof -
  have p: "digest32 H" "sealed_fragment H c fid j (length chunks) (chunks ! j) (wires ! j)" "limits_ok (ob_opts c)"
    "2 \<le> length chunks" "length chunks \<le> 8" "chunks ! j \<noteq> []"
    using assms(1,4) by (auto simp: packet_sent_def) (metis nth_mem)
  have k: "ob_keys r \<noteq> []" "ob_keys r ! 0 = ob_keys c ! 0" using assms(2) by (simp_all add: peers_def)
  obtain pad where pad: "length (chunks ! j) < 65536" "length pad < 65536"
    "int (34 + length (chunks ! j) + length pad) \<le> oo_MaxFragmentBytes (ob_opts c)"
    "decode H (wires ! j) source now dst r =
      acceptFragment (fragment_body_bytes fid (of_nat j) (of_nat (length chunks)) (chunks ! j) pad) source now
        (emit (PacketAccepted False) r)"
    by (rule decode_sealed_fragment [OF p(1-3) k])
  let ?r = "emit (PacketAccepted False) r"
  have "holding (source, fid) chunks I now ?r a" "peers c ?r" using assms(2,3) by (simp_all add: peers_def)
  moreover have "decode H (wires ! j) source now dst r = store_part (source, fid) a j (chunks ! j) ?r"
    unfolding pad(4)
    by (rule acceptFragment_holding) (use assms(2-5) pad p in \<open>auto simp: peers_def\<close>)
  ultimately show ?thesis by blast
qed

lemma decode_all_holding:
  "packet_sent H c fid chunks wires \<Longrightarrow> peers c r \<Longrightarrow> holding (source, fid) chunks I now r a \<Longrightarrow>
   distinct js \<Longrightarrow> js \<noteq> [] \<Longrightarrow> set js \<inter> I = {} \<Longrightarrow> set js \<union> I = {..<length chunks} \<Longrightarrow>
   decode_all H source now dst r (map ((!) wires) js) = replicate (length js - 1) None @ [Some (concat chunks)]"
proof (induction js arbitrary: I r a)
  case (Cons j js)
  have j: "j < length chunks" "j \<notin> I" using Cons.prems by auto
  obtain r' where r': "decode H (wires ! j) source now dst r = store_part (source, fid) a j (chunks ! j) r'"
    "holding (source, fid) chunks I now r' a" "peers c r'"
    using decode_holding [OF Cons.prems(1-3) j] by blast
  have ne: "concat chunks \<noteq> []" using Cons.prems(1) j(1) by (auto simp: packet_sent_def) (metis nth_mem)
  note step = store_part_holding [OF r'(2) ne refl, of j]
  show ?case
  proof (cases "js = []")
    case True
    then have "{..<length chunks} \<subseteq> insert j I" using Cons.prems(7) by auto
    with step r'(1) True show ?thesis by (simp add: case_prod_unfold)
  next
    case False
    then obtain k where "k \<in> set js" by (cases js) auto
    then have "\<not> {..<length chunks} \<subseteq> insert j I" using Cons.prems(4,6,7) by auto
    with step obtain a' where s: "snd (store_part (source, fid) a j (chunks ! j) r') = None"
      "holding (source, fid) chunks (insert j I) now (fst (store_part (source, fid) a j (chunks ! j) r')) a'"
      "peers c (fst (store_part (source, fid) a j (chunks ! j) r'))"
      using r'(3) by (auto simp: peers_def)
    have "decode_all H source now dst (fst (store_part (source, fid) a j (chunks ! j) r')) (map ((!) wires) js) =
        replicate (length js - 1) None @ [Some (concat chunks)]"
      by (rule Cons.IH [OF Cons.prems(1) s(3,2)]) (use Cons.prems False in auto)
    moreover have "length js = Suc (length js - 1)" using False by (cases js) auto
    ultimately show ?thesis using r'(1) s(1) by (simp add: case_prod_unfold) (metis replicate_Suc append_Cons)
  qed
qed simp

lemma assembly_bytes_nonneg: "obf_ok c \<Longrightarrow> (k, a) \<in> set (ob_parts c) \<Longrightarrow> 0 \<le> fa_bytes a"
  by (auto simp: obf_ok_def assemblies_ok_def assembly_ok_def part_bytes_nonneg)

lemma evict_fold_shrinks:
  "obf_ok c \<Longrightarrow> distinct (map fst xs) \<Longrightarrow> set xs \<subseteq> set (ob_parts c) \<Longrightarrow>
   ob_bytes (fold evict_assembly xs c) \<le> ob_bytes c
   \<and> set (ob_parts (fold evict_assembly xs c)) \<subseteq> set (ob_parts c) - set xs
   \<and> length (ob_parts (fold evict_assembly xs c)) \<le> length (ob_parts c)
   \<and> ob_keys (fold evict_assembly xs c) = ob_keys c"
proof (induction xs arbitrary: c)
  case (Cons x xs)
  obtain k a where x: "x = (k, a)" by fastforce
  let ?c = "evict_assembly (k, a) c"
  have ok: "obf_ok ?c" using evict_fold_ok [of c "[x]"] Cons.prems x by simp
  have sub: "set xs \<subseteq> set (ob_parts ?c)"
    using Cons.prems(2,3) x by (auto simp: evict_assembly_def AList.delete_eq rev_image_eqI)
  have a: "0 \<le> fa_bytes a" using Cons.prems(1,3) x by (auto intro: assembly_bytes_nonneg)
  have "ob_bytes ?c \<le> ob_bytes c" "length (ob_parts ?c) \<le> length (ob_parts c)" "ob_keys ?c = ob_keys c"
    "set (ob_parts ?c) \<subseteq> set (ob_parts c) - {x}"
    using a length_delete_le [of k "ob_parts c"] x by (auto simp: evict_assembly_def AList.delete_eq)
  with Cons.IH [OF ok _ sub] Cons.prems(2) x show ?case by fastforce
qed auto

lemma evict_shrinks:
  assumes "obf_ok c"
  shows "ob_bytes (evictFragmentsLocked now c) \<le> ob_bytes c"
    "set (ob_parts (evictFragmentsLocked now c)) \<subseteq> set (ob_parts c)"
    "\<forall>(k, a)\<in>set (ob_parts (evictFragmentsLocked now c)). now < fa_deadline a"
    "length (ob_parts (evictFragmentsLocked now c)) \<le> length (ob_parts c)"
    "ob_keys (evictFragmentsLocked now c) = ob_keys c"
proof -
  let ?xs = "filter (\<lambda>(k, a). \<not> now < fa_deadline a) (ob_parts c)"
  have "distinct (map fst ?xs)"
    using assms by (intro distinct_fst_filter) (simp add: obf_ok_def countersD)
  note s = evict_fold_shrinks [OF assms this, folded evictFragmentsLocked_def]
  show "ob_bytes (evictFragmentsLocked now c) \<le> ob_bytes c"
    "set (ob_parts (evictFragmentsLocked now c)) \<subseteq> set (ob_parts c)"
    "\<forall>(k, a)\<in>set (ob_parts (evictFragmentsLocked now c)). now < fa_deadline a"
    "length (ob_parts (evictFragmentsLocked now c)) \<le> length (ob_parts c)"
    "ob_keys (evictFragmentsLocked now c) = ob_keys c"
    using s by auto
qed

text \<open>Nothing from this source is in flight and there is room for the whole packet.\<close>

definition room_for :: "string \<Rightarrow> bytes \<Rightarrow> obfuscationPacketConn \<Rightarrow> bool" where
  "room_for source packet r \<longleftrightarrow> (\<forall>(k, a)\<in>set (ob_parts r). fst k \<noteq> source)
     \<and> int (length (ob_parts r)) < maxReassemblyEntries \<and> ob_bytes r + int (length packet) \<le> maxReassemblyBytes"

lemma acceptFragment_first:
  assumes "obf_ok r" "room_for source p r" "i < length chunks" "length p < 65536" "length pad < 65536" "p \<noteq> []"
    and "2 \<le> length chunks" "length chunks \<le> 8"
    and "int (34 + length p + length pad) \<le> oo_MaxHandshakeFragmentWireBytes (ob_opts r)"
  shows "\<exists>r' a. acceptFragment (fragment_body_bytes fid (of_nat i) (of_nat (length chunks)) p pad) source now r =
      store_part (source, fid) a i p r'
    \<and> holding (source, fid) chunks {} now r' a \<and> ob_keys r' = ob_keys r \<and> ob_opts r' = ob_opts r"
proof -
  let ?c = "evictFragmentsLocked now r" and ?n = "of_nat (length chunks) :: byte"
  let ?a = "\<lparr>fa_total = ?n, fa_parts = replicate (unat ?n) None, fa_bytes = 0, fa_deadline = now + reassemblyTTL\<rparr>"
  let ?d = "?c\<lparr>ob_parts := AList.update (source, fid) ?a (ob_parts ?c),
    ob_sources := (ob_sources ?c)(source := ob_sources ?c source + 1)\<rparr>"
  note ok = body_accepted [OF assms(4-8,3,9), of fid]
  note f = fragment_body_fields [OF assms(4,5) refl, of fid "of_nat i" ?n]
  note e = evict_shrinks [OF assms(1), of now] and c = evictFragmentsLocked_ok [OF assms(1), of now]
  have cc: "counters_ok ?c" using c(1) by (simp add: obf_ok_def)
  have fresh: "fst k \<noteq> source" if "k \<in> fst ` set (ob_parts ?c)" for k
    using that e(2) assms(2) by (fastforce simp: room_for_def)
  then have none: "map_of (ob_parts ?c) (source, fid) = None"
    using fresh [of "(source, fid)"] by (auto simp: map_of_eq_None_iff)
  have "filter (\<lambda>k. fst k = source) (map fst (ob_parts ?c)) = []" using fresh by (auto simp: filter_empty_conv)
  then have "ob_sources ?c source = 0" using countersD(4) [OF cc, of source] by (simp add: source_count_def)
  then have room: "\<not> (ob_sources ?c source \<ge> maxReassemblyPerSource \<or> int (length (ob_parts ?c)) \<ge> maxReassemblyEntries
      \<or> ob_bytes ?c + int (length p) > maxReassemblyBytes)"
    using assms(2) e(1,4) by (simp add: room_for_def)
  have i: "unat (of_nat i :: byte) = i" "unat ?n = length chunks" using assms(3,8) by (simp_all add: unat_of_nat)
  have "acceptFragment (fragment_body_bytes fid (of_nat i) ?n p pad) source now r = store_part (source, fid) ?a i p ?d"
    using ok none room unfolding acceptFragment_def Let_def f i by simp
  moreover have "holding (source, fid) chunks {} now ?d ?a"
    using countersD(1) [OF cc] e(3) i(2)
    by (auto simp: holding_def holding_parts_def distinct_update update_conv' set_update_distinct second_def map_replicate_const
        split: if_splits)
  ultimately show ?thesis using c(2) e(5) by (intro exI [of _ ?d] exI [of _ ?a]) simp
qed


lemma decode_all_first:
  assumes "packet_sent H c fid chunks wires" "peers c r" "obf_ok r" "room_for source (concat chunks) r"
    and "distinct js" "set js = {..<length chunks}"
  shows "decode_all H source now dst r (map ((!) wires) js) = replicate (length js - 1) None @ [Some (concat chunks)]"
proof -
  have p: "digest32 H" "limits_ok (ob_opts c)" "2 \<le> length chunks" "length chunks \<le> 8"
    using assms(1) by (simp_all add: packet_sent_def)
  then have "0 < length chunks" by linarith
  then have "0 \<in> set js" unfolding assms(6) by (simp only: lessThan_iff)
  then obtain j js' where js: "js = j # js'" by (cases js) auto
  then have j: "j < length chunks" using assms(6) by auto
  then have p': "sealed_fragment H c fid j (length chunks) (chunks ! j) (wires ! j)" "chunks ! j \<noteq> []"
    using assms(1) by (auto simp: packet_sent_def) (metis nth_mem)
  have k: "ob_keys r \<noteq> []" "ob_keys r ! 0 = ob_keys c ! 0" using assms(2) by (simp_all add: peers_def)
  obtain pad where pad: "length (chunks ! j) < 65536" "length pad < 65536"
    "int (34 + length (chunks ! j) + length pad) \<le> oo_MaxFragmentBytes (ob_opts c)"
    "decode H (wires ! j) source now dst r =
      acceptFragment (fragment_body_bytes fid (of_nat j) (of_nat (length chunks)) (chunks ! j) pad) source now
        (emit (PacketAccepted False) r)"
    by (rule decode_sealed_fragment [OF p(1) p'(1) p(2) k])
  let ?r = "emit (PacketAccepted False) r"
  have "length (chunks ! j) \<le> length (concat chunks)"
    using j by (simp add: length_concat member_le_sum_list)
  then have room: "room_for source (chunks ! j) ?r" using assms(4) by (simp add: room_for_def)
  obtain r' a where r': "decode H (wires ! j) source now dst r = store_part (source, fid) a j (chunks ! j) r'"
    "holding (source, fid) chunks {} now r' a" "peers c r'"
    using acceptFragment_first [OF _ room j pad(1,2) p'(2) p(3,4), of fid now] assms(2,3) pad
    by (auto simp: peers_def)
  have ne: "concat chunks \<noteq> []" using p'(2) j by (metis concat_eq_Nil_conv nth_mem)
  have "js' \<noteq> []"
  proof
    assume "js' = []"
    with assms(6) js have "{..<length chunks} = {j}" by simp
    then have "card {..<length chunks} = 1" by simp
    with p(3) show False by simp
  qed
  then have nsub: "\<not> {..<length chunks} \<subseteq> insert j {}" using assms(5,6) js by (cases js') auto
  from store_part_holding [OF r'(2) ne refl, of j] nsub
  obtain a' where s: "snd (store_part (source, fid) a j (chunks ! j) r') = None"
    "holding (source, fid) chunks (insert j {}) now (fst (store_part (source, fid) a j (chunks ! j) r')) a'"
    "peers c (fst (store_part (source, fid) a j (chunks ! j) r'))"
    using r'(3) by (auto simp: peers_def)
  have "decode_all H source now dst (fst (store_part (source, fid) a j (chunks ! j) r')) (map ((!) wires) js') =
      replicate (length js' - 1) None @ [Some (concat chunks)]"
    by (rule decode_all_holding [OF assms(1) s(3,2)]) (use assms(5,6) js \<open>js' \<noteq> []\<close> in auto)
  moreover have "length js' = Suc (length js' - 1)" using \<open>js' \<noteq> []\<close> by (cases js') auto
  ultimately show ?thesis using js r'(1) s(1) by (simp add: case_prod_unfold) (metis replicate_Suc append_Cons)
qed

lemma writeFragments_sent:
  assumes "digest32 H" "limits_ok (ob_opts c)" "oo_MaxFragmentBytes (ob_opts c) - 34 < int (length packet)"
    and "writeFragments H sys collect packet c [] = Some (c', wires, None)"
  shows "\<exists>fid chunks. packet_sent H c fid chunks wires \<and> concat chunks = packet"
proof -
  define sz where "sz = nat (oo_MaxFragmentBytes (ob_opts c) - 34)"
  have big: "\<not> oo_MaxFragmentBytes (ob_opts c) \<le> 34"
    using assms(4) by (auto simp: writeFragments_def Let_def)
  then have sz: "0 < sz" "sz < length packet" using assms(3) by (simp_all add: sz_def)
  then have "\<not> (length packet + sz - 1) div sz < 2"
    by (simp add: not_less less_eq_div_iff_mult_less_eq)
  with assms(4) big obtain d idb where idb: "(length packet + sz - 1) div sz \<le> 8"
      "randomBytes sys 2 c = (d, Inr idb)"
      "write_chunks H sys collect (be_get idb) ((length packet + sz - 1) div sz) 0 (chunks_of sz packet) d [] = Some (c', wires, None)"
    by (auto simp: writeFragments_def Let_def sz_def [symmetric] split: prod.splits sum.splits if_splits)
  let ?cs = "chunks_of sz packet"
  note len = length_chunks_of [OF sz(1), of packet]
  have same: "same_but_random c d" using randomBytes_spec [OF idb(2)] by simp
  then have "limits_ok (ob_opts d)" using assms(2) by (simp add: same_but_random_def)
  from write_chunks_sealed [OF this idb(3)] have "packet_sent H c (be_get idb) ?cs wires"
    using assms(1,2) idb(1) \<open>\<not> (length packet + sz - 1) div sz < 2\<close> chunks_of_bounds [of _ sz packet]
    by (auto simp: packet_sent_def len sealed_fragment_same [OF same])
  then show ?thesis using concat_chunks_of [OF sz(1)] by blast
qed



lemma randomBytes_buffered:
  assumes "ob_randomPos c + n \<le> length (ob_randomBuf c)"
  shows "randomBytes sys n c =
    (c\<lparr>ob_randomPos := ob_randomPos c + n\<rparr>, Inr (take n (drop (ob_randomPos c) (ob_randomBuf c))))"
proof (cases "n = 0")
  case False
  then have "refill sys c = (c, None)" using assms by (simp add: refill_def)
  with False assms show ?thesis
    by (simp add: randomBytes.simps [of sys n] randomBytes.simps [of sys 0])
qed (simp add: randomBytes.simps [of sys 0])

lemma sample_write:
  "\<exists>c' w1 w2. writeFragments toy_digest sys collect [0x80, 1, 2] sample_obf [] = Some (c', [w1, w2], None)"
proof -
  let ?c = "\<lambda>n. sample_obf\<lparr>ob_randomPos := n\<rparr>"
  have o: "ob_opts (?c n) = sample_obf_options" for n by (simp add: sample_obf_def)
  have pad: "choose_padding sys b (?c n) = Some (?c n, Inr (nat (36 - b)))" if "b \<le> 36" for b n
    using that by (simp add: choose_padding_def o sample_obf_options_def Let_def)
  have r: "randomBytes sys m (?c n) = (?c (n + m), Inr (take m (drop n (replicate 64 7))))" if "n + m \<le> 64" for n m
    using randomBytes_buffered [of "?c n" m] that by (simp add: sample_obf_def)
  have sl: "\<exists>w. seal toy_digest sys body (?c n) = (?c (n + 16), Inr w) \<and> length w = length body + 24" if "n \<le> 48" for body n
    using r [of n 16] that length_mask [OF toy_digest32] length_tag [OF toy_digest32] by (simp add: seal_def Let_def)
  have fb: "\<exists>b. fragmentBody sys fid i t p (?c n) = Some (?c (n + (2 - length p)), Inr b) \<and> length b = 12"
    if "n \<le> 48" "length p \<le> 2" for fid i t p n
    using pad [of "34 + int (length p)" n] r [of n "2 - length p"] that
    by (simp add: fragmentBody_def Let_def fragment_body_bytes_def o sample_obf_options_def nat_diff_distrib' del: be_put.simps)
  have ch: "chunks_of 2 [0x80, 1, 2 :: byte] = [[0x80, 1], [2]]" by (simp add: chunks_of.simps)
  let ?f = "be_get (replicate 2 7) :: u16"
  obtain b1 where b1: "fragmentBody sys ?f 0 2 [0x80, 1] (?c 2) = Some (?c 2, Inr b1)" "length b1 = 12"
    using fb [of 2 "[0x80, 1]" ?f 0 2] by auto
  obtain w1 where w1: "seal toy_digest sys b1 (?c 2) = (?c 18, Inr w1)" "length w1 = 36"
    using sl [of 2 b1] b1(2) by auto
  obtain b2 where b2: "fragmentBody sys ?f 1 2 [2] (?c 18) = Some (?c 19, Inr b2)" "length b2 = 12"
    using fb [of 18 "[2]" ?f 1 2] by auto
  obtain w2 where w2: "seal toy_digest sys b2 (?c 19) = (?c 35, Inr w2)" "length w2 = 36"
    using sl [of 19 b2] b2(2) by auto
  have "writeFragments toy_digest sys collect [0x80, 1, 2] (?c 0) [] = Some (?c 35, [w1, w2], None)"
    unfolding writeFragments_def Let_def o
    using r [of 0 2] b1 w1 b2 w2
    by (simp add: ch o collect_def [of "[]"] collect_def [of "[w1]"] sample_obf_options_def numeral_2_eq_2 [symmetric])
  moreover have "?c 0 = sample_obf" by (simp add: sample_obf_def)
  ultimately show ?thesis by auto
qed


end
