(* ===== verification/Dataplane_Proxy.thy ===== *)
theory Dataplane_Proxy
  imports Dataplane_Egress
begin

text \<open>
  \<^verbatim>\<open>internal/dataplane/proxy.go\<close>: the local HTTP and SOCKS5 entrances of an agent. A handler reads
  the client's bytes, answers on the client's socket, asks the dialer of the runtime for the
  upstream connection and ends in an error or in a tunnel; the copying after that is the duplex
  relay. The dialer, the client's socket and \<^verbatim>\<open>http.ReadRequest\<close> are parameters.
\<close>

abbreviation proxyHandshakeLimit :: nat where "proxyHandshakeLimit \<equiv> 65536"
abbreviation proxyTargetLimit :: nat where "proxyTargetLimit \<equiv> 2048"

section \<open>Validation\<close>

definition validateProxyBind :: "string \<Rightarrow> check" where
  "validateProxyBind value =
     (case split_host_port value of
        None \<Rightarrow> Some (ErrNew ''proxy bind must be host:port'')
      | Some (host, portText) \<Rightarrow>
          if trim_space host = [] \<or> trim_space host \<noteq> host
             \<or> contains_any host [CHR '' '', CHR 0x09, CHR 0x0D, CHR 0x0A] then
            Some (ErrNew ''proxy bind must be host:port'')
          else case atoi portText of (port, ok) \<Rightarrow>
            fail_if (\<not> ok \<or> port < 1 \<or> port > 65535 \<or> contains_any portText [CHR '' '', CHR 0x09, CHR 0x0D, CHR 0x0A])
              (ErrNew ''proxy bind port must be between 1 and 65535''))"

definition validateProxyForEngine :: "Engine \<Rightarrow> ProxySpec \<Rightarrow> check" where
  "validateProxyForEngine e proxy =
     and_then (ValidateID (px_ID proxy) ''proxy.id'')
     (and_then (fail_if (px_Protocol proxy \<noteq> ''http'' \<and> px_Protocol proxy \<noteq> ''socks5'')
        (ErrNew ''proxy protocol must be http or socks5''))
     (and_then (validateProxyBind (px_Bind proxy))
     (case en_agentSpec e of
        None \<Rightarrow> Some (ErrNew ''agent proxy spec is not applied'')
      | Some spec \<Rightarrow>
          (case find (\<lambda>c. px_ID c = px_ID proxy) (ag_Proxies spec) of
             None \<Rightarrow> Some (ErrNew ''proxy is not present in the applied agent spec'')
           | Some c \<Rightarrow>
               if px_Protocol c \<noteq> px_Protocol proxy \<or> px_Bind c \<noteq> px_Bind proxy then
                 Some (ErrNew ''proxy does not match the applied agent spec'')
               else fail_if (\<not> px_Enabled c) (ErrNew ''proxy is disabled'')))))"

section \<open>Targets\<close>

definition normalizeHostPort :: "string \<Rightarrow> string result" where
  "normalizeHostPort value =
     (if trim_space value \<noteq> value \<or> length value = 0 \<or> length value > proxyTargetLimit
         \<or> contains_any value [CHR 0x00, CHR 0x0D, CHR 0x0A] then Inl (ErrNew ''target must be host:port'')
      else case split_host_port value of
          None \<Rightarrow> Inl (ErrNew ''target must be host:port'')
        | Some (host, portText) \<Rightarrow>
            if trim_space host = [] \<or> host \<noteq> trim_space host \<or> contains_any host [CHR '' '', CHR 0x09]
               \<or> contains_any portText [CHR '' '', CHR 0x09] then Inl (ErrNew ''target must be host:port'')
            else case atoi portText of (port, ok) \<Rightarrow>
              if \<not> ok \<or> port < 1 \<or> port > 65535 then Inl (ErrNew ''target port is invalid'')
              else Inr (join_host_port host (show_nat (nat port))))"

definition normalizeHTTPConnectTarget :: "string \<Rightarrow> string result" where
  "normalizeHTTPConnectTarget value =
     (if length value = 0 \<or> length value > proxyTargetLimit \<or> contains_any value [CHR 0x00, CHR 0x0D, CHR 0x0A] then
        Inl (ErrNew ''HTTP CONNECT target is invalid'')
      else normalizeHostPort value)"

text \<open>\<^verbatim>\<open>url.URL\<close> with its \<^verbatim>\<open>Hostname\<close> and \<^verbatim>\<open>Port\<close> methods.\<close>

record url =
  url_Scheme :: string
  url_Host :: string
  url_RequestURI :: string

definition url_split :: "string \<Rightarrow> string \<times> string" where
  "url_split hostPort =
     (let (host, port) = (case last_index_byte CHR '':'' hostPort of
            None \<Rightarrow> (hostPort, [])
          | Some i \<Rightarrow> if list_all is_digit (drop (Suc i) hostPort) then (take i hostPort, drop (Suc i) hostPort)
                      else (hostPort, []))
      in (if has_prefix host ''['' \<and> has_suffix host '']'' then take (length host - 2) (drop 1 host) else host, port))"

definition normalizeHTTPURLTarget :: "url \<Rightarrow> string result" where
  "normalizeHTTPURLTarget u =
     (if length (url_Host u) = 0 \<or> length (url_Host u) > proxyTargetLimit
         \<or> contains_any (url_Host u) [CHR 0x00, CHR 0x0D, CHR 0x0A] then Inl (ErrNew ''HTTP target is invalid'')
      else let scheme = to_lower (trim_space (url_Scheme u)) in
        if scheme \<noteq> ''http'' \<and> scheme \<noteq> ''https'' then Inl (ErrNew ''HTTP scheme is unsupported'')
        else let (hostname, p) = url_split (url_Host u);
                 port = (if p = [] then (if scheme = ''http'' then ''80'' else ''443'') else p)
          in normalizeHostPort (join_host_port hostname port))"

section \<open>SOCKS5\<close>

text \<open>What \<^verbatim>\<open>conn.Write\<close> does to the client's socket.\<close>

type_synonym 'w client = "'w \<Rightarrow> bytes \<Rightarrow> 'w \<times> check"

text \<open>How a handler ends: an error, or a tunnel between the upstream and the unread client bytes.\<close>

datatype 'u proxy_end = Failed go_error | Tunnel 'u bytes

definition readSOCKS5Address :: "bytes \<Rightarrow> byte \<Rightarrow> (string \<times> bytes) result" where
  "readSOCKS5Address bs atyp =
     (if atyp = 1 then
        bind_result (read_full 4 bs) (\<lambda>(v, rest). Inr (addr_string (Addr4 (be_get v)), rest))
      else if atyp = 4 then
        bind_result (read_full 16 bs) (\<lambda>(v, rest). Inr (addr_string (unmap (Addr6 (be_get v) [])), rest))
      else if atyp = 3 then
        bind_result (read_full 1 bs) (\<lambda>(l, rest).
          if l ! 0 = 0 \<or> unat (l ! 0) > 253 then Inl (ErrNew ''SOCKS5 domain is invalid'')
          else bind_result (read_full (unat (l ! 0)) rest) (\<lambda>(v, rest').
            let name = map (\<lambda>b. char_of (unat b)) v in
            if contains_any name [CHR 0x00, CHR 0x0D, CHR 0x0A, CHR '' '', CHR 0x09] then
              Inl (ErrNew ''SOCKS5 domain is invalid'')
            else Inr (name, rest')))
      else Inl (ErrNew ''SOCKS5 address type is unsupported''))"

definition socks5_reply :: "byte \<Rightarrow> bytes" where
  "socks5_reply code = [5, code, 0, 1, 0, 0, 0, 0, 0, 0]"

text \<open>The request after the greeting; \<open>beyond\<close> is what lies past the handshake limit.\<close>

definition socks5_request ::
  "'w client \<Rightarrow> (string \<Rightarrow> string \<Rightarrow> 'u result) \<Rightarrow> string \<Rightarrow> bytes \<Rightarrow> bytes \<Rightarrow> 'w \<Rightarrow> 'w \<times> 'u proxy_end" where
  "socks5_request write dial route bs beyond w =
     (case read_full 4 bs of
        Inl e \<Rightarrow> (w, Failed e)
      | Inr (h, bs1) \<Rightarrow>
          if h ! 0 \<noteq> 5 then (w, Failed (ErrNew ''invalid SOCKS5 request''))
          else if h ! 1 \<noteq> 1 then (fst (write w (socks5_reply 7)), Failed (ErrNew ''SOCKS5 command is unsupported''))
          else if h ! 2 \<noteq> 0 then (fst (write w (socks5_reply 1)), Failed (ErrNew ''SOCKS5 reserved byte is invalid''))
          else case readSOCKS5Address bs1 (h ! 3) of
              Inl e \<Rightarrow> (fst (write w (socks5_reply 8)), Failed e)
            | Inr (host, bs2) \<Rightarrow>
                (case read_full 2 bs2 of
                   Inl e \<Rightarrow> (w, Failed e)
                 | Inr (p, bs3) \<Rightarrow>
                     let port = be_get p :: u16 in
                     if port = 0 then (fst (write w (socks5_reply 8)), Failed (ErrNew ''SOCKS5 target port is zero''))
                     else case dial (join_host_port host (show_nat (unat port))) route of
                         Inl e \<Rightarrow> (fst (write w (socks5_reply 5)), Failed e)
                       | Inr upstream \<Rightarrow>
                           (case write w (socks5_reply 0) of
                              (w', Some e) \<Rightarrow> (w', Failed e)
                            | (w', None) \<Rightarrow> (w', Tunnel upstream (bs3 @ beyond)))))"

definition handleSOCKS5WithBuffer ::
  "'w client \<Rightarrow> (string \<Rightarrow> string \<Rightarrow> 'u result) \<Rightarrow> ProxySpec \<Rightarrow> bytes \<Rightarrow> 'w \<Rightarrow> 'w \<times> 'u proxy_end" where
  "handleSOCKS5WithBuffer write dial proxy input w =
     (let bs = take proxyHandshakeLimit input; beyond = drop proxyHandshakeLimit input in
      case read_full 2 bs of
        Inl e \<Rightarrow> (w, Failed e)
      | Inr (header, bs1) \<Rightarrow>
          if header ! 0 \<noteq> 5 \<or> header ! 1 = 0 then (w, Failed (ErrNew ''invalid SOCKS5 greeting''))
          else case read_full (unat (header ! 1)) bs1 of
              Inl e \<Rightarrow> (w, Failed e)
            | Inr (methods, bs2) \<Rightarrow>
                if 0 \<notin> set methods then
                  (fst (write w [5, 0xFF]), Failed (ErrNew ''SOCKS5 client does not offer no-auth''))
                else case write w [5, 0] of
                    (w', Some e) \<Rightarrow> (w', Failed e)
                  | (w', None) \<Rightarrow> socks5_request write dial (px_Route proxy) bs2 beyond w')"

section \<open>HTTP\<close>

record request =
  rq_Method :: string
  rq_Host :: string
  rq_URL :: "url option"
  rq_RequestURI :: string
  rq_Header :: "(string \<times> string list) list"

text \<open>The answer to a request that is not served: code and reason, no body.\<close>

definition writeHTTPProxyError :: "'w client \<Rightarrow> 'w \<Rightarrow> nat \<Rightarrow> string \<Rightarrow> 'w" where
  "writeHTTPProxyError write w code message =
     fst (write w (map (\<lambda>c. of_nat (byte_of c)) (''HTTP/1.1 '' @ show_nat code @ '' '' @ message
       @ [CHR 0x0D, CHR 0x0A] @ ''Connection: close'' @ [CHR 0x0D, CHR 0x0A] @ ''Content-Length: 0''
       @ [CHR 0x0D, CHR 0x0A, CHR 0x0D, CHR 0x0A])))"

definition established :: bytes where
  "established = map (\<lambda>c. of_nat (byte_of c)) (''HTTP/1.1 200 Connection Established''
     @ [CHR 0x0D, CHR 0x0A, CHR 0x0D, CHR 0x0A])"

text \<open>What is sent upstream: origin form, without the proxy headers.\<close>

definition forwarded :: "request \<Rightarrow> url \<Rightarrow> request" where
  "forwarded r u = r\<lparr>rq_RequestURI := url_RequestURI u, rq_URL := Some (u\<lparr>url_Scheme := [], url_Host := []\<rparr>),
     rq_Header := filter (\<lambda>(k, v). k \<noteq> ''Proxy-Authorization'' \<and> k \<noteq> ''Proxy-Connection'') (rq_Header r)\<rparr>"

text \<open>
  \<open>parse\<close> is \<^verbatim>\<open>http.ReadRequest\<close> on the limited reader, with the bytes it leaves there; \<open>send\<close> is
  \<^verbatim>\<open>Request.Write\<close> to the upstream, which takes the request's body from the bytes left in the limited
  reader (never from beyond the limit) and leaves the rest of them.
\<close>

definition handleHTTPProxyWithBuffer ::
  "'w client \<Rightarrow> (bytes \<Rightarrow> (request \<times> bytes) result) \<Rightarrow> (string \<Rightarrow> string \<Rightarrow> 'u result) \<Rightarrow> (request \<Rightarrow> bytes \<Rightarrow> 'u \<Rightarrow> ('u \<times> bytes) result) \<Rightarrow>
   ProxySpec \<Rightarrow> bytes \<Rightarrow> 'w \<Rightarrow> 'w \<times> 'u proxy_end" where
  "handleHTTPProxyWithBuffer write parse dial send proxy input w =
     (let beyond = drop proxyHandshakeLimit input in
      case parse (take proxyHandshakeLimit input) of
        Inl e \<Rightarrow> (writeHTTPProxyError write w 400 ''Bad Request'', Failed e)
      | Inr (r, rest) \<Rightarrow>
          if rq_Method r = ''CONNECT'' then
            (case normalizeHTTPConnectTarget (rq_Host r) of
               Inl e \<Rightarrow> (writeHTTPProxyError write w 400 ''Bad Request'', Failed e)
             | Inr target \<Rightarrow>
                 (case dial target (px_Route proxy) of
                    Inl e \<Rightarrow> (writeHTTPProxyError write w 502 ''Bad Gateway'', Failed e)
                  | Inr upstream \<Rightarrow> (fst (write w established), Tunnel upstream (rest @ beyond))))
          else case rq_URL r of
              None \<Rightarrow> (writeHTTPProxyError write w 400 ''Bad Request'', Failed (ErrNew ''HTTP proxy requests must use an absolute URL''))
            | Some u \<Rightarrow>
                if url_Scheme u = [] \<or> url_Host u = [] then
                  (writeHTTPProxyError write w 400 ''Bad Request'', Failed (ErrNew ''HTTP proxy requests must use an absolute URL''))
                else case normalizeHTTPURLTarget u of
                    Inl e \<Rightarrow> (writeHTTPProxyError write w 400 ''Bad Request'', Failed e)
                  | Inr target \<Rightarrow>
                      (case dial target (px_Route proxy) of
                         Inl e \<Rightarrow> (writeHTTPProxyError write w 502 ''Bad Gateway'', Failed e)
                       | Inr upstream \<Rightarrow>
                           (case send (forwarded r u) rest upstream of
                              Inl e \<Rightarrow> (w, Failed e)
                            | Inr (upstream', rest') \<Rightarrow> (w, Tunnel upstream' (rest' @ beyond)))))"

section \<open>Targets handed to the dialer\<close>

lemma digits_plain_port: "plain_port (show_nat n)"
  using show_nat_digits [of n] by (auto simp: plain_port_def list_all_iff char_class_defs)

lemma split_host_port_subset: "split_host_port s = Some (h, p) \<Longrightarrow> set h \<subseteq> set s"
  by (auto simp: split_host_port_def split: option.splits if_splits dest!: in_set_takeD in_set_dropD)

text \<open>
  A target that \<open>normalizeHostPort\<close> accepts is a canonical \<open>host:port\<close>: it splits back into
  the very host of the request and a decimal port between 1 and 65535 without sign or leading zeros.
\<close>

theorem normalizeHostPort_canonical:
  assumes "normalizeHostPort v = Inr t"
  shows "\<exists>h port. split_host_port t = Some (h, show_nat port) \<and> 1 \<le> port \<and> port \<le> 65535
    \<and> fst (the (split_host_port v)) = h \<and> h \<noteq> []
    \<and> (\<forall>c \<in> set h. c \<notin> {CHR 0x00, CHR 0x09, CHR 0x0A, CHR 0x0D, CHR '' ''})"
proof -
  obtain h p port where s: "split_host_port v = Some (h, p)" and a: "atoi p = (port, True)"
    and r: "1 \<le> port" "port \<le> 65535" "t = join_host_port h (show_nat (nat port))"
    and v: "\<not> contains_any v [CHR 0x00, CHR 0x0D, CHR 0x0A]" and h: "\<not> contains_any h [CHR '' '', CHR 0x09]" "trim_space h \<noteq> []" "h = trim_space h"
    using assms by (auto simp: normalizeHostPort_def split: if_splits option.splits prod.splits)
  have "split_host_port t = Some (h, show_nat (nat port))"
    using split_join_host_port split_host_port_plain [OF s] digits_plain_port r(3) by blast
  moreover have "\<forall>c \<in> set h. c \<notin> {CHR 0x00, CHR 0x09, CHR 0x0A, CHR 0x0D, CHR '' ''}"
    using v h(1) split_host_port_subset [OF s] unfolding contains_any_def list_ex_iff by auto
  moreover have "h \<noteq> []" using h(2,3) by simp
  moreover have "1 \<le> nat port" "nat port \<le> 65535" using r(1,2) by simp_all
  ultimately show ?thesis using s by (metis fst_conv option.sel)
qed

section \<open>The SOCKS5 exchange\<close>

lemma read_full_append: "length a = n \<Longrightarrow> read_full n (a @ b) = Inr (a, b)"
  by (auto simp: read_full_def)

text \<open>The bytes of a CONNECT request to a domain name.\<close>

definition connect_request :: "string \<Rightarrow> u16 \<Rightarrow> bytes" where
  "connect_request name port = [5, 1, 0, 3, of_nat (length name)] @ map (\<lambda>c. of_nat (byte_of c)) name @ be_put 2 port"

lemma connect_request_length: "length (connect_request name port) = length name + 7"
  by (simp add: connect_request_def)

lemma text_bytes: "map (\<lambda>b. char_of (unat (b :: byte))) (map (\<lambda>c. of_nat (byte_of c)) name) = name"
proof -
  have "unat (of_nat (byte_of c) :: byte) = byte_of c" for c
    by (simp add: unat_of_nat)
  then show ?thesis by (simp add: comp_def)
qed

lemma readSOCKS5Address_domain:
  assumes "name \<noteq> []" "length name \<le> 253" "\<not> contains_any name [CHR 0x00, CHR 0x0D, CHR 0x0A, CHR '' '', CHR 0x09]"
  shows "readSOCKS5Address (of_nat (length name) # map (\<lambda>c. of_nat (byte_of c)) name @ rest) 3 = Inr (name, rest)"
proof -
  have n: "unat (of_nat (length name) :: byte) = length name" using assms(2) by (simp add: unat_of_nat)
  then have "(of_nat (length name) :: byte) \<noteq> 0" using assms(1) by (metis length_0_conv unat_0)
  moreover have "read_full (Suc 0) (of_nat (length name) # map (\<lambda>c. of_nat (byte_of c)) name @ rest)
      = Inr ([of_nat (length name)], map (\<lambda>c. of_nat (byte_of c)) name @ rest)" by (simp add: read_full_def)
  moreover have "read_full (length name) (map (\<lambda>c. of_nat (byte_of c)) name @ rest)
      = Inr (map (\<lambda>c. of_nat (byte_of c) :: byte) name, rest)" by (rule read_full_append) simp
  ultimately show ?thesis using assms n text_bytes [of name] by (simp add: readSOCKS5Address_def Let_def)
qed

lemma socks5_request_connect:
  assumes "name \<noteq> []" "length name \<le> 253" "\<not> contains_any name [CHR 0x00, CHR 0x0D, CHR 0x0A, CHR '' '', CHR 0x09]"
    and "port \<noteq> 0" "dial (join_host_port name (show_nat (unat port))) route = Inr up"
    and "write w (socks5_reply 0) = (w', None)"
  shows "socks5_request write dial route (connect_request name port @ early) beyond w = (w', Tunnel up (early @ beyond))"
proof -
  let ?n = "map (\<lambda>c. of_nat (byte_of c)) name"
  have "read_full 4 (connect_request name port @ early) = Inr ([5, 1, 0, 3], of_nat (length name) # ?n @ be_put 2 port @ early)"
    using read_full_append [of "[5, 1, 0, 3]" 4 "of_nat (length name) # ?n @ be_put 2 port @ early"]
    by (simp add: connect_request_def)
  moreover have "read_full 2 (be_put 2 port @ early) = Inr (be_put 2 port, early)"
    by (rule read_full_append) simp
  moreover have "(be_get (be_put 2 port) :: u16) = port" by (simp add: codec_simps del: be_put.simps)
  ultimately show ?thesis
    using assms by (simp add: socks5_request_def readSOCKS5Address_domain Let_def del: be_put.simps)
qed

text \<open>
  A client that offers the no-authentication method and asks for a CONNECT to a domain name and
  a non-zero port gets the two success answers, is connected to that host and port over the
  proxy's route, and every byte it sent after the request enters the tunnel.
\<close>

theorem socks5_connect:
  assumes "0 \<in> set methods" "length methods \<le> 255"
    and "name \<noteq> []" "length name \<le> 253" "\<not> contains_any name [CHR 0x00, CHR 0x0D, CHR 0x0A, CHR '' '', CHR 0x09]"
    and "port \<noteq> 0" "dial (join_host_port name (show_nat (unat port))) (px_Route proxy) = Inr up"
    and "write w [5, 0] = (w1, None)" "write w1 (socks5_reply 0) = (w2, None)"
  shows "handleSOCKS5WithBuffer write dial proxy
      ([5, of_nat (length methods)] @ methods @ connect_request name port @ early) w = (w2, Tunnel up early)"
proof -
  let ?early = "take (proxyHandshakeLimit - (2 + length methods + length (connect_request name port))) early"
  let ?beyond = "drop (proxyHandshakeLimit - (2 + length methods + length (connect_request name port))) early"
  let ?in = "[5, of_nat (length methods)] @ methods @ connect_request name port @ early"
  have short: "length methods + (length name + 9) \<le> proxyHandshakeLimit" using assms(2,4) by simp
  have cut: "take proxyHandshakeLimit ?in = [5, of_nat (length methods)] @ methods @ connect_request name port @ ?early"
    "drop proxyHandshakeLimit ?in = ?beyond"
    using short by (simp_all add: connect_request_length)
  have m: "unat (of_nat (length methods) :: byte) = length methods" using assms(2) by (simp add: unat_of_nat)
  have nz: "(of_nat (length methods) :: byte) \<noteq> 0" using assms(1) m by auto
  have r: "read_full 2 ([5, of_nat (length methods)] @ methods @ connect_request name port @ ?early)
      = Inr ([5, of_nat (length methods)], methods @ connect_request name port @ ?early)"
    "read_full (length methods) (methods @ connect_request name port @ ?early) = Inr (methods, connect_request name port @ ?early)"
    by (rule read_full_append; simp)+
  show ?thesis
    unfolding handleSOCKS5WithBuffer_def Let_def cut r
    using assms m nz r(2) 
      socks5_request_connect [of name port dial "px_Route proxy" up "write" w1 w2 "?early" "?beyond"] by simp
qed

theorem socks5_connect_witness:
  "handleSOCKS5WithBuffer (\<lambda>w bs. (w @ bs, None)) (\<lambda>t r. Inr t)
     \<lparr>px_ID = ''p'', px_Protocol = ''socks5'', px_Bind = ''127.0.0.1:1080'', px_Route = ''r'', px_Enabled = True\<rparr>
     ([5, 1, 0] @ connect_request ''x.org'' 443 @ [22, 3]) []
   = ([5, 0, 5, 0, 0, 1, 0, 0, 0, 0, 0, 0], Tunnel ''x.org:443'' [22, 3])"
proof -
  have "join_host_port ''x.org'' (show_nat 443) = ''x.org:443''" by code_simp
  then show ?thesis
    using socks5_connect [of "[0]" "''x.org''" "443" "\<lambda>t r. Inr t"
        "\<lparr>px_ID = ''p'', px_Protocol = ''socks5'', px_Bind = ''127.0.0.1:1080'', px_Route = ''r'', px_Enabled = True\<rparr>"
        "''x.org:443''" "\<lambda>w bs. (w @ bs, None)" "[]" "[5, 0]" "[5, 0, 5, 0, 0, 1, 0, 0, 0, 0, 0, 0]" "[22, 3]"]
    by (simp add: contains_any_def socks5_reply_def)
qed

theorem normalizeHostPort_canonical_witness:
  "\<exists>h port. split_host_port ''x.org:443'' = Some (h, show_nat port) \<and> port \<le> 65535"
proof -
  have d: "show_nat 443 = ''443''" by code_simp
  then have a: "atoi ''443'' = (443, True)" using atoi_show_nat [of 443] by (simp add: int_limit_def)
  have s: "split_host_port ''x.org:443'' = Some (''x.org'', ''443'')"
    using split_join_host_port [of "''x.org''" "''443''"] by (simp add: plain_host_def plain_port_def join_host_port_def)
  have "trim_space ''x.org:443'' = ''x.org:443''" "trim_space ''x.org'' = ''x.org''"
    by (rule trim_space_graphic; simp add: char_class_defs)+
  then have "normalizeHostPort ''x.org:443'' = Inr ''x.org:443''"
    by (simp add: normalizeHostPort_def contains_any_def s a d join_host_port_def)
  from normalizeHostPort_canonical [OF this] show ?thesis by blast
qed

end
