(* ===== verification/Node_Reconnect.thy ===== *)
theory Node_Reconnect
  imports Dataplane_Engine
begin

text \<open>
  \<^verbatim>\<open>internal/node/reconnect_state.go\<close> and the loop of \<^verbatim>\<open>data_runtime_agent.go\<close> that uses it: how an agent
  keeps a session to the gateway of an assignment. What the network answers to an attempt, and
  when the generation's context is cancelled, are arguments, one record per turn of the loop.
\<close>

section \<open>The state machine\<close>

datatype agentReconnectPhase = Disconnected | Dialing | Handshaking | Admitting | Serving | Backoff

datatype agentReconnectEvent = StartDial | DialFailed | Connected | HandshakeFailed | StartAdmission
  | AdmissionRejected | Admitted | ServingEnded | Canceled

fun phase_String :: "agentReconnectPhase \<Rightarrow> string" where
  "phase_String Disconnected = ''disconnected''"
| "phase_String Dialing = ''dialing''"
| "phase_String Handshaking = ''handshaking''"
| "phase_String Admitting = ''admitting''"
| "phase_String Serving = ''serving''"
| "phase_String Backoff = ''backoff''"

fun event_String :: "agentReconnectEvent \<Rightarrow> string" where
  "event_String StartDial = ''start-dial''"
| "event_String DialFailed = ''dial-failed''"
| "event_String Connected = ''connected''"
| "event_String HandshakeFailed = ''handshake-failed''"
| "event_String StartAdmission = ''admitting''"
| "event_String AdmissionRejected = ''admission-rejected''"
| "event_String Admitted = ''admitted''"
| "event_String ServingEnded = ''serving-ended''"
| "event_String Canceled = ''canceled''"

record agentReconnectState =
  rs_phase :: agentReconnectPhase
  rs_backoff :: duration

definition maxAgentReconnectBackoff :: duration where "maxAgentReconnectBackoff = 30 * second"

definition newAgentReconnectState :: agentReconnectState where
  "newAgentReconnectState = \<lparr>rs_phase = Disconnected, rs_backoff = second\<rparr>"

definition invalid_event :: "agentReconnectEvent \<Rightarrow> agentReconnectState \<Rightarrow> go_error" where
  "invalid_event ev s = ErrNew (''cannot apply reconnect event '' @ event_String ev @ '' in phase '' @ phase_String (rs_phase s))"

definition move_from ::
  "agentReconnectPhase list \<Rightarrow> agentReconnectPhase \<Rightarrow> agentReconnectEvent \<Rightarrow> agentReconnectState \<Rightarrow> agentReconnectState \<times> check" where
  "move_from from to ev s =
     (if rs_phase s \<in> set from then (s\<lparr>rs_phase := to\<rparr>, None) else (s, Some (invalid_event ev s)))"

fun transition :: "agentReconnectEvent \<Rightarrow> agentReconnectState \<Rightarrow> agentReconnectState \<times> check" where
  "transition StartDial s = move_from [Disconnected, Backoff] Dialing StartDial s"
| "transition DialFailed s = move_from [Dialing] Backoff DialFailed s"
| "transition Connected s = move_from [Dialing] Handshaking Connected s"
| "transition HandshakeFailed s = move_from [Handshaking] Backoff HandshakeFailed s"
| "transition StartAdmission s = move_from [Handshaking] Admitting StartAdmission s"
| "transition AdmissionRejected s = move_from [Admitting] Backoff AdmissionRejected s"
| "transition Admitted s =
     (case move_from [Admitting] Serving Admitted s of
        (s', None) \<Rightarrow> (s'\<lparr>rs_backoff := second\<rparr>, None)
      | (s', Some e) \<Rightarrow> (s', Some e))"
| "transition ServingEnded s = move_from [Serving] Backoff ServingEnded s"
| "transition Canceled s = (s\<lparr>rs_phase := Disconnected\<rparr>, None)"

definition nextWait :: "agentReconnectState \<Rightarrow> agentReconnectState \<times> duration" where
  "nextWait s =
     (if rs_backoff s \<le> 0 then (s, second)
      else (if rs_backoff s < maxAgentReconnectBackoff then s\<lparr>rs_backoff := min maxAgentReconnectBackoff (rs_backoff s * 2)\<rparr> else s,
            rs_backoff s))"

section \<open>The loop of one assignment\<close>

text \<open>
  The answers to one attempt. A served session may run any engine operations meanwhile: \<open>served\<close>
  is what they make of the engine.
\<close>

datatype attempt = DialError go_error | SessionRejected go_error | SessionOpened "Engine \<Rightarrow> Engine"

record round_answers =
  ra_cancelled :: bool
  ra_attempt :: attempt
  ra_waitCancelled :: bool

datatype loop_end = Running | Stopped | Broken

definition agent_hello :: "Assignment \<Rightarrow> SessionHello" where
  "agent_hello a = \<lparr>sh_AssignmentID = as_ID a, sh_Generation = as_Generation a, sh_AgentID = as_AgentID a, sh_Capabilities = []\<rparr>"

text \<open>Run events in turn; \<^verbatim>\<open>None\<close> where the loop returns on an invalid one.\<close>

fun transitions :: "agentReconnectEvent list \<Rightarrow> agentReconnectState \<Rightarrow> agentReconnectState option" where
  "transitions [] s = Some s"
| "transitions (ev # evs) s = (case transition ev s of (s', None) \<Rightarrow> transitions evs s' | (s', Some e) \<Rightarrow> None)"

definition agent_attempt ::
  "Assignment \<Rightarrow> attempt \<Rightarrow> agentReconnectState \<times> Engine \<Rightarrow> (agentReconnectState \<times> Engine \<times> bool) option" where
  "agent_attempt a answer w =
     (case w of (s, e) \<Rightarrow>
      case answer of
        DialError err \<Rightarrow> map_option (\<lambda>s'. (s', e, False)) (transitions [StartDial, DialFailed] s)
      | SessionRejected err \<Rightarrow> map_option (\<lambda>s'. (s', e, False)) (transitions [StartDial, Connected, HandshakeFailed] s)
      | SessionOpened served \<Rightarrow>
          (case transitions [StartDial, Connected, StartAdmission] s of
             None \<Rightarrow> None
           | Some s1 \<Rightarrow>
               (case Engine_AuthorizeSession (agent_hello a) e of
                  (e', Some err) \<Rightarrow> map_option (\<lambda>s'. (s', e', False)) (transitions [AdmissionRejected] s1)
                | (e', None) \<Rightarrow> map_option (\<lambda>s'. (s', ReleaseSession (served e'), True)) (transitions [Admitted, ServingEnded] s1))))"

fun runAgentAssignment ::
  "Assignment \<Rightarrow> round_answers list \<Rightarrow> agentReconnectState \<times> Engine \<Rightarrow>
   (agentReconnectState \<times> Engine) \<times> (bool \<times> duration) list \<times> loop_end" where
  "runAgentAssignment a [] w = (w, [], Running)"
| "runAgentAssignment a (rd # rds) w =
     (if ra_cancelled rd then (w, [], Stopped)
      else case agent_attempt a (ra_attempt rd) w of
          None \<Rightarrow> (w, [], Broken)
        | Some (s, e, served) \<Rightarrow>
            (case nextWait s of (s', wait) \<Rightarrow>
             if ra_waitCancelled rd then ((fst (transition Canceled s'), e), [(served, wait)], Stopped)
             else case runAgentAssignment a rds (s', e) of (w', log, fin) \<Rightarrow> (w', (served, wait) # log, fin)))"

section \<open>The loop goes on\<close>

definition at_rest :: "agentReconnectState \<Rightarrow> bool" where
  "at_rest s \<longleftrightarrow> rs_phase s \<in> {Disconnected, Backoff} \<and> second \<le> rs_backoff s \<and> rs_backoff s \<le> maxAgentReconnectBackoff"

lemmas durations = second_def maxAgentReconnectBackoff_def

lemma attempt_rests:
  assumes "at_rest s"
  obtains s' e' served where "agent_attempt a answer (s, e) = Some (s', e', served)" "rs_phase s' = Backoff"
    "rs_backoff s' = (if served then second else rs_backoff s)"
proof (cases answer)
  case (SessionOpened served)
  obtain e1 err where "Engine_AuthorizeSession (agent_hello a) e = (e1, err)" by fastforce
  with SessionOpened assms show ?thesis
    by (cases err) (auto simp: agent_attempt_def at_rest_def move_from_def intro: that)
qed (use assms in \<open>auto simp: agent_attempt_def at_rest_def move_from_def intro: that\<close>)

lemma nextWait_rests:
  assumes "second \<le> rs_backoff s" "rs_backoff s \<le> maxAgentReconnectBackoff" "nextWait s = (s', wait)"
  shows "rs_phase s' = rs_phase s" "wait = rs_backoff s" "rs_backoff s' = min maxAgentReconnectBackoff (2 * rs_backoff s)"
    "second \<le> rs_backoff s'" "rs_backoff s' \<le> maxAgentReconnectBackoff"
  using assms by (auto simp: nextWait_def durations split: if_splits)

lemma run_goes_on:
  assumes "at_rest s" "runAgentAssignment a rds (s, e) = (w', log, fin)"
  shows "fin \<noteq> Broken \<and> (\<forall>(served, wait)\<in>set log. second \<le> wait \<and> wait \<le> maxAgentReconnectBackoff \<and> (served \<longrightarrow> wait = second))
    \<and> (fin = Running \<longrightarrow> length log = length rds)"
  using assms
proof (induction rds arbitrary: s e w' log fin)
  case (Cons rd rds)
  show ?case
  proof (cases "ra_cancelled rd")
    case False
    obtain s1 e1 served where at: "agent_attempt a (ra_attempt rd) (s, e) = Some (s1, e1, served)" "rs_phase s1 = Backoff"
      "rs_backoff s1 = (if served then second else rs_backoff s)"
      using attempt_rests [OF Cons.prems(1)] by metis
    have b: "second \<le> rs_backoff s1" "rs_backoff s1 \<le> maxAgentReconnectBackoff"
      using at(3) Cons.prems(1) by (auto simp: at_rest_def durations)
    obtain s2 wait where w: "nextWait s1 = (s2, wait)" by fastforce
    note nw = nextWait_rests [OF b w]
    have r2: "at_rest s2" using nw at(2) by (simp add: at_rest_def)
    obtain w1 log1 fin1 where run: "runAgentAssignment a rds (s2, e1) = (w1, log1, fin1)" by (metis prod.exhaust)
    show ?thesis
      using Cons.prems(2) False at w b nw run Cons.IH [OF r2 run] by (auto split: if_splits)
  qed (use Cons.prems in auto)
qed auto


section \<open>The loop gets through\<close>

definition fails :: "round_answers \<Rightarrow> bool" where
  "fails rd \<longleftrightarrow> \<not> ra_cancelled rd \<and> \<not> ra_waitCancelled rd \<and> (case ra_attempt rd of SessionOpened f \<Rightarrow> False | _ \<Rightarrow> True)"

definition backoff_after :: "nat \<Rightarrow> duration" where
  "backoff_after n = min maxAgentReconnectBackoff (2 ^ n * second)"

lemma backoff_doubles: "min maxAgentReconnectBackoff (2 * backoff_after n) = backoff_after (Suc n)"
  by (auto simp: backoff_after_def durations)

lemma backoff_bounds: "second \<le> backoff_after n" "backoff_after n \<le> maxAgentReconnectBackoff"
proof -
  have "(1::int) \<le> 2 ^ n" by simp
  then show "second \<le> backoff_after n" by (simp add: backoff_after_def durations)
  show "backoff_after n \<le> maxAgentReconnectBackoff" by (simp add: backoff_after_def)
qed

lemma failing_attempt:
  assumes "at_rest s" "fails rd"
  shows "\<exists>s'. agent_attempt a (ra_attempt rd) (s, e) = Some (s', e, False) \<and> rs_phase s' = Backoff \<and> rs_backoff s' = rs_backoff s"
  using assms by (cases "ra_attempt rd") (auto simp: fails_def agent_attempt_def at_rest_def move_from_def)

lemma failing_rounds:
  assumes "at_rest s" "rs_backoff s = backoff_after n" "\<forall>rd\<in>set rds. fails rd"
  shows "\<exists>s'. at_rest s' \<and> rs_backoff s' = backoff_after (n + length rds)
    \<and> (\<forall>rest. runAgentAssignment a (rds @ rest) (s, e) =
         (case runAgentAssignment a rest (s', e) of (w, log, fin) \<Rightarrow>
            (w, map (\<lambda>i. (False, backoff_after i)) [n..<n + length rds] @ log, fin)))"
  using assms
proof (induction rds arbitrary: s n)
  case Nil
  then show ?case by (intro exI [of _ s]) (auto split: prod.split)
next
  case (Cons rd rds)
  obtain s1 where s1: "agent_attempt a (ra_attempt rd) (s, e) = Some (s1, e, False)" "rs_phase s1 = Backoff" "rs_backoff s1 = backoff_after n"
    using failing_attempt [OF Cons.prems(1)] Cons.prems(2,3) by fastforce
  obtain s2 wait where w: "nextWait s1 = (s2, wait)" by fastforce
  have nw: "rs_phase s2 = Backoff" "wait = backoff_after n" "rs_backoff s2 = backoff_after (Suc n)"
    using nextWait_rests [OF _ _ w] s1(2,3) backoff_bounds [of n] backoff_doubles [of n] by simp_all
  then have "at_rest s2" using backoff_bounds [of "Suc n"] by (simp add: at_rest_def)
  then obtain s' where s': "at_rest s'" "rs_backoff s' = backoff_after (Suc n + length rds)"
    and run: "runAgentAssignment a (rds @ rest) (s2, e) = (case runAgentAssignment a rest (s', e) of (w, log, fin) \<Rightarrow>
        (w, map (\<lambda>i. (False, backoff_after i)) [Suc n..<Suc n + length rds] @ log, fin))" for rest
    using Cons.IH [of s2 "Suc n"] nw(3) Cons.prems(3) by auto
  have up: "[n..<n + length (rd # rds)] = n # [Suc n..<Suc n + length rds]" using upt_conv_Cons [of n "n + length (rd # rds)"] by simp
  have "\<not> ra_cancelled rd" "\<not> ra_waitCancelled rd" using Cons.prems(3) by (simp_all add: fails_def)
  then show ?case using s' s1(1) w nw(2) unfolding up
    by (intro exI [of _ s']) (auto simp: run split: prod.split)
qed


section \<open>An agent that is refused twice\<close>

definition demo_refused :: round_answers where
  "demo_refused = \<lparr>ra_cancelled = False, ra_attempt = DialError ErrTransient, ra_waitCancelled = False\<rparr>"

definition demo_accepted :: round_answers where
  "demo_accepted = \<lparr>ra_cancelled = False, ra_attempt = SessionOpened (\<lambda>e. e), ra_waitCancelled = False\<rparr>"

definition demo_agent :: Engine where
  "demo_agent = sample_engine\<lparr>en_assignments := [''a1'' \<mapsto>
     \<lparr>av_ID = ''a1'', av_AgentID = ''ag'', av_Generation = 4, av_State = ''active'', av_ServiceIDs = [''web''], av_MaxStreams = 3\<rparr>]\<rparr>"


end
