(* ===== verification/Node_Runtime.thy ===== *)
theory Node_Runtime
  imports Node_Cache Dataplane_Engine
begin

text \<open>
  \<^verbatim>\<open>internal/node/runtime_snapshot.go\<close>, \<^verbatim>\<open>runtime_types.go\<close> and the generation handling of
  \<^verbatim>\<open>data_runtime.go\<close>: how a node moves its engine and its sockets from one snapshot to the next, and
  back when a step fails. Of a data-plane generation (\<^verbatim>\<open>dataGeneration\<close>) the model keeps the snapshot it
  was built from; whether its sockets could be opened is an answer of the system, consumed from a
  list, together with whether the runtime's context was cancelled meanwhile.
\<close>

section \<open>The data plane of a node\<close>

record build_answer =
  ba_error :: check
  ba_cancelled :: bool

record DataPlaneRuntime =
  dp_started :: bool
  dp_alive :: bool
  dp_state :: "DesiredSnapshot option"
  dp_pending :: "DesiredSnapshot option"

text \<open>Engine, data plane and the answers still to come: what the methods of \<^verbatim>\<open>DataPlaneRuntime\<close> touch.\<close>

type_synonym plane_world = "Engine \<times> DataPlaneRuntime \<times> build_answer list"

definition NewDataPlaneRuntime :: "check \<Rightarrow> string \<Rightarrow> Engine \<Rightarrow> DataPlaneRuntime result" where
  "NewDataPlaneRuntime tls bootstrapNodeID e =
     (if bootstrapNodeID = [] \<or> bootstrapNodeID \<noteq> en_nodeID e then
        Inl (ErrNew ''data-plane bootstrap identity does not match the engine'')
      else check_then tls (Inr \<lparr>dp_started = False, dp_alive = False, dp_state = None, dp_pending = None\<rparr>))"

definition next_answer :: "build_answer list \<Rightarrow> build_answer \<times> build_answer list" where
  "next_answer as = (case as of [] \<Rightarrow> (\<lparr>ba_error = None, ba_cancelled = False\<rparr>, []) | a # as' \<Rightarrow> (a, as'))"

definition buildGeneration :: "DesiredSnapshot \<Rightarrow> plane_world \<Rightarrow> plane_world \<times> check" where
  "buildGeneration s w =
     (case w of (e, p, as) \<Rightarrow>
      if en_kind e = NodeSpecGateway \<and> ds_Gateway s = None then (w, Some (ErrNew ''gateway data-plane snapshot is required''))
      else if en_kind e \<noteq> NodeSpecGateway \<and> ds_Agent s = None then (w, Some (ErrNew ''agent data-plane snapshot is required''))
      else case next_answer as of (a, as') \<Rightarrow>
        ((e, p\<lparr>dp_alive := dp_alive p \<and> \<not> ba_cancelled a\<rparr>, as'), ba_error a))"

definition running :: "DataPlaneRuntime \<Rightarrow> bool" where
  "running p \<longleftrightarrow> dp_started p \<and> dp_alive p"

text \<open>
  \<^verbatim>\<open>applyStarted\<close>: the old generation is closed first, because two generations cannot own one
  socket, and rebuilt when the new one fails. Admission is closed meanwhile and restored only
  with a published generation, and only if it was open before.
\<close>

definition restore_admission :: "bool \<Rightarrow> Engine \<Rightarrow> Engine" where
  "restore_admission wasDraining e = (if wasDraining then e else EndDrain e)"

definition ErrCanceled :: go_error where "ErrCanceled = ErrStd ''context.Canceled''"

definition rebuild_old :: "bool \<Rightarrow> DesiredSnapshot option \<Rightarrow> go_error \<Rightarrow> plane_world \<Rightarrow> plane_world \<times> check" where
  "rebuild_old wasDraining old err w =
     (case w of (e, p, as) \<Rightarrow>
      case old of
        None \<Rightarrow> (w, Some err)
      | Some snap \<Rightarrow>
          if \<not> dp_started p then (w, Some err)
          else case buildGeneration snap w of
              ((e', p', as'), Some restoreErr) \<Rightarrow>
                ((e', p', as'), Some (join_errors err (Some (ErrWrap ''restore previous data-plane generation: '' restoreErr))))
            | ((e', p', as'), None) \<Rightarrow>
                if running p' then ((restore_admission wasDraining e', p'\<lparr>dp_state := Some snap\<rparr>, as'), Some err)
                else ((e', p', as'), Some (join_errors err (Some (ErrNew ''data-plane runtime stopped during rollback'')))))"

definition applyStarted :: "check \<Rightarrow> DesiredSnapshot \<Rightarrow> plane_world \<Rightarrow> plane_world \<times> check" where
  "applyStarted ctx s w =
     (case ctx of
        Some err \<Rightarrow> (w, Some err)
      | None \<Rightarrow>
          (case w of (e, p, as) \<Rightarrow>
           case buildGeneration s (BeginDrain e, p\<lparr>dp_state := None\<rparr>, as) of
             (w', Some err) \<Rightarrow> rebuild_old (en_draining e) (dp_state p) err w'
           | ((e', p', as'), None) \<Rightarrow>
               if \<not> running p' then ((e', p', as'), Some ErrCanceled)
               else ((restore_admission (en_draining e) e', p'\<lparr>dp_state := Some s\<rparr>, as'), None)))"

definition DataPlane_Close :: "DataPlaneRuntime \<Rightarrow> DataPlaneRuntime" where
  "DataPlane_Close p = p\<lparr>dp_started := False, dp_alive := False, dp_state := None\<rparr>"

definition DataPlane_Start :: "check \<Rightarrow> plane_world \<Rightarrow> plane_world \<times> check" where
  "DataPlane_Start ctx w =
     (case w of (e, p, as) \<Rightarrow>
      if dp_started p then (w, None)
      else let p' = p\<lparr>dp_started := True, dp_alive := (ctx = None), dp_pending := None\<rparr> in
        case dp_pending p of
          None \<Rightarrow> ((e, p', as), None)
        | Some s \<Rightarrow>
            (case applyStarted ctx s (e, p', as) of
               ((e', p'', as'), Some err) \<Rightarrow> ((e', DataPlane_Close p'', as'), Some err)
             | (w', None) \<Rightarrow> (w', None)))"

definition DataPlane_ApplySnapshot :: "go_env \<Rightarrow> check \<Rightarrow> DesiredSnapshot \<Rightarrow> plane_world \<Rightarrow> plane_world \<times> check" where
  "DataPlane_ApplySnapshot env ctx s w =
     (case ctx of
        Some err \<Rightarrow> (w, Some err)
      | None \<Rightarrow>
          (case DesiredSnapshot_Validate env s of
             Some err \<Rightarrow> (w, Some err)
           | None \<Rightarrow>
               (case w of (e, p, as) \<Rightarrow>
                if \<not> dp_started p then ((e, p\<lparr>dp_pending := Some s\<rparr>, as), None)
                else applyStarted ctx s w)))"

definition DataPlane_ResetSnapshot :: "u64 \<Rightarrow> DataPlaneRuntime \<Rightarrow> DataPlaneRuntime \<times> check" where
  "DataPlane_ResetSnapshot expected p =
     (case dp_pending p of
        Some s \<Rightarrow>
          if expected \<noteq> 0 \<and> ds_Generation s \<noteq> expected then
            (p, Some (ErrNew ''data-plane pending generation changed during reset''))
          else (p\<lparr>dp_pending := None\<rparr>, None)
      | None \<Rightarrow>
          (case dp_state p of
             None \<Rightarrow> (p, None)
           | Some s \<Rightarrow>
               if expected \<noteq> 0 \<and> ds_Generation s \<noteq> expected then
                 (p, Some (ErrNew ''data-plane generation changed during reset''))
               else (p\<lparr>dp_state := None\<rparr>, None)))"

section \<open>Node behaviours\<close>

text \<open>
  The runtime. \<open>rt_runCtx\<close> is the error of the run context, or none when \<^verbatim>\<open>Run\<close> was not entered;
  \<open>rt_tls\<close> are the answers of loading the node certificate.
\<close>

record Runtime =
  rt_nodeID :: string
  rt_maxStreams :: int
  rt_maxSessions :: int
  rt_engine :: "Engine option"
  rt_dataPlane :: "DataPlaneRuntime option"
  rt_runtimeKind :: string
  rt_runCtx :: "check option"
  rt_tls :: "check list"
  rt_builds :: "build_answer list"

definition snapshotRuntimeKind :: "DesiredSnapshot \<Rightarrow> string result" where
  "snapshotRuntimeKind s =
     (if ds_Gateway s \<noteq> None \<and> ds_Agent s = None then Inr NodeSpecGateway
      else if ds_Agent s \<noteq> None \<and> ds_Gateway s = None then Inr NodeSpecAgent
      else if ds_Gateway s = None \<and> ds_Agent s = None then Inr []
      else Inl (ErrNew ''desired snapshot selects multiple node behaviors''))"

definition install :: "plane_world \<Rightarrow> Runtime \<Rightarrow> Runtime" where
  "install w r = (case w of (e, p, as) \<Rightarrow> r\<lparr>rt_engine := Some e, rt_dataPlane := Some p, rt_builds := as\<rparr>)"

definition uninstall :: "Runtime \<Rightarrow> Runtime" where
  "uninstall r = r\<lparr>rt_engine := None, rt_dataPlane := None, rt_runtimeKind := []\<rparr>"

definition next_tls :: "Runtime \<Rightarrow> check \<times> Runtime" where
  "next_tls r = (case rt_tls r of [] \<Rightarrow> (None, r) | a # as \<Rightarrow> (a, r\<lparr>rt_tls := as\<rparr>))"

definition ensureRuntimeKind :: "string \<Rightarrow> Runtime \<Rightarrow> Runtime \<times> (Engine \<times> DataPlaneRuntime) result" where
  "ensureRuntimeKind kind r =
     (if kind \<noteq> NodeSpecGateway \<and> kind \<noteq> NodeSpecAgent then (r, Inl (ErrNew ''node behavior must be gateway or agent''))
      else case (rt_engine r, rt_dataPlane r, rt_runtimeKind r = kind) of
          (Some e, Some p, True) \<Rightarrow> (r, Inr (e, p))
        | _ \<Rightarrow>
            let r1 = uninstall r in
            (case New \<lparr>opt_Kind = kind, opt_NodeID = rt_nodeID r, opt_MaxStreams = rt_maxStreams r, opt_MaxSessions = rt_maxSessions r\<rparr> of
               Inl err \<Rightarrow> (r1, Inl err)
             | Inr e \<Rightarrow>
                 (case next_tls r1 of (tls, r2) \<Rightarrow>
                  case NewDataPlaneRuntime tls (rt_nodeID r) e of
                    Inl err \<Rightarrow> (r2, Inl err)
                  | Inr p \<Rightarrow>
                      let r3 = (install (e, p, rt_builds r2) r2)\<lparr>rt_runtimeKind := kind\<rparr> in
                      (case rt_runCtx r of
                         None \<Rightarrow> (r3, Inr (e, p))
                       | Some ctx \<Rightarrow>
                           (case DataPlane_Start ctx (e, p, rt_builds r3) of
                              ((e', p', as), Some err) \<Rightarrow> (uninstall (r3\<lparr>rt_builds := as\<rparr>), Inl err)
                            | ((e', p', as), None) \<Rightarrow> (install (e', p', as) r3, Inr (e', p')))))))"

definition disableRuntime :: "Runtime \<Rightarrow> Runtime \<times> check" where
  "disableRuntime r = (uninstall r, None)"

section \<open>Applying a snapshot\<close>

definition restoreRuntime :: "go_env \<Rightarrow> DesiredSnapshot \<Rightarrow> Runtime \<Rightarrow> Runtime \<times> check" where
  "restoreRuntime env s r =
     (case snapshotRuntimeKind s of
        Inl err \<Rightarrow> (r, Some err)
      | Inr kind \<Rightarrow>
          if kind = [] then disableRuntime r
          else case ensureRuntimeKind kind r of
              (r', Inl err) \<Rightarrow> (r', Some err)
            | (r', Inr (e, p)) \<Rightarrow>
                (case ApplySnapshot env None s None e of
                   (e', Some err) \<Rightarrow> (install (e', p, rt_builds r') r', Some err)
                 | (e', None) \<Rightarrow>
                     (case DataPlane_ApplySnapshot env None s (e', p, rt_builds r') of (w, err) \<Rightarrow> (install w r', err))))"

text \<open>The same-kind rollback after the data plane refused the new generation.\<close>

definition roll_back_plane ::
  "go_env \<Rightarrow> DesiredSnapshot \<Rightarrow> DesiredSnapshot \<Rightarrow> bool \<Rightarrow> go_error \<Rightarrow> plane_world \<Rightarrow> plane_world \<times> check" where
  "roll_back_plane env s previous wasDraining err w =
     (case w of (e, p, as) \<Rightarrow>
      case ApplySnapshot env None previous (Some (ds_Generation s)) e of
        (e1, err1) \<Rightarrow>
          (case DataPlane_ApplySnapshot env None previous (e1, p, as) of
             ((e2, p2, as2), err2) \<Rightarrow>
               (case (err1, err2) of
                  (None, None) \<Rightarrow> ((restore_admission wasDraining e2, p2, as2), Some err)
                | (Some a, b) \<Rightarrow> ((e2, p2, as2), Some (join_errors err (Some (join_errors a b))))
                | (None, Some b) \<Rightarrow> ((e2, p2, as2), Some (join_errors err (Some b))))))"

text \<open>A failed switch of behaviour constructs the old one again.\<close>

definition restore_kind :: "go_env \<Rightarrow> string \<Rightarrow> DesiredSnapshot \<Rightarrow> Runtime \<Rightarrow> Runtime \<times> check" where
  "restore_kind env previousKind old r =
     (case ensureRuntimeKind previousKind r of
        (r', Inl err) \<Rightarrow> (r', Some err)
      | (r', Inr (e, p)) \<Rightarrow>
          (case ApplySnapshot env None old None e of
             (e', Some err) \<Rightarrow> (install (e', p, rt_builds r') r', Some err)
           | (e', None) \<Rightarrow> (case DataPlane_ApplySnapshot env None old (e', p, rt_builds r') of (w, err) \<Rightarrow> (install w r', err))))"

text \<open>The part of \<^verbatim>\<open>applySnapshot\<close> on the installed components of the snapshot's kind.\<close>

definition apply_installed ::
  "go_env \<Rightarrow> check \<Rightarrow> DesiredSnapshot \<Rightarrow> DesiredSnapshot option \<Rightarrow> string \<Rightarrow> bool \<Rightarrow> Engine \<times> DataPlaneRuntime \<Rightarrow> Runtime \<Rightarrow> Runtime \<times> check" where
  "apply_installed env ctx s previous previousKind sameKind ep r =
     (case ep of (e, p) \<Rightarrow>
      let was = en_draining e; enginePrevious = (if sameKind then map_option ds_Generation previous else None) in
      case ApplySnapshot env ctx s enginePrevious (BeginDrain e) of
        (e1, Some err) \<Rightarrow>
          (case previous of
             Some old \<Rightarrow>
               if \<not> sameKind then
                 (case restoreRuntime env old (install (e1, p, rt_builds r) r) of
                    (r', restoreErr) \<Rightarrow> (r', Some (join_errors err restoreErr)))
               else (install (restore_admission was e1, p, rt_builds r) r, Some err)
           | None \<Rightarrow> (install (restore_admission was e1, p, rt_builds r) r, Some err))
      | (e1, None) \<Rightarrow>
          (case DataPlane_ApplySnapshot env ctx s (e1, p, rt_builds r) of
             ((e2, p2, as2), None) \<Rightarrow> (install (restore_admission was e2, p2, as2) r, None)
           | ((e2, p2, as2), Some err) \<Rightarrow>
               (case previous of
                  None \<Rightarrow>
                    (case ResetSnapshot (ds_Generation s) e2 of
                       (e3, resetErr) \<Rightarrow> (install (e3, p2, as2) r, Some (join_errors err resetErr)))
                | Some old \<Rightarrow>
                    if sameKind then
                      (case roll_back_plane env s old was err (e2, p2, as2) of (w, e') \<Rightarrow> (install w r, e'))
                    else
                      (case restore_kind env previousKind old (install (e2, p2, as2) r) of
                         (r', restoreErr) \<Rightarrow> (r', Some (join_errors err restoreErr))))))"

definition previous_kind :: "DesiredSnapshot option \<Rightarrow> string" where
  "previous_kind previous =
     (case previous of None \<Rightarrow> [] | Some old \<Rightarrow> (case snapshotRuntimeKind old of Inl _ \<Rightarrow> [] | Inr k \<Rightarrow> k))"

definition applySnapshot :: "go_env \<Rightarrow> check \<Rightarrow> DesiredSnapshot \<Rightarrow> DesiredSnapshot option \<Rightarrow> Runtime \<Rightarrow> Runtime \<times> check" where
  "applySnapshot env ctx s previous r =
     (case snapshotRuntimeKind s of
        Inl err \<Rightarrow> (r, Some err)
      | Inr kind \<Rightarrow>
          let previousKind = previous_kind previous in
          if kind = [] then disableRuntime r
          else case ensureRuntimeKind kind r of
              (r', Inl err) \<Rightarrow>
                (case previous of
                   Some old \<Rightarrow>
                     if previousKind \<noteq> [] \<and> previousKind \<noteq> kind then
                       (case restoreRuntime env old r' of (r'', restoreErr) \<Rightarrow> (r'', Some (join_errors err restoreErr)))
                     else (r', Some err)
                 | None \<Rightarrow> (r', Some err))
            | (r', Inr ep) \<Rightarrow> apply_installed env ctx s previous previousKind (previous = None \<or> previousKind = kind) ep r')"

definition resetSnapshot :: "u64 \<Rightarrow> Runtime \<Rightarrow> Runtime \<times> check" where
  "resetSnapshot generation r =
     (case (rt_engine r, rt_dataPlane r) of
        (Some e, Some p) \<Rightarrow>
          (case DataPlane_ResetSnapshot generation p of (p', err1) \<Rightarrow>
           case ResetSnapshot generation e of (e', err2) \<Rightarrow>
             (install (e', p', rt_builds r) r, (case err1 of None \<Rightarrow> err2 | Some x \<Rightarrow> Some (join_errors x err2))))
      | _ \<Rightarrow> (r, None))"

text \<open>What the node reports: the reconciler's state with the data plane's sessions, listeners and metrics.\<close>

definition observedState :: "SystemInfo option \<Rightarrow> ObservedState option \<Rightarrow> Reconciler \<Rightarrow> ObservedState" where
  "observedState info data r =
     (let observed = (rc_state r)\<lparr>os_SystemInfo := info\<rparr> in
      case data of
        None \<Rightarrow> observed
      | Some d \<Rightarrow>
          let unhealthy = os_AppliedGeneration observed = os_AppliedGeneration d \<and> \<not> os_Healthy d in
          observed\<lparr>os_Sessions := os_Sessions d, os_Listeners := os_Listeners d, os_Metrics := os_Metrics d,
            os_Healthy := os_Healthy observed \<and> \<not> unhealthy, os_Degraded := os_Degraded observed \<or> unhealthy,
            os_ObservedAt := os_ObservedAt d\<rparr>)"

section \<open>What an engine serves\<close>

definition engine_serves :: "DesiredSnapshot \<Rightarrow> Engine \<Rightarrow> bool" where
  "engine_serves s e \<longleftrightarrow> en_generation e = ds_Generation s
     \<and> index_services e (ds_Services s) Map.empty = Inr (en_services e)
     \<and> index_assignments e s (en_services e) (ds_Assignments s) Map.empty = Inr (en_assignments e)
     \<and> en_gatewaySpec e = ds_Gateway s \<and> en_agentSpec e = ds_Agent s \<and> install_limits s e = e"

definition same_node :: "Engine \<Rightarrow> Engine \<Rightarrow> bool" where
  "same_node e e' \<longleftrightarrow> en_kind e' = en_kind e \<and> en_nodeID e' = en_nodeID e \<and> en_baseMaxStreams e' = en_baseMaxStreams e
     \<and> en_closed e' = en_closed e"

lemma same_node_refl [simp]: "same_node e e" by (simp add: same_node_def)

lemma same_node_trans: "same_node e e1 \<Longrightarrow> same_node e1 e2 \<Longrightarrow> same_node e e2" by (simp add: same_node_def)

lemma drain_node [simp]:
  "same_node e (BeginDrain e)" "same_node e (EndDrain e)" "same_node e (restore_admission b e)"
  by (simp_all add: same_node_def BeginDrain_def EndDrain_def restore_admission_def)

lemma index_services_node: "same_node e e' \<Longrightarrow> index_services e' ss m = index_services e ss m"
  by (induction ss arbitrary: m) (simp_all add: same_node_def)

lemma assignment_limit_node: "same_node e e' \<Longrightarrow> assignment_limit e' s = assignment_limit e s"
  by (simp add: same_node_def assignment_limit_def Let_def split: option.split)

lemma index_assignments_node: "same_node e e' \<Longrightarrow> index_assignments e' s sv as m = index_assignments e s sv as m"
  by (induction as arbitrary: m) (simp_all add: assignment_limit_node [of e e'], auto simp: same_node_def)

lemma ApplySnapshot_failed: "ApplySnapshot env ctx s prev e = (e', Some err) \<Longrightarrow> e' = e"
  by (auto simp: ApplySnapshot_def apply_commit_def Let_def split: sum.splits if_splits)

lemma install_limits_idem:
  "install_limits s (install_limits s e) = install_limits s e"
  by (simp add: install_limits_def split: option.split)

lemma install_limits_specs [simp]:
  "en_gatewaySpec (install_limits s e) = en_gatewaySpec e" "en_agentSpec (install_limits s e) = en_agentSpec e"
  by (simp_all add: install_limits_def split: option.split)

lemma apply_prepare_indexes:
  assumes "apply_prepare env ctx s prev e = Inr p"
  shows "index_services e (ds_Services s) Map.empty = Inr (pp_services p)"
    "index_assignments e s (pp_services p) (ds_Assignments s) Map.empty = Inr (pp_assignments p)"
  using assms unfolding apply_prepare_def Let_def by (auto split: if_splits)

lemma ApplySnapshot_ok:
  assumes "ApplySnapshot env ctx s prev e = (e', None)"
  shows "engine_serves s e'" "same_node e e'" "en_draining e' = en_draining e" "ds_NodeID s = en_nodeID e" "ctx = None"
    "DesiredSnapshot_Validate env s = None"
proof -
  obtain p where p: "apply_prepare env ctx s prev e = Inr p" and c: "apply_commit p e = (e', None)"
    using assms by (auto simp: ApplySnapshot_def split: sum.splits)
  have e': "e' = install_limits s (e\<lparr>en_assignments := pp_assignments p, en_services := pp_services p,
          en_generation := ds_Generation s, en_epoch := en_epoch e + 1, en_active := (\<lambda>a. 0),
          en_gatewaySpec := ds_Gateway s, en_agentSpec := ds_Agent s\<rparr>)"
    using c apply_prepare_Inr(1) [OF p] by (auto simp: apply_commit_def Let_def split: if_splits)
  show n: "same_node e e'" unfolding e' by (simp add: same_node_def)
  show "en_draining e' = en_draining e" unfolding e' by simp
  show "engine_serves s e'"
    using apply_prepare_indexes [OF p] index_services_node [OF n] index_assignments_node [OF n]
    unfolding engine_serves_def by (simp add: e' install_limits_idem)
  show "ds_NodeID s = en_nodeID e" "ctx = None" "DesiredSnapshot_Validate env s = None"
    using p by (auto simp: apply_prepare_def fail_if_def split: if_splits)
qed

lemma engine_serves_drain [simp]:
  "engine_serves s (BeginDrain e) = engine_serves s e" "engine_serves s (restore_admission b e) = engine_serves s e"
proof -
  have "engine_serves s (e\<lparr>en_draining := b\<rparr>) = engine_serves s e" for b
  proof -
    have n: "same_node e (e\<lparr>en_draining := b\<rparr>)" by (simp add: same_node_def)
    have "install_limits s (e\<lparr>en_draining := b\<rparr>) = e\<lparr>en_draining := b\<rparr> \<longleftrightarrow> install_limits s e = e"
      by (cases e) (simp add: install_limits_def split: option.split)
    with n show ?thesis by (simp add: engine_serves_def index_services_node [OF n] index_assignments_node [OF n])
  qed
  then show "engine_serves s (BeginDrain e) = engine_serves s e" "engine_serves s (restore_admission b e) = engine_serves s e"
    by (auto simp: BeginDrain_def EndDrain_def restore_admission_def)
qed

text \<open>An engine that served a snapshot takes it back, naming the generation it now has.\<close>

lemma ApplySnapshot_back:
  assumes "engine_serves old e" "same_node e e1" "DesiredSnapshot_Validate env old = None" "ds_Checksum old \<noteq> []"
    and "ds_NodeID old = en_nodeID e" "\<not> en_closed e" "en_kind e = NodeSpecGateway \<longrightarrow> ds_Gateway old \<noteq> None"
    "en_kind e = NodeSpecAgent \<longrightarrow> ds_Agent old \<noteq> None" "ds_Generation old \<le> en_generation e1"
  shows "\<exists>e2. ApplySnapshot env None old (Some (en_generation e1)) e1 = (e2, None)"
proof -
  note n = index_services_node [OF assms(2)] index_assignments_node [OF assms(2)]
  have "\<exists>p. apply_prepare env None old (Some (en_generation e1)) e1 = Inr p"
    unfolding apply_prepare_def Let_def n
    using assms by (auto simp: same_node_def engine_serves_def fail_if_def not_le)
  then obtain p where p: "apply_prepare env None old (Some (en_generation e1)) e1 = Inr p" by blast
  have "snd (apply_commit p e1) = None"
    using apply_prepare_Inr [OF p] assms(2,6,9) by (auto simp: apply_commit_def Let_def same_node_def)
  with p show ?thesis by (cases "apply_commit p e1") (simp add: ApplySnapshot_def)
qed

section \<open>Activation\<close>

text \<open>A data plane holds a snapshot: published if it is started, else waiting for the start.\<close>

definition plane_holds :: "DesiredSnapshot \<Rightarrow> DataPlaneRuntime \<Rightarrow> bool" where
  "plane_holds s p \<longleftrightarrow> (if dp_started p then dp_state p = Some s \<and> dp_alive p else dp_pending p = Some s)"

lemma buildGeneration_ok:
  assumes "buildGeneration s (e, p, as) = ((e', p', as'), err)"
  shows "e' = e" "dp_started p' = dp_started p" "dp_state p' = dp_state p" "dp_pending p' = dp_pending p"
  using assms by (auto simp: buildGeneration_def split: if_splits prod.splits)

lemma rebuild_old_node:
  assumes "rebuild_old was old err (e, p, as) = ((e', p', as'), err')"
  shows "err' \<noteq> None" "e' = e \<or> e' = restore_admission was e"
  using assms
  by (auto simp: rebuild_old_def split: option.splits if_splits prod.splits dest: buildGeneration_ok)

lemma applyStarted_cases:
  assumes "applyStarted ctx s (e, p, as) = ((e', p', as'), err)"
  shows "err = None \<Longrightarrow> plane_holds s p' \<and> e' = restore_admission (en_draining e) (BeginDrain e)"
    "e' = e \<or> e' = BeginDrain e \<or> e' = restore_admission (en_draining e) (BeginDrain e)"
  using assms
  by (auto simp: applyStarted_def running_def plane_holds_def split: option.splits if_splits prod.splits
      dest: buildGeneration_ok rebuild_old_node)

lemma plane_apply_cases:
  assumes "DataPlane_ApplySnapshot env ctx s (e, p, as) = ((e', p', as'), err)"
  shows "err = None \<Longrightarrow> plane_holds s p'"
    "e' = e \<or> e' = BeginDrain e \<or> e' = restore_admission (en_draining e) (BeginDrain e)"
  using assms applyStarted_cases [of ctx s e p as e' p' as' err]
  by (auto simp: DataPlane_ApplySnapshot_def plane_holds_def split: option.splits if_splits)

lemma restored_serves:
  assumes "e' = e \<or> e' = BeginDrain e \<or> e' = restore_admission (en_draining e) (BeginDrain e)"
  shows "engine_serves s e' = engine_serves s e" "same_node e e'"
  using assms same_node_trans [of e "BeginDrain e"] by auto

text \<open>What \<^verbatim>\<open>applySnapshot\<close> leaves on success.\<close>

lemma applySnapshot_ok:
  assumes "applySnapshot env ctx s previous r = (r', None)"
  shows "(ds_Gateway s = None \<and> ds_Agent s = None \<and> rt_engine r' = None \<and> rt_dataPlane r' = None)
    \<or> (\<exists>e p. rt_engine r' = Some e \<and> rt_dataPlane r' = Some p \<and> engine_serves s e \<and> plane_holds s p)"
proof (cases "snapshotRuntimeKind s")
  case (Inl err)
  then show ?thesis using assms by (simp add: applySnapshot_def)
next
  case (Inr kind)
  show ?thesis
  proof (cases "kind = []")
    case True
    then have "ds_Gateway s = None \<and> ds_Agent s = None" using Inr by (auto simp: snapshotRuntimeKind_def split: if_splits)
    then show ?thesis using assms Inr True by (auto simp: applySnapshot_def disableRuntime_def uninstall_def)
  next
    case False
    obtain r1 e p where "ensureRuntimeKind kind r = (r1, Inr (e, p))"
      and a: "apply_installed env ctx s previous (previous_kind previous) (previous = None \<or> previous_kind previous = kind) (e, p) r1 = (r', None)"
      using assms Inr False
      by (auto simp: applySnapshot_def Let_def split: prod.splits sum.splits option.splits if_splits)
    then show ?thesis
    proof -
      let ?same = "previous = None \<or> previous_kind previous = kind"
      let ?prev = "if ?same then map_option ds_Generation previous else None"
      obtain e1 err1 where e1: "ApplySnapshot env ctx s ?prev (BeginDrain e) = (e1, err1)" by fastforce
      then have n: "err1 = None"
        using a by (auto simp: apply_installed_def Let_def split: option.splits if_splits prod.splits)
      obtain e2 p2 as2 err2 where w: "DataPlane_ApplySnapshot env ctx s (e1, p, rt_builds r1) = ((e2, p2, as2), err2)"
        by (metis prod.exhaust)
      then have "err2 = None" "r' = install (restore_admission (en_draining e) e2, p2, as2) r1"
        using a e1 n
        by (auto simp: apply_installed_def Let_def roll_back_plane_def split: option.splits if_splits prod.splits)
      moreover have "engine_serves s e2"
        using ApplySnapshot_ok(1) e1 n restored_serves(1) [OF plane_apply_cases(2) [OF w]] by blast
      ultimately show ?thesis using plane_apply_cases(1) [OF w] by (auto simp: install_def)
    qed
  qed
qed

section \<open>Rolling back\<close>

definition kind_fits :: "DesiredSnapshot \<Rightarrow> Engine \<Rightarrow> bool" where
  "kind_fits s e \<longleftrightarrow> snapshotRuntimeKind s = Inr (en_kind e) \<and> en_kind e \<noteq> []"

lemma kind_fitsD:
  "kind_fits s e \<Longrightarrow> (en_kind e = NodeSpecGateway \<and> ds_Gateway s \<noteq> None) \<or> (en_kind e = NodeSpecAgent \<and> ds_Agent s \<noteq> None)"
  by (auto simp: kind_fits_def snapshotRuntimeKind_def split: if_splits)

lemma kind_fits_node: "same_node e e' \<Longrightarrow> kind_fits s e' = kind_fits s e"
  by (simp add: kind_fits_def same_node_def)

definition sockets_open :: "build_answer list \<Rightarrow> bool" where
  "sockets_open as \<longleftrightarrow> (\<forall>a\<in>set as. ba_error a = None \<and> \<not> ba_cancelled a)"

lemma buildGeneration_fits:
  assumes "kind_fits s e"
  shows "buildGeneration s (e, p, as) =
    (case as of [] \<Rightarrow> ((e, p, []), None) | a # as' \<Rightarrow> ((e, p\<lparr>dp_alive := dp_alive p \<and> \<not> ba_cancelled a\<rparr>, as'), ba_error a))"
  using kind_fitsD [OF assms] by (cases as) (auto simp: buildGeneration_def next_answer_def)

lemma build_open:
  assumes "kind_fits s e" "sockets_open as"
  shows "buildGeneration s (e, p, as) = ((e, p, tl as), None)"
  using assms by (cases as) (simp_all add: buildGeneration_fits sockets_open_def)

lemma sockets_open_tl: "sockets_open as \<Longrightarrow> sockets_open (tl as)"
  by (cases as) (simp_all add: sockets_open_def)

lemma applyStarted_open:
  assumes "kind_fits s e" "sockets_open as" "running p"
  shows "applyStarted None s (e, p, as) = ((restore_admission (en_draining e) (BeginDrain e), p\<lparr>dp_state := Some s\<rparr>, tl as), None)"
proof -
  have "kind_fits s (BeginDrain e)" using assms(1) kind_fits_node [of e "BeginDrain e"] by simp
  then show ?thesis using assms(2,3) by (simp add: applyStarted_def build_open running_def)
qed

lemma applyStarted_failed:
  assumes "kind_fits s e" "kind_fits old e" "running p" "dp_state p = Some old" "sockets_open (tl as)" "\<forall>a\<in>set as. \<not> ba_cancelled a"
    and "applyStarted None s (e, p, as) = (w, Some err)"
  shows "w = (restore_admission (en_draining e) (BeginDrain e), p, tl (tl as))"
proof -
  have k: "kind_fits s (BeginDrain e)" "kind_fits old (BeginDrain e)"
    using assms(1,2) kind_fits_node [of e "BeginDrain e"] by simp_all
  show ?thesis
  proof (cases as)
    case Nil
    then show ?thesis using assms k by (simp add: applyStarted_def buildGeneration_fits running_def)
  next
    case (Cons a as')
    have "buildGeneration s (BeginDrain e, p\<lparr>dp_state := None\<rparr>, as) = ((BeginDrain e, p\<lparr>dp_state := None\<rparr>, as'), ba_error a)"
      using Cons assms(6) k by (simp add: buildGeneration_fits)
    moreover have "buildGeneration old (BeginDrain e, p\<lparr>dp_state := None\<rparr>, as') = ((BeginDrain e, p\<lparr>dp_state := None\<rparr>, tl as'), None)"
      using Cons assms(5) k by (simp add: build_open)
    moreover have "p\<lparr>dp_state := Some old\<rparr> = p" using assms(4) by simp
    ultimately show ?thesis using Cons assms(3,4,7)
      by (auto simp: applyStarted_def rebuild_old_def running_def split: option.splits)
  qed
qed

lemma drain_restored: "\<not> en_closed e \<Longrightarrow> restore_admission (en_draining e) (BeginDrain e) = e"
  by (simp add: restore_admission_def BeginDrain_def EndDrain_def)

definition serves :: "go_env \<Rightarrow> DesiredSnapshot \<Rightarrow> Runtime \<Rightarrow> bool" where
  "serves env s r \<longleftrightarrow> (\<exists>e p. rt_engine r = Some e \<and> rt_dataPlane r = Some p \<and> rt_runtimeKind r = en_kind e
     \<and> engine_serves s e \<and> kind_fits s e \<and> ds_NodeID s = en_nodeID e \<and> \<not> en_closed e
     \<and> dp_started p \<and> plane_holds s p) \<and> DesiredSnapshot_Validate env s = None \<and> ds_Checksum s \<noteq> []"

definition admitting :: "Runtime \<Rightarrow> bool" where
  "admitting r \<longleftrightarrow> (\<exists>e. rt_engine r = Some e \<and> \<not> en_draining e)"

lemma roll_back_plane_ok:
  assumes "engine_serves old e" "kind_fits old e" "ds_NodeID old = en_nodeID e" "\<not> en_closed e"
    "DesiredSnapshot_Validate env old = None" "ds_Checksum old \<noteq> []" "ds_Generation old \<le> ds_Generation s"
    and "same_node e e1" "engine_serves s e1" "running p" "sockets_open as"
  shows "\<exists>e2. roll_back_plane env s old was err (e1, p, as) =
      ((restore_admission was (restore_admission (en_draining e1) (BeginDrain e2)), p\<lparr>dp_state := Some old\<rparr>, tl as), Some err)
    \<and> engine_serves old e2 \<and> same_node e e2 \<and> en_draining e2 = en_draining e1"
proof -
  have g: "en_generation e1 = ds_Generation s" using assms(9) by (simp add: engine_serves_def)
  obtain e2 where e2: "ApplySnapshot env None old (Some (ds_Generation s)) e1 = (e2, None)"
    using ApplySnapshot_back [of old e e1 env] assms kind_fitsD [OF assms(2)] g by auto
  note ok = ApplySnapshot_ok [OF e2]
  have n: "same_node e e2" using same_node_trans [OF assms(8)] ok(2) by simp
  have "kind_fits old e2" using assms(2) kind_fits_node [OF n] by simp
  then have "DataPlane_ApplySnapshot env None old (e2, p, as) =
      ((restore_admission (en_draining e2) (BeginDrain e2), p\<lparr>dp_state := Some old\<rparr>, tl as), None)"
    using assms(5,10,11) applyStarted_open by (simp add: DataPlane_ApplySnapshot_def running_def)
  with e2 ok(1,3) n show ?thesis by (auto simp: roll_back_plane_def)
qed

lemma failed_apply_restores:
  assumes "serves env old r" "snapshotRuntimeKind s = Inr (rt_runtimeKind r)" "ds_Generation old \<le> ds_Generation s"
    and "sockets_open (tl (rt_builds r))" "\<forall>a\<in>set (rt_builds r). \<not> ba_cancelled a"
    and "applySnapshot env ctx s (Some old) r = (r', Some err)"
  shows "serves env old r' \<and> admitting r' = admitting r"
proof -
  obtain e p where r: "rt_engine r = Some e" "rt_dataPlane r = Some p" "rt_runtimeKind r = en_kind e"
    and o: "engine_serves old e" "kind_fits old e" "ds_NodeID old = en_nodeID e" "\<not> en_closed e"
    and p: "dp_started p" "plane_holds old p" "running p"
    and v: "DesiredSnapshot_Validate env old = None" "ds_Checksum old \<noteq> []"
    using assms(1) by (auto simp: serves_def plane_holds_def running_def)
  have fits: "kind_fits s e" using assms(2) r(3) o(2) by (simp add: kind_fits_def)
  then have k: "en_kind e = NodeSpecGateway \<or> en_kind e = NodeSpecAgent" using kind_fitsD by blast
  have pk: "previous_kind (Some old) = en_kind e" using o(2) by (simp add: previous_kind_def kind_fits_def)
  have "ensureRuntimeKind (en_kind e) r = (r, Inr (e, p))" using r k by (auto simp: ensureRuntimeKind_def)
  then have a: "apply_installed env ctx s (Some old) (en_kind e) True (e, p) r = (r', Some err)"
    using assms(2,6) r(3) fits pk by (auto simp: applySnapshot_def kind_fits_def)
  obtain e1 err1 where e1: "ApplySnapshot env ctx s (Some (ds_Generation old)) (BeginDrain e) = (e1, err1)" by fastforce
  show ?thesis
  proof (cases err1)
    case (Some x)
    then have "e1 = BeginDrain e" using ApplySnapshot_failed e1 by blast
    then have "r' = install (e, p, rt_builds r) r"
      using a e1 Some drain_restored [OF o(4)] by (simp add: apply_installed_def Let_def)
    then show ?thesis using r o p v by (auto simp: serves_def admitting_def install_def)
  next
    case None
    note ok = ApplySnapshot_ok [OF e1 [unfolded None]]
    have n: "same_node e e1" using same_node_trans [of e "BeginDrain e" e1] ok(2) by simp
    have d: "en_draining e1" "\<not> en_closed e1" using ok(3) n o(4) by (auto simp: BeginDrain_def same_node_def)
    obtain w x where w: "DataPlane_ApplySnapshot env ctx s (e1, p, rt_builds r) = (w, Some x)"
      using a e1 None by (auto simp: apply_installed_def Let_def split: option.splits prod.splits)
    then have "applyStarted None s (e1, p, rt_builds r) = (w, Some x)"
      using ok(5,6) p(1) by (simp add: DataPlane_ApplySnapshot_def)
    then have w': "w = (e1, p, tl (tl (rt_builds r)))"
      using applyStarted_failed [of s e1 old p "rt_builds r" w x] fits o(2) kind_fits_node [OF n] p assms(4,5) drain_restored [OF d(2)]
      by (auto simp: plane_holds_def)
    let ?as = "tl (tl (rt_builds r))"
    obtain e2 where rb: "roll_back_plane env s old (en_draining e) x (e1, p, ?as) =
        ((restore_admission (en_draining e) (restore_admission (en_draining e1) (BeginDrain e2)), p\<lparr>dp_state := Some old\<rparr>, tl ?as), Some x)"
      and e2: "engine_serves old e2" "same_node e e2" "en_draining e2"
      using roll_back_plane_ok [OF o v assms(3) n ok(1) p(3) sockets_open_tl [OF assms(4)]] d(1) by metis
    have c: "\<not> en_closed e2" using e2(2) o(4) by (simp add: same_node_def)
    have "restore_admission (en_draining e1) (BeginDrain e2) = e2"
      using drain_restored [OF c] e2(3) d(1) by (simp add: restore_admission_def)
    then have r': "r' = install (restore_admission (en_draining e) e2, p\<lparr>dp_state := Some old\<rparr>, tl ?as) r"
      using a e1 None w w' rb by (simp add: apply_installed_def Let_def)
    have f: "kind_fits old (restore_admission (en_draining e) e2)" "same_node e (restore_admission (en_draining e) e2)"
      using o(2) kind_fits_node same_node_trans [OF e2(2)] drain_node(3) by blast+
    have "engine_serves old (restore_admission (en_draining e) e2)" using e2(1) by simp
    then show ?thesis using r' r o p v e2 f c
      by (auto simp: serves_def admitting_def install_def plane_holds_def same_node_def restore_admission_def EndDrain_def)
  qed
qed

section \<open>Admission stays closed\<close>

lemma restore_draining [simp]: "en_draining (restore_admission b e) = (en_draining e \<and> (b \<or> en_closed e))"
  by (auto simp: restore_admission_def EndDrain_def)

lemma plane_apply_draining:
  assumes "DataPlane_ApplySnapshot env ctx s (e, p, as) = ((e', p', as'), err)" "en_draining e"
  shows "en_draining e'"
  using plane_apply_cases(2) [OF assms(1)] assms(2) by (auto simp: BeginDrain_def)

lemma ApplySnapshot_draining:
  assumes "ApplySnapshot env ctx s prev e = (e', err)" "en_draining e"
  shows "en_draining e'"
  using assms ApplySnapshot_failed [of env ctx s prev e e'] ApplySnapshot_ok(3) [of env ctx s prev e e'] by (cases err) auto

lemma roll_back_draining:
  assumes "roll_back_plane env s old True err (e, p, as) = ((e', p', as'), err')" "en_draining e"
  shows "en_draining e'"
proof -
  obtain e1 err1 where e1: "ApplySnapshot env None old (Some (ds_Generation s)) e = (e1, err1)" by fastforce
  obtain e2 p2 as2 err2 where e2: "DataPlane_ApplySnapshot env None old (e1, p, as) = ((e2, p2, as2), err2)" by (metis prod.exhaust)
  have "en_draining e2" using plane_apply_draining [OF e2] ApplySnapshot_draining [OF e1 assms(2)] by simp
  then show ?thesis using assms(1) e1 e2 by (auto simp: roll_back_plane_def split: option.splits)
qed

lemma reset_draining: "ResetSnapshot g e = (e', err) \<Longrightarrow> en_draining e \<Longrightarrow> en_draining e'"
  by (auto simp: ResetSnapshot_def split: if_splits)

lemma apply_installed_draining:
  assumes "apply_installed env ctx s previous k True (e, p) r = (r', err)" "en_draining e"
  shows "\<exists>e'. rt_engine r' = Some e' \<and> en_draining e'"
proof -
  obtain e1 err1 where e1: "ApplySnapshot env ctx s (map_option ds_Generation previous) (BeginDrain e) = (e1, err1)" by fastforce
  have d1: "en_draining e1" using ApplySnapshot_draining [OF e1] by (simp add: BeginDrain_def)
  obtain e2 p2 as2 err2 where e2: "DataPlane_ApplySnapshot env ctx s (e1, p, rt_builds r) = ((e2, p2, as2), err2)" by (metis prod.exhaust)
  have d2: "en_draining e2" by (rule plane_apply_draining [OF e2 d1])
  show ?thesis
    using assms e1 e2 d1 d2
    by (auto simp: apply_installed_def Let_def install_def split: option.splits prod.splits
        dest: roll_back_draining reset_draining)
qed

lemma draining_kept:
  assumes "rt_engine r = Some e" "rt_dataPlane r = Some p" "en_draining e"
    and "snapshotRuntimeKind s = Inr (rt_runtimeKind r)" "rt_runtimeKind r \<noteq> []"
    and "previous = None \<or> previous_kind previous = rt_runtimeKind r"
    and "applySnapshot env ctx s previous r = (r', err)"
  shows "\<not> admitting r'"
proof -
  have "rt_runtimeKind r = NodeSpecGateway \<or> rt_runtimeKind r = NodeSpecAgent"
    using assms(4,5) by (auto simp: snapshotRuntimeKind_def split: if_splits)
  then have "ensureRuntimeKind (rt_runtimeKind r) r = (r, Inr (e, p))" using assms(1,2) by (auto simp: ensureRuntimeKind_def)
  then have "apply_installed env ctx s previous (previous_kind previous) True (e, p) r = (r', err)"
    using assms(4-7) by (auto simp: applySnapshot_def Let_def)
  from apply_installed_draining [OF this assms(3)] show ?thesis by (auto simp: admitting_def)
qed

section \<open>Success and return\<close>

lemma ensure_serving:
  assumes "rt_engine r = Some e" "rt_dataPlane r = Some p" "rt_runtimeKind r = en_kind e" "kind_fits s e"
    "previous_kind (Some old) = en_kind e"
  shows "applySnapshot env ctx s (Some old) r = apply_installed env ctx s (Some old) (en_kind e) True (e, p) r"
proof -
  have "ensureRuntimeKind (en_kind e) r = (r, Inr (e, p))"
    using assms(1-3) kind_fitsD [OF assms(4)] by (auto simp: ensureRuntimeKind_def)
  then show ?thesis using assms(4,5) by (simp add: applySnapshot_def kind_fits_def)
qed

lemma apply_serves:
  assumes "serves env old r" "snapshotRuntimeKind s = Inr (rt_runtimeKind r)" "ds_Checksum s \<noteq> []"
    and "applySnapshot env ctx s (Some old) r = (r', None)"
  shows "serves env s r'" "admitting r' = admitting r" "rt_runtimeKind r' = rt_runtimeKind r" "ctx = None"
    "rt_builds r' = tl (rt_builds r)"
    "\<exists>e e'. rt_engine r = Some e \<and> rt_engine r' = Some e' \<and> same_node e e'"
proof -
  obtain e p where r: "rt_engine r = Some e" "rt_dataPlane r = Some p" "rt_runtimeKind r = en_kind e"
    and o: "kind_fits old e" "\<not> en_closed e" and p: "dp_started p"
    using assms(1) by (auto simp: serves_def)
  have fits: "kind_fits s e" using assms(2) r(3) o(1) by (simp add: kind_fits_def)
  have "previous_kind (Some old) = en_kind e" using o(1) by (simp add: previous_kind_def kind_fits_def)
  then have a: "apply_installed env ctx s (Some old) (en_kind e) True (e, p) r = (r', None)"
    using assms(4) ensure_serving [OF r fits] by simp
  obtain e1 err1 where e1: "ApplySnapshot env ctx s (Some (ds_Generation old)) (BeginDrain e) = (e1, err1)" by fastforce
  then have n1: "err1 = None" using a by (auto simp: apply_installed_def Let_def split: option.splits)
  note ok = ApplySnapshot_ok [OF e1 [unfolded n1]]
  show "ctx = None" by (rule ok(5))
  obtain e2 p2 as2 err2 where w: "DataPlane_ApplySnapshot env ctx s (e1, p, rt_builds r) = ((e2, p2, as2), err2)" by (metis prod.exhaust)
  then have r': "err2 = None" "r' = install (restore_admission (en_draining e) e2, p2, as2) r"
    using a e1 n1 by (auto simp: apply_installed_def Let_def roll_back_plane_def split: option.splits prod.splits)
  have n: "same_node e e1" using same_node_trans [of e "BeginDrain e" e1] ok(2) by simp
  then have n2: "same_node e e2" using same_node_trans restored_serves(2) [OF plane_apply_cases(2) [OF w]] by blast
  have "en_draining e1" using ok(3) by (simp add: BeginDrain_def)
  then have d2: "en_draining e2" by (rule plane_apply_draining [OF w])
  have "kind_fits s (BeginDrain e1)" using fits kind_fits_node [OF same_node_trans [OF n drain_node(1)]] by simp
  then have "as2 = tl (rt_builds r)"
    using w r'(1) p rebuild_old_node(1) by (cases "rt_builds r")
      (fastforce simp: DataPlane_ApplySnapshot_def applyStarted_def buildGeneration_fits split: option.splits if_splits)+
  then show "rt_builds r' = tl (rt_builds r)" using r'(2) by (simp add: install_def)
  have "dp_started p2"
    using w p by (auto simp: DataPlane_ApplySnapshot_def applyStarted_def rebuild_old_def split: option.splits if_splits prod.splits
        dest: buildGeneration_ok(2))
  moreover have "engine_serves s (restore_admission (en_draining e) e2)"
    using ok(1) restored_serves(1) [OF plane_apply_cases(2) [OF w]] by simp
  moreover have "kind_fits s (restore_admission (en_draining e) e2)" "same_node e (restore_admission (en_draining e) e2)"
    using fits kind_fits_node same_node_trans [OF n2] drain_node(3) by blast+
  ultimately show "serves env s r'" "rt_runtimeKind r' = rt_runtimeKind r"
    "\<exists>e e'. rt_engine r = Some e \<and> rt_engine r' = Some e' \<and> same_node e e'"
    using r r' ok(4,6) assms(3) plane_apply_cases(1) [OF w] o(2) 
    by (auto simp: serves_def install_def same_node_def BeginDrain_def)
  show "admitting r' = admitting r"
    using r r'(2) d2 n2 o(2) by (auto simp: admitting_def install_def same_node_def)
qed

lemma apply_returns:
  assumes "serves env s r" "engine_serves old e0" "same_node e0 (the (rt_engine r))" "snapshotRuntimeKind old = Inr (rt_runtimeKind r)"
    and "DesiredSnapshot_Validate env old = None" "ds_Checksum old \<noteq> []" "ds_NodeID old = en_nodeID e0"
    and "ds_Generation old \<le> ds_Generation s" "sockets_open (rt_builds r)"
  shows "\<exists>r'. applySnapshot env None old (Some s) r = (r', None)"
proof -
  obtain e p where r: "rt_engine r = Some e" "rt_dataPlane r = Some p" "rt_runtimeKind r = en_kind e"
    and o: "engine_serves s e" "kind_fits s e" "\<not> en_closed e" and p: "dp_started p" "plane_holds s p"
    using assms(1) by (auto simp: serves_def)
  have n: "same_node e0 (BeginDrain e)" using assms(3) r(1) same_node_trans [of e0 e "BeginDrain e"] by simp
  have fits: "kind_fits old e" "kind_fits old e0" using assms(3,4) r(1,3) o(2) by (auto simp: kind_fits_def same_node_def)
  have g: "en_generation (BeginDrain e) = ds_Generation s" using o(1) by (simp add: engine_serves_def BeginDrain_def)
  obtain e1 where e1: "ApplySnapshot env None old (Some (ds_Generation s)) (BeginDrain e) = (e1, None)"
    using ApplySnapshot_back [OF assms(2) n assms(5,6,7)] kind_fitsD [OF fits(2)] assms(3,8) r(1) o(3) g
    by (auto simp: same_node_def)
  have "kind_fits old e1"
    using fits(1) kind_fits_node ApplySnapshot_ok(2) [OF e1] same_node_trans [OF drain_node(1)] by blast
  then have "applyStarted None old (e1, p, rt_builds r) = ((restore_admission (en_draining e1) (BeginDrain e1), p\<lparr>dp_state := Some old\<rparr>, tl (rt_builds r)), None)"
    using assms(9) p by (intro applyStarted_open) (auto simp: plane_holds_def running_def)
  moreover have "previous_kind (Some s) = en_kind e" using o(2) by (simp add: previous_kind_def kind_fits_def)
  ultimately show ?thesis
    using ensure_serving [OF r fits(1)] e1 assms(5) p(1)
    by (simp add: apply_installed_def Let_def DataPlane_ApplySnapshot_def)
qed

section \<open>The node behind its reconciler\<close>

definition runtime_components :: "go_env \<Rightarrow> check \<Rightarrow> Runtime components" where
  "runtime_components env ctx = \<lparr>co_apply = (\<lambda>s previous r. applySnapshot env ctx s previous r), co_reset = Some resetSnapshot\<rparr>"

text \<open>
  \<^verbatim>\<open>NewRuntime\<close> after the key file was loaded: the reconciler recovers from the cache, and the cached
  snapshot is applied to new components.
\<close>

definition NewRuntime :: "node_env \<Rightarrow> SnapshotCache \<Rightarrow> check \<Rightarrow> time \<Rightarrow> files \<Rightarrow> Runtime \<Rightarrow> (Reconciler \<times> Runtime) result" where
  "NewRuntime env c rd now fs r0 =
     (let rc = NewReconcilerWithReset env c rd now fs;
          finish = (\<lambda>r. case SetNodeID (rt_nodeID r0) now rc of (rc', None) \<Rightarrow> Inr (rc', r) | (rc', Some err) \<Rightarrow> Inl err)
      in case Cache_Read env c rd fs of
           Inl _ \<Rightarrow> finish r0
         | Inr s \<Rightarrow>
             (case snapshotRuntimeKind s of
                Inl err \<Rightarrow> Inl err
              | Inr kind \<Rightarrow>
                  if kind = [] then finish r0
                  else case ensureRuntimeKind kind r0 of
                      (r1, Inl err) \<Rightarrow> Inl err
                    | (r1, Inr (e, p)) \<Rightarrow>
                        (case ApplySnapshot (ne_go env) None s None e of
                           (e', Some err) \<Rightarrow> Inl (ErrWrap ''apply cached snapshot: '' err)
                         | (e', None) \<Rightarrow>
                             (case DataPlane_ApplySnapshot (ne_go env) None s (e', p, rt_builds r1) of
                                (w, Some err) \<Rightarrow> Inl (ErrWrap ''prepare cached data-plane snapshot: '' err)
                              | (w, None) \<Rightarrow> finish (install w r1)))))"

text \<open>
  Applying a snapshot never reopens a closed admission: a drain that the controller ordered
  survives every later snapshot of the same behaviour, whether it succeeds or fails.
\<close>

theorem applySnapshot_keeps_drain:
  assumes "rt_engine r = Some e" "rt_dataPlane r = Some p" "en_draining e"
    and "snapshotRuntimeKind s = Inr (rt_runtimeKind r)" "rt_runtimeKind r \<noteq> []"
    and "previous = None \<or> previous_kind previous = rt_runtimeKind r"
    and "applySnapshot env ctx s previous r = (r', err)"
  shows "\<not> admitting r'"
  using assms by (rule draining_kept)

text \<open>
  The first snapshot of a node, once its activation was undone, cannot be applied into service:
  the undo closes admission, and a retry that succeeds reports success but leaves it closed.
\<close>

theorem reset_then_applied_not_admitting:
  assumes "resetSnapshot g r = (r1, None)" "rt_engine r \<noteq> None" "rt_dataPlane r \<noteq> None"
    and "snapshotRuntimeKind s = Inr (rt_runtimeKind r)" "rt_runtimeKind r \<noteq> []"
    and "applySnapshot env ctx s None r1 = (r2, None)"
  shows "\<not> admitting r2"
proof -
  obtain e p where ep: "rt_engine r = Some e" "rt_dataPlane r = Some p" using assms(2,3) by blast
  obtain e1 p1 where "rt_engine r1 = Some e1" "rt_dataPlane r1 = Some p1" "en_draining e1" "rt_runtimeKind r1 = rt_runtimeKind r"
    using assms(1) ep
    by (auto simp: resetSnapshot_def ResetSnapshot_def install_def split: prod.splits option.splits if_splits)
  then show ?thesis using draining_kept [of r1 e1 p1 s None env ctx r2 None] assms(4-6) by simp
qed

text \<open>
  After a successful apply the engine serves exactly the snapshot (its generation, its service
  and assignment indexes, its limits) and the data plane has published it, or will at its start;
  a snapshot without behaviour removes both.
\<close>

theorem applySnapshot_installs:
  assumes "applySnapshot env ctx s previous r = (r', None)"
  shows "(ds_Gateway s = None \<and> ds_Agent s = None \<and> rt_engine r' = None \<and> rt_dataPlane r' = None)
    \<or> (\<exists>e p. rt_engine r' = Some e \<and> rt_dataPlane r' = Some p \<and> engine_serves s e \<and> plane_holds s p)"
  using assms by (rule applySnapshot_ok)

text \<open>
  C20. A failed apply is undone: when a node that serves a snapshot is given another one of the same
  behaviour and any step fails, then, if the old sockets can be opened again, it serves the old
  snapshot as before, in the engine and in the data plane, and admits as before.
\<close>

theorem failed_apply_keeps_serving:
  assumes "serves env old r" "snapshotRuntimeKind s = Inr (rt_runtimeKind r)" "ds_Generation old \<le> ds_Generation s"
    and "sockets_open (tl (rt_builds r))" "\<forall>a\<in>set (rt_builds r). \<not> ba_cancelled a"
    and "applySnapshot env ctx s (Some old) r = (r', Some err)"
  shows "serves env old r' \<and> admitting r' = admitting r"
  using assms by (rule failed_apply_restores)

section \<open>A gateway that applies the sample snapshot\<close>

definition demo_runtime :: Runtime where
  "demo_runtime = \<lparr>rt_nodeID = ''gw'', rt_maxStreams = 0, rt_maxSessions = 0, rt_engine = None, rt_dataPlane = None,
     rt_runtimeKind = [], rt_runCtx = Some None, rt_tls = [], rt_builds = []\<rparr>"

definition demo_plane :: DataPlaneRuntime where
  "demo_plane = \<lparr>dp_started = True, dp_alive = True, dp_state = None, dp_pending = None\<rparr>"

definition demo_ready :: "build_answer list \<Rightarrow> Runtime" where
  "demo_ready as = demo_runtime\<lparr>rt_engine := Some sample_engine, rt_dataPlane := Some demo_plane, rt_runtimeKind := ''gateway'',
     rt_builds := as\<rparr>"

lemma demo_snapshot_fields:
  "ds_NodeID demo_snapshot = ''gw''" "ds_Gateway demo_snapshot \<noteq> None" "ds_Agent demo_snapshot = None"
  "ds_Services demo_snapshot = ds_Services (sample_snapshot ''a1'' 8000)"
  "ds_Assignments demo_snapshot = ds_Assignments (sample_snapshot ''a1'' 8000)"
  by (simp_all add: demo_snapshot_def sample_snapshot_def)

lemma demo_kind: "snapshotRuntimeKind demo_snapshot = Inr ''gateway''"
  using demo_snapshot_fields by (simp add: snapshotRuntimeKind_def)

lemma demo_engine_takes:
  assumes "same_node sample_engine e" "en_generation e = 0"
  shows "\<exists>e'. ApplySnapshot plain_env None demo_snapshot None e = (e', None)"
proof -
  have g: "\<not> en_closed e" "en_nodeID e = ''gw''" "en_kind e = ''gateway''"
    using assms(1) by (simp_all add: same_node_def sample_engine_def)
  obtain sv where sv: "index_services e (ds_Services demo_snapshot) Map.empty = Inr sv" "sv ''web'' = Some sample_service"
    using g by (simp add: demo_snapshot_fields sample_snapshot_def sample_parts) (simp add: sample_service_def)
  obtain asg where asg: "index_assignments e demo_snapshot sv (ds_Assignments demo_snapshot) Map.empty = Inr asg"
    using sv(2) g demo_valid(3) by (simp add: demo_snapshot_fields sample_snapshot_def sample_assignment_def sample_service_def)
  have "\<exists>p. apply_prepare plain_env None demo_snapshot None e = Inr p"
    unfolding apply_prepare_def using g sv(1) asg assms(2) demo_valid demo_snapshot_fields by simp
  then obtain p where p: "apply_prepare plain_env None demo_snapshot None e = Inr p" by blast
  then have "snd (apply_commit p e) = None"
    using apply_prepare_Inr [OF p] g assms(2) demo_valid(3) by (simp add: apply_commit_def Let_def)
  with p show ?thesis by (cases "apply_commit p e") (simp add: ApplySnapshot_def)
qed

lemma demo_started: "ensureRuntimeKind ''gateway'' demo_runtime = (demo_ready [], Inr (sample_engine, demo_plane))"
proof -
  have "en_nodeID sample_engine = ''gw''" by (simp add: sample_engine_def)
  then show ?thesis
    using sample_engine_new
    by (simp add: ensureRuntimeKind_def demo_runtime_def demo_ready_def demo_plane_def NewDataPlaneRuntime_def next_tls_def
        uninstall_def install_def DataPlane_Start_def Let_def)
qed

lemma demo_applies:
  obtains r where "applySnapshot plain_env None demo_snapshot None demo_runtime = (r, None)"
    "\<exists>e. rt_engine r = Some e \<and> \<not> en_draining e \<and> same_node sample_engine e" "rt_dataPlane r = Some (demo_plane\<lparr>dp_state := Some demo_snapshot\<rparr>)"
    "rt_runtimeKind r = ''gateway''"
proof -
  have n: "same_node sample_engine (BeginDrain sample_engine)" by simp
  obtain e1 where e1: "ApplySnapshot plain_env None demo_snapshot None (BeginDrain sample_engine) = (e1, None)"
    using demo_engine_takes [OF n] by (auto simp: BeginDrain_def sample_engine_def)
  note ok = ApplySnapshot_ok [OF e1]
  have n1: "same_node sample_engine e1" using same_node_trans [OF n ok(2)] .
  then have k: "kind_fits demo_snapshot e1" and c: "\<not> en_closed e1" and d: "en_draining e1"
    using demo_kind ok(3) by (simp_all add: kind_fits_def same_node_def sample_engine_def BeginDrain_def)
  have a: "applyStarted None demo_snapshot (e1, demo_plane, []) = ((e1, demo_plane\<lparr>dp_state := Some demo_snapshot\<rparr>, []), None)"
    using applyStarted_open [OF k, of "[]" demo_plane] drain_restored [OF c] by (simp add: sockets_open_def running_def demo_plane_def)
  let ?r = "install (restore_admission False e1, demo_plane\<lparr>dp_state := Some demo_snapshot\<rparr>, []) (demo_ready [])"
  have b: "rt_builds (demo_ready []) = []" "\<not> en_draining sample_engine" "dp_started demo_plane"
    by (simp_all add: demo_ready_def sample_engine_def demo_plane_def)
  have "DataPlane_ApplySnapshot plain_env None demo_snapshot (e1, demo_plane, []) = ((e1, demo_plane\<lparr>dp_state := Some demo_snapshot\<rparr>, []), None)"
    using a demo_valid(1) b(3) by (simp add: DataPlane_ApplySnapshot_def)
  then have "applySnapshot plain_env None demo_snapshot None demo_runtime = (?r, None)"
    using demo_kind demo_started e1 b by (simp add: applySnapshot_def apply_installed_def Let_def)
  moreover have "same_node sample_engine (restore_admission False e1)" using same_node_trans [OF n1] by simp
  ultimately show ?thesis using c by (intro that) (auto simp: install_def demo_ready_def)
qed

theorem applySnapshot_installs_witness:
  "\<exists>r e. applySnapshot plain_env None demo_snapshot None demo_runtime = (r, None) \<and> rt_engine r = Some e \<and> en_generation e = 5"
proof -
  obtain r where r: "applySnapshot plain_env None demo_snapshot None demo_runtime = (r, None)" using demo_applies by blast
  from applySnapshot_installs [OF r] demo_snapshot_fields(2) obtain e where "rt_engine r = Some e" "engine_serves demo_snapshot e" by auto
  with r demo_valid(3) show ?thesis by (auto simp: engine_serves_def)
qed

text \<open>The serving gateway, whose next attempts to open sockets are answered by \<open>as\<close>.\<close>

lemma demo_serves:
  obtains r where "serves plain_env demo_snapshot (r\<lparr>rt_builds := as\<rparr>)" "admitting (r\<lparr>rt_builds := as\<rparr>)"
    "rt_runtimeKind (r\<lparr>rt_builds := as\<rparr>) = ''gateway''"
proof -
  obtain r e where r: "applySnapshot plain_env None demo_snapshot None demo_runtime = (r, None)"
    and e: "rt_engine r = Some e" "\<not> en_draining e" "same_node sample_engine e"
    and p: "rt_dataPlane r = Some (demo_plane\<lparr>dp_state := Some demo_snapshot\<rparr>)" "rt_runtimeKind r = ''gateway''"
    using demo_applies by metis
  from applySnapshot_ok [OF r] demo_snapshot_fields(2) e(1) have s: "engine_serves demo_snapshot e" by auto
  have "kind_fits demo_snapshot e" "ds_NodeID demo_snapshot = en_nodeID e" "\<not> en_closed e" "en_kind e = ''gateway''"
    using e(3) demo_kind demo_snapshot_fields(1) by (simp_all add: kind_fits_def same_node_def sample_engine_def)
  then show ?thesis using s e p demo_valid(1,2)
    by (intro that [of r]) (auto simp: serves_def admitting_def plane_holds_def demo_plane_def)
qed

lemma applySnapshot_socket_error:
  assumes "serves env s r" "rt_builds r = [\<lparr>ba_error = Some x, ba_cancelled = False\<rparr>]"
    and "applySnapshot env None s (Some s) r = (r', err)"
  shows "err \<noteq> None"
proof
  assume err: "err = None"
  obtain e p where r: "rt_engine r = Some e" "rt_dataPlane r = Some p" "rt_runtimeKind r = en_kind e"
    and o: "kind_fits s e" "\<not> en_closed e" "DesiredSnapshot_Validate env s = None" and p: "dp_started p"
    using assms(1) by (auto simp: serves_def)
  have "previous_kind (Some s) = en_kind e" using o(1) by (simp add: previous_kind_def kind_fits_def)
  then have a: "apply_installed env None s (Some s) (en_kind e) True (e, p) r = (r', None)"
    using assms(3) err ensure_serving [OF r o(1)] by simp
  obtain e1 err1 where e1: "ApplySnapshot env None s (Some (ds_Generation s)) (BeginDrain e) = (e1, err1)" by fastforce
  then have n1: "err1 = None" using a by (auto simp: apply_installed_def Let_def split: option.splits)
  have "kind_fits s e1"
    using o(1) kind_fits_node ApplySnapshot_ok(2) [OF e1 [unfolded n1]] same_node_trans [OF drain_node(1)] by blast
  then have k: "kind_fits s (BeginDrain e1)" using kind_fits_node [OF drain_node(1)] by simp
  obtain w x' where w: "applyStarted None s (e1, p, rt_builds r) = (w, Some x')"
    using assms(2) k rebuild_old_node(1) by (cases "applyStarted None s (e1, p, rt_builds r)")
      (fastforce simp: applyStarted_def buildGeneration_fits)
  show False using a e1 n1 w o(3) p
    by (auto simp: apply_installed_def Let_def DataPlane_ApplySnapshot_def roll_back_plane_def split: prod.splits option.splits)
qed

theorem failed_apply_keeps_serving_witness:
  "\<exists>r r' err. applySnapshot plain_env None demo_snapshot (Some demo_snapshot) r = (r', Some err)
     \<and> serves plain_env demo_snapshot r' \<and> admitting r'"
proof -
  let ?as = "[\<lparr>ba_error = Some (ErrStd ''listen''), ba_cancelled = False\<rparr>]"
  obtain r0 where r0: "serves plain_env demo_snapshot (r0\<lparr>rt_builds := ?as\<rparr>)" "admitting (r0\<lparr>rt_builds := ?as\<rparr>)"
    "rt_runtimeKind (r0\<lparr>rt_builds := ?as\<rparr>) = ''gateway''" using demo_serves by blast
  let ?r = "r0\<lparr>rt_builds := ?as\<rparr>"
  obtain r' err where a: "applySnapshot plain_env None demo_snapshot (Some demo_snapshot) ?r = (r', err)" by fastforce
  then obtain x where "err = Some x" using applySnapshot_socket_error [OF r0(1) _ a] by auto
  with failed_apply_keeps_serving [OF r0(1), of demo_snapshot None r' x] a r0(2,3) demo_kind
  show ?thesis by (auto simp: sockets_open_def)
qed

theorem applySnapshot_keeps_drain_witness:
  "\<exists>r'. applySnapshot plain_env None demo_snapshot None ((demo_ready [])\<lparr>rt_engine := Some (BeginDrain sample_engine)\<rparr>) = r'
     \<and> \<not> admitting (fst r')"
proof -
  let ?r = "(demo_ready [])\<lparr>rt_engine := Some (BeginDrain sample_engine)\<rparr>"
  obtain r' err where a: "applySnapshot plain_env None demo_snapshot None ?r = (r', err)" by fastforce
  have "\<not> admitting r'"
    by (rule applySnapshot_keeps_drain [of _ "BeginDrain sample_engine" demo_plane, OF _ _ _ _ _ _ a]) (simp_all add: demo_ready_def BeginDrain_def demo_kind)
  with a show ?thesis by simp
qed

theorem reset_then_applied_not_admitting_witness:
  "\<exists>r1 r2. resetSnapshot 0 (demo_ready []) = (r1, None) \<and> applySnapshot plain_env None demo_snapshot None r1 = (r2, None)
     \<and> \<not> admitting r2"
proof -
  obtain e0 where e0: "ResetSnapshot 0 sample_engine = (e0, None)" "same_node sample_engine e0" "en_generation e0 = 0" "en_draining e0"
    by (auto simp: ResetSnapshot_def same_node_def)
  let ?r1 = "(demo_ready [])\<lparr>rt_engine := Some e0\<rparr>"
  have r1: "resetSnapshot 0 (demo_ready []) = (?r1, None)"
    using e0(1) by (simp add: resetSnapshot_def demo_ready_def DataPlane_ResetSnapshot_def demo_plane_def install_def)
  have n: "same_node sample_engine (BeginDrain e0)" using same_node_trans [OF e0(2)] by simp
  obtain e1 where e1: "ApplySnapshot plain_env None demo_snapshot None (BeginDrain e0) = (e1, None)"
    using demo_engine_takes [OF n] e0(3) by (auto simp: BeginDrain_def)
  have "same_node sample_engine e1" using same_node_trans [OF n ApplySnapshot_ok(2) [OF e1]] .
  then have k: "kind_fits demo_snapshot e1" using demo_kind by (simp add: kind_fits_def same_node_def sample_engine_def)
  have "\<exists>w. DataPlane_ApplySnapshot plain_env None demo_snapshot (e1, demo_plane, []) = (w, None)"
    using applyStarted_open [OF k, of "[]" demo_plane] demo_valid(1)
    by (simp add: DataPlane_ApplySnapshot_def sockets_open_def running_def demo_plane_def)
  moreover have "ensureRuntimeKind ''gateway'' ?r1 = (?r1, Inr (e0, demo_plane))"
    by (simp add: ensureRuntimeKind_def demo_ready_def)
  ultimately obtain r2 where r2: "applySnapshot plain_env None demo_snapshot None ?r1 = (r2, None)"
    using demo_kind e1 by (auto simp: applySnapshot_def apply_installed_def Let_def demo_ready_def)
  have "\<not> admitting r2"
    by (rule reset_then_applied_not_admitting [OF r1 _ _ _ _ r2]) (simp_all add: demo_ready_def demo_kind)
  with r1 r2 show ?thesis by blast
qed

end
