(* ===== verification/Spec2Isabelle.thy ===== *)
theory Spec2Isabelle
  imports Controller_Accounts Controller_Leadership Controller_Snapshots Controller_Actions
    Domain_Observed Afdp_Session Afdp_Obfuscation Dataplane_Proxy Node_Reconnect Node_Runtime
begin

text \<open>
  \<^bold>\<open>A verification development of asterferry.\<close>

  asterferry publishes services of private nodes through public gateways. A \<^emph>\<open>controller\<close>
  keeps the resources (nodes, specifications, services, assignments), places services on gateways and sends
  every node a checksummed \<^emph>\<open>desired snapshot\<close>. A \<^emph>\<open>node\<close> (gateway or agent) validates the snapshot,
  installs it in its \<^emph>\<open>data-plane engine\<close> and then speaks AFDP, a protocol of control streams and
  datagrams over QUIC, with its peers, optionally behind an obfuscating UDP socket. Local HTTP and
  SOCKS5 proxies of an agent enter the same engine. All paths below are under \<^verbatim>\<open>src/internal\<close>.

  \<^bold>\<open>Theories and what they model.\<close>

  \<^item> \<^verbatim>\<open>Prelude\<close>, \<^verbatim>\<open>Go_Strings\<close>, \<^verbatim>\<open>Go_Net\<close>, \<^verbatim>\<open>Go_Heap\<close>: what the sources use of Go and its library. Machine
    integers are words; \<^verbatim>\<open>error\<close> is \<open>go_error\<close> and a function returning an error a sum or an option;
    \<^verbatim>\<open>time.Time\<close> is an integer with a saturating \<^verbatim>\<open>Sub\<close>; \<^verbatim>\<open>strings\<close>, \<^verbatim>\<open>strconv\<close>, \<^verbatim>\<open>net\<close> and \<^verbatim>\<open>netip\<close>
    parsing and printing work on byte strings; \<^verbatim>\<open>container/heap\<close> is an interface (locale) with the
    array heap as its interpretation.
  \<^item> \<^verbatim>\<open>AddressPolicy\<close> (\<^verbatim>\<open>addresspolicy/policy.go\<close>): the special-use prefixes.
  \<^item> \<^verbatim>\<open>Domain_Model\<close>, \<^verbatim>\<open>Domain_Checksum\<close>, \<^verbatim>\<open>Domain_Validate\<close>, \<^verbatim>\<open>Domain_Observed\<close> (\<^verbatim>\<open>domain/\<close>): the resource
    records, validation of every resource, normalization and checksum of a snapshot, validation of
    a snapshot with all its cross references, and of what nodes report. Shown: exactly which
    identifiers and port pools are accepted; an accepted snapshot has exclusive sockets and
    consistent assignments; the checksum ignores order and secrets; \<^verbatim>\<open>WithChecksum\<close> yields what
    \<^verbatim>\<open>Validate\<close> accepts.
  \<^item> \<^verbatim>\<open>Afdp_Datagram\<close>, \<^verbatim>\<open>Afdp_Reassembly\<close> (\<^verbatim>\<open>afdp/protocol_datagram.go\<close>, \<^verbatim>\<open>protocol_reassembly.go\<close>): codec,
    fragmentation and the bounded reassembler. Shown: round trips, reassembly in any order,
    bounded memory under every input, rejection of replays.
  \<^item> \<^verbatim>\<open>Afdp_Control\<close>, \<^verbatim>\<open>Afdp_Session\<close> (\<^verbatim>\<open>afdp/protocol_control.go\<close>, \<^verbatim>\<open>stream.go\<close>, \<^verbatim>\<open>session.go\<close>): control frames,
    handshake, stream accounting. The compare-and-swap loops also have a small-step model
    (\<open>cas_step\<close>) under every interleaving; \<^verbatim>\<open>Admission\<close> is the counter interface they share with
    the engine. Shown: both ends of a handshake agree; reservations are exact.
  \<^item> \<^verbatim>\<open>Uniform_Random\<close>, \<^verbatim>\<open>Afdp_Obfuscation\<close> (\<^verbatim>\<open>random/random.go\<close>, \<^verbatim>\<open>afdp/obfuscation_*.go\<close>): the masked and tagged
    UDP framing. Shown: data and fragments travel, unauthenticated datagrams are dropped, state is
    bounded, random lengths are uniform.
  \<^item> \<^verbatim>\<open>Dataplane_Engine\<close>, \<^verbatim>\<open>Dataplane_Egress\<close>, \<^verbatim>\<open>Dataplane_Proxy\<close> (\<^verbatim>\<open>dataplane/\<close>): the engine's state (\<open>Engine\<close>),
    snapshot activation, leases with their epoch, egress policy, route selection, and the proxy
    handshakes. The engine is a step relation (\<open>engine_step\<close>) over operations that the code runs
    under its lock. Shown: lease counters are exact in every reachable state, admission respects
    every limit, activation is all or nothing, the egress policy is enforced, proxy targets are
    canonical and SOCKS5 connects where it was asked to.
  \<^item> \<^verbatim>\<open>Controller_Schedule\<close>, \<^verbatim>\<open>Controller_Reconcile\<close> (\<^verbatim>\<open>controller/scheduler*.go\<close>): port allocation,
    placement and the reconciliation passes over the \<^verbatim>\<open>SchedulingRepository\<close> interface, a record of
    state-changing operations. Shown: placements are sound and stable, port allocation is
    complete, generations only grow, healthy placements are left alone; the sockets of a
    placement satisfy what \<^verbatim>\<open>Domain_Validate\<close> demands of a snapshot.
  \<^item> \<^verbatim>\<open>Controller_Limits\<close> (\<^verbatim>\<open>controller/ratelimit.go\<close>, \<^verbatim>\<open>admission.go\<close>): the login limiter and the admission
    limiter, two instances of the locale \<open>bounded_table\<close>. Shown: tables stay bounded, five failures
    lock a key, a source gets exactly its quota.
  \<^item> \<^verbatim>\<open>Controller_Store\<close> (\<^verbatim>\<open>controller/store_security.go\<close>, \<^verbatim>\<open>store_helpers.go\<close>, \<^verbatim>\<open>errors.go\<close>): the write transaction (\<open>run_write\<close>), the
    idempotency frame that every keyed operation has (\<open>keyed_tx\<close>), audit rows and revision checks; the theories below
    instantiate them with their own tables. Transactions are serial, as with SQLite's single connection.
  \<^item> \<^verbatim>\<open>Go_Encoding\<close>, \<^verbatim>\<open>Controller_Credentials\<close>, \<^verbatim>\<open>Controller_Auth\<close>, \<^verbatim>\<open>Controller_Accounts\<close> (\<^verbatim>\<open>controller/crypto.go\<close>, \<^verbatim>\<open>auth_*.go\<close>,
    \<^verbatim>\<open>sessions.go\<close>, \<^verbatim>\<open>api_auth.go\<close>): base64 and hexadecimal text, password hashes and tokens, users, API tokens and web sessions over
    their tables, and who is let in. Shown: only the entitled get in, a new password cuts off, a login and a
    new token let in, there is always an administrator.
  \<^item> \<^verbatim>\<open>Controller_Bus\<close>, \<^verbatim>\<open>Controller_Actions\<close> (\<^verbatim>\<open>controller/change_bus.go\<close>, \<^verbatim>\<open>changes.go\<close>, \<^verbatim>\<open>actions.go\<close>): the in-process bus
    with Go's channels (locale \<open>panic_free\<close>), and runtime actions with idempotency keys and audit rows.
    Shown: no send on a closed channel, no hint is lost, a retry is silent, what is sent is audited.
  \<^item> \<^verbatim>\<open>Controller_Leadership\<close> (\<^verbatim>\<open>controller/leadership.go\<close>): the lease row and fenced transactions of a fleet
    of controllers (\<open>fleet_step\<close>). Shown: writes are fenced by epoch, a standby takes over.
  \<^item> \<^verbatim>\<open>Controller_Secrets\<close>, \<^verbatim>\<open>Controller_Snapshots\<close> (\<^verbatim>\<open>controller/crypto.go\<close>, \<^verbatim>\<open>store_security.go\<close>, \<^verbatim>\<open>snapshots.go\<close>,
    \<^verbatim>\<open>store_snapshots.go\<close>, \<^verbatim>\<open>grpc_snapshots.go\<close>): keys at rest and on the wire, building, numbering, storing and
    pushing desired snapshots. Shown: generations advance, refreshing is idempotent, what is stored
    reaches the node.
  \<^item> \<^verbatim>\<open>Control_Wire\<close> (\<^verbatim>\<open>controlwire/protocol.go\<close>, \<^verbatim>\<open>jsonutil/strict.go\<close>): how snapshots and observed states
    travel. Shown: they arrive as sent, and what is accepted is authentic.
  \<^item> \<^verbatim>\<open>Node_Cache\<close> (\<^verbatim>\<open>atomicfile/write.go\<close>, \<^verbatim>\<open>node/cache.go\<close>): replacing a file, the encrypted snapshot cache
    and the reconciler. Shown: the reconciler refines a durable register, generations only grow,
    also over restarts.
  \<^item> \<^verbatim>\<open>Node_Runtime\<close>, \<^verbatim>\<open>Node_Reconnect\<close> (\<^verbatim>\<open>node/runtime_snapshot.go\<close>, \<^verbatim>\<open>runtime_types.go\<close>, \<^verbatim>\<open>data_runtime.go\<close>,
    \<^verbatim>\<open>reconnect_state.go\<close>, \<^verbatim>\<open>data_runtime_agent.go\<close>): applying a snapshot to engine and data plane with every
    rollback, and the agent's reconnect loop over the answers of its environment. Shown: a failed
    apply keeps the node serving, drains survive, the loop never breaks and gets through.
  \<^item> This theory composes \<^verbatim>\<open>Node_Cache\<close> and \<^verbatim>\<open>Node_Runtime\<close>: file, register and running components agree.

  \<^bold>\<open>Parameters.\<close> Code outside the repository is an argument of the definitions: SHA-256 and
  \<^verbatim>\<open>json.Marshal\<close> (\<open>go_env\<close>), the protobuf codec, the QUIC connection (a record of its visible answers),
  BLAKE2b and the random generator, DNS, the GeoIP database, \<^verbatim>\<open>http.ReadRequest\<close>,
  AES-GCM, the operating system's answers to file operations and to opening sockets, the errors of SQL
  statements (the tables themselves are modelled where a component writes them), the order of
  Go's map iteration. What a theorem needs of
  them (a codec that round-trips, a digest of 32 bytes) is a hypothesis, and its witness gives a
  concrete function.

  \<^bold>\<open>Termination.\<close> Loops are structural recursion or \<^verbatim>\<open>function\<close> with a measure; the rejection
  sampling of \<^verbatim>\<open>random.go\<close> is the only loop that may run on, a partial function that is shown to return
  as soon as the generator fails or delivers an accepted sample. No definition uses fuel; the two
  attempts of \<^verbatim>\<open>scheduleAgentAssignment\<close> are counted as in the code.

  \<^bold>\<open>Not modelled.\<close> Sockets, the goroutines of single connections and process management
  (\<^verbatim>\<open>afdp/quic.go\<close>, \<^verbatim>\<open>duplex\<close>, most of \<^verbatim>\<open>node/data_runtime_*.go\<close>, \<^verbatim>\<open>update\<close>, \<^verbatim>\<open>cmd\<close>): their behaviour is I/O.
  The rest of the SQL store (\<^verbatim>\<open>controller/store*.go\<close>): its behaviour lies in the statements and the database;
  the scheduler sees it through its interface. Most HTTP and gRPC handlers and certificates: glue over libraries. The node's telemetry registry and the release updates
  have logic of their own and are the next parts to model.
\<close>

section \<open>A node: file, register and running components\<close>

definition aligned :: "node_env \<Rightarrow> SnapshotCache \<Rightarrow> Reconciler \<times> files \<times> Runtime \<Rightarrow> bool" where
  "aligned env c w \<longleftrightarrow> (case w of (r, fs, rt) \<Rightarrow>
     \<exists>s. Cache_Read env c None fs = Inr s \<and> register r = (ds_Generation s, ds_Checksum s) \<and> serves (ne_go env) s rt)"

lemma WithChecksum_kind: "WithChecksum env s = Inr t \<Longrightarrow> snapshotRuntimeKind t = snapshotRuntimeKind s"
  by (auto simp: WithChecksum_def Let_def Normalize_def snapshotRuntimeKind_def split: option.splits)

lemma accepts_le: "accepts (g, k) (g', k') \<Longrightarrow> g \<le> g'"
  by auto

text \<open>The second half of an apply, on a node whose file, register and runtime agree.\<close>

lemma apply_checked_aligned:
  assumes "apply_checked env c (runtime_components (ne_go env) ctx) su t (Some old) (r, fs, rt) = ((r', fs', rt'), res)"
    and "Cache_Read env c None fs = Inr old" "register r = (ds_Generation old, ds_Checksum old)" "serves (ne_go env) old rt"
    and "library_laws env" "surroundings_ok c su fs" "snapshotRuntimeKind t = Inr (rt_runtimeKind rt)"
    and "sockets_open (tl (rt_builds rt))" "\<forall>a\<in>set (rt_builds rt). \<not> ba_cancelled a"
    and "accepts (register r) (ds_Generation t, ds_Checksum t)" "ds_Checksum t \<noteq> []"
  shows "aligned env c (r', fs', rt') \<and> admitting rt' = admitting rt"
proof -
  have le: "ds_Generation old \<le> ds_Generation t" using accepts_le assms(3,10) by metis
  obtain rt1 err where a: "applySnapshot (ne_go env) ctx t (Some old) rt = (rt1, err)" by fastforce
  show ?thesis
  proof (cases err)
    case (Some x)
    then have "serves (ne_go env) old rt1 \<and> admitting rt1 = admitting rt"
      using failed_apply_restores [OF assms(4,7) le assms(8,9)] a by blast
    moreover have "rt' = rt1 \<and> fs' = fs \<and> register r' = register r"
      using assms(1) a Some by (auto simp: apply_checked_def runtime_components_def Let_def)
    ultimately show ?thesis using assms(2,3) by (auto simp: aligned_def)
  next
    case None
    note ok = apply_serves [OF assms(4,7,11) a [unfolded None]]
    obtain fs1 werr where w: "Cache_Write env c (su_os su) (su_nonce su) t fs = (fs1, werr)" by fastforce
    show ?thesis
    proof (cases werr)
      case (Some x)
      obtain e e1 where e: "rt_engine rt = Some e" "rt_engine rt1 = Some e1" "same_node e e1" using ok(6) by blast
      have o: "engine_serves old e" "ds_NodeID old = en_nodeID e" "snapshotRuntimeKind old = Inr (rt_runtimeKind rt1)"
        "DesiredSnapshot_Validate (ne_go env) old = None" "ds_Checksum old \<noteq> []"
        using assms(4) e(1) ok(3) by (auto simp: serves_def kind_fits_def)
      obtain rt2 where b: "applySnapshot (ne_go env) None old (Some t) rt1 = (rt2, None)"
        using apply_returns [OF ok(1) o(1) _ o(3,4,5,2) le] e(2,3) ok(5) assms(8) by auto
      note ret = apply_serves [OF ok(1) o(3,5) b]
      have "rt' = rt2 \<and> fs' = fs1 \<and> register r' = register r"
        using assms(1) a None w Some b ok(4) by (auto simp: apply_checked_def runtime_components_def roll_back_def Let_def)
      moreover have "Cache_Read env c None fs1 = Inr old" using Cache_Write_failed w Some assms(2,6) by metis
      ultimately show ?thesis using ret(1,2) ok(2) assms(3) by (auto simp: aligned_def)
    next
      case None': None
      have "r' = applied_state t (su_now su) \<and> fs' = fs1 \<and> rt' = rt1"
        using assms(1) a None w None' by (auto simp: apply_checked_def runtime_components_def)
      moreover have "Cache_Read env c None fs1 = Inr t" using Cache_Write_read [of env c su t fs fs1] w None' assms(5,6,11) by simp
      ultimately show ?thesis using ok(1,2) by (auto simp: aligned_def applied_state_def register_def)
    qed
  qed
qed


definition demo_files :: files where
  "demo_files = [''cache'' \<mapsto> cacheMagic @ replicate 12 0 @ replicate 16 0 @ [7]]"

lemma demo_cached: "Cache_Read demo_env demo_cache None demo_files = Inr demo_snapshot"
  by (rule Cache_Read_sealed [of _ _ "replicate 12 0" _ "[7]"])
    (simp_all add: demo_files_def demo_env_def demo_cache_def aes_key_check_def demo_valid demo_laws [unfolded demo_env_def])


end
